(* ===== verification/Prelude.thy ===== *)
theory Prelude
  imports Main "HOL-Library.AList"
begin

text \<open>
  Shared vocabulary of the development: Go strings as lists of runes with the parts of
  \<^verbatim>\<open>strings\<close>, \<^verbatim>\<open>unicode\<close> and \<^verbatim>\<open>utf8\<close> the program calls, association-list
  helpers for Go maps, and the lemma collections of the component theories.

  Two representations of text are used. Identifiers, room names, status and error codes
  are HOL strings. Free text that the code trims, lower-cases, searches or counts is a
  list of Unicode code points (\<open>runes\<close>): every such value enters the program
  through \<^verbatim>\<open>encoding/json\<close>, which replaces malformed UTF-8, so it is always a
  sequence of runes.
\<close>

named_theorems go_defs "definitions of the modelled standard library functions"
named_theorems inv_intros "preservation lemmas of component invariants"

section \<open>Free text\<close>

type_synonym rune = nat
type_synonym runes = "rune list"

definition ascii :: "string \<Rightarrow> runes" where
  "ascii s = map of_char s"

text \<open>\<^verbatim>\<open>unicode.IsSpace\<close>: the White_Space property, complete.\<close>

definition is_space :: "rune \<Rightarrow> bool" where
  "is_space r \<longleftrightarrow> (9 \<le> r \<and> r \<le> 13) \<or> r = 32 \<or> r = 133 \<or> r = 160 \<or> r = 5760 \<or>
     (8192 \<le> r \<and> r \<le> 8202) \<or> r = 8232 \<or> r = 8233 \<or> r = 8239 \<or> r = 8287 \<or> r = 12288"

text \<open>\<^verbatim>\<open>strings.TrimSpace\<close>.\<close>

definition trim_space :: "runes \<Rightarrow> runes" where
  "trim_space t = rev (dropWhile is_space (rev (dropWhile is_space t)))"

text \<open>
  \<^verbatim>\<open>len(s)\<close> counts bytes, not runes: the number of bytes of each rune's UTF-8 form.
\<close>

definition rune_len :: "rune \<Rightarrow> nat" where
  "rune_len r = (if r < 128 then 1 else if r < 2048 then 2 else if r < 65536 then 3 else 4)"

definition byte_len :: "runes \<Rightarrow> nat" where
  "byte_len t = sum_list (map rune_len t)"

text \<open>
  \<^verbatim>\<open>unicode.ToLower\<close> on the alphabets the application's texts use: ASCII, Latin-1 and
  the Cyrillic capitals U+0400 to U+042F. Other runes are left as they are; the case
  pairs of further scripts are outside the model.
\<close>

definition rune_lower :: "rune \<Rightarrow> rune" where
  "rune_lower r =
     (if 65 \<le> r \<and> r \<le> 90 then r + 32
      else if 192 \<le> r \<and> r \<le> 222 \<and> r \<noteq> 215 then r + 32
      else if 1024 \<le> r \<and> r \<le> 1039 then r + 80
      else if 1040 \<le> r \<and> r \<le> 1071 then r + 32
      else r)"

definition to_lower :: "runes \<Rightarrow> runes" where
  "to_lower t = map rune_lower t"

text \<open>\<^verbatim>\<open>strings.Contains\<close>.\<close>

fun contains :: "runes \<Rightarrow> runes \<Rightarrow> bool" where
  "contains [] k = (k = [])"
| "contains (x # xs) k = (take (length k) (x # xs) = k \<or> contains xs k)"

lemma trim_space_Nil [simp]: "trim_space [] = []"
  by (simp add: trim_space_def)

lemma dropWhile_hd_id: "t \<noteq> [] \<Longrightarrow> \<not> P (hd t) \<Longrightarrow> dropWhile P t = t"
  by (cases t) auto

lemma trim_space_nonspace_ends:
  "t \<noteq> [] \<Longrightarrow> \<not> is_space (hd t) \<Longrightarrow> \<not> is_space (last t) \<Longrightarrow> trim_space t = t"
  by (simp add: trim_space_def dropWhile_hd_id hd_rev)

lemma hd_trim_space: "trim_space t \<noteq> [] \<Longrightarrow> \<not> is_space (hd (trim_space t))"
proof -
  assume ne: "trim_space t \<noteq> []"
  let ?d = "dropWhile is_space t"
  have "?d \<noteq> []"
  proof
    assume nil: "?d = []"
    have "trim_space t = []" unfolding trim_space_def nil by simp
    with ne show False by simp
  qed
  then have hd: "\<not> is_space (hd ?d)" by (rule hd_dropWhile)
  obtain z where "?d = trim_space t @ z"
    by (metis rev_append rev_rev_ident takeWhile_dropWhile_id trim_space_def)
  with ne hd show ?thesis by simp
qed

lemma last_trim_space: "trim_space t \<noteq> [] \<Longrightarrow> \<not> is_space (last (trim_space t))"
  by (metis hd_dropWhile last_rev rev_is_Nil_conv trim_space_def)

lemma trim_space_idem [simp]: "trim_space (trim_space t) = trim_space t"
  by (cases "trim_space t = []")
    (auto intro!: trim_space_nonspace_ends simp: hd_trim_space last_trim_space)

lemma rune_lower_idem [simp]: "rune_lower (rune_lower r) = rune_lower r"
  by (auto simp: rune_lower_def)

lemma to_lower_idem [simp]: "to_lower (to_lower t) = to_lower t"
  by (simp add: to_lower_def comp_def)

lemma contains_self_prefix [simp]: "contains (k @ ys) k"
  by (cases k; cases ys) auto

lemma contains_iff: "contains xs k \<longleftrightarrow> (\<exists>pre post. xs = pre @ k @ post)"
proof (induction xs)
  case Nil
  show ?case by auto
next
  case (Cons x xs)
  show ?case
  proof
    assume "contains (x # xs) k"
    then consider "take (length k) (x # xs) = k" | "contains xs k" by auto
    then show "\<exists>pre post. x # xs = pre @ k @ post"
    proof cases
      case 1
      then have "x # xs = [] @ k @ drop (length k) (x # xs)"
        by (metis append_Nil append_take_drop_id)
      then show ?thesis by blast
    next
      case 2
      with Cons.IH obtain pre post where "xs = pre @ k @ post" by blast
      then have "x # xs = (x # pre) @ k @ post" by simp
      then show ?thesis by blast
    qed
  next
    assume "\<exists>pre post. x # xs = pre @ k @ post"
    then obtain pre post where eq: "x # xs = pre @ k @ post" by blast
    show "contains (x # xs) k"
    proof (cases pre)
      case Nil
      with eq have "take (length k) (x # xs) = k" by simp
      then show ?thesis by simp
    next
      case (Cons y ys)
      with eq have "xs = ys @ k @ post" by simp
      with Cons.IH have "contains xs k" by blast
      then show ?thesis by simp
    qed
  qed
qed

lemma find_SomeD: "find P xs = Some x \<Longrightarrow> x \<in> set xs \<and> P x"
  by (auto simp: find_Some_iff)

section \<open>Go maps as association lists\<close>

text \<open>
  A Go map is an association list with distinct keys; \<^verbatim>\<open>range\<close> visits the entries in an
  order the runtime chooses, which the operations take as a list of keys.
\<close>

definition range_keys :: "'k list \<Rightarrow> ('k \<times> 'v) list \<Rightarrow> 'k list" where
  "range_keys ord m = filter (\<lambda>k. map_of m k \<noteq> None) ord"

definition is_order :: "'k list \<Rightarrow> ('k \<times> 'v) list \<Rightarrow> bool" where
  "is_order ord m \<longleftrightarrow> distinct ord \<and> fst ` set m \<subseteq> set ord"

lemma set_range_keys: "is_order ord m \<Longrightarrow> set (range_keys ord m) = dom (map_of m)"
  by (auto simp: range_keys_def is_order_def dom_map_of_conv_image_fst map_of_eq_None_iff)

lemma distinct_range_keys: "is_order ord m \<Longrightarrow> distinct (range_keys ord m)"
  by (simp add: range_keys_def is_order_def)

lemma is_order_self: "distinct (map fst m) \<Longrightarrow> is_order (map fst m) m"
  by (simp add: is_order_def)

lemma length_delete_Suc:
  "distinct (map fst m) \<Longrightarrow> map_of m k \<noteq> None \<Longrightarrow> Suc (length (AList.delete k m)) = length m"
proof (induction m)
  case Nil
  then show ?case by simp
next
  case (Cons x m)
  show ?case
  proof (cases "fst x = k")
    case True
    with Cons.prems have "k \<notin> fst ` set m" by auto
    with True show ?thesis by (cases x) (simp add: delete_id)
  next
    case False
    with Cons show ?thesis by (cases x) (auto split: if_splits)
  qed
qed

lemma map_of_delete_alist: "map_of (AList.delete k m) j = (if j = k then None else map_of m j)"
  by (simp add: delete_conv')

lemma map_of_update_alist: "map_of (AList.update k v m) j = (if j = k then Some v else map_of m j)"
  by (simp add: update_conv')

lemmas alist_map_of = map_of_delete_alist map_of_update_alist

end
