(* ===== verification/Hub.thy ===== *)
theory Hub
  imports Prelude
begin

text \<open>
  The realtime hub (\<^verbatim>\<open>internal/realtime/hub.go\<close>): the one goroutine that owns who is
  connected to which room. Its state is the four local variables of \<^verbatim>\<open>Run\<close>
  (\<^verbatim>\<open>clients\<close>, \<^verbatim>\<open>rooms\<close>, \<^verbatim>\<open>perAccount\<close> and, because the first two share pointers to
  the same \<^verbatim>\<open>client\<close> structs, an explicit heap of those structs). Every case of the
  \<^verbatim>\<open>select\<close> is one operation. The connections are reached only through the
  \<^verbatim>\<open>Sink\<close> interface, which is a record of operations over an environment; the laws the
  hub relies on are the locale \<open>sink_iface\<close>, provided in theory \<open>Conn\<close>.
\<close>

section \<open>Types\<close>

text \<open>A payload is carried as bytes and never looked at.\<close>

type_synonym frame = string

text \<open>
  \<^verbatim>\<open>Sink\<close>: a connection as the hub sees it. The first field is the pointer's identity;
  the others are what \<^verbatim>\<open>ID\<close>, \<^verbatim>\<open>AccountID\<close> and \<^verbatim>\<open>SessionID\<close> return, fixed at upgrade.
\<close>

record sink =
  sk_ref :: nat
  sk_id :: string
  sk_account :: string
  sk_session :: string

text \<open>\<^verbatim>\<open>TrySend\<close> and \<^verbatim>\<open>Close\<close> of every connection, acting on an environment.\<close>

record 'e sink_ops =
  try_send :: "sink \<Rightarrow> frame \<Rightarrow> 'e \<Rightarrow> bool \<times> 'e"
  close_sink :: "sink \<Rightarrow> int \<Rightarrow> string \<Rightarrow> 'e \<Rightarrow> 'e"

definition CloseGoingAway :: int where "CloseGoingAway = 1001"
definition CloseTryAgainLater :: int where "CloseTryAgainLater = 1013"
definition CloseUnauthorized :: int where "CloseUnauthorized = 4001"

definition ReasonSlowConsumer :: string where "ReasonSlowConsumer = ''slow consumer''"
definition ReasonRateLimited :: string where "ReasonRateLimited = ''rate limited''"
definition ReasonTooManyConnections :: string where
  "ReasonTooManyConnections = ''too many connections''"
definition ReasonUnauthorized :: string where "ReasonUnauthorized = ''unauthorized''"

definition defaultSendBuffer :: nat where "defaultSendBuffer = 64"
definition maxOverflowsBeforeEvict :: int where "maxOverflowsBeforeEvict = 3"
definition defaultMaxPerAccount :: int where "defaultMaxPerAccount = 3"
definition defaultMaxTotal :: int where "defaultMaxTotal = 200"

record client =
  c_sink :: sink
  c_room :: string
  c_overflows :: int

record member =
  m_conn :: string
  m_account :: string

record credential =
  cr_conn :: string
  cr_session :: string
  cr_account :: string

datatype hub_error = ErrHubClosed | ErrTooManyConnections

type_synonym client_map = "(sink \<times> nat) list"

record hub =
  h_clients :: client_map
  h_rooms :: "(string \<times> client_map) list"
  h_per :: "(string \<times> int) list"
  h_heap :: "nat \<Rightarrow> client"
  h_next :: nat
  h_max_per :: int
  h_max_total :: int
  h_done :: bool

definition zero_client :: client where
  "zero_client =
     \<lparr>c_sink = \<lparr>sk_ref = 0, sk_id = '''', sk_account = '''', sk_session = ''''\<rparr>,
      c_room = '''', c_overflows = 0\<rparr>"

definition new_hub :: hub where
  "new_hub = \<lparr>h_clients = [], h_rooms = [], h_per = [], h_heap = (\<lambda>_. zero_client), h_next = 0,
     h_max_per = defaultMaxPerAccount, h_max_total = defaultMaxTotal, h_done = False\<rparr>"

section \<open>Operations\<close>

text \<open>Reading a Go map of ints at a missing key gives 0; of maps, the nil map.\<close>

definition per_account :: "hub \<Rightarrow> string \<Rightarrow> int" where
  "per_account h a = (case map_of (h_per h) a of None \<Rightarrow> 0 | Some n \<Rightarrow> n)"

definition room_of :: "hub \<Rightarrow> string \<Rightarrow> client_map" where
  "room_of h r = (case map_of (h_rooms h) r of None \<Rightarrow> [] | Some m \<Rightarrow> m)"

text \<open>The closure \<^verbatim>\<open>remove\<close>.\<close>

definition drop_from_room :: "sink \<Rightarrow> string \<Rightarrow> (string \<times> client_map) list \<Rightarrow> (string \<times> client_map) list" where
  "drop_from_room s r rooms =
     (case map_of rooms r of
        None \<Rightarrow> rooms
      | Some m \<Rightarrow>
          (let m' = AList.delete s m in
           if m' = [] then AList.delete r rooms else AList.update r m' rooms))"

definition drop_account :: "string \<Rightarrow> (string \<times> int) list \<Rightarrow> (string \<times> int) list" where
  "drop_account a per =
     (let n = (case map_of per a of None \<Rightarrow> 0 | Some n \<Rightarrow> n) - 1 in
      if 0 < n then AList.update a n per else AList.delete a per)"

definition remove :: "sink \<Rightarrow> hub \<Rightarrow> hub" where
  "remove s h =
     (case map_of (h_clients h) s of
        None \<Rightarrow> h
      | Some p \<Rightarrow>
          h\<lparr>h_clients := AList.delete s (h_clients h),
            h_rooms := drop_from_room s (c_room (h_heap h p)) (h_rooms h),
            h_per := drop_account (sk_account s) (h_per h)\<rparr>)"

text \<open>The closure \<^verbatim>\<open>deliver\<close>: one message to one client, and the backpressure policy.\<close>

definition set_overflows :: "nat \<Rightarrow> int \<Rightarrow> hub \<Rightarrow> hub" where
  "set_overflows p n h = h\<lparr>h_heap := (h_heap h)(p := (h_heap h p)\<lparr>c_overflows := n\<rparr>)\<rparr>"

definition deliver :: "'e sink_ops \<Rightarrow> frame \<Rightarrow> sink \<times> nat \<Rightarrow> hub \<times> 'e \<Rightarrow> hub \<times> 'e" where
  "deliver ops msg sp he =
     (let (s, p) = sp; (h, e) = he;
          (ok, e1) = try_send ops (c_sink (h_heap h p)) msg e in
      if ok then (set_overflows p 0 h, e1)
      else
        let n = c_overflows (h_heap h p) + 1; h1 = set_overflows p n h in
        if maxOverflowsBeforeEvict \<le> n
        then (remove s h1, close_sink ops s CloseTryAgainLater ReasonSlowConsumer e1)
        else (h1, e1))"

text \<open>The cases of the \<^verbatim>\<open>select\<close>. \<open>ord\<close> is the order in which the runtime ranges over a map.\<close>

definition admit :: "sink \<Rightarrow> string \<Rightarrow> hub \<Rightarrow> hub" where
  "admit s room h =
     (let p = h_next h; c = \<lparr>c_sink = s, c_room = room, c_overflows = 0\<rparr> in
      h\<lparr>h_heap := (h_heap h)(p := c), h_next := Suc p,
        h_clients := AList.update s p (h_clients h),
        h_rooms := AList.update room (AList.update s p (room_of h room)) (h_rooms h),
        h_per := AList.update (sk_account s) (per_account h (sk_account s) + 1) (h_per h)\<rparr>)"

definition do_register :: "sink \<Rightarrow> string \<Rightarrow> hub \<Rightarrow> hub_error option \<times> hub" where
  "do_register s room h =
     (if h_max_total h \<le> int (length (h_clients h)) then (Some ErrTooManyConnections, h)
      else if h_max_per h \<le> per_account h (sk_account s) then (Some ErrTooManyConnections, h)
      else (None, admit s room h))"

definition do_publish :: "'e sink_ops \<Rightarrow> sink list \<Rightarrow> string \<Rightarrow> frame \<Rightarrow> hub \<times> 'e \<Rightarrow> hub \<times> 'e" where
  "do_publish ops ord room msg he =
     (let r = room_of (fst he) room in
      fold (\<lambda>s. deliver ops msg (s, the (map_of r s))) (range_keys ord r) he)"

definition do_publish_to :: "'e sink_ops \<Rightarrow> sink list \<Rightarrow> string \<Rightarrow> frame \<Rightarrow> hub \<times> 'e \<Rightarrow> hub \<times> 'e" where
  "do_publish_to ops ord conn_id msg he =
     (let cs = h_clients (fst he) in
      case find (\<lambda>s. sk_id s = conn_id) (range_keys ord cs) of
        None \<Rightarrow> he
      | Some s \<Rightarrow> deliver ops msg (s, the (map_of cs s)) he)"

text \<open>
  The bodies of the \<^verbatim>\<open>kick\<close> and \<^verbatim>\<open>closeSet\<close> cases: both range over the clients, removing
  and closing those that match. Deleting the current entry while ranging is defined.
\<close>

definition cut :: "'e sink_ops \<Rightarrow> int \<Rightarrow> string \<Rightarrow> (sink \<Rightarrow> bool) \<Rightarrow> sink \<Rightarrow> hub \<times> 'e \<Rightarrow> hub \<times> 'e" where
  "cut ops code reason P s he =
     (if P s then (remove s (fst he), close_sink ops s code reason (snd he)) else he)"

definition do_kick ::
  "'e sink_ops \<Rightarrow> sink list \<Rightarrow> string \<Rightarrow> int \<Rightarrow> string \<Rightarrow> hub \<times> 'e \<Rightarrow> hub \<times> 'e" where
  "do_kick ops ord account code reason he =
     fold (cut ops code reason (\<lambda>s. sk_account s = account)) (range_keys ord (h_clients (fst he))) he"

definition do_close_set ::
  "'e sink_ops \<Rightarrow> sink list \<Rightarrow> string list \<Rightarrow> int \<Rightarrow> string \<Rightarrow> hub \<times> 'e \<Rightarrow> hub \<times> 'e" where
  "do_close_set ops ord ids code reason he =
     fold (cut ops code reason (\<lambda>s. sk_id s \<in> set ids)) (range_keys ord (h_clients (fst he))) he"

definition do_live :: "sink list \<Rightarrow> hub \<Rightarrow> credential list" where
  "do_live ord h =
     map (\<lambda>s. \<lparr>cr_conn = sk_id s, cr_session = sk_session s, cr_account = sk_account s\<rparr>)
       (range_keys ord (h_clients h))"

definition do_members :: "sink list \<Rightarrow> string \<Rightarrow> hub \<Rightarrow> member list" where
  "do_members ord room h =
     map (\<lambda>s. \<lparr>m_conn = sk_id s, m_account = sk_account s\<rparr>) (range_keys ord (room_of h room))"

definition do_stop :: "'e sink_ops \<Rightarrow> sink list \<Rightarrow> hub \<times> 'e \<Rightarrow> hub \<times> 'e" where
  "do_stop ops ord he =
     ((fst he)\<lparr>h_done := True\<rparr>,
      fold (\<lambda>s. close_sink ops s CloseGoingAway ''restart'') (range_keys ord (h_clients (fst he))) (snd he))"

text \<open>One iteration of the loop in \<^verbatim>\<open>Run\<close>, for a command received from any of the channels.\<close>

datatype command =
    CRegister sink string
  | CUnregister sink
  | CPublish string frame
  | CPublishTo string frame
  | CKick string int string
  | CLive
  | CCloseSet "string list" int string
  | CMembers string
  | CStop

datatype reply =
    RNone
  | RErr "hub_error option"
  | RLive "credential list"
  | RMembers "member list"

fun hub_step :: "'e sink_ops \<Rightarrow> sink list \<Rightarrow> command \<Rightarrow> hub \<times> 'e \<Rightarrow> reply \<times> hub \<times> 'e" where
  "hub_step ops ord (CRegister s room) (h, e) =
     (let (err, h') = do_register s room h in (RErr err, h', e))"
| "hub_step ops ord (CUnregister s) (h, e) = (RNone, remove s h, e)"
| "hub_step ops ord (CPublish room msg) he = (RNone, do_publish ops ord room msg he)"
| "hub_step ops ord (CPublishTo cid msg) he = (RNone, do_publish_to ops ord cid msg he)"
| "hub_step ops ord (CKick a code reason) he = (RNone, do_kick ops ord a code reason he)"
| "hub_step ops ord CLive (h, e) = (RLive (do_live ord h), h, e)"
| "hub_step ops ord (CCloseSet ids code reason) he = (RNone, do_close_set ops ord ids code reason he)"
| "hub_step ops ord (CMembers room) (h, e) = (RMembers (do_members ord room h), h, e)"
| "hub_step ops ord CStop he = (RNone, do_stop ops ord he)"

end
