(* ===== verification/HubSpec.thy ===== *)
theory HubSpec
  imports Hub
begin

text \<open>
  What the hub promises. A connection is either absent or present in one room with a number
  of consecutive overflows: the abstract state is a partial map from sinks to that pair
  (\<open>abs_hub\<close>). The invariant \<open>hub_wf\<close> says how the hub's four structures, two of which
  alias the same heap cells, agree with it; \<open>hub_caps\<close> bounds it. The locale
  \<open>sink_iface\<close> holds the laws the hub needs of a connection, and inside it each operation of
  the hub is shown to compute its abstract counterpart, whatever order the runtime ranges
  over a map in.
\<close>

section \<open>Abstraction and invariant\<close>

type_synonym presence = "sink \<rightharpoonup> string \<times> int"

definition abs_hub :: "hub \<Rightarrow> presence" where
  "abs_hub h s = map_option (\<lambda>p. (c_room (h_heap h p), c_overflows (h_heap h p))) (map_of (h_clients h) s)"

definition population :: "hub \<Rightarrow> string \<Rightarrow> int" where
  "population h a = int (length (filter (\<lambda>sp. sk_account (fst sp) = a) (h_clients h)))"

definition in_room :: "hub \<Rightarrow> string \<Rightarrow> sink \<Rightarrow> nat option" where
  "in_room h r s =
     (case map_of (h_clients h) s of
        None \<Rightarrow> None | Some p \<Rightarrow> if c_room (h_heap h p) = r then Some p else None)"

definition hub_wf :: "hub \<Rightarrow> bool" where
  "hub_wf h \<longleftrightarrow>
     distinct (map fst (h_clients h)) \<and> distinct (map snd (h_clients h)) \<and>
     (\<forall>s p. map_of (h_clients h) s = Some p \<longrightarrow> p < h_next h \<and> c_sink (h_heap h p) = s) \<and>
     distinct (map fst (h_rooms h)) \<and>
     (\<forall>r m. map_of (h_rooms h) r = Some m \<longrightarrow> m \<noteq> [] \<and> distinct (map fst m)) \<and>
     (\<forall>r. map_of (room_of h r) = in_room h r) \<and>
     distinct (map fst (h_per h)) \<and>
     (\<forall>a n. map_of (h_per h) a = Some n \<longrightarrow> 0 < n) \<and>
     (\<forall>a. per_account h a = population h a)"

definition hub_caps :: "hub \<Rightarrow> bool" where
  "hub_caps h \<longleftrightarrow> int (length (h_clients h)) \<le> h_max_total h \<and> (\<forall>a. population h a \<le> h_max_per h)"

definition strikes_ok :: "hub \<Rightarrow> bool" where
  "strikes_ok h \<longleftrightarrow>
     (\<forall>s r n. abs_hub h s = Some (r, n) \<longrightarrow> 0 \<le> n \<and> n < maxOverflowsBeforeEvict)"

definition hub_inv :: "hub \<Rightarrow> bool" where
  "hub_inv h \<longleftrightarrow> hub_wf h \<and> hub_caps h \<and> strikes_ok h"

lemma hub_wfD:
  assumes "hub_wf h"
  shows "distinct (map fst (h_clients h))" "distinct (map snd (h_clients h))"
    "map_of (h_clients h) s = Some p \<Longrightarrow> p < h_next h"
    "map_of (h_clients h) s = Some p \<Longrightarrow> c_sink (h_heap h p) = s"
    "distinct (map fst (h_rooms h))"
    "map_of (h_rooms h) r = Some m \<Longrightarrow> m \<noteq> []"
    "map_of (h_rooms h) r = Some m \<Longrightarrow> distinct (map fst m)"
    "map_of (room_of h r) = in_room h r"
    "distinct (map fst (h_per h))"
    "map_of (h_per h) a = Some n \<Longrightarrow> 0 < n"
    "per_account h a = population h a"
  using assms by (auto simp: hub_wf_def)

lemma abs_hub_None_iff: "abs_hub h s = None \<longleftrightarrow> map_of (h_clients h) s = None"
  by (simp add: abs_hub_def)

lemma dom_abs_hub: "dom (abs_hub h) = fst ` set (h_clients h)"
  by (auto simp: abs_hub_def dom_map_of_conv_image_fst [symmetric])

lemma population_card:
  "hub_wf h \<Longrightarrow> population h a = int (card {s \<in> dom (abs_hub h). sk_account s = a})"
proof -
  assume "hub_wf h"
  then have d: "distinct (map fst (h_clients h))" by (rule hub_wfD)
  let ?f = "filter (\<lambda>s. sk_account s = a) (map fst (h_clients h))"
  have "length (filter (\<lambda>sp. sk_account (fst sp) = a) (h_clients h)) = length ?f"
    by (simp add: filter_map comp_def)
  also have "\<dots> = card (set ?f)" by (rule distinct_card [symmetric]) (rule distinct_filter [OF d])
  also have "set ?f = {s \<in> dom (abs_hub h). sk_account s = a}" by (auto simp: dom_abs_hub)
  finally show ?thesis by (simp add: population_def)
qed

lemma total_card: "hub_wf h \<Longrightarrow> length (h_clients h) = card (dom (abs_hub h))"
  using distinct_card [of "map fst (h_clients h)"] by (simp add: dom_abs_hub hub_wfD(1))

lemma finite_presence: "finite (dom (abs_hub h))"
  by (simp add: dom_abs_hub)

lemma ptr_inj:
  assumes "hub_wf h" "map_of (h_clients h) s = Some p" "map_of (h_clients h) t = Some p"
  shows "s = t"
  using assms by (metis hub_wfD(4))

section \<open>Registering and removing\<close>

lemma map_of_drop_from_room:
  assumes "distinct (map fst rooms)"
  shows "(case map_of (drop_from_room s r rooms) q of None \<Rightarrow> [] | Some m \<Rightarrow> m) =
    (if q = r then AList.delete s (case map_of rooms r of None \<Rightarrow> [] | Some m \<Rightarrow> m)
     else (case map_of rooms q of None \<Rightarrow> [] | Some m \<Rightarrow> m))"
  by (auto simp: drop_from_room_def Let_def alist_map_of split: option.splits)

lemma drop_from_room_props:
  assumes "distinct (map fst rooms)"
    and "\<And>q m. map_of rooms q = Some m \<Longrightarrow> m \<noteq> [] \<and> distinct (map fst m)"
  shows "distinct (map fst (drop_from_room s r rooms))"
    and "map_of (drop_from_room s r rooms) q = Some m \<Longrightarrow> m \<noteq> [] \<and> distinct (map fst m)"
  using assms
  by (auto simp: drop_from_room_def Let_def alist_map_of distinct_delete distinct_update
      simp del: map_of_eq_Some_iff split: option.splits if_splits)

lemma drop_account_props:
  assumes "distinct (map fst per)" and "\<And>b n. map_of per b = Some n \<Longrightarrow> 0 < (n::int)"
  shows "distinct (map fst (drop_account a per))"
    and "map_of (drop_account a per) b = Some n \<Longrightarrow> 0 < n"
  using assms
  by (auto simp: drop_account_def Let_def alist_map_of distinct_delete distinct_update
      simp del: map_of_eq_Some_iff split: option.splits if_splits)

lemma drop_account_lookup:
  assumes "map_of per a = Some k" and "0 < (k::int)"
  shows "(case map_of (drop_account a per) b of None \<Rightarrow> 0 | Some n \<Rightarrow> n) =
    (if b = a then k - 1 else (case map_of per b of None \<Rightarrow> 0 | Some n \<Rightarrow> n))"
  using assms by (auto simp: drop_account_def Let_def alist_map_of)

lemma filter_delete_count:
  assumes "distinct (map fst cs)" and "map_of cs s = Some p"
  shows "int (length (filter (\<lambda>sp. P (fst sp)) (AList.delete s cs))) =
    int (length (filter (\<lambda>sp. P (fst sp)) cs)) - (if P s then 1 else 0)"
  using assms
proof (induction cs)
  case Nil
  then show ?case by simp
next
  case (Cons x cs)
  obtain k v where x: "x = (k, v)" by (cases x)
  show ?case
  proof (cases "k = s")
    case True
    with Cons.prems x have "s \<notin> fst ` set cs" by auto
    with True x show ?thesis by (simp add: delete_id)
  next
    case False
    with Cons x show ?thesis by auto
  qed
qed

lemma abs_remove [simp]: "abs_hub (remove s h) = (abs_hub h)(s := None)"
  by (rule ext) (simp add: remove_def abs_hub_def alist_map_of split: option.splits)

lemma remove_simps [simp]:
  "h_heap (remove s h) = h_heap h" "h_next (remove s h) = h_next h"
  "h_max_per (remove s h) = h_max_per h" "h_max_total (remove s h) = h_max_total h"
  "h_done (remove s h) = h_done h"
  by (simp_all add: remove_def split: option.splits)

lemma clients_remove:
  "map_of (h_clients (remove s h)) t = (if t = s then None else map_of (h_clients h) t)"
  by (auto simp: remove_def alist_map_of split: option.splits)

lemma population_remove:
  assumes "hub_wf h" and "map_of (h_clients h) s = Some p"
  shows "population (remove s h) a = population h a - (if sk_account s = a then 1 else 0)"
  using filter_delete_count [of "h_clients h" s p "\<lambda>t. sk_account t = a"] assms
  by (simp add: population_def remove_def hub_wfD(1))

lemma remove_wf [inv_intros]:
  assumes wf: "hub_wf h"
  shows "hub_wf (remove s h)"
proof (cases "map_of (h_clients h) s")
  case None
  then have "remove s h = h" by (simp add: remove_def)
  with wf show ?thesis by simp
next
  case (Some p)
  let ?h = "remove s h"
  have cl: "h_clients ?h = AList.delete s (h_clients h)"
    and ro: "h_rooms ?h = drop_from_room s (c_room (h_heap h p)) (h_rooms h)"
    and pe: "h_per ?h = drop_account (sk_account s) (h_per h)"
    using Some by (simp_all add: remove_def)
  have room: "map_of (room_of ?h r) = in_room ?h r" for r
  proof (rule ext)
    fix t
    have "map_of (room_of h r) t = in_room h r t" for r t
      using hub_wfD(8) [OF wf, of r] by simp
    then show "map_of (room_of ?h r) t = in_room ?h r t"
      unfolding room_of_def ro map_of_drop_from_room [OF hub_wfD(5) [OF wf]]
      using Some by (auto simp: room_of_def in_room_def clients_remove alist_map_of split: option.split)
  qed
  have pos: "0 < population h (sk_account s)"
  proof -
    have "(s, p) \<in> set (h_clients h)" using Some by (rule map_of_SomeD)
    then have "filter (\<lambda>sp. sk_account (fst sp) = sk_account s) (h_clients h) \<noteq> []"
      by (force simp: filter_empty_conv)
    then show ?thesis by (simp add: population_def)
  qed
  obtain k where k: "map_of (h_per h) (sk_account s) = Some k" "0 < k" "k = population h (sk_account s)"
    using pos hub_wfD(11) [OF wf, of "sk_account s"]
    by (auto simp: per_account_def split: option.splits)
  have per: "per_account ?h a = population ?h a" for a
    using drop_account_lookup [OF k(1,2), of a] population_remove [OF wf Some, of a]
      hub_wfD(11) [OF wf, of a] k(3)
    by (auto simp: per_account_def pe)
  show ?thesis
    unfolding hub_wf_def
  proof (intro conjI allI impI)
    show "distinct (map fst (h_clients ?h))" by (simp add: cl distinct_delete hub_wfD(1) [OF wf])
    show "distinct (map snd (h_clients ?h))"
      unfolding cl AList.delete_eq using hub_wfD(2) [OF wf] by (simp add: distinct_map_filter)
    show "p' < h_next ?h" if "map_of (h_clients ?h) s' = Some p'" for s' p'
      using that hub_wfD(3) [OF wf] by (auto simp: clients_remove split: if_splits)
    show "c_sink (h_heap ?h p') = s'" if "map_of (h_clients ?h) s' = Some p'" for s' p'
      using that hub_wfD(4) [OF wf] by (auto simp: clients_remove split: if_splits)
    show "distinct (map fst (h_rooms ?h))"
      unfolding ro by (rule drop_from_room_props(1)) (use hub_wfD(5-7) [OF wf] in blast)+
    show "m \<noteq> []" "distinct (map fst m)" if "map_of (h_rooms ?h) r = Some m" for r m
      using drop_from_room_props(2) [OF hub_wfD(5) [OF wf] _ that [unfolded ro]] hub_wfD(6,7) [OF wf]
      by blast+
    show "distinct (map fst (h_per ?h))"
      unfolding pe by (rule drop_account_props(1)) (use hub_wfD(9,10) [OF wf] in blast)+
    show "0 < n" if "map_of (h_per ?h) a = Some n" for a n
      using drop_account_props(2) [OF hub_wfD(9) [OF wf] _ that [unfolded pe]] hub_wfD(10) [OF wf]
      by blast
  qed (use room per in simp_all)
qed

lemma update_fresh: "k \<notin> fst ` set m \<Longrightarrow> AList.update k v m = m @ [(k, v)]"
  by (induction m) auto

lemma admit_simps [simp]:
  "h_heap (admit s room h) = (h_heap h)(h_next h := \<lparr>c_sink = s, c_room = room, c_overflows = 0\<rparr>)"
  "h_next (admit s room h) = Suc (h_next h)"
  "h_max_per (admit s room h) = h_max_per h" "h_max_total (admit s room h) = h_max_total h"
  "h_done (admit s room h) = h_done h"
  by (simp_all add: admit_def Let_def)

lemma h_per_admit:
  "h_per (admit s room h) = AList.update (sk_account s) (per_account h (sk_account s) + 1) (h_per h)"
  by (simp add: admit_def Let_def)

lemma clients_admit:
  "map_of (h_clients (admit s room h)) t = (if t = s then Some (h_next h) else map_of (h_clients h) t)"
  by (simp add: admit_def Let_def alist_map_of)

lemma abs_admit:
  assumes "hub_wf h"
  shows "abs_hub (admit s room h) = (abs_hub h)(s \<mapsto> (room, 0))"
proof (rule ext)
  fix t
  show "abs_hub (admit s room h) t = ((abs_hub h)(s \<mapsto> (room, 0))) t"
    using hub_wfD(3) [OF assms, of t]
    by (cases "map_of (h_clients h) t") (auto simp: abs_hub_def clients_admit)
qed

lemma admit_clients_append:
  assumes "map_of (h_clients h) s = None"
  shows "h_clients (admit s room h) = h_clients h @ [(s, h_next h)]"
  using assms by (simp add: admit_def Let_def update_fresh map_of_eq_None_iff)

lemma population_admit:
  assumes "map_of (h_clients h) s = None"
  shows "population (admit s room h) a = population h a + (if sk_account s = a then 1 else 0)"
  by (simp add: population_def admit_clients_append [OF assms])

lemma room_of_admit:
  "room_of (admit s room h) r =
     (if r = room then AList.update s (h_next h) (room_of h room) else room_of h r)"
  by (simp add: admit_def Let_def room_of_def alist_map_of)

lemma room_distinct: "hub_wf h \<Longrightarrow> distinct (map fst (room_of h r))"
  using hub_wfD(7) by (auto simp: room_of_def split: option.splits)

lemma population_nonneg [simp]: "0 \<le> population h a"
  by (simp add: population_def)

lemma admit_wf [inv_intros]:
  assumes wf: "hub_wf h" and new: "map_of (h_clients h) s = None"
  shows "hub_wf (admit s room h)"
proof -
  let ?h = "admit s room h"
  have old: "p \<noteq> h_next h" if "map_of (h_clients h) t = Some p" for t p
    using hub_wfD(3) [OF wf that] by simp
  have room: "map_of (room_of ?h r) = in_room ?h r" for r
  proof (rule ext)
    fix t
    have "map_of (room_of h r) t = in_room h r t"
      using hub_wfD(8) [OF wf, of r] by simp
    moreover have "map_of (room_of h room) t = in_room h room t"
      using hub_wfD(8) [OF wf, of room] by simp
    ultimately show "map_of (room_of ?h r) t = in_room ?h r t"
      using old new by (auto simp: room_of_admit in_room_def clients_admit alist_map_of split: option.split)
  qed
  have per: "per_account ?h a = population ?h a" for a
    using hub_wfD(11) [OF wf, of a] hub_wfD(11) [OF wf, of "sk_account s"]
    by (auto simp: population_admit [OF new] per_account_def h_per_admit alist_map_of)
  have pe: "h_per ?h = AList.update (sk_account s) (population h (sk_account s) + 1) (h_per h)"
    and ro: "h_rooms ?h = AList.update room (AList.update s (h_next h) (room_of h room)) (h_rooms h)"
    by (simp_all add: admit_def Let_def hub_wfD(11) [OF wf])
  have fresh_ptr: "h_next h \<notin> snd ` set (h_clients h)"
    using hub_wfD(3) [OF wf] hub_wfD(1) [OF wf] by force
  show ?thesis
    unfolding hub_wf_def
  proof (intro conjI allI impI)
    show "distinct (map fst (h_clients ?h))"
      by (simp add: admit_def Let_def distinct_update hub_wfD(1) [OF wf])
    show "distinct (map snd (h_clients ?h))"
      using fresh_ptr by (simp add: admit_clients_append [OF new] hub_wfD(2) [OF wf])
    show "p' < h_next ?h" if "map_of (h_clients ?h) s' = Some p'" for s' p'
      using that hub_wfD(3) [OF wf] by (fastforce simp: clients_admit split: if_splits)
    show "c_sink (h_heap ?h p') = s'" if "map_of (h_clients ?h) s' = Some p'" for s' p'
      using that hub_wfD(4) [OF wf] old by (auto simp: clients_admit split: if_splits)
    show "distinct (map fst (h_rooms ?h))" by (simp add: ro distinct_update hub_wfD(5) [OF wf])
    show "m \<noteq> []" if "map_of (h_rooms ?h) r = Some m" for r m
      using that hub_wfD(6) [OF wf] by (auto simp: ro alist_map_of update_nonempty split: if_splits)
    show "distinct (map fst m)" if "map_of (h_rooms ?h) r = Some m" for r m
      using that hub_wfD(7) [OF wf]
      by (auto simp: ro alist_map_of distinct_update room_distinct [OF wf] split: if_splits)
    show "distinct (map fst (h_per ?h))" by (simp add: pe distinct_update hub_wfD(9) [OF wf])
    show "0 < n" if "map_of (h_per ?h) a = Some n" for a n
      using that hub_wfD(10) [OF wf] population_nonneg [of h "sk_account s"]
      by (auto simp: pe alist_map_of split: if_splits)
  qed (use room per in auto)
qed

lemma heap_update_wf:
  assumes "hub_wf h"
  shows "hub_wf (set_overflows p n h)"
proof -
  have same: "h_clients (set_overflows p n h) = h_clients h" "h_rooms (set_overflows p n h) = h_rooms h"
    "h_per (set_overflows p n h) = h_per h" "h_next (set_overflows p n h) = h_next h"
    by (simp_all add: set_overflows_def)
  have cell: "c_sink (h_heap (set_overflows p n h) q) = c_sink (h_heap h q)"
    "c_room (h_heap (set_overflows p n h) q) = c_room (h_heap h q)" for q
    by (simp_all add: set_overflows_def)
  have "in_room (set_overflows p n h) r = in_room h r" for r
    by (rule ext) (simp add: in_room_def same cell split: option.split)
  moreover have "per_account (set_overflows p n h) a = per_account h a"
    "population (set_overflows p n h) a = population h a"
    "room_of (set_overflows p n h) r = room_of h r" for a r
    by (simp_all add: per_account_def population_def room_of_def same)
  ultimately show ?thesis
    using assms by (simp add: hub_wf_def same cell)
qed

lemma abs_set_overflows:
  assumes "hub_wf h" and "map_of (h_clients h) s = Some p"
  shows "abs_hub (set_overflows p n h) = (abs_hub h)(s \<mapsto> (c_room (h_heap h p), n))"
proof (rule ext)
  fix t
  show "abs_hub (set_overflows p n h) t = ((abs_hub h)(s \<mapsto> (c_room (h_heap h p), n))) t"
    using assms ptr_inj [OF assms(1), of t _ s]
    by (cases "map_of (h_clients h) t") (auto simp: abs_hub_def set_overflows_def)
qed

section \<open>The specification of each operation\<close>

text \<open>
  What one delivery does to a client's entry (\<open>strike\<close>) and to its mailbox
  (\<open>after_delivery\<close>), given whether the mailbox takes the message.
\<close>

fun strike :: "bool \<Rightarrow> string \<times> int \<Rightarrow> (string \<times> int) option" where
  "strike ok (r, n) =
     (if ok then Some (r, 0) else if maxOverflowsBeforeEvict \<le> n + 1 then None else Some (r, n + 1))"

definition after_delivery ::
  "('v \<Rightarrow> bool) \<Rightarrow> (frame \<Rightarrow> 'v \<Rightarrow> 'v) \<Rightarrow> (int \<Rightarrow> string \<Rightarrow> 'v \<Rightarrow> 'v) \<Rightarrow> frame \<Rightarrow> int \<Rightarrow> 'v \<Rightarrow> 'v" where
  "after_delivery takes put shut msg n v =
     (if takes v then put msg v
      else if maxOverflowsBeforeEvict \<le> n + 1 then shut CloseTryAgainLater ReasonSlowConsumer v
      else v)"

definition spec_deliver_to ::
  "('v \<Rightarrow> bool) \<Rightarrow> (frame \<Rightarrow> 'v \<Rightarrow> 'v) \<Rightarrow> (int \<Rightarrow> string \<Rightarrow> 'v \<Rightarrow> 'v) \<Rightarrow> frame \<Rightarrow> sink set \<Rightarrow>
     presence \<times> (sink \<Rightarrow> 'v) \<Rightarrow> presence \<times> (sink \<Rightarrow> 'v)" where
  "spec_deliver_to takes put shut msg A mv =
     (let (m, v) = mv in
      (\<lambda>s. if s \<in> A then Option.bind (m s) (strike (takes (v s))) else m s,
       \<lambda>s. if s \<in> A then
             (case m s of None \<Rightarrow> v s | Some (r, n) \<Rightarrow> after_delivery takes put shut msg n (v s))
           else v s))"

lemma spec_deliver_to_none: "spec_deliver_to takes put shut msg {} mv = mv"
  by (simp add: spec_deliver_to_def split: prod.split)

definition spec_cut ::
  "(int \<Rightarrow> string \<Rightarrow> 'v \<Rightarrow> 'v) \<Rightarrow> int \<Rightarrow> string \<Rightarrow> (sink \<Rightarrow> bool) \<Rightarrow>
     presence \<times> (sink \<Rightarrow> 'v) \<Rightarrow> presence \<times> (sink \<Rightarrow> 'v)" where
  "spec_cut shut code reason P mv =
     (let (m, v) = mv in
      (\<lambda>s. if P s then None else m s,
       \<lambda>s. if P s \<and> m s \<noteq> None then shut code reason (v s) else v s))"

definition room_members :: "presence \<Rightarrow> string \<Rightarrow> sink set" where
  "room_members m room = {s. \<exists>n. m s = Some (room, n)}"

lemma room_of_dom: "hub_wf h \<Longrightarrow> dom (map_of (room_of h room)) = room_members (abs_hub h) room"
  by (auto simp: hub_wfD(8) in_room_def room_members_def abs_hub_def split: option.splits if_splits)

lemma room_of_ptr:
  "hub_wf h \<Longrightarrow> map_of (room_of h room) s = Some p \<Longrightarrow> map_of (h_clients h) s = Some p"
  by (auto simp: hub_wfD(8) in_room_def split: option.splits if_splits)

section \<open>The Sink contract\<close>

text \<open>
  What the hub needs of a connection: each has a mailbox of its own; \<^verbatim>\<open>TrySend\<close> answers
  whether that mailbox takes the message and changes no other; \<^verbatim>\<open>Close\<close> changes no other
  and repeating it changes nothing.
\<close>

locale sink_iface =
  fixes ops :: "'e sink_ops"
    and mailbox :: "'e \<Rightarrow> sink \<Rightarrow> 'v"
    and takes :: "'v \<Rightarrow> bool"
    and put :: "frame \<Rightarrow> 'v \<Rightarrow> 'v"
    and shut :: "int \<Rightarrow> string \<Rightarrow> 'v \<Rightarrow> 'v"
  assumes try_send_result: "fst (try_send ops s msg e) = takes (mailbox e s)"
    and try_send_mailbox:
      "mailbox (snd (try_send ops s msg e)) t =
         (if t = s \<and> takes (mailbox e s) then put msg (mailbox e s) else mailbox e t)"
    and close_mailbox:
      "mailbox (close_sink ops s code reason e) t =
         (if t = s then shut code reason (mailbox e s) else mailbox e t)"
    and shut_idem: "shut code reason (shut code' reason' v) = shut code' reason' v"
begin

lemma deliver_spec:
  assumes wf: "hub_wf h" and ptr: "map_of (h_clients h) s = Some p"
  shows "hub_wf (fst (deliver ops msg (s, p) (h, e)))"
    and "abs_hub (fst (deliver ops msg (s, p) (h, e))) =
           (abs_hub h)(s := Option.bind (abs_hub h s) (strike (takes (mailbox e s))))"
    and "mailbox (snd (deliver ops msg (s, p) (h, e))) =
           (mailbox e)(s := after_delivery takes put shut msg (c_overflows (h_heap h p)) (mailbox e s))"
proof -
  let ?n = "c_overflows (h_heap h p)"
  have sk: "c_sink (h_heap h p) = s" using hub_wfD(4) [OF wf ptr] .
  obtain ok e1 where te: "try_send ops s msg e = (ok, e1)" by (cases "try_send ops s msg e")
  have ok: "ok = takes (mailbox e s)" using try_send_result [of s msg e] te by simp
  have mb: "mailbox e1 = (mailbox e)(s := if ok then put msg (mailbox e s) else mailbox e s)"
    using try_send_mailbox [of s msg e] te ok by (auto simp: fun_eq_iff)
  have cut: "mailbox (close_sink ops s c r e1) = (mailbox e1)(s := shut c r (mailbox e1 s))" for c r
    by (auto simp: fun_eq_iff close_mailbox)
  have ab: "abs_hub h s = Some (c_room (h_heap h p), ?n)" by (simp add: abs_hub_def ptr)
  show "hub_wf (fst (deliver ops msg (s, p) (h, e)))"
    using wf by (simp add: deliver_def Let_def sk te heap_update_wf remove_wf)
  show "abs_hub (fst (deliver ops msg (s, p) (h, e))) =
      (abs_hub h)(s := Option.bind (abs_hub h s) (strike (takes (mailbox e s))))"
    using ab by (auto simp: deliver_def Let_def sk te ok [symmetric] abs_set_overflows [OF wf ptr])
  show "mailbox (snd (deliver ops msg (s, p) (h, e))) =
      (mailbox e)(s := after_delivery takes put shut msg ?n (mailbox e s))"
    by (auto simp: deliver_def Let_def sk te ok after_delivery_def mb cut)
qed

lemma deliver_keeps_ptr:
  assumes "t \<noteq> s" and "map_of (h_clients h) t = Some q"
  shows "map_of (h_clients (fst (deliver ops msg (s, p) (h, e)))) t = Some q"
  using assms by (auto simp: deliver_def Let_def set_overflows_def clients_remove split: prod.split)

lemma deliver_fold:
  assumes "hub_wf h" and "distinct xs" and "\<forall>s\<in>set xs. map_of (h_clients h) s = Some (ptr s)"
  shows "hub_wf (fst (fold (\<lambda>s. deliver ops msg (s, ptr s)) xs (h, e))) \<and>
    (abs_hub (fst (fold (\<lambda>s. deliver ops msg (s, ptr s)) xs (h, e))),
     mailbox (snd (fold (\<lambda>s. deliver ops msg (s, ptr s)) xs (h, e)))) =
    spec_deliver_to takes put shut msg (set xs) (abs_hub h, mailbox e)"
  using assms
proof (induction xs arbitrary: h e)
  case Nil
  then show ?case by (simp add: spec_deliver_to_def)
next
  case (Cons s xs)
  obtain h1 e1 where d: "deliver ops msg (s, ptr s) (h, e) = (h1, e1)"
    by (cases "deliver ops msg (s, ptr s) (h, e)")
  have ptr: "map_of (h_clients h) s = Some (ptr s)" using Cons.prems(3) by simp
  note ds = deliver_spec [OF Cons.prems(1) ptr, of msg e, unfolded d fst_conv snd_conv]
  have rest: "\<forall>t\<in>set xs. map_of (h_clients h1) t = Some (ptr t)"
  proof
    fix t
    assume "t \<in> set xs"
    with Cons.prems(2,3) have "t \<noteq> s" "map_of (h_clients h) t = Some (ptr t)" by auto
    from deliver_keeps_ptr [OF this, of msg "ptr s" e] show "map_of (h_clients h1) t = Some (ptr t)"
      by (simp add: d)
  qed
  have "distinct xs" "s \<notin> set xs" using Cons.prems(2) by simp_all
  with Cons.IH [OF ds(1) _ rest, of e1] show ?case
    using ptr by (auto simp: d spec_deliver_to_def ds(2,3) fun_eq_iff abs_hub_def)
qed

lemma publish_spec:
  assumes wf: "hub_wf h" and ord: "is_order ord (room_of h room)"
  shows "hub_wf (fst (do_publish ops ord room msg (h, e)))"
    and "(abs_hub (fst (do_publish ops ord room msg (h, e))), mailbox (snd (do_publish ops ord room msg (h, e)))) =
       spec_deliver_to takes put shut msg (room_members (abs_hub h) room) (abs_hub h, mailbox e)"
proof -
  let ?r = "room_of h room" and ?xs = "range_keys ord (room_of h room)"
  have "map_of (h_clients h) s = Some (the (map_of ?r s))" if "s \<in> set ?xs" for s
    using that set_range_keys [OF ord] by (auto intro: room_of_ptr [OF wf])
  with deliver_fold [OF wf distinct_range_keys [OF ord], of "\<lambda>s. the (map_of ?r s)" msg e]
  show "hub_wf (fst (do_publish ops ord room msg (h, e)))"
    and "(abs_hub (fst (do_publish ops ord room msg (h, e))), mailbox (snd (do_publish ops ord room msg (h, e)))) =
       spec_deliver_to takes put shut msg (room_members (abs_hub h) room) (abs_hub h, mailbox e)"
    by (simp_all add: do_publish_def Let_def set_range_keys [OF ord] room_of_dom [OF wf])
qed

lemma cut_fold:
  assumes "hub_wf h" and "distinct xs" and "set xs \<subseteq> dom (abs_hub h)"
  shows "hub_wf (fst (fold (cut ops code reason P) xs (h, e))) \<and>
    (abs_hub (fst (fold (cut ops code reason P) xs (h, e))),
     mailbox (snd (fold (cut ops code reason P) xs (h, e)))) =
    spec_cut shut code reason (\<lambda>s. s \<in> set xs \<and> P s) (abs_hub h, mailbox e)"
  using assms
proof (induction xs arbitrary: h e)
  case Nil
  then show ?case by (simp add: spec_cut_def)
next
  case (Cons s xs)
  let ?h1 = "fst (cut ops code reason P s (h, e))" and ?e1 = "snd (cut ops code reason P s (h, e))"
  have wf1: "hub_wf ?h1" using Cons.prems(1) by (simp add: cut_def remove_wf)
  have a1: "abs_hub ?h1 = (if P s then (abs_hub h)(s := None) else abs_hub h)" by (simp add: cut_def)
  have m1: "mailbox ?e1 = (if P s then (mailbox e)(s := shut code reason (mailbox e s)) else mailbox e)"
    by (auto simp: cut_def close_mailbox fun_eq_iff)
  have "set xs \<subseteq> dom (abs_hub ?h1)" and sx: "s \<notin> set xs" and sd: "abs_hub h s \<noteq> None"
    using Cons.prems(2,3) by (auto simp: a1)
  with Cons.IH [OF wf1 _ this(1), of ?e1] Cons.prems(2) show ?case
    by (auto simp: spec_cut_def a1 m1 fun_eq_iff)
qed

lemma cut_all_spec:
  assumes wf: "hub_wf h" and ord: "is_order ord (h_clients h)"
    and he'_def: "he' = fold (cut ops code reason P) (range_keys ord (h_clients h)) (h, e)"
  shows "hub_wf (fst he')"
    and "(abs_hub (fst he'), mailbox (snd he')) = spec_cut shut code reason P (abs_hub h, mailbox e)"
proof -
  have dom: "set (range_keys ord (h_clients h)) = dom (abs_hub h)"
    by (auto simp: set_range_keys [OF ord] abs_hub_def)
  note cf = cut_fold [OF wf distinct_range_keys [OF ord], of code reason P e]
  show "hub_wf (fst he')" using cf dom by (simp add: he'_def)
  show "(abs_hub (fst he'), mailbox (snd he')) = spec_cut shut code reason P (abs_hub h, mailbox e)"
    using cf dom by (auto simp: he'_def spec_cut_def fun_eq_iff)
qed

lemma publish_to_spec:
  assumes wf: "hub_wf h" and ord: "is_order ord (h_clients h)"
    and uniq: "\<And>s t. s \<in> dom (abs_hub h) \<Longrightarrow> t \<in> dom (abs_hub h) \<Longrightarrow> sk_id s = sk_id t \<Longrightarrow> s = t"
  shows "hub_wf (fst (do_publish_to ops ord cid msg (h, e)))"
    and "(abs_hub (fst (do_publish_to ops ord cid msg (h, e))), mailbox (snd (do_publish_to ops ord cid msg (h, e)))) =
       spec_deliver_to takes put shut msg {s \<in> dom (abs_hub h). sk_id s = cid} (abs_hub h, mailbox e)"
proof -
  let ?xs = "range_keys ord (h_clients h)"
  have dom: "set ?xs = dom (abs_hub h)" by (auto simp: set_range_keys [OF ord] abs_hub_def)
  have both: "hub_wf (fst (do_publish_to ops ord cid msg (h, e))) \<and>
    (abs_hub (fst (do_publish_to ops ord cid msg (h, e))), mailbox (snd (do_publish_to ops ord cid msg (h, e)))) =
       spec_deliver_to takes put shut msg {s \<in> dom (abs_hub h). sk_id s = cid} (abs_hub h, mailbox e)"
  proof (cases "find (\<lambda>s. sk_id s = cid) ?xs")
    case None
    then have none: "{s \<in> dom (abs_hub h). sk_id s = cid} = {}" using dom by (auto simp: find_None_iff)
    show ?thesis
      unfolding none using None wf by (simp add: do_publish_to_def Let_def spec_deliver_to_none)
  next
    case (Some s)
    then have s: "s \<in> dom (abs_hub h)" "sk_id s = cid"
      using dom by (auto simp: find_Some_iff dest: nth_mem)
    then have single: "{s \<in> dom (abs_hub h). sk_id s = cid} = set [s]" using uniq by auto
    from s obtain p where p: "map_of (h_clients h) s = Some p" by (auto simp: abs_hub_def)
    with deliver_fold [OF wf, of "[s]" "\<lambda>_. p" msg e] Some show ?thesis
      unfolding single by (simp add: do_publish_to_def Let_def)
  qed
  then show "hub_wf (fst (do_publish_to ops ord cid msg (h, e)))"
    and "(abs_hub (fst (do_publish_to ops ord cid msg (h, e))), mailbox (snd (do_publish_to ops ord cid msg (h, e)))) =
       spec_deliver_to takes put shut msg {s \<in> dom (abs_hub h). sk_id s = cid} (abs_hub h, mailbox e)"
    by simp_all
qed

end

end
