(* ===== verification/Conn.thy ===== *)
theory Conn
  imports HubSpec
begin

text \<open>
  One connection (\<^verbatim>\<open>internal/realtime/conn.go\<close>, \<^verbatim>\<open>message.go\<close>). The two channels and the
  once-flag are the mailbox the hub talks to; \<open>conn_ops\<close> is the implementation of the
  \<^verbatim>\<open>Sink\<close> interface and provides the contract \<open>sink_iface\<close>. The write pump is a labelled
  step relation over the mailbox, its program counter and the outcomes of the socket; the
  read pump is a function of the frames the socket yields and the verdicts of the rate
  limiter (\<^verbatim>\<open>golang.org/x/time/rate\<close>, a parameter).
\<close>

section \<open>The mailbox\<close>

datatype close_reason = CloseReason (code: int) (reason: string)

record conn =
  cn_queue :: "frame list"
  cn_closing :: "close_reason option"
  cn_once :: bool

text \<open>\<^verbatim>\<open>NewConn\<close>: empty channels.\<close>

definition new_conn :: conn where
  "new_conn = \<lparr>cn_queue = [], cn_closing = None, cn_once = False\<rparr>"

definition has_space :: "conn \<Rightarrow> bool" where
  "has_space c \<longleftrightarrow> length (cn_queue c) < defaultSendBuffer"

definition push_frame :: "frame \<Rightarrow> conn \<Rightarrow> conn" where
  "push_frame msg c = c\<lparr>cn_queue := cn_queue c @ [msg]\<rparr>"

text \<open>\<^verbatim>\<open>TrySend\<close>: a non-blocking send on a buffered channel.\<close>

definition conn_try_send :: "frame \<Rightarrow> conn \<Rightarrow> bool \<times> conn" where
  "conn_try_send msg c = (if has_space c then (True, push_frame msg c) else (False, c))"

text \<open>\<^verbatim>\<open>Close\<close>: \<^verbatim>\<open>closeOnce\<close> lets the first request through and makes every other a no-op.\<close>

definition conn_close :: "int \<Rightarrow> string \<Rightarrow> conn \<Rightarrow> conn" where
  "conn_close co re c =
     (if cn_once c then c else c\<lparr>cn_once := True, cn_closing := Some (CloseReason co re)\<rparr>)"

type_synonym conns = "sink \<Rightarrow> conn"

definition conn_ops :: "conns sink_ops" where
  "conn_ops =
     \<lparr>try_send = (\<lambda>s msg e. let (ok, c) = conn_try_send msg (e s) in (ok, e(s := c))),
      close_sink = (\<lambda>s co re e. e(s := conn_close co re (e s)))\<rparr>"

interpretation conn: sink_iface conn_ops "\<lambda>e. e" has_space push_frame conn_close
  by unfold_locales (auto simp: conn_ops_def conn_try_send_def conn_close_def split: prod.splits)

section \<open>The write pump\<close>

text \<open>
  \<open>PTop\<close> is the first \<^verbatim>\<open>select\<close> of the loop (a pending close outranks the queue),
  \<open>PWait\<close> the second, \<open>PWind\<close> the function \<^verbatim>\<open>windUp\<close>, \<open>PGone\<close> after the deferred
  \<^verbatim>\<open>hardClose\<close>.
\<close>

datatype pump_pc = PTop | PWait | PWind | PGone

record pump = conn +
  pp_pc :: pump_pc
  pp_ctx :: bool

text \<open>
  What happens: other goroutines offer a frame, ask for a close or cancel the context; the
  pump writes a frame, a bye or a ping (the flag says whether the socket took it), notices
  the cancellation, or gives up waiting for a reason.
\<close>

datatype act =
    Offer frame bool
  | CloseReq close_reason
  | Cancel
  | SkipClosing
  | WriteMsg frame bool
  | WriteBye close_reason
  | PingPeer bool
  | SeeCancel
  | GiveUp

inductive pump_step :: "pump \<Rightarrow> act \<Rightarrow> pump \<Rightarrow> bool" where
  offer_ok: "length (cn_queue p) < defaultSendBuffer \<Longrightarrow>
     pump_step p (Offer m True) (p\<lparr>cn_queue := cn_queue p @ [m]\<rparr>)"
| offer_full: "\<not> length (cn_queue p) < defaultSendBuffer \<Longrightarrow> pump_step p (Offer m False) p"
| close_first: "\<not> cn_once p \<Longrightarrow>
     pump_step p (CloseReq cr) (p\<lparr>cn_once := True, cn_closing := Some cr\<rparr>)"
| close_again: "cn_once p \<Longrightarrow> pump_step p (CloseReq cr) p"
| cancel: "pump_step p Cancel (p\<lparr>pp_ctx := True\<rparr>)"
| top_bye: "pp_pc p = PTop \<Longrightarrow> cn_closing p = Some cr \<Longrightarrow>
     pump_step p (WriteBye cr) (p\<lparr>cn_closing := None, pp_pc := PGone\<rparr>)"
| top_skip: "pp_pc p = PTop \<Longrightarrow> cn_closing p = None \<Longrightarrow>
     pump_step p SkipClosing (p\<lparr>pp_pc := PWait\<rparr>)"
| wait_cancel: "pp_pc p = PWait \<Longrightarrow> pp_ctx p \<Longrightarrow> pump_step p SeeCancel (p\<lparr>pp_pc := PWind\<rparr>)"
| wait_bye: "pp_pc p = PWait \<Longrightarrow> cn_closing p = Some cr \<Longrightarrow>
     pump_step p (WriteBye cr) (p\<lparr>cn_closing := None, pp_pc := PGone\<rparr>)"
| wait_msg: "pp_pc p = PWait \<Longrightarrow> cn_queue p = m # q \<Longrightarrow>
     pump_step p (WriteMsg m ok) (p\<lparr>cn_queue := q, pp_pc := (if ok then PTop else PWind)\<rparr>)"
| wait_ping: "pp_pc p = PWait \<Longrightarrow>
     pump_step p (PingPeer ok) (p\<lparr>pp_pc := (if ok then PTop else PWind)\<rparr>)"
| wind_bye: "pp_pc p = PWind \<Longrightarrow> cn_closing p = Some cr \<Longrightarrow>
     pump_step p (WriteBye cr) (p\<lparr>cn_closing := None, pp_pc := PGone\<rparr>)"
| wind_timeout: "pp_pc p = PWind \<Longrightarrow> pump_step p GiveUp (p\<lparr>pp_pc := PGone\<rparr>)"

inductive_cases step_OfferE: "pump_step p (Offer m ok) p'"
inductive_cases step_CloseReqE: "pump_step p (CloseReq cr) p'"
inductive_cases step_WriteMsgE: "pump_step p (WriteMsg m ok) p'"
inductive_cases step_WriteByeE: "pump_step p (WriteBye cr) p'"

text \<open>A run, with its actions in order.\<close>

inductive pump_run :: "pump \<Rightarrow> act list \<Rightarrow> pump \<Rightarrow> bool" where
  run_nil: "pump_run p [] p"
| run_snoc: "pump_run p acts q \<Longrightarrow> pump_step q a r \<Longrightarrow> pump_run p (acts @ [a]) r"

definition new_pump :: pump where
  "new_pump = \<lparr>cn_queue = [], cn_closing = None, cn_once = False, pp_pc = PTop, pp_ctx = False\<rparr>"

text \<open>Projections of a run.\<close>

fun accepted :: "act list \<Rightarrow> frame list" where
  "accepted [] = []"
| "accepted (Offer m True # as) = m # accepted as"
| "accepted (_ # as) = accepted as"

fun written :: "act list \<Rightarrow> frame list" where
  "written [] = []"
| "written (WriteMsg m ok # as) = m # written as"
| "written (_ # as) = written as"

fun requests :: "act list \<Rightarrow> close_reason list" where
  "requests [] = []"
| "requests (CloseReq cr # as) = cr # requests as"
| "requests (_ # as) = requests as"

fun byes :: "act list \<Rightarrow> close_reason list" where
  "byes [] = []"
| "byes (WriteBye cr # as) = cr # byes as"
| "byes (_ # as) = byes as"

text \<open>The frames written after the first close request.\<close>

fun late_writes :: "act list \<Rightarrow> frame list" where
  "late_writes [] = []"
| "late_writes (CloseReq cr # as) = written as"
| "late_writes (_ # as) = late_writes as"

lemma projections_snoc [simp]:
  "accepted (as @ [a]) = accepted as @ accepted [a]"
  "written (as @ [a]) = written as @ written [a]"
  "requests (as @ [a]) = requests as @ requests [a]"
  "byes (as @ [a]) = byes as @ byes [a]"
proof -
  show "accepted (as @ [a]) = accepted as @ accepted [a]"
    by (induction as rule: accepted.induct) auto
  show "written (as @ [a]) = written as @ written [a]"
    by (induction as rule: written.induct) auto
  show "requests (as @ [a]) = requests as @ requests [a]"
    by (induction as rule: requests.induct) auto
  show "byes (as @ [a]) = byes as @ byes [a]"
    by (induction as rule: byes.induct) auto
qed

lemma late_writes_snoc [simp]:
  "late_writes (as @ [a]) = late_writes as @ (if requests as = [] then [] else written [a])"
proof (induction as rule: late_writes.induct)
  case 1
  show ?case by (cases a) auto
qed auto

lemma late_writes_none: "requests as = [] \<Longrightarrow> late_writes as = []"
  by (induction as rule: late_writes.induct) auto

text \<open>
  The invariant of a run: what has been written and what is still queued is what was
  accepted, in order; the pending reason, or the one already written, is the first one
  asked for; and once a close is pending the pump is at most one write from noticing it.
\<close>

definition pump_inv :: "act list \<Rightarrow> pump \<Rightarrow> bool" where
  "pump_inv as p \<longleftrightarrow>
     accepted as = written as @ cn_queue p \<and>
     (cn_once p \<longleftrightarrow> requests as \<noteq> []) \<and>
     (\<forall>cr. cn_closing p = Some cr \<longrightarrow> requests as \<noteq> [] \<and> cr = hd (requests as) \<and> byes as = []) \<and>
     (byes as \<noteq> [] \<longrightarrow> byes as = [hd (requests as)] \<and> requests as \<noteq> [] \<and> pp_pc p = PGone) \<and>
     length (cn_queue p) \<le> defaultSendBuffer \<and>
     (requests as \<noteq> [] \<and> pp_pc p \<noteq> PGone \<longrightarrow> cn_closing p \<noteq> None) \<and>
     length (late_writes as) \<le> 1 \<and>
     (pp_pc p = PWait \<longrightarrow> late_writes as = [])"

lemma pump_inv_init: "pump_inv [] new_pump"
  by (simp add: pump_inv_def new_pump_def)

lemma pump_step_inv: "pump_step p a q \<Longrightarrow> pump_inv as p \<Longrightarrow> pump_inv (as @ [a]) q"
  by (induction rule: pump_step.induct) (auto simp: pump_inv_def late_writes_none)

lemma pump_run_inv: "pump_run p as q \<Longrightarrow> pump_inv [] p \<Longrightarrow> pump_inv as q"
  by (induction rule: pump_run.induct) (auto intro: pump_step_inv)

section \<open>The read pump\<close>

datatype read_result = ReadErr | ReadFrame bool frame

datatype read_effect = Inbound member string frame | AskClose int string

text \<open>
  \<^verbatim>\<open>readPump\<close> followed by the line of \<^verbatim>\<open>Serve\<close> that runs after it. The list holds what the
  socket yields with the limiter's verdict on it; a list that ends is a socket that is gone.
\<close>

fun read_pump :: "bool \<Rightarrow> member \<Rightarrow> string \<Rightarrow> (read_result \<times> bool) list \<Rightarrow> read_effect list" where
  "read_pump handler me room [] = []"
| "read_pump handler me room ((ReadErr, allow) # rs) = []"
| "read_pump handler me room ((ReadFrame is_text payload, allow) # rs) =
     (if \<not> allow then [AskClose CloseTryAgainLater ReasonRateLimited]
      else if \<not> handler \<or> \<not> is_text then read_pump handler me room rs
      else Inbound me room payload # read_pump handler me room rs)"

definition serve_reads :: "bool \<Rightarrow> member \<Rightarrow> string \<Rightarrow> (read_result \<times> bool) list \<Rightarrow> read_effect list" where
  "serve_reads handler me room rs =
     read_pump handler me room rs @ [AskClose CloseGoingAway ''peer closed'']"

end
