(* ===== verification/Realtime.thy ===== *)
theory Realtime
  imports Conn
begin

text \<open>
  The hub over its real connections: every command of the loop refines a specification on
  who is present where (\<open>hub_spec\<close>), the invariant holds in every reachable state, and the
  guarantees the rest of the program relies on follow: the connection caps, that a kick
  cuts an account and nobody else, that a slow reader costs only himself, and what the
  write pump puts on the wire.
\<close>

section \<open>The specification of one command\<close>

abbreviation no_space_deliver :: "frame \<Rightarrow> sink set \<Rightarrow> presence \<times> conns \<Rightarrow> presence \<times> conns" where
  "no_space_deliver \<equiv> spec_deliver_to has_space push_frame conn_close"

fun hub_spec :: "int \<Rightarrow> int \<Rightarrow> command \<Rightarrow> presence \<times> conns \<Rightarrow> hub_error option \<times> presence \<times> conns" where
  "hub_spec max_total max_per (CRegister s room) (m, v) =
     (if max_total \<le> int (card (dom m)) \<or> max_per \<le> int (card {t \<in> dom m. sk_account t = sk_account s})
      then (Some ErrTooManyConnections, m, v)
      else (None, m(s \<mapsto> (room, 0)), v))"
| "hub_spec max_total max_per (CUnregister s) (m, v) = (None, m(s := None), v)"
| "hub_spec max_total max_per (CPublish room msg) mv =
     (None, no_space_deliver msg (room_members (fst mv) room) mv)"
| "hub_spec max_total max_per (CPublishTo cid msg) mv =
     (None, no_space_deliver msg {s \<in> dom (fst mv). sk_id s = cid} mv)"
| "hub_spec max_total max_per (CKick a co re) mv =
     (None, spec_cut conn_close co re (\<lambda>s. sk_account s = a) mv)"
| "hub_spec max_total max_per CLive mv = (None, mv)"
| "hub_spec max_total max_per (CCloseSet ids co re) mv =
     (None, spec_cut conn_close co re (\<lambda>s. sk_id s \<in> set ids) mv)"
| "hub_spec max_total max_per (CMembers room) mv = (None, mv)"
| "hub_spec max_total max_per CStop (m, v) =
     (None, m, \<lambda>s. if s \<in> dom m then conn_close CloseGoingAway ''restart'' (v s) else v s)"

fun reply_error :: "reply \<Rightarrow> hub_error option" where
  "reply_error (RErr err) = err"
| "reply_error _ = None"

text \<open>
  What the hub assumes of its callers: a connection is registered once, and connection ids
  (UUIDs drawn at the upgrade) name one connection.
\<close>

definition unique_ids :: "presence \<Rightarrow> bool" where
  "unique_ids m \<longleftrightarrow> (\<forall>s\<in>dom m. \<forall>t\<in>dom m. sk_id s = sk_id t \<longrightarrow> s = t)"

fun caller_ok :: "command \<Rightarrow> presence \<Rightarrow> bool" where
  "caller_ok (CRegister s room) m \<longleftrightarrow> s \<notin> dom m \<and> sk_id s \<notin> sk_id ` dom m"
| "caller_ok _ m \<longleftrightarrow> True"

section \<open>Every command refines its specification\<close>

lemma is_order_room:
  "hub_wf h \<Longrightarrow> is_order ord (h_clients h) \<Longrightarrow> is_order ord (room_of h room)"
  using room_of_ptr unfolding is_order_def
  by (metis (no_types, lifting) dom_map_of_conv_image_fst domIff not_None_eq subset_iff)

lemma stop_fold:
  "distinct xs \<Longrightarrow> fold (\<lambda>s. close_sink conn_ops s co re) xs e =
     (\<lambda>s. if s \<in> set xs then conn_close co re (e s) else e s)"
  by (induction xs arbitrary: e) (auto simp: conn_ops_def fun_eq_iff)

lemma register_refines:
  assumes "hub_wf h"
  shows "hub_spec (h_max_total h) (h_max_per h) (CRegister s room) (abs_hub h, e) =
    (fst (do_register s room h), abs_hub (snd (do_register s room h)), e)"
  using population_card [OF assms, of "sk_account s"] total_card [OF assms]
    hub_wfD(11) [OF assms, of "sk_account s"]
  by (auto simp: do_register_def abs_admit [OF assms])

lemma register_wf:
  "hub_wf h \<Longrightarrow> abs_hub h s = None \<Longrightarrow> hub_wf (snd (do_register s room h))"
  by (simp add: do_register_def abs_hub_None_iff admit_wf)

lemma in_room_done [simp]: "in_room (h\<lparr>h_done := b\<rparr>) = in_room h"
  by (intro ext) (simp add: in_room_def split: option.split)

lemma step_wf:
  assumes "hub_wf h" and "is_order ord (h_clients h)" and "unique_ids (abs_hub h)"
    and "caller_ok cmd (abs_hub h)"
  shows "hub_wf (fst (snd (hub_step conn_ops ord cmd (h, e))))"
proof (cases cmd)
  case (CRegister s room)
  with assms(4) have "abs_hub h s = None" by auto
  with CRegister assms(1) show ?thesis by (simp add: split_def Let_def register_wf)
next
  case (CPublishTo cid msg)
  with conn.publish_to_spec(1) [OF assms(1,2)] assms(3) show ?thesis
    by (auto simp: unique_ids_def)
next
  case CStop
  with assms(1) show ?thesis
    by (simp add: do_stop_def hub_wf_def room_of_def per_account_def population_def)
qed (use assms(1,2) in \<open>auto simp: remove_wf do_kick_def do_close_set_def
      intro!: conn.publish_spec(1) is_order_room conn.cut_all_spec(1) [OF _ _ refl]\<close>)

lemma step_refines:
  assumes "hub_wf h" and "is_order ord (h_clients h)" and "unique_ids (abs_hub h)"
  shows "(reply_error (fst (hub_step conn_ops ord cmd (h, e))),
      abs_hub (fst (snd (hub_step conn_ops ord cmd (h, e)))),
      snd (snd (hub_step conn_ops ord cmd (h, e)))) =
    hub_spec (h_max_total h) (h_max_per h) cmd (abs_hub h, e)"
proof (cases cmd)
  case (CRegister s room)
  with register_refines [OF assms(1), of s room e] show ?thesis
    by (simp add: split_def Let_def)
next
  case (CPublish room msg)
  with conn.publish_spec(2) [OF assms(1) is_order_room [OF assms(1,2)], of room msg e]
  show ?thesis by simp
next
  case (CPublishTo cid msg)
  with conn.publish_to_spec(2) [OF assms(1,2), of cid msg e] assms(3) show ?thesis
    by (simp add: unique_ids_def)
next
  case (CKick a co re)
  with conn.cut_all_spec(2) [OF assms(1,2) refl, of co re "\<lambda>s. sk_account s = a" e] show ?thesis
    by (simp add: do_kick_def)
next
  case (CCloseSet ids co re)
  with conn.cut_all_spec(2) [OF assms(1,2) refl, of co re "\<lambda>s. sk_id s \<in> set ids" e] show ?thesis
    by (simp add: do_close_set_def)
next
  case CStop
  have "abs_hub (h\<lparr>h_done := True\<rparr>) = abs_hub h" by (rule ext) (simp add: abs_hub_def)
  moreover have "set (range_keys ord (h_clients h)) = dom (abs_hub h)"
    by (auto simp: set_range_keys [OF assms(2)] abs_hub_def)
  ultimately show ?thesis
    using CStop stop_fold [OF distinct_range_keys [OF assms(2)]] by (simp add: do_stop_def)
qed simp_all

section \<open>The invariant of the running hub\<close>

definition presence_ok :: "int \<Rightarrow> int \<Rightarrow> presence \<Rightarrow> bool" where
  "presence_ok max_total max_per m \<longleftrightarrow>
     finite (dom m) \<and> unique_ids m \<and> int (card (dom m)) \<le> max_total \<and>
     (\<forall>a. int (card {s \<in> dom m. sk_account s = a}) \<le> max_per) \<and>
     (\<forall>s r n. m s = Some (r, n) \<longrightarrow> 0 \<le> n \<and> n < maxOverflowsBeforeEvict)"

lemma presence_ok_shrink:
  assumes "presence_ok mt mp m" and "dom m' \<subseteq> dom m"
    and "\<And>s r n. m' s = Some (r, n) \<Longrightarrow> 0 \<le> n \<and> n < maxOverflowsBeforeEvict"
  shows "presence_ok mt mp m'"
proof -
  have fin: "finite (dom m)" using assms(1) by (simp add: presence_ok_def)
  have "card (dom m') \<le> card (dom m)" using fin assms(2) by (rule card_mono)
  moreover have "card {s \<in> dom m'. sk_account s = a} \<le> card {s \<in> dom m. sk_account s = a}" for a
    using fin assms(2) by (intro card_mono) auto
  ultimately show ?thesis
    using assms finite_subset [OF assms(2) fin] order_trans
    unfolding presence_ok_def unique_ids_def
    by (smt (verit) of_nat_le_iff subsetD)
qed

lemma deliver_presence:
  assumes "presence_ok mt mp m"
  shows "presence_ok mt mp (fst (spec_deliver_to takes put shut msg A (m, v)))"
proof (rule presence_ok_shrink [OF assms])
  show "dom (fst (spec_deliver_to takes put shut msg A (m, v))) \<subseteq> dom m"
    by (auto simp: spec_deliver_to_def bind_eq_Some_conv split: if_splits)
  fix s r n
  assume new: "fst (spec_deliver_to takes put shut msg A (m, v)) s = Some (r, n)"
  then obtain r0 n0 where old: "m s = Some (r0, n0)"
    by (cases "m s") (auto simp: spec_deliver_to_def split: if_splits)
  with assms have "0 \<le> n0 \<and> n0 < maxOverflowsBeforeEvict" unfolding presence_ok_def by blast
  with new old show "0 \<le> n \<and> n < maxOverflowsBeforeEvict"
    by (auto simp: spec_deliver_to_def maxOverflowsBeforeEvict_def split: if_splits)
qed

lemma register_presence:
  assumes ok: "presence_ok mt mp m" and new: "s \<notin> dom m" "sk_id s \<notin> sk_id ` dom m"
    and room_left: "\<not> mt \<le> int (card (dom m))"
      "\<not> mp \<le> int (card {t \<in> dom m. sk_account t = sk_account s})"
  shows "presence_ok mt mp (m(s \<mapsto> (room, 0)))"
proof -
  let ?m = "m(s \<mapsto> (room, 0))"
  have fin: "finite (dom m)" using ok by (simp add: presence_ok_def)
  have total: "int (card (dom ?m)) \<le> mt" using fin new(1) room_left(1) by simp
  have per: "int (card {t \<in> dom ?m. sk_account t = a}) \<le> mp" for a
  proof (cases "a = sk_account s")
    case True
    then have "{t \<in> dom ?m. sk_account t = a} = insert s {t \<in> dom m. sk_account t = a}" by auto
    moreover have "card (insert s {t \<in> dom m. sk_account t = a}) = Suc (card {t \<in> dom m. sk_account t = a})"
      using fin new(1) by (intro card_insert_disjoint) auto
    ultimately show ?thesis using True room_left(2) by simp
  next
    case False
    then have "{t \<in> dom ?m. sk_account t = a} = {t \<in> dom m. sk_account t = a}" by auto
    then show ?thesis using ok by (simp add: presence_ok_def)
  qed
  have ids: "unique_ids ?m"
    unfolding unique_ids_def
  proof (intro ballI impI)
    fix t u
    assume "t \<in> dom ?m" "u \<in> dom ?m" and eq: "sk_id t = sk_id u"
    then have "t = s \<or> t \<in> dom m" "u = s \<or> u \<in> dom m" by auto
    with eq new(2) ok show "t = u" unfolding presence_ok_def unique_ids_def by (metis image_eqI)
  qed
  have strikes: "0 \<le> n \<and> n < maxOverflowsBeforeEvict" if "?m t = Some (r, n)" for t r n
    using that ok by (auto simp: presence_ok_def maxOverflowsBeforeEvict_def split: if_splits)
  show ?thesis unfolding presence_ok_def using fin total per ids strikes by simp
qed

lemma spec_presence:
  assumes "presence_ok mt mp m" and "caller_ok cmd m"
  shows "presence_ok mt mp (fst (snd (hub_spec mt mp cmd (m, v))))"
proof (cases cmd)
  case (CRegister s room)
  with assms register_presence [OF assms(1), of s room] show ?thesis by auto
next
  case (CUnregister s)
  with assms(1) show ?thesis
    by (intro presence_ok_shrink [OF assms(1)]) (auto simp: presence_ok_def split: if_splits)
next
  case (CKick a co re)
  with assms(1) show ?thesis
    by (intro presence_ok_shrink [OF assms(1)])
      (auto simp: spec_cut_def presence_ok_def split: if_splits)
next
  case (CCloseSet ids co re)
  with assms(1) show ?thesis
    by (intro presence_ok_shrink [OF assms(1)])
      (auto simp: spec_cut_def presence_ok_def split: if_splits)
qed (use assms(1) in \<open>simp_all add: deliver_presence\<close>)

text \<open>The limits are fields nothing writes.\<close>

definition limits :: "hub \<Rightarrow> int \<times> int" where
  "limits h = (h_max_total h, h_max_per h)"

lemma fold_limits:
  "(\<And>x he. limits (fst (f x he)) = limits (fst he)) \<Longrightarrow> limits (fst (fold f xs he)) = limits (fst he)"
  by (induction xs arbitrary: he) auto

lemma deliver_limits [simp]: "limits (fst (deliver ops msg sp he)) = limits (fst he)"
  by (auto simp: deliver_def Let_def limits_def set_overflows_def split: prod.split)

lemma cut_limits [simp]: "limits (fst (cut ops co re P s he)) = limits (fst he)"
  by (simp add: cut_def limits_def)

lemma step_limits: "limits (fst (snd (hub_step ops ord cmd (h, e)))) = limits h"
  by (cases cmd)
    (auto simp: do_register_def do_publish_def do_publish_to_def do_kick_def do_close_set_def
      do_stop_def Let_def fold_limits split: option.splits prod.splits,
     auto simp: limits_def)

text \<open>The states \<^verbatim>\<open>Run\<close> can be in, with whatever the connections are doing meanwhile.\<close>

inductive hub_reach :: "hub \<Rightarrow> bool" where
  reach_new: "hub_reach new_hub"
| reach_step: "hub_reach h \<Longrightarrow> \<not> h_done h \<Longrightarrow> is_order ord (h_clients h) \<Longrightarrow>
     caller_ok cmd (abs_hub h) \<Longrightarrow> hub_reach (fst (snd (hub_step conn_ops ord cmd (h, e))))"

lemma hub_reach_inv:
  "hub_reach h \<Longrightarrow> hub_wf h \<and> presence_ok defaultMaxTotal defaultMaxPerAccount (abs_hub h) \<and>
     limits h = (defaultMaxTotal, defaultMaxPerAccount)"
proof (induction rule: hub_reach.induct)
  case reach_new
  have "abs_hub new_hub = Map.empty" by (rule ext) (simp add: abs_hub_def new_hub_def)
  then show ?case
    by (simp add: hub_wf_def new_hub_def room_of_def in_room_def per_account_def population_def
        presence_ok_def unique_ids_def limits_def defaultMaxTotal_def defaultMaxPerAccount_def fun_eq_iff)
next
  case (reach_step h ord cmd e)
  then have wf: "hub_wf h" and ok: "presence_ok defaultMaxTotal defaultMaxPerAccount (abs_hub h)"
    and lim: "h_max_total h = defaultMaxTotal" "h_max_per h = defaultMaxPerAccount"
    by (simp_all add: limits_def)
  then have ids: "unique_ids (abs_hub h)" by (simp add: presence_ok_def)
  have "abs_hub (fst (snd (hub_step conn_ops ord cmd (h, e)))) =
      fst (snd (hub_spec defaultMaxTotal defaultMaxPerAccount cmd (abs_hub h, e)))"
    using step_refines [OF wf reach_step.hyps(3) ids, of cmd e] lim by (metis fst_conv snd_conv)
  then show ?case
    using step_wf [OF wf reach_step.hyps(3) ids reach_step.hyps(4)]
      spec_presence [OF ok reach_step.hyps(4)] step_limits [of conn_ops ord cmd h e] reach_step.IH
    by simp
qed


lemma hub_reachD:
  assumes "hub_reach h"
  shows "hub_wf h" "presence_ok defaultMaxTotal defaultMaxPerAccount (abs_hub h)"
    "unique_ids (abs_hub h)" "h_max_total h = defaultMaxTotal" "h_max_per h = defaultMaxPerAccount"
  using hub_reach_inv [OF assms] by (simp_all add: presence_ok_def limits_def)

section \<open>A small hub for the witnesses\<close>

abbreviation phone :: sink where
  "phone \<equiv> \<lparr>sk_ref = 11, sk_id = ''c1'', sk_account = ''0000000a-0000-0000-0000-00000000000a'', sk_session = ''0000000c-0000-0000-0000-00000000000c''\<rparr>"

abbreviation laptop :: sink where
  "laptop \<equiv> \<lparr>sk_ref = 12, sk_id = ''c2'', sk_account = ''0000000b-0000-0000-0000-00000000000b'', sk_session = ''0000000d-0000-0000-0000-00000000000d''\<rparr>"

definition yard :: hub where
  "yard = admit laptop ''yard'' (admit phone ''yard'' new_hub)"

definition calm :: conns where "calm = (\<lambda>_. new_conn)"

definition jammed :: conns where
  "jammed = calm(phone := new_conn\<lparr>cn_queue := replicate 64 ''x''\<rparr>)"

lemmas hub_eval = yard_def admit_def new_hub_def room_of_def per_account_def Let_def
  defaultMaxTotal_def defaultMaxPerAccount_def

lemma yard_clients: "h_clients yard = [(phone, 0), (laptop, 1)]"
  by (simp add: hub_eval)

lemma yard_presence: "abs_hub yard = [phone \<mapsto> (''yard'', 0), laptop \<mapsto> (''yard'', 0)]"
  by (rule ext) (simp add: abs_hub_def yard_clients, simp add: hub_eval)

lemma yard_order: "is_order [phone, laptop] (h_clients yard)"
  by (simp add: is_order_def yard_clients)

lemma yard_reach: "hub_reach yard"
proof -
  let ?h = "admit phone ''yard'' new_hub"
  have 0: "h_clients new_hub = []" "\<not> h_done new_hub" "abs_hub new_hub = Map.empty"
    by (auto simp: new_hub_def abs_hub_def)
  have "hub_reach (fst (snd (hub_step conn_ops [] (CRegister phone ''yard'') (new_hub, calm))))"
    by (rule reach_step [OF reach_new]) (use 0 in \<open>simp_all add: is_order_def\<close>)
  then have 1: "hub_reach ?h"
    by (simp add: do_register_def) (simp add: hub_eval)
  have c: "h_clients ?h = [(phone, 0)]" "\<not> h_done ?h"
    by (simp_all add: hub_eval)
  have a: "dom (abs_hub ?h) = {phone}" by (simp add: dom_abs_hub c)
  have "hub_reach (fst (snd (hub_step conn_ops [phone] (CRegister laptop ''yard'') (?h, calm))))"
    by (rule reach_step [OF 1]) (simp_all add: c a is_order_def 0(2))
  then show ?thesis
    by (simp add: do_register_def yard_def c) (simp add: hub_eval)
qed

section \<open>Properties of the hub\<close>

text \<open>C2: whatever sequence of commands the hub has processed, and whatever its connections did,
  at most 200 clients are registered, no account holds more than 3, and the counter the hub
  keeps per account is exactly the number of that account's registered connections. The room
  index agrees with the client table: a connection is in the room it registered for and in
  no other.\<close>

theorem hub_stays_bounded:
  assumes "hub_reach h"
  shows "length (h_clients h) \<le> 200 \<and>
    (\<forall>a. per_account h a \<le> 3 \<and>
         per_account h a = int (card {s \<in> dom (abs_hub h). sk_account s = a})) \<and>
    (\<forall>r s p. map_of (room_of h r) s = Some p \<longleftrightarrow>
         map_of (h_clients h) s = Some p \<and> c_room (h_heap h p) = r)"
proof (intro conjI allI)
  note wf = hub_reachD(1) [OF assms] and ok = hub_reachD(2) [OF assms]
  show "length (h_clients h) \<le> 200"
    using ok by (simp add: presence_ok_def total_card [OF wf] defaultMaxTotal_def)
  show per: "per_account h a = int (card {s \<in> dom (abs_hub h). sk_account s = a})" for a
    by (simp add: hub_wfD(11) [OF wf] population_card [OF wf])
  show "per_account h a \<le> 3" for a
    using ok by (simp add: per presence_ok_def defaultMaxPerAccount_def)
  show "map_of (room_of h r) s = Some p \<longleftrightarrow>
      map_of (h_clients h) s = Some p \<and> c_room (h_heap h p) = r" for r s p
    by (auto simp: hub_wfD(8) [OF wf] in_room_def split: option.split)
qed

theorem hub_stays_bounded_witness:
  "length (h_clients yard) \<le> 200 \<and> map_of (room_of yard ''yard'') phone = Some 0"
  using hub_stays_bounded [OF yard_reach] by (simp add: yard_clients) (simp add: hub_eval)

text \<open>C1: every command the hub processes does to the set of connected clients and to their
  mailboxes exactly what the specification of that command says, and answers the same error,
  whatever order the runtime ranges over the maps in.\<close>

theorem hub_implements_spec:
  assumes "hub_reach h" and "is_order ord (h_clients h)"
  shows "(reply_error (fst (hub_step conn_ops ord cmd (h, e))),
      abs_hub (fst (snd (hub_step conn_ops ord cmd (h, e)))),
      snd (snd (hub_step conn_ops ord cmd (h, e)))) = hub_spec 200 3 cmd (abs_hub h, e)"
  using step_refines [OF hub_reachD(1) [OF assms(1)] assms(2) hub_reachD(3) [OF assms(1)], of cmd e]
    hub_reachD(4,5) [OF assms(1)]
  by (simp add: defaultMaxTotal_def defaultMaxPerAccount_def)

theorem hub_implements_spec_witness:
  "abs_hub (fst (snd (hub_step conn_ops [phone, laptop] (CUnregister phone) (yard, calm)))) =
     [laptop \<mapsto> (''yard'', 0)]"
  using hub_implements_spec [OF yard_reach yard_order, of "CUnregister phone" calm]
  by (auto simp: yard_presence)

text \<open>
  kicking an account removes every connection of that account from the hub and asks each
  of them to close with the given code and reason, and touches nobody else: the other
  connections stay registered with their strikes and their mailboxes as they were.\<close>

theorem kick_cuts_the_account_only:
  assumes "hub_reach h" and "is_order ord (h_clients h)"
    and "(h', e') = do_kick conn_ops ord a co re (h, e)"
  shows "per_account h' a = 0 \<and>
    (\<forall>s. abs_hub h' s = (if sk_account s = a then None else abs_hub h s)) \<and>
    (\<forall>s. e' s = (if sk_account s = a \<and> abs_hub h s \<noteq> None then conn_close co re (e s) else e s))"
proof -
  have h': "h' = fst (do_kick conn_ops ord a co re (h, e))" "e' = snd (do_kick conn_ops ord a co re (h, e))"
    using assms(3) by (metis fst_conv, metis snd_conv)
  note k = conn.cut_all_spec [OF hub_reachD(1) [OF assms(1)] assms(2) refl, of co re "\<lambda>s. sk_account s = a" e]
  have wf: "hub_wf h'" and eq: "(abs_hub h', e') = spec_cut conn_close co re (\<lambda>s. sk_account s = a) (abs_hub h, e)"
    using k by (simp_all add: h' do_kick_def)
  have ab: "abs_hub h' = (\<lambda>s. if sk_account s = a then None else abs_hub h s)"
    and mb: "e' = (\<lambda>s. if sk_account s = a \<and> abs_hub h s \<noteq> None then conn_close co re (e s) else e s)"
    using eq by (simp_all add: spec_cut_def)
  have "{s \<in> dom (abs_hub h'). sk_account s = a} = {}" by (auto simp: ab)
  then have "per_account h' a = 0"
    by (simp only: hub_wfD(11) [OF wf] population_card [OF wf]) simp
  then show ?thesis by (simp add: ab mb)
qed

theorem kick_cuts_the_account_only_witness:
  "cn_closing (snd (do_kick conn_ops [phone, laptop] ''0000000a-0000-0000-0000-00000000000a'' 4001 ''unauthorized'' (yard, calm)) phone) =
     Some (CloseReason 4001 ''unauthorized'') \<and>
   cn_closing (snd (do_kick conn_ops [phone, laptop] ''0000000a-0000-0000-0000-00000000000a'' 4001 ''unauthorized'' (yard, calm)) laptop) = None"
  using kick_cuts_the_account_only [OF yard_reach yard_order prod.collapse, of "''0000000a-0000-0000-0000-00000000000a''" 4001 "''unauthorized''" calm]
  by (simp add: yard_presence calm_def conn_close_def new_conn_def)

text \<open>One publish in terms of the specification, in a form that can be iterated.\<close>

lemma publish_once:
  assumes "hub_wf h" and "is_order ord (h_clients h)" and "(h', e') = do_publish conn_ops ord room msg (h, e)"
  shows "hub_wf h'" and "is_order ord (h_clients h')"
    and "abs_hub h s = Some (room, n) \<Longrightarrow> abs_hub h' s = strike (has_space (e s)) (room, n)"
    and "abs_hub h s = Some (room, n) \<Longrightarrow> e' s = after_delivery has_space push_frame conn_close msg n (e s)"
    and "abs_hub h s = None \<Longrightarrow> abs_hub h' s = None \<and> e' s = e s"
proof -
  note p = conn.publish_spec [OF assms(1) is_order_room [OF assms(1,2)], of room msg e,
      folded assms(3), unfolded fst_conv snd_conv]
  show "hub_wf h'" by (rule p(1))
  have ab: "abs_hub h' = (\<lambda>s. if s \<in> room_members (abs_hub h) room
      then Option.bind (abs_hub h s) (strike (has_space (e s))) else abs_hub h s)"
    and mb: "e' = (\<lambda>s. if s \<in> room_members (abs_hub h) room
      then (case abs_hub h s of None \<Rightarrow> e s | Some (r, n) \<Rightarrow> after_delivery has_space push_frame conn_close msg n (e s))
      else e s)"
    using p(2) by (simp_all add: spec_deliver_to_def)
  have "dom (abs_hub h') \<subseteq> dom (abs_hub h)"
    by (auto simp: ab bind_eq_Some_conv split: if_splits)
  then show "is_order ord (h_clients h')"
    using assms(2) by (auto simp: is_order_def dom_abs_hub)
  show "abs_hub h s = Some (room, n) \<Longrightarrow> abs_hub h' s = strike (has_space (e s)) (room, n)"
    and "abs_hub h s = Some (room, n) \<Longrightarrow> e' s = after_delivery has_space push_frame conn_close msg n (e s)"
    and "abs_hub h s = None \<Longrightarrow> abs_hub h' s = None \<and> e' s = e s"
    by (auto simp: ab mb room_members_def)
qed

lemma publish_again:
  assumes "hub_wf h" and "is_order ord (h_clients h)"
    and "abs_hub h s = Some (room, 0)" and "\<not> has_space (e s)"
    and "abs_hub h t = Some (room, 0)" and "length (cn_queue (e t)) + k \<le> defaultSendBuffer"
    and "(h', e') = (do_publish conn_ops ord room msg ^^ k) (h, e)"
  shows "hub_wf h' \<and> is_order ord (h_clients h') \<and>
    abs_hub h' s = (if k < 3 then Some (room, int k) else None) \<and>
    e' s = (if k < 3 then e s else conn_close CloseTryAgainLater ReasonSlowConsumer (e s)) \<and>
    abs_hub h' t = Some (room, 0) \<and>
    e' t = (e t)\<lparr>cn_queue := cn_queue (e t) @ replicate k msg\<rparr>"
  using assms(6,7)
proof (induction k arbitrary: h' e')
  case 0
  with assms show ?case by simp
next
  case (Suc k)
  obtain h1 e1 where 1: "(h1, e1) = (do_publish conn_ops ord room msg ^^ k) (h, e)"
    by (metis prod.exhaust)
  with Suc.prems have 2: "(h', e') = do_publish conn_ops ord room msg (h1, e1)" by simp
  from Suc.IH [OF _ 1] Suc.prems(1) have ih: "hub_wf h1" "is_order ord (h_clients h1)"
    "abs_hub h1 s = (if k < 3 then Some (room, int k) else None)"
    "e1 s = (if k < 3 then e s else conn_close CloseTryAgainLater ReasonSlowConsumer (e s))"
    "abs_hub h1 t = Some (room, 0)"
    "e1 t = (e t)\<lparr>cn_queue := cn_queue (e t) @ replicate k msg\<rparr>"
    by simp_all
  note once = publish_once [OF ih(1,2) 2]
  have "has_space (e1 t)" using Suc.prems(1) by (simp add: ih(6) has_space_def)
  with once(3,4) [OF ih(5)] have T: "abs_hub h' t = Some (room, 0)"
    "e' t = (e t)\<lparr>cn_queue := cn_queue (e t) @ replicate (Suc k) msg\<rparr>"
    by (simp_all add: after_delivery_def ih(6) push_frame_def replicate_append_same)
  have S: "abs_hub h' s = (if Suc k < 3 then Some (room, int (Suc k)) else None) \<and>
    e' s = (if Suc k < 3 then e s else conn_close CloseTryAgainLater ReasonSlowConsumer (e s))"
  proof (cases "k < 3")
    case True
    with ih(3,4) once(3,4) [of s "int k"] assms(4) show ?thesis
      by (auto simp: after_delivery_def maxOverflowsBeforeEvict_def)
  next
    case False
    with ih(3,4) once(5) [of s] show ?thesis by simp
  qed
  from T S once(1,2) show ?case by simp
qed

text \<open>C3: a client that has stopped reading is evicted by the third consecutive message it cannot
  take, no earlier and no later, with code 1013 and the reason for slow consumers; and it costs
  nobody else anything: any other member of the room whose buffer has room for them receives
  every one of the messages, in order.\<close>

theorem slow_consumer_costs_only_himself:
  assumes "hub_reach h" and "is_order ord (h_clients h)"
    and "abs_hub h s = Some (room, 0)" and "\<not> has_space (e s)"
    and "abs_hub h t = Some (room, 0)" and "length (cn_queue (e t)) + k \<le> defaultSendBuffer"
    and "(h', e') = (do_publish conn_ops ord room msg ^^ k) (h, e)"
  shows "abs_hub h' s = (if k < 3 then Some (room, int k) else None) \<and>
    e' s = (if k < 3 then e s else conn_close CloseTryAgainLater ReasonSlowConsumer (e s)) \<and>
    abs_hub h' t = Some (room, 0) \<and>
    e' t = (e t)\<lparr>cn_queue := cn_queue (e t) @ replicate k msg\<rparr>"
  using publish_again [OF hub_reachD(1) [OF assms(1)] assms(2-7)] by blast

theorem slow_consumer_costs_only_himself_witness:
  "abs_hub (fst ((do_publish conn_ops [phone, laptop] ''yard'' ''m'' ^^ 2) (yard, jammed))) phone = Some (''yard'', 2) \<and>
   abs_hub (fst ((do_publish conn_ops [phone, laptop] ''yard'' ''m'' ^^ 3) (yard, jammed))) phone = None \<and>
   cn_queue (snd ((do_publish conn_ops [phone, laptop] ''yard'' ''m'' ^^ 3) (yard, jammed)) laptop) = [''m'', ''m'', ''m'']"
  using slow_consumer_costs_only_himself [OF yard_reach yard_order _ _ _ _ prod.collapse,
      of phone "''yard''" jammed laptop 2 "''m''"]
    slow_consumer_costs_only_himself [OF yard_reach yard_order _ _ _ _ prod.collapse,
      of phone "''yard''" jammed laptop 3 "''m''"]
  by (simp add: yard_presence jammed_def calm_def new_conn_def has_space_def defaultSendBuffer_def
      numeral_3_eq_3)

section \<open>Properties of the pumps\<close>

lemma pump_gone_stays:
  "pump_step p a q \<Longrightarrow> pp_pc p = PGone \<Longrightarrow> pp_pc q = PGone \<and> written [a] = [] \<and> byes [a] = []"
  by (induction rule: pump_step.induct) auto

lemma pump_reach: "pump_run new_pump as p \<Longrightarrow> pump_inv as p"
  by (rule pump_run_inv [OF _ pump_inv_init])

text \<open>C4: however the hub, the read pump, shutdown and the socket interleave, a connection's peer
  receives at most one bye, the bye carries the reason asked for first, and no frame follows it.\<close>

theorem one_bye_with_the_first_reason:
  assumes "pump_run new_pump as p"
  shows "(byes as = [] \<or> byes as = [hd (requests as)] \<and> requests as \<noteq> []) \<and>
    (\<forall>xs cr ys. as = xs @ WriteBye cr # ys \<longrightarrow> written ys = [] \<and> byes ys = [])"
proof (intro conjI allI impI)
  show "byes as = [] \<or> byes as = [hd (requests as)] \<and> requests as \<noteq> []"
    using pump_reach [OF assms] by (auto simp: pump_inv_def)
  fix xs cr ys
  assume "as = xs @ WriteBye cr # ys"
  with assms have "written ys = [] \<and> byes ys = [] \<and> pp_pc p = PGone"
  proof (induction arbitrary: ys rule: pump_run.induct)
    case (run_nil p)
    then show ?case by simp
  next
    case (run_snoc p acts q a r)
    show ?case
    proof (cases ys rule: rev_cases)
      case Nil
      with run_snoc have "a = WriteBye cr" by simp
      with run_snoc.hyps(2) Nil show ?thesis by (auto elim: step_WriteByeE)
    next
      case (snoc zs z)
      with run_snoc.prems have "acts = xs @ WriteBye cr # zs" "z = a" by auto
      with run_snoc.IH [of zs] pump_gone_stays [OF run_snoc.hyps(2)] snoc show ?thesis by simp
    qed
  qed
  then show "written ys = []" "byes ys = []" by simp_all
qed

text \<open>A run used by the witnesses: two frames, a kick and a late second request.\<close>

lemma kicked_run:
  "pump_run new_pump [Offer ''a'' True, Offer ''b'' True, SkipClosing, CloseReq (CloseReason 4001 ''unauthorized''),
     WriteMsg ''a'' True, CloseReq (CloseReason 1001 ''restart''), WriteBye (CloseReason 4001 ''unauthorized'')]
   (new_pump\<lparr>cn_queue := [''b''], cn_once := True, pp_pc := PGone\<rparr>)"
proof -
  have snoc: "pump_run p acts q \<Longrightarrow> pump_step q a r \<Longrightarrow> bs = acts @ [a] \<Longrightarrow> pump_run p bs r" for p acts q a r bs
    by (simp add: run_snoc)
  let ?cr = "CloseReason 4001 ''unauthorized''"
  have "pump_step new_pump (Offer ''a'' True) (new_pump\<lparr>cn_queue := [''a'']\<rparr>)"
    using offer_ok [of new_pump "''a''"] by (simp add: new_pump_def defaultSendBuffer_def)
  note r1 = snoc [OF run_nil this refl]
  have "pump_step (new_pump\<lparr>cn_queue := [''a'']\<rparr>) (Offer ''b'' True) (new_pump\<lparr>cn_queue := [''a'', ''b'']\<rparr>)"
    using offer_ok [of "new_pump\<lparr>cn_queue := [''a'']\<rparr>" "''b''"] by (simp add: new_pump_def defaultSendBuffer_def)
  note r2 = snoc [OF r1 this refl]
  let ?p3 = "new_pump\<lparr>cn_queue := [''a'', ''b''], pp_pc := PWait\<rparr>"
  have "pump_step (new_pump\<lparr>cn_queue := [''a'', ''b'']\<rparr>) SkipClosing ?p3"
    using top_skip [of "new_pump\<lparr>cn_queue := [''a'', ''b'']\<rparr>"] by (simp add: new_pump_def)
  note r3 = snoc [OF r2 this refl]
  let ?p4 = "?p3\<lparr>cn_once := True, cn_closing := Some ?cr\<rparr>"
  have "pump_step ?p3 (CloseReq ?cr) ?p4" using close_first [of ?p3 ?cr] by (simp add: new_pump_def)
  note r4 = snoc [OF r3 this refl]
  let ?p5 = "?p4\<lparr>cn_queue := [''b''], pp_pc := PTop\<rparr>"
  have "pump_step ?p4 (WriteMsg ''a'' True) ?p5"
    using wait_msg [of ?p4 "''a''" "[''b'']" True] by simp
  note r5 = snoc [OF r4 this refl]
  have "pump_step ?p5 (CloseReq (CloseReason 1001 ''restart'')) ?p5" by (rule close_again) simp
  note r6 = snoc [OF r5 this refl]
  have "pump_step ?p5 (WriteBye ?cr) (?p5\<lparr>cn_closing := None, pp_pc := PGone\<rparr>)"
    by (rule top_bye) simp_all
  note r7 = snoc [OF r6 this refl]
  then show ?thesis by (simp add: new_pump_def)
qed

theorem one_bye_with_the_first_reason_witness:
  "byes [Offer ''a'' True, Offer ''b'' True, SkipClosing, CloseReq (CloseReason 4001 ''unauthorized''),
     WriteMsg ''a'' True, CloseReq (CloseReason 1001 ''restart''), WriteBye (CloseReason 4001 ''unauthorized'')]
   = [CloseReason 4001 ''unauthorized'']"
  using one_bye_with_the_first_reason [OF kicked_run] by auto

text \<open>
  the frames put on a connection's wire are a prefix of the frames the hub queued for it,
  in order, without loss or duplication, the rest being still queued; the queue never exceeds its
  64 places; and once a close has been asked for at most one more frame is written.\<close>

theorem frames_in_order_and_close_is_prompt:
  assumes "pump_run new_pump as p"
  shows "accepted as = written as @ cn_queue p \<and> length (cn_queue p) \<le> 64 \<and>
    length (late_writes as) \<le> 1"
  using pump_reach [OF assms] by (simp add: pump_inv_def defaultSendBuffer_def)

theorem frames_in_order_and_close_is_prompt_witness:
  "length (late_writes [Offer ''a'' True, Offer ''b'' True, SkipClosing, CloseReq (CloseReason 4001 ''unauthorized''),
     WriteMsg ''a'' True, CloseReq (CloseReason 1001 ''restart''), WriteBye (CloseReason 4001 ''unauthorized'')]) \<le> 1"
  using frames_in_order_and_close_is_prompt [OF kicked_run] by simp

definition admitted :: "read_result \<times> bool \<Rightarrow> bool" where
  "admitted ra \<longleftrightarrow> fst ra \<noteq> ReadErr \<and> snd ra"

fun text_payload :: "read_result \<times> bool \<Rightarrow> frame list" where
  "text_payload (ReadFrame True payload, _) = [payload]"
| "text_payload _ = []"

lemma admitted_simps [simp]:
  "\<not> admitted (ReadErr, allow)" "admitted (ReadFrame is_text payload, allow) = allow"
  by (simp_all add: admitted_def)

text \<open>
  of what a client sends, the handler is given exactly the text frames that precede the
  first read error or the first frame over the rate limit, in order and with the connection's own
  identity; a frame over the limit ends the reading with code 1013 before the handler sees it.\<close>

theorem handler_sees_admitted_text_frames:
  "read_pump handler me room rs =
     (if handler then map (Inbound me room) (concat (map text_payload (takeWhile admitted rs))) else []) @
     (case dropWhile admitted rs of
        (ReadFrame is_text payload, False) # _ \<Rightarrow> [AskClose CloseTryAgainLater ReasonRateLimited]
      | _ \<Rightarrow> [])"
proof (induction rs)
  case (Cons x rs)
  obtain r allow where x: "x = (r, allow)" by (cases x)
  show ?case
  proof (cases r)
    case ReadErr
    with x show ?thesis by simp
  next
    case (ReadFrame is_text payload)
    with x Cons.IH show ?thesis by (cases handler; cases is_text; cases allow) simp_all
  qed
qed simp

end
