(* ===== verification/Database.thy ===== *)
theory Database
  imports Prelude
begin

text \<open>
  The PostgreSQL tables the platform packages read and write (\<^verbatim>\<open>migrations/\<close>), and how a
  statement runs. A store holds the rows; \<open>weather\<close> says, statement by statement, how
  the round trip goes: it works, it is refused before doing anything, or it is carried out
  and its answer is lost, each after some time on the database clock. Identifiers drawn by
  \<^verbatim>\<open>gen_random_uuid()\<close> and tokens drawn by \<^verbatim>\<open>crypto/rand\<close> are arguments of the operations.
  Rows keep the order they were inserted in, which is also the order a query without a
  deciding \<^verbatim>\<open>ORDER BY\<close> lists them in.
\<close>

section \<open>Errors\<close>

text \<open>The error values of the packages: the sentinels by name, and any failure of a statement.\<close>

datatype app_error =
    EDb
  | ESessionInvalid
  | EAccountNotFound | EAlreadyForgotten
  | ECiphertextTooShort | ECipher
  | EItemNotFound | ECommentNotFound | EEmptyTitle | EEmptyComment | ETooLong | EForbidden
  | EUnknownGame | EUnknownCharacter | EStepsRange | ELlm | ELlmUnparsable
  | EAssetNotFound

type_synonym 'a res = "app_error + 'a"

section \<open>Rows\<close>

type_synonym bytes = string

record account_row =
  ar_id :: string
  ar_provider :: string
  ar_ref :: bytes
  ar_identity :: bytes
  ar_first :: "bytes option"
  ar_last :: "bytes option"
  ar_avatar :: "bytes option"
  ar_sex :: "bytes option"
  ar_birthday :: "bytes option"
  ar_role :: string
  ar_status :: string
  ar_last_login :: "int option"
  ar_consent_at :: "int option"
  ar_consent_version :: "string option"
  ar_created :: int
  ar_updated :: int
  ar_deleted :: "int option"
  ar_forgotten :: "int option"

record session_row =
  sr_id :: string
  sr_account :: string
  sr_hash :: bytes
  sr_expires :: int
  sr_created :: int
  sr_deleted :: "int option"

record item_row =
  it_id :: string
  it_account :: string
  it_title :: runes
  it_body :: runes
  it_created :: int
  it_deleted :: "int option"

record comment_row =
  cm_id :: string
  cm_item :: string
  cm_account :: string
  cm_body :: runes
  cm_created :: int
  cm_deleted :: "int option"

text \<open>A vote is the pair of what is voted on and who votes; the pair is unique.\<close>

type_synonym vote_row = "string \<times> string"

record run_row =
  rn_id :: string
  rn_account :: string
  rn_game :: string
  rn_character :: string
  rn_success :: bool
  rn_steps :: int
  rn_created :: int
  rn_deleted :: "int option"

record asset_row =
  as_game :: string
  as_key :: runes
  as_type :: runes
  as_bytes :: bytes

datatype outcome = Done | Refused | Lost

record store =
  accounts :: "account_row list"
  sessions :: "session_row list"
  settings :: "(string \<times> string) list"
  items :: "item_row list"
  item_votes :: "vote_row list"
  comments :: "comment_row list"
  comment_votes :: "vote_row list"
  runs :: "run_row list"
  assets :: "asset_row list"
  clock :: int
  weather :: "(outcome \<times> nat) list"

section \<open>Running a statement\<close>

type_synonym 'a op = "store \<Rightarrow> 'a res \<times> store"

definition statement :: "'a op \<Rightarrow> 'a op" where
  "statement f \<sigma> =
     (case weather \<sigma> of
        [] \<Rightarrow> f \<sigma>
      | (oc, dt) # ws \<Rightarrow>
          (let \<sigma>' = \<sigma>\<lparr>clock := clock \<sigma> + int dt, weather := ws\<rparr> in
           (case oc of
              Done \<Rightarrow> f \<sigma>'
            | Refused \<Rightarrow> (Inl EDb, \<sigma>')
            | Lost \<Rightarrow> (Inl EDb, snd (f \<sigma>')))))"

text \<open>Go's \<^verbatim>\<open>if err != nil { return ..., err }\<close> between two calls.\<close>

definition and_then :: "'a op \<Rightarrow> ('a \<Rightarrow> 'b op) \<Rightarrow> 'b op" where
  "and_then f g \<sigma> = (case f \<sigma> of (Inl err, \<sigma>') \<Rightarrow> (Inl err, \<sigma>') | (Inr x, \<sigma>') \<Rightarrow> g x \<sigma>')"

definition return_op :: "'a res \<Rightarrow> 'a op" where
  "return_op r \<sigma> = (r, \<sigma>)"

text \<open>
  What a statement may have done to the store: it did nothing, or it did \<open>f\<close>, at some
  later time. Used to carry an invariant over every operation at once.
\<close>

definition advance :: "nat \<Rightarrow> (outcome \<times> nat) list \<Rightarrow> store \<Rightarrow> store" where
  "advance dt ws \<sigma> = \<sigma>\<lparr>clock := clock \<sigma> + int dt, weather := ws\<rparr>"

lemma statement_cases:
  obtains (untouched) dt ws where "statement f \<sigma> = (Inl EDb, advance dt ws \<sigma>)"
  | (lost) dt ws where "statement f \<sigma> = (Inl EDb, snd (f (advance dt ws \<sigma>)))"
  | (ran) dt ws where "statement f \<sigma> = f (advance dt ws \<sigma>)"
proof (cases "weather \<sigma>")
  case Nil
  then have "advance 0 [] \<sigma> = \<sigma>" by (cases \<sigma>) (simp add: advance_def)
  with Nil have "statement f \<sigma> = f (advance 0 [] \<sigma>)" by (simp add: statement_def)
  then show ?thesis by (rule ran)
next
  case (Cons w ws)
  obtain oc dt where w: "w = (oc, dt)" by (cases w)
  show ?thesis
  proof (cases oc)
    case Done
    with Cons w have "statement f \<sigma> = f (advance dt ws \<sigma>)" by (simp add: statement_def advance_def Let_def)
    then show ?thesis by (rule ran)
  next
    case Refused
    with Cons w have "statement f \<sigma> = (Inl EDb, advance dt ws \<sigma>)"
      by (simp add: statement_def advance_def Let_def)
    then show ?thesis by (rule untouched)
  next
    case Lost
    with Cons w have "statement f \<sigma> = (Inl EDb, snd (f (advance dt ws \<sigma>)))"
      by (simp add: statement_def advance_def Let_def)
    then show ?thesis by (rule lost)
  qed
qed

lemma statement_inv:
  assumes "\<And>dt ws. P (advance dt ws \<sigma>)" and "\<And>\<sigma>. P \<sigma> \<Longrightarrow> P (snd (f \<sigma>))"
  shows "P (snd (statement f \<sigma>))"
  by (cases f \<sigma> rule: statement_cases) (use assms in simp_all)

lemma statement_clear [simp]: "weather \<sigma> = [] \<Longrightarrow> statement f \<sigma> = f \<sigma>"
  by (simp add: statement_def)

lemma statement_ok:
  assumes "statement f \<sigma> = (Inr x, \<sigma>')"
  obtains dt ws where "f (advance dt ws \<sigma>) = (Inr x, \<sigma>')"
  by (cases f \<sigma> rule: statement_cases) (use assms that in auto)

lemma and_then_Inr:
  "and_then f g \<sigma> = (Inr y, \<sigma>'') \<longleftrightarrow> (\<exists>x \<sigma>'. f \<sigma> = (Inr x, \<sigma>') \<and> g x \<sigma>' = (Inr y, \<sigma>''))"
  by (auto simp: and_then_def split: prod.splits sum.splits)

lemma advance_simps [simp]:
  "accounts (advance dt ws \<sigma>) = accounts \<sigma>" "sessions (advance dt ws \<sigma>) = sessions \<sigma>"
  "settings (advance dt ws \<sigma>) = settings \<sigma>" "items (advance dt ws \<sigma>) = items \<sigma>"
  "item_votes (advance dt ws \<sigma>) = item_votes \<sigma>" "comments (advance dt ws \<sigma>) = comments \<sigma>"
  "comment_votes (advance dt ws \<sigma>) = comment_votes \<sigma>" "runs (advance dt ws \<sigma>) = runs \<sigma>"
  "assets (advance dt ws \<sigma>) = assets \<sigma>"
  "clock (advance dt ws \<sigma>) = clock \<sigma> + int dt"
  by (simp_all add: advance_def)

section \<open>UUIDs\<close>

definition hex_digit :: "char \<Rightarrow> bool" where
  "hex_digit c =
     (let n = (of_char c :: nat) in (48 \<le> n \<and> n \<le> 57) \<or> (65 \<le> n \<and> n \<le> 70) \<or> (97 \<le> n \<and> n \<le> 102))"

text \<open>\<^verbatim>\<open>validUUID\<close>: the anchored regular expression of \<^verbatim>\<open>respond.go\<close>.\<close>

definition validUUID :: "string \<Rightarrow> bool" where
  "validUUID s \<longleftrightarrow> length s = 36 \<and>
     (\<forall>i \<in> set [0..<36]. if i \<in> {8, 13, 18, 23} then s ! i = CHR ''-'' else hex_digit (s ! i))"

definition char_lower :: "char \<Rightarrow> char" where
  "char_lower c =
     (if 65 \<le> (of_char c :: nat) \<and> (of_char c :: nat) \<le> 90 then char_of (of_char c + 32 :: nat) else c)"

text \<open>
  The cast \<^verbatim>\<open>$1::uuid\<close> and its rendering \<^verbatim>\<open>id::text\<close>: the value is printed in lower case.
  PostgreSQL also reads a few other spellings (braces, no hyphens); every id that reaches a
  cast has passed \<open>validUUID\<close> or came out of the database, so they are left out.
\<close>

definition pg_uuid :: "string \<Rightarrow> string option" where
  "pg_uuid s = (if validUUID s then Some (map char_lower s) else None)"

definition canonical :: "string \<Rightarrow> bool" where
  "canonical s \<longleftrightarrow> pg_uuid s = Some s"

text \<open>A cast that fails is a failed statement.\<close>

definition with_uuid :: "string \<Rightarrow> (string \<Rightarrow> 'a op) \<Rightarrow> 'a op" where
  "with_uuid s f \<sigma> = (case pg_uuid s of None \<Rightarrow> (Inl EDb, \<sigma>) | Some u \<Rightarrow> f u \<sigma>)"

lemma with_uuid_Some: "pg_uuid s = Some u \<Longrightarrow> with_uuid s f \<sigma> = f u \<sigma>"
  by (simp add: with_uuid_def)

lemma of_char_lower:
  "(of_char (char_lower c) :: nat) =
     (if 65 \<le> (of_char c :: nat) \<and> (of_char c :: nat) \<le> 90 then of_char c + 32 else of_char c)"
  by (simp add: char_lower_def)

lemma char_lower_idem [simp]: "char_lower (char_lower c) = char_lower c"
  using of_char_lower [of c] by (auto simp: char_lower_def split: if_splits)

lemma map_char_lower_idem [simp]: "map char_lower (map char_lower s) = map char_lower s"
  by simp

lemma hex_digit_lower: "hex_digit c \<Longrightarrow> hex_digit (char_lower c)"
  by (auto simp: hex_digit_def Let_def of_char_lower)

lemma hyphen_lower [simp]: "char_lower CHR ''-'' = CHR ''-''"
  by (simp add: char_lower_def)

lemma validUUID_lower: "validUUID s \<Longrightarrow> validUUID (map char_lower s)"
  unfolding validUUID_def by (simp add: hex_digit_lower del: upt_rec_numeral)

lemma pg_uuid_canonical: "pg_uuid s = Some u \<Longrightarrow> canonical u"
  by (auto simp: pg_uuid_def canonical_def validUUID_lower split: if_splits)

lemma canonical_valid: "canonical s \<Longrightarrow> validUUID s"
  by (simp add: canonical_def pg_uuid_def split: if_splits)

lemma pg_uuid_Some: "canonical s \<Longrightarrow> pg_uuid s = Some s"
  by (simp add: canonical_def)

lemma pg_uuid_eq_iff: "canonical s \<Longrightarrow> pg_uuid s = Some u \<longleftrightarrow> s = u"
  by (auto simp: canonical_def)

section \<open>Rows for the witnesses\<close>

abbreviation ann_id :: string where "ann_id \<equiv> ''0000000a-0000-0000-0000-00000000000a''"
abbreviation bob_id :: string where "bob_id \<equiv> ''0000000b-0000-0000-0000-00000000000b''"
abbreviation sess_id :: string where "sess_id \<equiv> ''0000000c-0000-0000-0000-00000000000c''"
abbreviation sess2_id :: string where "sess2_id \<equiv> ''0000000d-0000-0000-0000-00000000000d''"

definition plain_account :: "string \<Rightarrow> string \<Rightarrow> string \<Rightarrow> string \<Rightarrow> bytes \<Rightarrow> account_row" where
  "plain_account i r st prov ref =
     \<lparr>ar_id = i, ar_provider = prov, ar_ref = ref, ar_identity = '''', ar_first = None, ar_last = None,
      ar_avatar = None, ar_sex = None, ar_birthday = None, ar_role = r, ar_status = st,
      ar_last_login = None, ar_consent_at = None, ar_consent_version = None, ar_created = 0,
      ar_updated = 0, ar_deleted = None, ar_forgotten = None\<rparr>"

definition empty_store :: store where
  "empty_store = \<lparr>accounts = [], sessions = [], settings = [], items = [], item_votes = [],
     comments = [], comment_votes = [], runs = [], assets = [], clock = 0, weather = []\<rparr>"

lemma demo_uuids:
  "canonical ann_id" "canonical bob_id" "canonical sess_id" "canonical sess2_id"
  by code_simp+

end
