(* ===== verification/Session.thy ===== *)
theory Session
  imports Database
begin

text \<open>
  Server-side sessions (\<^verbatim>\<open>internal/session/session.go\<close>) over the \<^verbatim>\<open>sessions\<close> and
  \<^verbatim>\<open>accounts\<close> tables. \<open>hm\<close> is HMAC-SHA256 (\<^verbatim>\<open>crypto.HMACSHA256\<close>), a parameter; the raw
  token \<^verbatim>\<open>crypto.RandomToken\<close> draws and the row id the database draws are arguments of
  \<open>create_session\<close>.
\<close>

type_synonym hmac = "bytes \<Rightarrow> bytes \<Rightarrow> bytes"

record manager =
  mg_key :: bytes
  mg_ttl :: int

record resolved =
  rs_id :: string
  rs_account :: string

section \<open>The statements\<close>

definition insert_session :: "string \<Rightarrow> string \<Rightarrow> bytes \<Rightarrow> int \<Rightarrow> unit op" where
  "insert_session nid account token_hash expires \<sigma> =
     (case pg_uuid account of
        None \<Rightarrow> (Inl EDb, \<sigma>)
      | Some a \<Rightarrow>
          if a \<notin> ar_id ` set (accounts \<sigma>) \<or> token_hash \<in> sr_hash ` set (sessions \<sigma>) \<or>
             nid \<in> sr_id ` set (sessions \<sigma>)
          then (Inl EDb, \<sigma>)
          else (Inr (), \<sigma>\<lparr>sessions := sessions \<sigma> @
            [\<lparr>sr_id = nid, sr_account = a, sr_hash = token_hash, sr_expires = expires,
              sr_created = clock \<sigma>, sr_deleted = None\<rparr>]\<rparr>))"

definition token_live :: "store \<Rightarrow> session_row \<Rightarrow> bool" where
  "token_live \<sigma> r \<longleftrightarrow> sr_deleted r = None \<and> clock \<sigma> < sr_expires r"

definition select_by_token :: "bytes \<Rightarrow> session_row option op" where
  "select_by_token token_hash \<sigma> =
     (Inr (find (\<lambda>r. sr_hash r = token_hash \<and> token_live \<sigma> r) (sessions \<sigma>)), \<sigma>)"

definition account_in_good_standing :: "store \<Rightarrow> string \<Rightarrow> bool" where
  "account_in_good_standing \<sigma> a \<longleftrightarrow>
     list_ex (\<lambda>r. ar_id r = a \<and> ar_deleted r = None \<and> ar_status r = ''approved'') (accounts \<sigma>)"

definition select_alive :: "string list \<Rightarrow> string list op" where
  "select_alive ids \<sigma> =
     (if \<forall>i \<in> set ids. pg_uuid i \<noteq> None then
        (Inr (map sr_id (filter (\<lambda>r. Some (sr_id r) \<in> pg_uuid ` set ids \<and> token_live \<sigma> r \<and>
            account_in_good_standing \<sigma> (sr_account r)) (sessions \<sigma>))), \<sigma>)
      else (Inl EDb, \<sigma>))"

definition stamp_deleted :: "int \<Rightarrow> session_row \<Rightarrow> session_row" where
  "stamp_deleted t r = (if sr_deleted r = None then r\<lparr>sr_deleted := Some t\<rparr> else r)"

definition delete_sessions :: "(session_row \<Rightarrow> bool) \<Rightarrow> unit op" where
  "delete_sessions P \<sigma> =
     (Inr (), \<sigma>\<lparr>sessions :=
        map (\<lambda>r. if P r then stamp_deleted (clock \<sigma>) r else r) (sessions \<sigma>)\<rparr>)"

section \<open>The operations of Manager\<close>

definition hash_token :: "hmac \<Rightarrow> manager \<Rightarrow> string \<Rightarrow> bytes" where
  "hash_token hm m raw = hm (mg_key m) raw"

definition create_session :: "hmac \<Rightarrow> manager \<Rightarrow> string \<Rightarrow> string \<Rightarrow> string \<Rightarrow> string op" where
  "create_session hm m nid raw account \<sigma> =
     and_then (statement (insert_session nid account (hash_token hm m raw) (clock \<sigma> + mg_ttl m)))
       (\<lambda>_. return_op (Inr raw)) \<sigma>"

definition resolve :: "hmac \<Rightarrow> manager \<Rightarrow> string \<Rightarrow> resolved op" where
  "resolve hm m raw =
     (if raw = '''' then return_op (Inl ESessionInvalid)
      else and_then (statement (select_by_token (hash_token hm m raw)))
        (\<lambda>row. return_op (case row of
             None \<Rightarrow> Inl ESessionInvalid
           | Some r \<Rightarrow> Inr \<lparr>rs_id = sr_id r, rs_account = sr_account r\<rparr>)))"

definition revoked_sessions :: "string list \<Rightarrow> string list op" where
  "revoked_sessions ids =
     (if ids = [] then return_op (Inr [])
      else and_then (statement (select_alive ids))
        (\<lambda>alive. return_op (Inr (filter (\<lambda>i. i \<notin> set alive) ids))))"

definition revoke :: "hmac \<Rightarrow> manager \<Rightarrow> string \<Rightarrow> unit op" where
  "revoke hm m raw = statement (delete_sessions (\<lambda>r. sr_hash r = hash_token hm m raw))"

definition revoke_all_for_account :: "string \<Rightarrow> unit op" where
  "revoke_all_for_account account =
     statement (\<lambda>\<sigma>. case pg_uuid account of
        None \<Rightarrow> (Inl EDb, \<sigma>) | Some a \<Rightarrow> delete_sessions (\<lambda>r. sr_account r = a) \<sigma>)"

section \<open>Well-formed tables\<close>

text \<open>What the constraints of the migrations guarantee about the two tables.\<close>

definition session_table_ok :: "store \<Rightarrow> bool" where
  "session_table_ok \<sigma> \<longleftrightarrow>
     distinct (map sr_id (sessions \<sigma>)) \<and> distinct (map sr_hash (sessions \<sigma>)) \<and>
     (\<forall>r \<in> set (sessions \<sigma>). canonical (sr_id r) \<and> sr_account r \<in> ar_id ` set (accounts \<sigma>))"

text \<open>
  The rule both guards of the application apply: a session acts for an account while it is
  neither revoked nor expired and the account is neither deleted nor unapproved.
\<close>

definition session_live :: "store \<Rightarrow> string \<Rightarrow> bool" where
  "session_live \<sigma> i \<longleftrightarrow>
     list_ex (\<lambda>r. sr_id r = i \<and> token_live \<sigma> r \<and> account_in_good_standing \<sigma> (sr_account r)) (sessions \<sigma>)"

lemma session_table_advance [simp]: "session_table_ok (advance dt ws \<sigma>) = session_table_ok \<sigma>"
  by (simp add: session_table_ok_def)

lemma insert_session_ok [inv_intros]:
  "canonical nid \<Longrightarrow> session_table_ok \<sigma> \<Longrightarrow> session_table_ok (snd (insert_session nid a h x \<sigma>))"
  by (auto simp: insert_session_def session_table_ok_def split: option.splits)

lemma stamp_simps [simp]:
  "sr_id (stamp_deleted t r) = sr_id r" "sr_hash (stamp_deleted t r) = sr_hash r"
  "sr_account (stamp_deleted t r) = sr_account r" "sr_expires (stamp_deleted t r) = sr_expires r"
  "sr_deleted (stamp_deleted t r) \<noteq> None"
  by (simp_all add: stamp_deleted_def)

lemma map_stamped [simp]:
  "map sr_id (map (\<lambda>r. if P r then stamp_deleted t r else r) rs) = map sr_id rs"
  "map sr_hash (map (\<lambda>r. if P r then stamp_deleted t r else r) rs) = map sr_hash rs"
  by (induction rs) auto

lemma delete_sessions_ok [inv_intros]:
  "session_table_ok \<sigma> \<Longrightarrow> session_table_ok (snd (delete_sessions P \<sigma>))"
  by (auto simp: session_table_ok_def delete_sessions_def simp del: map_map)

lemma find_distinct:
  assumes "distinct (map f xs)" and "r \<in> set xs"
  shows "find (\<lambda>x. f x = f r \<and> P x) xs = (if P r then Some r else None)"
  using assms by (induction xs) (auto simp: find_None_iff, metis image_eqI)

lemma session_live_row:
  assumes "session_table_ok \<sigma>" and "r \<in> set (sessions \<sigma>)"
  shows "session_live \<sigma> (sr_id r) \<longleftrightarrow> token_live \<sigma> r \<and> account_in_good_standing \<sigma> (sr_account r)"
proof -
  have "distinct (map sr_id (sessions \<sigma>))" using assms(1) by (simp add: session_table_ok_def)
  then have "q = r" if "q \<in> set (sessions \<sigma>)" "sr_id q = sr_id r" for q
    using that assms(2) by (metis distinct_map inj_on_eq_iff)
  then show ?thesis using assms(2) by (auto simp: session_live_def list_ex_iff)
qed

text \<open>The batched query names exactly the ids that are not live at the moment it runs.\<close>

lemma revoked_sessions_dead:
  assumes "revoked_sessions ids \<sigma> = (Inr dead, \<sigma>')" and "\<forall>i \<in> set ids. canonical i"
  shows "dead = filter (\<lambda>i. \<not> session_live \<sigma>' i) ids"
proof (cases "ids = []")
  case True
  with assms(1) show ?thesis by (simp add: revoked_sessions_def return_op_def)
next
  case False
  with assms(1) obtain alive where
    st: "statement (select_alive ids) \<sigma> = (Inr alive, \<sigma>')" and dead: "dead = filter (\<lambda>i. i \<notin> set alive) ids"
    by (auto simp: revoked_sessions_def and_then_Inr return_op_def)
  from st obtain dt ws where "select_alive ids (advance dt ws \<sigma>) = (Inr alive, \<sigma>')"
    by (rule statement_ok)
  then have \<sigma>': "\<sigma>' = advance dt ws \<sigma>" and al: "select_alive ids \<sigma>' = (Inr alive, \<sigma>')"
    by (auto simp: select_alive_def split: if_splits)
  have "i \<in> set alive \<longleftrightarrow> session_live \<sigma>' i" if "i \<in> set ids" for i
    using al that assms(2)
    by (fastforce simp: select_alive_def session_live_def list_ex_iff image_iff pg_uuid_Some split: if_splits)
  then show ?thesis unfolding dead by (intro filter_cong refl) auto
qed

lemma resolve_Inr:
  assumes "resolve hm m raw \<sigma> = (Inr rs, \<sigma>')"
  obtains r dt ws where "r \<in> set (sessions \<sigma>)" "sr_hash r = hash_token hm m raw" "token_live \<sigma>' r"
    "rs = \<lparr>rs_id = sr_id r, rs_account = sr_account r\<rparr>" "\<sigma>' = advance dt ws \<sigma>"
proof -
  from assms obtain row where st: "statement (select_by_token (hash_token hm m raw)) \<sigma> = (Inr row, \<sigma>')"
    and rs: "(case row of None \<Rightarrow> Inl ESessionInvalid
        | Some r \<Rightarrow> Inr \<lparr>rs_id = sr_id r, rs_account = sr_account r\<rparr>) = Inr rs"
    by (auto simp: resolve_def and_then_Inr return_op_def split: if_splits)
  from st obtain dt ws where "select_by_token (hash_token hm m raw) (advance dt ws \<sigma>) = (Inr row, \<sigma>')"
    by (rule statement_ok)
  then have s': "\<sigma>' = advance dt ws \<sigma>"
    and row: "row = find (\<lambda>r. sr_hash r = hash_token hm m raw \<and> token_live \<sigma>' r) (sessions \<sigma>)"
    by (auto simp: select_by_token_def)
  from rs row obtain r where "r \<in> set (sessions \<sigma>)" "sr_hash r = hash_token hm m raw" "token_live \<sigma>' r"
    "rs = \<lparr>rs_id = sr_id r, rs_account = sr_account r\<rparr>"
    by (auto dest: find_SomeD split: option.splits)
  with s' that show ?thesis by blast
qed

lemma resolve_clear:
  "weather \<sigma> = [] \<Longrightarrow> raw \<noteq> '''' \<Longrightarrow> fst (resolve hm m raw \<sigma>) =
     (case find (\<lambda>r. sr_hash r = hash_token hm m raw \<and> token_live \<sigma> r) (sessions \<sigma>) of
        None \<Rightarrow> Inl ESessionInvalid
      | Some r \<Rightarrow> Inr \<lparr>rs_id = sr_id r, rs_account = sr_account r\<rparr>)"
  by (simp add: resolve_def and_then_def return_op_def select_by_token_def split: option.split)

section \<open>Properties\<close>

text \<open>Tables for the witnesses: two approved accounts, one with a session.\<close>

definition demo_store :: store where
  "demo_store = empty_store\<lparr>
     accounts := [plain_account ann_id ''user'' ''approved'' ''vk'' ''ra'',
                  plain_account bob_id ''user'' ''approved'' ''vk'' ''rb''],
     sessions := [\<lparr>sr_id = sess_id, sr_account = ann_id, sr_hash = ''hk'', sr_expires = 100,
                   sr_created = 0, sr_deleted = None\<rparr>]\<rparr>"

abbreviation demo_hmac :: hmac where "demo_hmac \<equiv> (\<lambda>k raw. raw @ k)"

definition demo_manager :: manager where "demo_manager = \<lparr>mg_key = ''k'', mg_ttl = 50\<rparr>"

lemmas demo_defs = demo_store_def empty_store_def plain_account_def demo_manager_def hash_token_def

lemma demo_session_table: "session_table_ok demo_store"
  by (simp add: session_table_ok_def demo_defs demo_uuids)

lemma create_session_row:
  assumes "create_session hm m nid raw account \<sigma> = (Inr tok, \<sigma>')"
  obtains a dt where "tok = raw" and "pg_uuid account = Some a" and "accounts \<sigma>' = accounts \<sigma>"
    and "hash_token hm m raw \<notin> sr_hash ` set (sessions \<sigma>)" and "a \<in> ar_id ` set (accounts \<sigma>)"
    and "sessions \<sigma>' = sessions \<sigma> @ [\<lparr>sr_id = nid, sr_account = a, sr_hash = hash_token hm m raw,
        sr_expires = clock \<sigma> + mg_ttl m, sr_created = clock \<sigma> + int dt, sr_deleted = None\<rparr>]"
    and "clock \<sigma>' = clock \<sigma> + int dt"
proof -
  let ?h = "hash_token hm m raw" and ?x = "clock \<sigma> + mg_ttl m"
  from assms have tok: "tok = raw"
    and st: "statement (insert_session nid account ?h ?x) \<sigma> = (Inr (), \<sigma>')"
    by (auto simp: create_session_def and_then_Inr return_op_def)
  from st obtain dt ws where ins: "insert_session nid account ?h ?x (advance dt ws \<sigma>) = (Inr (), \<sigma>')"
    by (rule statement_ok)
  with tok that [of _ dt] show ?thesis
    by (auto simp: insert_session_def split: option.splits if_splits)
qed

lemma find_appended:
  "k \<notin> f ` set rs \<Longrightarrow> f q = k \<Longrightarrow> find (\<lambda>r. f r = k \<and> P r) (rs @ [q]) = (if P q then Some q else None)"
  by (induction rs) (auto simp: image_iff)

lemma create_then_resolve:
  assumes "create_session hm m nid raw account \<sigma> = (Inr tok, \<sigma>')" and "raw \<noteq> ''''"
    and "weather \<sigma>' = []"
  shows "tok = raw \<and> (\<exists>a. pg_uuid account = Some a \<and>
     fst (resolve hm m tok (\<sigma>'\<lparr>clock := t\<rparr>)) =
       (if t < clock \<sigma> + mg_ttl m then Inr \<lparr>rs_id = nid, rs_account = a\<rparr> else Inl ESessionInvalid))"
proof -
  obtain a dt where tok: "tok = raw" and a: "pg_uuid account = Some a"
    and new: "hash_token hm m raw \<notin> sr_hash ` set (sessions \<sigma>)"
    and se: "sessions \<sigma>' = sessions \<sigma> @ [\<lparr>sr_id = nid, sr_account = a, sr_hash = hash_token hm m raw,
        sr_expires = clock \<sigma> + mg_ttl m, sr_created = clock \<sigma> + int dt, sr_deleted = None\<rparr>]"
    using assms(1) by (rule create_session_row)
  show ?thesis
    using tok a assms(2,3) find_appended [where f = sr_hash, OF new, of "\<lparr>sr_id = nid, sr_account = a,
        sr_hash = hash_token hm m raw, sr_expires = clock \<sigma> + mg_ttl m, sr_created = clock \<sigma> + int dt,
        sr_deleted = None\<rparr>"]
    by (auto simp: resolve_clear se token_live_def)
qed

text \<open>
  a token the manager has just issued resolves to its own session and account, and to nothing
  else, until exactly its time to live has passed on the database clock.\<close>

theorem issued_token_resolves_until_it_expires:
  assumes "create_session hm m nid raw account \<sigma> = (Inr tok, \<sigma>')" and "raw \<noteq> ''''"
    and "weather \<sigma>' = []"
  shows "tok = raw \<and> (\<exists>a. pg_uuid account = Some a \<and>
     fst (resolve hm m tok (\<sigma>'\<lparr>clock := t\<rparr>)) =
       (if t < clock \<sigma> + mg_ttl m then Inr \<lparr>rs_id = nid, rs_account = a\<rparr> else Inl ESessionInvalid))"
  using assms by (rule create_then_resolve)

theorem issued_token_resolves_until_it_expires_witness:
  "fst (resolve demo_hmac demo_manager ''t''
     (snd (create_session demo_hmac demo_manager sess2_id ''t'' bob_id demo_store)\<lparr>clock := 49\<rparr>)) =
   Inr \<lparr>rs_id = sess2_id, rs_account = bob_id\<rparr>"
proof -
  let ?r = "create_session demo_hmac demo_manager sess2_id ''t'' bob_id demo_store"
  have u: "pg_uuid bob_id = Some bob_id" by (rule pg_uuid_Some [OF demo_uuids(2)])
  have r: "fst ?r = Inr ''t''" "weather (snd ?r) = []"
    using u by (simp_all add: create_session_def and_then_def return_op_def insert_session_def demo_defs)
  have "?r = (Inr ''t'', snd ?r)" using r(1) by (metis prod.collapse)
  from issued_token_resolves_until_it_expires [OF this _ r(2), of 49] u show ?thesis
    by (simp add: demo_store_def empty_store_def demo_manager_def)
qed

lemma statement_delete:
  assumes "statement (delete_sessions P) \<sigma> = (Inr u, \<sigma>')"
  obtains t where "sessions \<sigma>' = map (\<lambda>r. if P r then stamp_deleted t r else r) (sessions \<sigma>)"
    and "accounts \<sigma>' = accounts \<sigma>"
proof -
  obtain dt ws where "delete_sessions P (advance dt ws \<sigma>) = (Inr u, \<sigma>')"
    using assms by (rule statement_ok)
  with that [of "clock (advance dt ws \<sigma>)"] show ?thesis by (auto simp: delete_sessions_def)
qed

lemma revoke_all_deletes:
  assumes "revoke_all_for_account account \<sigma> = (Inr u, \<sigma>')"
  obtains a t where "pg_uuid account = Some a"
    and "sessions \<sigma>' = map (\<lambda>r. if sr_account r = a then stamp_deleted t r else r) (sessions \<sigma>)"
    and "accounts \<sigma>' = accounts \<sigma>"
proof (cases "pg_uuid account")
  case None
  with assms show ?thesis by (auto simp: revoke_all_for_account_def elim!: statement_ok)
next
  case (Some a)
  with assms have "statement (delete_sessions (\<lambda>r. sr_account r = a)) \<sigma> = (Inr u, \<sigma>')"
    by (simp add: revoke_all_for_account_def)
  then show ?thesis by (rule statement_delete) (use that Some in blast)
qed

lemma stamped_not_live [simp]: "\<not> token_live \<sigma> (stamp_deleted t r)"
  by (simp add: token_live_def del: not_None_eq)

lemma live_after_stamp:
  assumes "r \<in> set (map (\<lambda>r. if P r then stamp_deleted t r else r) rs)" and "token_live \<sigma> r"
  shows "r \<in> set rs \<and> \<not> P r"
  using assms by (induction rs) (auto split: if_splits)

text \<open>C7: once every session of an account has been revoked, no token resolves to that account at any
  later time, however the database behaves; once a token has been revoked it resolves to nothing;
  and the sessions of other accounts and other tokens are left exactly as they were.\<close>

theorem revocation_is_final_and_exact:
  assumes "revoke_all_for_account account \<sigma> = (Inr (), \<sigma>1)"
    and "revoke hm m tok \<sigma> = (Inr (), \<sigma>2)"
  shows "(\<forall>raw t ws rs. fst (resolve hm m raw (\<sigma>1\<lparr>clock := t, weather := ws\<rparr>)) = Inr rs \<longrightarrow>
            pg_uuid account \<noteq> Some (rs_account rs)) \<and>
    (\<forall>t ws rs. fst (resolve hm m tok (\<sigma>2\<lparr>clock := t, weather := ws\<rparr>)) \<noteq> Inr rs) \<and>
    (\<forall>r \<in> set (sessions \<sigma>). pg_uuid account \<noteq> Some (sr_account r) \<longrightarrow> r \<in> set (sessions \<sigma>1)) \<and>
    (\<forall>r \<in> set (sessions \<sigma>). sr_hash r \<noteq> hash_token hm m tok \<longrightarrow> r \<in> set (sessions \<sigma>2))"
proof -
  obtain a t1 where a: "pg_uuid account = Some a"
    and s1: "sessions \<sigma>1 = map (\<lambda>r. if sr_account r = a then stamp_deleted t1 r else r) (sessions \<sigma>)"
    by (rule revoke_all_deletes [OF assms(1)])
  obtain t2 where s2: "sessions \<sigma>2 =
      map (\<lambda>r. if sr_hash r = hash_token hm m tok then stamp_deleted t2 r else r) (sessions \<sigma>)"
    by (rule statement_delete [OF assms(2) [unfolded revoke_def]])
  have 1: "pg_uuid account \<noteq> Some (rs_account rs)"
    if ok: "fst (resolve hm m raw (\<sigma>1\<lparr>clock := t, weather := ws\<rparr>)) = Inr rs" for raw t ws rs
  proof -
    obtain \<sigma>' where "resolve hm m raw (\<sigma>1\<lparr>clock := t, weather := ws\<rparr>) = (Inr rs, \<sigma>')"
      using ok by (metis prod.exhaust_sel)
    then obtain r where "r \<in> set (sessions \<sigma>1)" "token_live \<sigma>' r" "rs_account rs = sr_account r"
      by (rule resolve_Inr) simp
    with live_after_stamp [of r "\<lambda>r. sr_account r = a" t1 "sessions \<sigma>", folded s1] a show ?thesis by (metis option.inject)
  qed
  have 2: "fst (resolve hm m tok (\<sigma>2\<lparr>clock := t, weather := ws\<rparr>)) \<noteq> Inr rs" for t ws rs
  proof
    assume "fst (resolve hm m tok (\<sigma>2\<lparr>clock := t, weather := ws\<rparr>)) = Inr rs"
    then obtain \<sigma>' where "resolve hm m tok (\<sigma>2\<lparr>clock := t, weather := ws\<rparr>) = (Inr rs, \<sigma>')"
      by (cases "resolve hm m tok (\<sigma>2\<lparr>clock := t, weather := ws\<rparr>)") simp
    then obtain r where "r \<in> set (sessions \<sigma>2)" "token_live \<sigma>' r" "sr_hash r = hash_token hm m tok"
      by (rule resolve_Inr) simp
    with live_after_stamp [of r "\<lambda>r. sr_hash r = hash_token hm m tok" t2 "sessions \<sigma>", folded s2] show False by metis
  qed
  show ?thesis using 1 2 by (auto simp: s1 s2 a image_iff)
qed

theorem revocation_is_final_and_exact_witness:
  "fst (resolve demo_hmac demo_manager ''h'' (snd (revoke_all_for_account ann_id demo_store))) \<noteq>
     Inr \<lparr>rs_id = sess_id, rs_account = ann_id\<rparr>"
proof -
  have u: "pg_uuid ann_id = Some ann_id" by (rule pg_uuid_Some [OF demo_uuids(1)])
  obtain \<sigma>1 where 1: "revoke_all_for_account ann_id demo_store = (Inr (), \<sigma>1)"
    using u by (simp add: revoke_all_for_account_def delete_sessions_def demo_defs)
  obtain \<sigma>2 where 2: "revoke demo_hmac demo_manager ''h'' demo_store = (Inr (), \<sigma>2)"
    by (simp add: revoke_def delete_sessions_def demo_defs)
  have "\<sigma>1\<lparr>clock := clock \<sigma>1, weather := weather \<sigma>1\<rparr> = \<sigma>1" by simp
  with revocation_is_final_and_exact [OF 1 2] u 1 show ?thesis
    by (metis resolved.select_convs(2) snd_conv)
qed

end
