(* ===== verification/Revalidate.thy ===== *)
theory Revalidate
  imports Realtime Session
begin

text \<open>
  The periodic re-check of live sockets (\<^verbatim>\<open>internal/realtime/revalidate.go\<close>). The batched
  question \<^verbatim>\<open>SessionCheck\<close> is an interface: the locale \<open>session_check\<close> states what an
  answer means, the sweep is proved against it, and \<open>revoked_sessions\<close> of theory
  \<open>Session\<close> provides it. A sweep has three phases and the hub goes on working between
  them, so the snapshot and the closing see two different hubs.
\<close>

text \<open>In seconds.\<close>

definition RevalidateInterval :: int where "RevalidateInterval = 30"

section \<open>SessionCheck.Revoked\<close>

text \<open>The loop that collects one question per session, skipping the unidentified.\<close>

fun session_ids :: "string list \<Rightarrow> credential list \<Rightarrow> string list" where
  "session_ids seen [] = []"
| "session_ids seen (cr # live) =
     (if cr_session cr = '''' \<or> cr_session cr \<in> set seen then session_ids seen live
      else cr_session cr # session_ids (cr_session cr # seen) live)"

type_synonym 'w check = "string list \<Rightarrow> 'w \<Rightarrow> string list res \<times> 'w"

definition revoked :: "'w check \<Rightarrow> credential list \<Rightarrow> 'w \<Rightarrow> string list res \<times> 'w" where
  "revoked check live w =
     (let ids = session_ids [] live in
      if ids = [] then (Inr [], w)
      else case check ids w of
        (Inl err, w') \<Rightarrow> (Inl err, w')
      | (Inr dead, w') \<Rightarrow>
          (Inr (if dead = [] then []
                else map cr_conn (filter (\<lambda>cr. cr_session cr \<noteq> '''' \<and> cr_session cr \<in> set dead) live)), w'))"

section \<open>The sweep\<close>

text \<open>
  Phase one and two: the snapshot and the question. Each early return is an outcome of its own: the hub has
  stopped, nobody is connected, the question failed, nobody is dead. Only \<open>Losers\<close> goes on to close.
\<close>

datatype sweep_answer =
    HubStopped
  | NobodyLive
  | CouldNotTell app_error
  | AllInOrder
  | Losers "string list"

definition sweep_ask :: "'w check \<Rightarrow> sink list \<Rightarrow> hub \<Rightarrow> 'w \<Rightarrow> sweep_answer \<times> 'w" where
  "sweep_ask check ord h w =
     (if h_done h then (HubStopped, w)
      else let live = do_live ord h in
        if live = [] then (NobodyLive, w)
        else case revoked check live w of
          (Inl err, w') \<Rightarrow> (CouldNotTell err, w')
        | (Inr ids, w') \<Rightarrow> (if ids = [] then AllInOrder else Losers ids, w'))"

text \<open>Phase three, on the hub as it then is.\<close>

definition sweep_close :: "'e sink_ops \<Rightarrow> sink list \<Rightarrow> sweep_answer \<Rightarrow> hub \<times> 'e \<Rightarrow> hub \<times> 'e" where
  "sweep_close ops ord answer he =
     (case answer of
        Losers ids \<Rightarrow>
          if ids = [] \<or> h_done (fst he) then he
          else do_close_set ops ord ids CloseUnauthorized ReasonUnauthorized he
      | _ \<Rightarrow> he)"

text \<open>Whether the sweep learnt who is dead, and whom it then means to close.\<close>

definition told :: "sweep_answer \<Rightarrow> bool" where
  "told answer = (case answer of HubStopped \<Rightarrow> False | CouldNotTell err \<Rightarrow> False | _ \<Rightarrow> True)"

definition losers :: "sweep_answer \<Rightarrow> string list" where
  "losers answer = (case answer of Losers ids \<Rightarrow> ids | _ \<Rightarrow> [])"

lemma sweep_close_losers:
  "sweep_close ops ord answer he =
     (if losers answer = [] \<or> h_done (fst he) then he
      else do_close_set ops ord (losers answer) CloseUnauthorized ReasonUnauthorized he)"
  by (cases answer) (auto simp: sweep_close_def losers_def)

lemma sweep_ask_outcome:
  assumes "sweep_ask check ord h w = (answer, w')"
  shows "answer = HubStopped \<longleftrightarrow> h_done h"
    and "answer = CouldNotTell err \<longleftrightarrow> \<not> h_done h \<and> fst (revoked check (do_live ord h) w) = Inl err"
    and "told answer \<Longrightarrow> do_live ord h \<noteq> [] \<Longrightarrow> revoked check (do_live ord h) w = (Inr (losers answer), w')"
    and "told answer \<Longrightarrow> do_live ord h = [] \<Longrightarrow> losers answer = []"
  using assms by (auto simp: sweep_ask_def told_def losers_def revoked_def Let_def split: if_splits prod.splits sum.splits)

section \<open>The contract of a check\<close>

lemma set_session_ids: "set (session_ids seen live) = cr_session ` set live - {''''} - set seen"
  by (induction seen live rule: session_ids.induct) auto

lemma distinct_session_ids: "distinct (session_ids seen live)"
  by (induction seen live rule: session_ids.induct) (auto simp: set_session_ids)

lemma session_ids_Nil: "session_ids [] live = [] \<longleftrightarrow> (\<forall>cr \<in> set live. cr_session cr = '''')"
  using set_session_ids [of "[]" live] by (metis (no_types, lifting) Diff_empty Diff_eq_empty_iff
      image_subset_iff insertI1 list.set(1) set_empty singletonD)

text \<open>
  \<open>dead w i\<close>: the session \<open>i\<close> may no longer act in the world \<open>w\<close>. A check that
  answers at all names exactly the dead among the ids it was asked about, as of the world it
  leaves behind; \<open>askable\<close> are the ids it can be asked about.
\<close>

locale session_check =
  fixes check :: "'w check"
    and dead :: "'w \<Rightarrow> string \<Rightarrow> bool"
    and askable :: "string \<Rightarrow> bool"
  assumes check_names_the_dead:
    "check ids w = (Inr ds, w') \<Longrightarrow> \<forall>i \<in> set ids. askable i \<Longrightarrow> set ds = {i \<in> set ids. dead w' i}"
begin

lemma revoked_exact:
  assumes "revoked check live w = (Inr ids, w')" and "\<forall>cr \<in> set live. cr_session cr = '''' \<or> askable (cr_session cr)"
  shows "set ids = cr_conn ` {cr \<in> set live. cr_session cr \<noteq> '''' \<and> dead w' (cr_session cr)}"
proof (cases "session_ids [] live = []")
  case True
  with assms(1) show ?thesis by (auto simp: revoked_def session_ids_Nil)
next
  case False
  let ?q = "session_ids [] live"
  from assms(1) False obtain ds where c: "check ?q w = (Inr ds, w')"
    and ids: "ids = (if ds = [] then []
       else map cr_conn (filter (\<lambda>cr. cr_session cr \<noteq> '''' \<and> cr_session cr \<in> set ds) live))"
    by (auto simp: revoked_def Let_def split: prod.splits sum.splits)
  have "\<forall>i \<in> set ?q. askable i" using assms(2) by (auto simp: set_session_ids)
  with check_names_the_dead [OF c] have ds: "set ds = {i \<in> set ?q. dead w' i}" by blast
  have "set ids = cr_conn ` {cr \<in> set live. cr_session cr \<noteq> '''' \<and> cr_session cr \<in> set ds}"
    by (auto simp: ids)
  also have "\<dots> = cr_conn ` {cr \<in> set live. cr_session cr \<noteq> '''' \<and> dead w' (cr_session cr)}"
    unfolding ds by (intro image_cong) (auto simp: set_session_ids)
  finally show ?thesis .
qed

lemma sweep_ask_exact:
  assumes "sweep_ask check ord h w = (answer, w')" and "told answer" and "is_order ord (h_clients h)"
    and "\<forall>s \<in> dom (abs_hub h). sk_session s = '''' \<or> askable (sk_session s)"
  shows "set (losers answer) = sk_id ` {s \<in> dom (abs_hub h). sk_session s \<noteq> '''' \<and> dead w' (sk_session s)}"
proof -
  let ?live = "do_live ord h"
  have dom: "set (range_keys ord (h_clients h)) = dom (abs_hub h)"
    by (auto simp: set_range_keys [OF assms(3)] abs_hub_def)
  show ?thesis
  proof (cases "?live = []")
    case True
    then have "dom (abs_hub h) = {}" unfolding dom [symmetric] by (simp add: do_live_def)
    then show ?thesis using sweep_ask_outcome(4) [OF assms(1,2) True] by simp
  next
    case False
    have "set (losers answer) = cr_conn ` {cr \<in> set ?live. cr_session cr \<noteq> '''' \<and> dead w' (cr_session cr)}"
      by (rule revoked_exact [OF sweep_ask_outcome(3) [OF assms(1,2) False]]) (use assms(4) dom in \<open>auto simp: do_live_def\<close>)
    then show ?thesis using dom by (force simp: do_live_def image_iff)
  qed
qed

text \<open>
  The whole sweep: of the sockets present both at the snapshot and at the closing, exactly
  those whose session is dead are cut; a socket that came in between is left alone.
\<close>

lemma sweep_exact:
  assumes "sweep_ask check ord h w = (answer, w')" and "told answer" and "is_order ord (h_clients h)"
    and "\<forall>s \<in> dom (abs_hub h). sk_session s \<noteq> '''' \<and> askable (sk_session s)"
    and "hub_wf h1" and "is_order ord1 (h_clients h1)" and "\<not> h_done h1"
    and ids_name_one: "\<And>s t. s \<in> dom (abs_hub h) \<Longrightarrow> t \<in> dom (abs_hub h1) \<Longrightarrow> sk_id s = sk_id t \<Longrightarrow> s = t"
  shows "(abs_hub (fst (sweep_close conn_ops ord1 answer (h1, e))),
          snd (sweep_close conn_ops ord1 answer (h1, e))) =
    spec_cut conn_close CloseUnauthorized ReasonUnauthorized
      (\<lambda>s. s \<in> dom (abs_hub h) \<and> dead w' (sk_session s)) (abs_hub h1, e)"
proof -
  define ids where "ids = losers answer"
  have ids: "set ids = sk_id ` {s \<in> dom (abs_hub h). dead w' (sk_session s)}"
  proof -
    have "{s \<in> dom (abs_hub h). sk_session s \<noteq> '''' \<and> dead w' (sk_session s)} =
        {s \<in> dom (abs_hub h). dead w' (sk_session s)}" using assms(4) by blast
    moreover have "\<forall>s \<in> dom (abs_hub h). sk_session s = '''' \<or> askable (sk_session s)"
      using assms(4) by blast
    ultimately show ?thesis using sweep_ask_exact [OF assms(1,2,3)] by (simp add: ids_def)
  qed
  have hit: "sk_id s \<in> set ids \<longleftrightarrow> s \<in> dom (abs_hub h) \<and> dead w' (sk_session s)"
    if "s \<in> dom (abs_hub h1)" for s
  proof
    assume "sk_id s \<in> set ids"
    then obtain t where t: "t \<in> dom (abs_hub h)" "dead w' (sk_session t)" "sk_id t = sk_id s"
      unfolding ids by force
    from ids_name_one [OF t(1) that t(3)] t(1,2) show "s \<in> dom (abs_hub h) \<and> dead w' (sk_session s)" by simp
  next
    assume "s \<in> dom (abs_hub h) \<and> dead w' (sk_session s)"
    then show "sk_id s \<in> set ids" unfolding ids by blast
  qed
  have "(abs_hub (fst (sweep_close conn_ops ord1 answer (h1, e))),
          snd (sweep_close conn_ops ord1 answer (h1, e))) =
      spec_cut conn_close CloseUnauthorized ReasonUnauthorized (\<lambda>s. sk_id s \<in> set ids) (abs_hub h1, e)"
  proof (cases "ids = []")
    case True
    then show ?thesis by (simp add: sweep_close_losers ids_def spec_cut_def)
  next
    case False
    then show ?thesis
      using conn.cut_all_spec(2) [OF assms(5,6) refl, of CloseUnauthorized ReasonUnauthorized
          "\<lambda>s. sk_id s \<in> set ids" e] assms(7)
      by (simp add: sweep_close_losers ids_def do_close_set_def)
  qed
  also have "\<dots> = spec_cut conn_close CloseUnauthorized ReasonUnauthorized
      (\<lambda>s. s \<in> dom (abs_hub h) \<and> dead w' (sk_session s)) (abs_hub h1, e)"
  proof -
    have "(if sk_id s \<in> set ids then None else abs_hub h1 s) =
        (if s \<in> dom (abs_hub h) \<and> dead w' (sk_session s) then None else abs_hub h1 s)" for s
      using hit [of s] by (cases "abs_hub h1 s") auto
    moreover have "(sk_id s \<in> set ids \<and> abs_hub h1 s \<noteq> None) =
        ((s \<in> dom (abs_hub h) \<and> dead w' (sk_session s)) \<and> abs_hub h1 s \<noteq> None)" for s
      using hit [of s] by (cases "abs_hub h1 s") auto
    ultimately show ?thesis by (simp only: spec_cut_def Let_def prod.case)
  qed
  finally show ?thesis .
qed

end

text \<open>The batched query of the session manager keeps that contract.\<close>

interpretation sessions: session_check revoked_sessions "\<lambda>\<sigma> i. \<not> session_live \<sigma> i" canonical
proof unfold_locales
  fix ids w ds w'
  assume "revoked_sessions ids w = (Inr ds, w')" and "\<forall>i \<in> set ids. canonical i"
  from revoked_sessions_dead [OF this] show "set ds = {i \<in> set ids. \<not> session_live w' i}" by auto
qed

section \<open>Properties\<close>

lemma canonical_nonempty: "canonical i \<Longrightarrow> i \<noteq> ''''"
  using canonical_valid [of i] unfolding validUUID_def by force

lemma revoked_fails:
  "fst (revoked revoked_sessions live \<sigma>) = Inl err \<longleftrightarrow> fst (revoked_sessions (session_ids [] live) \<sigma>) = Inl err"
  by (auto simp: revoked_def revoked_sessions_def return_op_def Let_def split: prod.splits sum.splits)

lemma revoked_told:
  assumes "weather \<sigma> = []" and "\<forall>i \<in> set ids. canonical i"
  shows "\<exists>ds. revoked_sessions ids \<sigma> = (Inr ds, \<sigma>)"
  using assms by (auto simp: revoked_sessions_def return_op_def and_then_def select_alive_def pg_uuid_Some)

text \<open>C8: a sweep ends in one of three ways. The hub has stopped, or the question failed - exactly when the one
  query over the sessions of the sockets fails - and then nobody is closed. In every other case it closes
  exactly the sockets, among those it saw, whose session is no longer live when the answer was computed,
  be that nobody or everybody, with the terminal code 4001, and leaves every other connection alone, those
  that arrived while it was asking included.\<close>

theorem sweep_cuts_exactly_the_dead:
  assumes "hub_reach h" and "is_order ord (h_clients h)"
    and "\<forall>s \<in> dom (abs_hub h). canonical (sk_session s)"
    and "sweep_ask revoked_sessions ord h \<sigma> = (answer, \<sigma>')"
    and "hub_reach h1" and "is_order ord1 (h_clients h1)" and "\<not> h_done h1"
    and "\<forall>s \<in> dom (abs_hub h). \<forall>t \<in> dom (abs_hub h1). sk_id s = sk_id t \<longrightarrow> s = t"
    and "(h2, e2) = sweep_close conn_ops ord1 answer (h1, e)"
  shows "(answer = HubStopped \<longleftrightarrow> h_done h) \<and>
    (\<forall>err. answer = CouldNotTell err \<longleftrightarrow>
       \<not> h_done h \<and> fst (revoked_sessions (session_ids [] (do_live ord h)) \<sigma>) = Inl err) \<and>
    (if answer = HubStopped \<or> (\<exists>err. answer = CouldNotTell err) then h2 = h1 \<and> e2 = e
     else \<forall>s. let hit = s \<in> dom (abs_hub h) \<and> \<not> session_live \<sigma>' (sk_session s) in
       abs_hub h2 s = (if hit then None else abs_hub h1 s) \<and>
       e2 s = (if hit \<and> abs_hub h1 s \<noteq> None then conn_close 4001 ''unauthorized'' (e s) else e s))"
proof (intro conjI allI)
  show "answer = HubStopped \<longleftrightarrow> h_done h" by (rule sweep_ask_outcome(1) [OF assms(4)])
  show "answer = CouldNotTell err \<longleftrightarrow> \<not> h_done h \<and> fst (revoked_sessions (session_ids [] (do_live ord h)) \<sigma>) = Inl err" for err
    using sweep_ask_outcome(2) [OF assms(4)] by (simp add: revoked_fails)
  show "if answer = HubStopped \<or> (\<exists>err. answer = CouldNotTell err) then h2 = h1 \<and> e2 = e
     else \<forall>s. let hit = s \<in> dom (abs_hub h) \<and> \<not> session_live \<sigma>' (sk_session s) in
       abs_hub h2 s = (if hit then None else abs_hub h1 s) \<and>
       e2 s = (if hit \<and> abs_hub h1 s \<noteq> None then conn_close 4001 ''unauthorized'' (e s) else e s)"
  proof (cases "told answer")
    case False
    then have "answer = HubStopped \<or> (\<exists>err. answer = CouldNotTell err)" by (cases answer) (simp_all add: told_def)
    with assms(9) show ?thesis by (auto simp: sweep_close_def)
  next
    case True
    have ok: "\<forall>s \<in> dom (abs_hub h). sk_session s \<noteq> '''' \<and> canonical (sk_session s)"
      using assms(3) canonical_nonempty by blast
    have "(abs_hub (fst (sweep_close conn_ops ord1 answer (h1, e))),
            snd (sweep_close conn_ops ord1 answer (h1, e))) =
      spec_cut conn_close CloseUnauthorized ReasonUnauthorized
        (\<lambda>s. s \<in> dom (abs_hub h) \<and> \<not> session_live \<sigma>' (sk_session s)) (abs_hub h1, e)"
      by (rule sessions.sweep_exact [OF assms(4) True assms(2) ok hub_reachD(1) [OF assms(5)]
          assms(6,7)]) (use assms(8) in blast)
    then have ab: "abs_hub h2 = (\<lambda>s. if s \<in> dom (abs_hub h) \<and> \<not> session_live \<sigma>' (sk_session s)
        then None else abs_hub h1 s)"
      and mb: "e2 = (\<lambda>s. if (s \<in> dom (abs_hub h) \<and> \<not> session_live \<sigma>' (sk_session s)) \<and> abs_hub h1 s \<noteq> None
        then conn_close CloseUnauthorized ReasonUnauthorized (e s) else e s)"
      using assms(9) [symmetric] by (simp_all add: spec_cut_def)
    have "\<not> (answer = HubStopped \<or> (\<exists>err. answer = CouldNotTell err))" using True by (auto simp: told_def)
    then show ?thesis
      unfolding ab mb Let_def by (auto simp: CloseUnauthorized_def ReasonUnauthorized_def)
  qed
qed

text \<open>
  When the database answers, no socket outlives its authorisation past a sweep: every
  connection left in the hub holds a live session of an approved account, and none that did was
  dropped.\<close>

theorem sweep_leaves_only_live_sessions:
  assumes "hub_reach h" and "\<not> h_done h" and "is_order ord (h_clients h)"
    and "\<forall>s \<in> dom (abs_hub h). canonical (sk_session s)" and "weather \<sigma> = []"
    and "(h2, e2) = sweep_close conn_ops ord (fst (sweep_ask revoked_sessions ord h \<sigma>)) (h, e)"
  shows "dom (abs_hub h2) = {s \<in> dom (abs_hub h). session_live \<sigma> (sk_session s)}"
proof -
  let ?live = "do_live ord h"
  have dom: "set (range_keys ord (h_clients h)) = dom (abs_hub h)"
    by (auto simp: set_range_keys [OF assms(3)] abs_hub_def)
  have ok: "\<forall>s \<in> dom (abs_hub h). sk_session s \<noteq> '''' \<and> canonical (sk_session s)"
    using assms(4) canonical_nonempty by blast
  have "cr_session ` set ?live = sk_session ` dom (abs_hub h)" using dom by (force simp: do_live_def image_iff)
  then have "\<forall>i \<in> set (session_ids [] ?live). canonical i" using assms(4) by (auto simp: set_session_ids)
  then obtain ds where c: "revoked_sessions (session_ids [] ?live) \<sigma> = (Inr ds, \<sigma>)" using revoked_told [OF assms(5)] by blast
  obtain answer \<sigma>' where a: "sweep_ask revoked_sessions ord h \<sigma> = (answer, \<sigma>')" by fastforce
  have "answer \<noteq> CouldNotTell err" for err
    using sweep_ask_outcome(2) [OF a, of err] c revoked_fails [of ?live \<sigma> err] by simp
  then have t: "told answer" using sweep_ask_outcome(1) [OF a] assms(2) by (cases answer) (auto simp: told_def)
  have s': "\<sigma>' = \<sigma>" using a c assms(2) by (auto simp: sweep_ask_def revoked_def Let_def split: if_splits)
  have "(abs_hub (fst (sweep_close conn_ops ord answer (h, e))),
        snd (sweep_close conn_ops ord answer (h, e))) =
    spec_cut conn_close CloseUnauthorized ReasonUnauthorized
      (\<lambda>s. s \<in> dom (abs_hub h) \<and> \<not> session_live \<sigma> (sk_session s)) (abs_hub h, e)"
    by (rule sessions.sweep_exact [OF a [unfolded s'] t assms(3) ok hub_reachD(1) [OF assms(1)] assms(3,2)])
      (use hub_reachD(3) [OF assms(1)] in \<open>auto simp: unique_ids_def\<close>)
  then have "abs_hub h2 = (\<lambda>s. if s \<in> dom (abs_hub h) \<and> \<not> session_live \<sigma> (sk_session s)
    then None else abs_hub h s)"
    using assms(6) [symmetric] a by (simp add: spec_cut_def)
  then show ?thesis by (auto split: if_splits)
qed

section \<open>Witnesses\<close>

text \<open>In the demo tables the phone's session is live and the laptop's is unknown.\<close>

lemma demo_live: "session_live demo_store sess_id" "\<not> session_live demo_store sess2_id"
  by (simp_all add: session_live_def token_live_def account_in_good_standing_def demo_defs)

lemma yard_dom: "dom (abs_hub yard) = {phone, laptop}"
  by (auto simp: yard_presence)

lemma yard_sessions: "\<forall>s \<in> dom (abs_hub yard). canonical (sk_session s)"
  unfolding yard_dom using demo_uuids(3,4) by simp

lemma yard_open: "\<not> h_done yard"
  by (simp add: hub_eval)

theorem sweep_leaves_only_live_sessions_witness:
  "dom (abs_hub (fst (sweep_close conn_ops [phone, laptop]
     (fst (sweep_ask revoked_sessions [phone, laptop] yard demo_store)) (yard, calm)))) = {phone}"
proof -
  have w: "weather demo_store = []" by (simp add: demo_defs)
  have "{s \<in> {phone, laptop}. session_live demo_store (sk_session s)} = {phone}"
    using demo_live by auto
  then show ?thesis
    using sweep_leaves_only_live_sessions [OF yard_reach yard_open yard_order yard_sessions w prod.collapse]
    unfolding yard_dom by simp
qed

theorem sweep_cuts_exactly_the_dead_witness:
  "\<exists>ids. fst (sweep_ask revoked_sessions [phone, laptop] yard demo_store) = Losers ids \<and>
     abs_hub (fst (sweep_close conn_ops [phone, laptop] (Losers ids) (yard, calm))) laptop = None \<and>
     abs_hub (fst (sweep_close conn_ops [phone, laptop] (Losers ids) (yard, calm))) phone = Some (''yard'', 0)"
proof -
  have k: "range_keys [phone, laptop] (h_clients yard) = [phone, laptop]"
    by (simp add: range_keys_def yard_clients)
  have u: "pg_uuid sess_id = Some sess_id" "pg_uuid sess2_id = Some sess2_id"
    using demo_uuids(3,4) by (simp_all add: canonical_def)
  have a: "sweep_ask revoked_sessions [phone, laptop] yard demo_store = (Losers [''c2''], demo_store)"
    using u yard_open
    by (simp add: sweep_ask_def do_live_def k revoked_def revoked_sessions_def and_then_def return_op_def
        select_alive_def token_live_def account_in_good_standing_def demo_defs Let_def)
  have i: "\<forall>s \<in> dom (abs_hub yard). \<forall>t \<in> dom (abs_hub yard). sk_id s = sk_id t \<longrightarrow> s = t"
    unfolding yard_dom by simp
  have "(let hit = s \<in> dom (abs_hub yard) \<and> \<not> session_live demo_store (sk_session s) in
      abs_hub (fst (sweep_close conn_ops [phone, laptop] (Losers [''c2'']) (yard, calm))) s =
      (if hit then None else abs_hub yard s))" for s
    using sweep_cuts_exactly_the_dead [OF yard_reach yard_order yard_sessions a yard_reach yard_order
        yard_open i prod.collapse]
    by (simp add: Let_def)
  from this [of phone] this [of laptop] show ?thesis
    unfolding yard_dom Let_def using demo_live by (simp add: a yard_presence)
qed

end
