(* ===== verification/Account.thy ===== *)
theory Account
  imports Database
begin

text \<open>
  Accounts (\<^verbatim>\<open>internal/account\<close>, with the wrappers of \<^verbatim>\<open>internal/crypto\<close>): the personal data
  encrypted on write and decrypted on read, the blind index that recognises a returning
  person, the allowlist status and the role. AES-256-GCM and HMAC-SHA256 are the parameters
  \<open>vt_seal\<close>, \<open>vt_open\<close> and \<open>vt_index\<close> of a \<open>vault\<close>; what the code needs of
  them is \<open>vault_ok\<close>. Nonces, replacement references and row ids are drawn outside and
  passed in.
\<close>

section \<open>Constants and types\<close>

definition ConsentVersion :: string where "ConsentVersion = ''v4''"

definition ProviderVK :: string where "ProviderVK = ''vk''"
definition ProviderYandex :: string where "ProviderYandex = ''yandex''"
definition StatusPending :: string where "StatusPending = ''pending''"
definition StatusApproved :: string where "StatusApproved = ''approved''"
definition StatusBlocked :: string where "StatusBlocked = ''blocked''"
definition RoleUser :: string where "RoleUser = ''user''"
definition RoleAdmin :: string where "RoleAdmin = ''admin''"
definition RoleSuperadmin :: string where "RoleSuperadmin = ''superadmin''"

lemmas account_consts = ProviderVK_def ProviderYandex_def StatusPending_def StatusApproved_def
  StatusBlocked_def RoleUser_def RoleAdmin_def RoleSuperadmin_def

record account =
  ac_id :: string
  ac_role :: string
  ac_status :: string
  ac_provider :: string
  ac_user_id :: runes
  ac_first :: runes
  ac_last :: runes
  ac_avatar :: runes
  ac_sex :: runes
  ac_birthday :: runes
  ac_handle :: string
  ac_created :: int

definition display_name :: "account \<Rightarrow> runes" where
  "display_name a =
     (let n = trim_space (ac_first a @ ascii '' '' @ ac_last a) in
      if n = [] then ascii (''psycho-'' @ ac_handle a) else n)"

definition profile_url :: "account \<Rightarrow> runes" where
  "profile_url a =
     (if ac_user_id a = [] then []
      else if ac_provider a = ProviderVK then ascii ''https://vk.com/id'' @ ac_user_id a else [])"

definition is_admin :: "account \<Rightarrow> bool" where
  "is_admin a \<longleftrightarrow> ac_role a = RoleAdmin \<or> ac_role a = RoleSuperadmin"

definition is_superadmin :: "account \<Rightarrow> bool" where
  "is_superadmin a \<longleftrightarrow> ac_role a = RoleSuperadmin"

definition is_approved :: "account \<Rightarrow> bool" where
  "is_approved a \<longleftrightarrow> ac_status a = StatusApproved"

section \<open>Encryption at rest\<close>

record vault =
  vt_nonce_size :: nat
  vt_seal :: "bytes \<Rightarrow> runes \<Rightarrow> bytes"
  vt_open :: "bytes \<Rightarrow> bytes \<Rightarrow> runes option"
  vt_index :: "runes \<Rightarrow> bytes"

text \<open>AEAD correctness: what was sealed opens under the same nonce.\<close>

definition vault_ok :: "vault \<Rightarrow> bool" where
  "vault_ok v \<longleftrightarrow> 0 < vt_nonce_size v \<and>
     (\<forall>n p. length n = vt_nonce_size v \<longrightarrow> vt_open v n (vt_seal v n p) = Some p)"

definition encrypt_string :: "vault \<Rightarrow> bytes \<Rightarrow> runes \<Rightarrow> bytes" where
  "encrypt_string v nonce p = nonce @ vt_seal v nonce p"

definition decrypt_string :: "vault \<Rightarrow> bytes option \<Rightarrow> runes res" where
  "decrypt_string v blob =
     (case blob of None \<Rightarrow> Inr []
      | Some b \<Rightarrow>
          if length b < vt_nonce_size v then Inl ECiphertextTooShort
          else case vt_open v (take (vt_nonce_size v) b) (drop (vt_nonce_size v) b) of
            None \<Rightarrow> Inl ECipher | Some p \<Rightarrow> Inr p)"

definition enc_optional :: "vault \<Rightarrow> bytes \<Rightarrow> runes \<Rightarrow> bytes option" where
  "enc_optional v nonce p = (if p = [] then None else Some (encrypt_string v nonce p))"

definition dec_optional :: "vault \<Rightarrow> bytes option \<Rightarrow> runes res" where
  "dec_optional v blob =
     (case blob of None \<Rightarrow> Inr [] | Some b \<Rightarrow> if b = [] then Inr [] else decrypt_string v (Some b))"

lemma decrypt_encrypt [simp]:
  "vault_ok v \<Longrightarrow> length n = vt_nonce_size v \<Longrightarrow> decrypt_string v (Some (encrypt_string v n p)) = Inr p"
  by (simp add: decrypt_string_def encrypt_string_def vault_ok_def)

lemma dec_enc_optional [simp]:
  "vault_ok v \<Longrightarrow> length n = vt_nonce_size v \<Longrightarrow> dec_optional v (enc_optional v n p) = Inr p"
  by (auto simp: dec_optional_def enc_optional_def vault_ok_def encrypt_string_def [symmetric])
    (auto simp: encrypt_string_def vault_ok_def)

section \<open>Decrypting a row\<close>

definition res_bind :: "'a res \<Rightarrow> ('a \<Rightarrow> 'b res) \<Rightarrow> 'b res" where
  "res_bind r f = (case r of Inl err \<Rightarrow> Inl err | Inr x \<Rightarrow> f x)"

lemma res_bind_simps [simp]: "res_bind (Inr x) f = f x" "res_bind (Inl err) f = Inl err"
  by (simp_all add: res_bind_def)

definition hex_char :: "nat \<Rightarrow> char" where
  "hex_char n = (if n < 10 then char_of (48 + n) else char_of (87 + n))"

definition hex_encode :: "bytes \<Rightarrow> string" where
  "hex_encode bs = concat (map (\<lambda>b. let n = (of_char b :: nat) in [hex_char (n div 16), hex_char (n mod 16)]) bs)"

definition to_account :: "vault \<Rightarrow> account_row \<Rightarrow> account res" where
  "to_account v r =
     res_bind (decrypt_string v (Some (ar_identity r))) (\<lambda>uid.
     res_bind (dec_optional v (ar_first r)) (\<lambda>fn.
     res_bind (dec_optional v (ar_last r)) (\<lambda>ln.
     res_bind (dec_optional v (ar_avatar r)) (\<lambda>av.
     res_bind (dec_optional v (ar_sex r)) (\<lambda>sex.
     res_bind (dec_optional v (ar_birthday r)) (\<lambda>bd.
       Inr \<lparr>ac_id = ar_id r, ac_role = ar_role r, ac_status = ar_status r, ac_provider = ar_provider r,
            ac_user_id = uid, ac_first = fn, ac_last = ln, ac_avatar = av, ac_sex = sex,
            ac_birthday = bd, ac_handle = take 8 (hex_encode (ar_ref r)), ac_created = ar_created r\<rparr>))))))"

lemma to_account_keeps:
  assumes "to_account v r = Inr a"
  shows "ac_id a = ar_id r" "ac_role a = ar_role r" "ac_status a = ar_status r" "ac_provider a = ar_provider r"
  using assms by (auto simp: to_account_def res_bind_def split: sum.splits)

section \<open>The repository\<close>

record upsert_params =
  up_provider :: string
  up_ref :: bytes
  up_identity :: bytes
  up_first :: "bytes option"
  up_last :: "bytes option"
  up_avatar :: "bytes option"
  up_sex :: "bytes option"
  up_birthday :: "bytes option"
  up_consent_version :: string
  up_default_status :: string

definition same_identity :: "string \<Rightarrow> bytes \<Rightarrow> account_row \<Rightarrow> bool" where
  "same_identity provider ref r \<longleftrightarrow> ar_provider r = provider \<and> ar_ref r = ref"

definition refreshed :: "upsert_params \<Rightarrow> int \<Rightarrow> account_row \<Rightarrow> account_row" where
  "refreshed p t r = r\<lparr>ar_identity := up_identity p, ar_first := up_first p, ar_last := up_last p,
     ar_avatar := up_avatar p, ar_sex := up_sex p, ar_birthday := up_birthday p,
     ar_last_login := Some t, ar_updated := t, ar_consent_at := Some t,
     ar_consent_version := Some (up_consent_version p)\<rparr>"

definition inserted :: "upsert_params \<Rightarrow> string \<Rightarrow> int \<Rightarrow> account_row" where
  "inserted p nid t =
     \<lparr>ar_id = nid, ar_provider = up_provider p, ar_ref = up_ref p, ar_identity = up_identity p,
      ar_first = up_first p, ar_last = up_last p, ar_avatar = up_avatar p, ar_sex = up_sex p,
      ar_birthday = up_birthday p, ar_role = ''user'', ar_status = up_default_status p,
      ar_last_login = Some t, ar_consent_at = Some t, ar_consent_version = Some (up_consent_version p),
      ar_created = t, ar_updated = t, ar_deleted = None, ar_forgotten = None\<rparr>"

definition update_where :: "(account_row \<Rightarrow> bool) \<Rightarrow> (account_row \<Rightarrow> account_row) \<Rightarrow> store \<Rightarrow> store" where
  "update_where P f \<sigma> = \<sigma>\<lparr>accounts := map (\<lambda>r. if P r then f r else r) (accounts \<sigma>)\<rparr>"

definition upsert_account :: "string \<Rightarrow> upsert_params \<Rightarrow> account_row op" where
  "upsert_account nid p \<sigma> =
     (if up_provider p \<notin> {''vk'', ''yandex''} \<or> up_default_status p \<notin> {''pending'', ''approved'', ''blocked''}
      then (Inl EDb, \<sigma>)
      else case find (same_identity (up_provider p) (up_ref p)) (accounts \<sigma>) of
        Some r \<Rightarrow> (Inr (refreshed p (clock \<sigma>) r),
          update_where (same_identity (up_provider p) (up_ref p)) (refreshed p (clock \<sigma>)) \<sigma>)
      | None \<Rightarrow>
          if nid \<in> ar_id ` set (accounts \<sigma>) then (Inl EDb, \<sigma>)
          else (Inr (inserted p nid (clock \<sigma>)),
                \<sigma>\<lparr>accounts := accounts \<sigma> @ [inserted p nid (clock \<sigma>)]\<rparr>))"

definition has_id :: "string \<Rightarrow> account_row \<Rightarrow> bool" where
  "has_id u r \<longleftrightarrow> ar_id r = u \<and> ar_deleted r = None"

definition anonymised :: "bytes \<Rightarrow> bytes \<Rightarrow> int \<Rightarrow> account_row \<Rightarrow> account_row" where
  "anonymised new_ref empty_enc t r = r\<lparr>ar_ref := new_ref, ar_identity := empty_enc,
     ar_first := None, ar_last := None, ar_avatar := None, ar_sex := None, ar_birthday := None,
     ar_consent_at := None, ar_consent_version := None, ar_last_login := None,
     ar_role := ''user'', ar_status := ''blocked'', ar_forgotten := Some t, ar_updated := t\<rparr>"

definition forget_account :: "string \<Rightarrow> bytes \<Rightarrow> bytes \<Rightarrow> unit op" where
  "forget_account i new_ref empty_enc \<sigma> =
     (case pg_uuid i of
        None \<Rightarrow> (Inl EDb, \<sigma>)
      | Some u \<Rightarrow>
          (case find (\<lambda>r. has_id u r \<and> ar_forgotten r = None) (accounts \<sigma>) of
             None \<Rightarrow> (Inl EAlreadyForgotten, \<sigma>)
           | Some r \<Rightarrow>
               if \<exists>q \<in> set (accounts \<sigma>). same_identity (ar_provider r) new_ref q \<and> ar_id q \<noteq> u
               then (Inl EDb, \<sigma>)
               else (Inr (), update_where (\<lambda>r. has_id u r \<and> ar_forgotten r = None)
                       (anonymised new_ref empty_enc (clock \<sigma>)) \<sigma>)))"

definition select_account :: "string \<Rightarrow> account_row op" where
  "select_account i \<sigma> =
     (case pg_uuid i of
        None \<Rightarrow> (Inl EDb, \<sigma>)
      | Some u \<Rightarrow>
          (case find (has_id u) (accounts \<sigma>) of
             None \<Rightarrow> (Inl EAccountNotFound, \<sigma>) | Some r \<Rightarrow> (Inr r, \<sigma>)))"

definition select_by_status :: "string \<Rightarrow> account_row list op" where
  "select_by_status status \<sigma> =
     (Inr (sort_key ar_created (filter (\<lambda>r. ar_status r = status \<and> ar_deleted r = None \<and>
        ar_forgotten r = None) (accounts \<sigma>))), \<sigma>)"

text \<open>\<^verbatim>\<open>SetStatus\<close>, \<^verbatim>\<open>Promote\<close> and \<^verbatim>\<open>Demote\<close>: one UPDATE by id, and the row count decides.\<close>

definition update_account :: "string \<Rightarrow> (int \<Rightarrow> account_row \<Rightarrow> account_row) \<Rightarrow> unit op" where
  "update_account i f \<sigma> =
     (case pg_uuid i of
        None \<Rightarrow> (Inl EDb, \<sigma>)
      | Some u \<Rightarrow>
          if list_ex (has_id u) (accounts \<sigma>) then (Inr (), update_where (has_id u) (f (clock \<sigma>)) \<sigma>)
          else (Inl EAccountNotFound, \<sigma>))"

definition set_status :: "string \<Rightarrow> string \<Rightarrow> unit op" where
  "set_status i status =
     statement (update_account i (\<lambda>t r. r\<lparr>ar_status := status, ar_updated := t\<rparr>))"

definition promote :: "string \<Rightarrow> unit op" where
  "promote i = statement (update_account i
     (\<lambda>t r. r\<lparr>ar_role := ''admin'', ar_status := ''approved'', ar_updated := t\<rparr>))"

definition demote :: "string \<Rightarrow> unit op" where
  "demote i = statement (update_account i (\<lambda>t r. r\<lparr>ar_role := ''user'', ar_updated := t\<rparr>))"

section \<open>The service\<close>

record login_input =
  li_provider :: string
  li_user_id :: runes
  li_first :: runes
  li_last :: runes
  li_avatar :: runes
  li_sex :: runes
  li_birthday :: runes
  li_auto_approve :: bool

definition upsert_on_login :: "vault \<Rightarrow> (nat \<Rightarrow> bytes) \<Rightarrow> string \<Rightarrow> login_input \<Rightarrow> account op" where
  "upsert_on_login v nonce nid inp =
     and_then (statement (upsert_account nid
       \<lparr>up_provider = li_provider inp, up_ref = vt_index v (li_user_id inp),
        up_identity = encrypt_string v (nonce 0) (li_user_id inp),
        up_first = enc_optional v (nonce 1) (li_first inp),
        up_last = enc_optional v (nonce 2) (li_last inp),
        up_avatar = enc_optional v (nonce 3) (li_avatar inp),
        up_sex = enc_optional v (nonce 4) (li_sex inp),
        up_birthday = enc_optional v (nonce 5) (li_birthday inp),
        up_consent_version = ConsentVersion,
        up_default_status = (if li_auto_approve inp then StatusApproved else StatusPending)\<rparr>))
     (\<lambda>row. return_op (to_account v row))"

definition get_by_id :: "vault \<Rightarrow> string \<Rightarrow> account op" where
  "get_by_id v i = and_then (statement (select_account i)) (\<lambda>row. return_op (to_account v row))"

definition avatar_url :: "vault \<Rightarrow> string \<Rightarrow> runes op" where
  "avatar_url v i = and_then (get_by_id v i) (\<lambda>a. return_op (Inr (ac_avatar a)))"

fun to_accounts :: "vault \<Rightarrow> account_row list \<Rightarrow> account list res" where
  "to_accounts v [] = Inr []"
| "to_accounts v (r # rs) =
     res_bind (to_account v r) (\<lambda>a. res_bind (to_accounts v rs) (\<lambda>acs. Inr (a # acs)))"

definition list_by_status :: "vault \<Rightarrow> string \<Rightarrow> account list op" where
  "list_by_status v status =
     and_then (statement (select_by_status status)) (\<lambda>rows. return_op (to_accounts v rows))"

definition approve :: "string \<Rightarrow> unit op" where "approve i = set_status i StatusApproved"

definition block :: "string \<Rightarrow> unit op" where "block i = set_status i StatusBlocked"

definition forget :: "vault \<Rightarrow> bytes \<Rightarrow> bytes \<Rightarrow> string \<Rightarrow> unit op" where
  "forget v nonce new_ref i = statement (forget_account i new_ref (encrypt_string v nonce []))"

section \<open>The table's invariant\<close>

definition identity_of :: "account_row \<Rightarrow> string \<times> bytes" where
  "identity_of r = (ar_provider r, ar_ref r)"

definition row_ok :: "account_row \<Rightarrow> bool" where
  "row_ok r \<longleftrightarrow> canonical (ar_id r) \<and> ar_provider r \<in> {''vk'', ''yandex''} \<and>
     ar_role r \<in> {''user'', ''admin'', ''superadmin''} \<and>
     ar_status r \<in> {''pending'', ''approved'', ''blocked''}"

definition account_table_ok :: "store \<Rightarrow> bool" where
  "account_table_ok \<sigma> \<longleftrightarrow>
     distinct (map ar_id (accounts \<sigma>)) \<and> distinct (map identity_of (accounts \<sigma>)) \<and>
     (\<forall>r \<in> set (accounts \<sigma>). row_ok r)"

lemma account_set: "accounts (\<sigma>\<lparr>accounts := rs\<rparr>) = rs"
  by simp

lemma account_table_advance [simp]: "account_table_ok (advance dt ws \<sigma>) = account_table_ok \<sigma>"
  by (simp add: account_table_ok_def)

lemma map_cond_same:
  "(\<And>r. P r \<Longrightarrow> g (f r) = g r) \<Longrightarrow> map g (map (\<lambda>r. if P r then f r else r) rs) = map g rs"
  by (induction rs) auto

lemma distinct_key:
  "distinct (map f xs) \<Longrightarrow> x \<in> set xs \<Longrightarrow> y \<in> set xs \<Longrightarrow> f x = f y \<Longrightarrow> x = y"
  by (metis distinct_map inj_on_eq_iff)

text \<open>An update of one row by id keeps the table well formed when it keeps the row so.\<close>

lemma update_where_ok:
  assumes ok: "account_table_ok \<sigma>"
    and ids: "\<And>r. P r \<Longrightarrow> ar_id (f r) = ar_id r" and rows: "\<And>r. P r \<Longrightarrow> row_ok r \<Longrightarrow> row_ok (f r)"
    and idn: "distinct (map identity_of (accounts (update_where P f \<sigma>)))"
  shows "account_table_ok (update_where P f \<sigma>)"
proof -
  have "distinct (map ar_id (accounts (update_where P f \<sigma>)))"
    using ok by (simp add: account_table_ok_def update_where_def map_cond_same ids del: map_map)
  then show ?thesis using ok rows idn by (auto simp: account_table_ok_def update_where_def)
qed

lemma update_same_identity:
  assumes "account_table_ok \<sigma>" and "\<And>r. P r \<Longrightarrow> identity_of (f r) = identity_of r"
  shows "distinct (map identity_of (accounts (update_where P f \<sigma>)))"
  using assms by (simp add: account_table_ok_def update_where_def map_cond_same del: map_map)

lemma update_account_ok [inv_intros]:
  assumes "account_table_ok \<sigma>" and "\<And>t r. ar_id (f t r) = ar_id r \<and> identity_of (f t r) = identity_of r"
    and "\<And>t r. row_ok r \<Longrightarrow> row_ok (f t r)"
  shows "account_table_ok (snd (update_account i f \<sigma>))"
  using assms
  by (auto simp: update_account_def split: option.split intro!: update_where_ok update_same_identity)

definition params_ok :: "upsert_params \<Rightarrow> bool" where
  "params_ok p \<longleftrightarrow> up_provider p \<in> {''vk'', ''yandex''} \<and>
     up_default_status p \<in> {''pending'', ''approved'', ''blocked''}"

lemma upsert_account_eq:
  "upsert_account nid p \<sigma> =
     (if \<not> params_ok p then (Inl EDb, \<sigma>)
      else case find (same_identity (up_provider p) (up_ref p)) (accounts \<sigma>) of
        Some r \<Rightarrow> (Inr (refreshed p (clock \<sigma>) r),
          update_where (same_identity (up_provider p) (up_ref p)) (refreshed p (clock \<sigma>)) \<sigma>)
      | None \<Rightarrow>
          if nid \<in> ar_id ` set (accounts \<sigma>) then (Inl EDb, \<sigma>)
          else (Inr (inserted p nid (clock \<sigma>)),
                \<sigma>\<lparr>accounts := accounts \<sigma> @ [inserted p nid (clock \<sigma>)]\<rparr>))"
  unfolding upsert_account_def params_ok_def by presburger

lemma upsert_account_ok [inv_intros]:
  assumes "account_table_ok \<sigma>" and "canonical nid"
  shows "account_table_ok (snd (upsert_account nid p \<sigma>))"
proof (cases "find (same_identity (up_provider p) (up_ref p)) (accounts \<sigma>)")
  case (Some r)
  have "account_table_ok (update_where (same_identity (up_provider p) (up_ref p)) (refreshed p t) \<sigma>)" for t
    by (intro update_where_ok update_same_identity assms(1))
      (auto simp: refreshed_def identity_of_def row_ok_def)
  with Some assms(1) show ?thesis by (simp add: upsert_account_eq)
next
  case None
  show ?thesis
  proof (cases "params_ok p \<and> nid \<notin> ar_id ` set (accounts \<sigma>)")
    case False
    with None have "snd (upsert_account nid p \<sigma>) = \<sigma>" by (auto simp: upsert_account_eq)
    with assms(1) show ?thesis by simp
  next
    case True
    let ?new = "inserted p nid (clock \<sigma>)"
    from None True have eq: "accounts (snd (upsert_account nid p \<sigma>)) = accounts \<sigma> @ [?new]"
      by (simp add: upsert_account_eq)
    have 1: "identity_of ?new \<notin> identity_of ` set (accounts \<sigma>)"
      using None by (auto simp: find_None_iff identity_of_def inserted_def same_identity_def)
    have 2: "row_ok ?new"
      using True assms(2) by (simp add: row_ok_def inserted_def params_ok_def)
    have 3: "ar_id ?new = nid" by (simp add: inserted_def)
    show ?thesis
      using assms(1) True 1 2 3 unfolding account_table_ok_def eq by simp
  qed
qed

lemma forget_account_ok [inv_intros]:
  assumes ok: "account_table_ok \<sigma>"
  shows "account_table_ok (snd (forget_account i ref enc \<sigma>))"
proof -
  have "account_table_ok (update_where (\<lambda>r. has_id u r \<and> ar_forgotten r = None) (anonymised ref enc t) \<sigma>)"
    if r: "find (\<lambda>r. has_id u r \<and> ar_forgotten r = None) (accounts \<sigma>) = Some r"
      and free: "\<forall>q \<in> set (accounts \<sigma>). same_identity (ar_provider r) ref q \<longrightarrow> ar_id q = u" for u r t
  proof (rule update_where_ok [OF ok])
    let ?P = "\<lambda>r. has_id u r \<and> ar_forgotten r = None"
    have rin: "r \<in> set (accounts \<sigma>)" "?P r" using find_SomeD [OF r] by auto
    have only: "q = r" if "q \<in> set (accounts \<sigma>)" "ar_id q = u" for q
      using distinct_key [of ar_id "accounts \<sigma>" q r] that rin ok
      by (simp add: account_table_ok_def has_id_def)
    show "distinct (map identity_of (accounts (update_where ?P (anonymised ref enc t) \<sigma>)))"
      unfolding distinct_map
    proof
      have d: "distinct (accounts \<sigma>)" "inj_on identity_of (set (accounts \<sigma>))"
        using ok by (auto simp: account_table_ok_def distinct_map)
      have apart: "identity_of q \<noteq> (ar_provider r, ref)" if "q \<in> set (accounts \<sigma>)" "q \<noteq> r" for q
        using that(2) free [THEN bspec, OF that(1)] only [OF that(1)]
        by (auto simp: identity_of_def same_identity_def)
      let ?g = "\<lambda>x. if ?P x then anonymised ref enc t x else x"
      have g: "?g x = (if x = r then anonymised ref enc t r else x)" if "x \<in> set (accounts \<sigma>)" for x
      proof (cases "x = r")
        case True
        with rin show ?thesis by simp
      next
        case False
        with only [OF that] have "\<not> ?P x" by (auto simp: has_id_def)
        with False show ?thesis by (simp only: if_False)
      qed
      have i: "identity_of (anonymised ref enc t r) = (ar_provider r, ref)"
        by (simp add: identity_of_def anonymised_def)
      have inj: "inj_on (identity_of \<circ> ?g) (set (accounts \<sigma>))"
      proof (rule inj_onI)
        fix x y
        assume xy: "x \<in> set (accounts \<sigma>)" "y \<in> set (accounts \<sigma>)" "(identity_of \<circ> ?g) x = (identity_of \<circ> ?g) y"
        from xy(3) have "identity_of (if x = r then anonymised ref enc t r else x) =
            identity_of (if y = r then anonymised ref enc t r else y)"
          unfolding comp_def g [OF xy(1)] g [OF xy(2)] .
        then show "x = y"
          using apart [OF xy(1)] apart [OF xy(2)] inj_onD [OF d(2) _ xy(1,2)] i
          by (cases "x = r"; cases "y = r") auto
      qed
      then have "inj_on ?g (set (accounts \<sigma>))" by (rule inj_on_imageI2)
      with d(1) show "distinct (accounts (update_where ?P (anonymised ref enc t) \<sigma>))"
        by (simp add: update_where_def distinct_map)
      from inj show "inj_on identity_of (set (accounts (update_where ?P (anonymised ref enc t) \<sigma>)))"
        by (simp only: update_where_def account_set set_map inj_on_imageI)
    qed
  qed (auto simp: anonymised_def row_ok_def)
  with ok show ?thesis by (auto simp: forget_account_def split: option.split)
qed

section \<open>What a login and a forgetting do\<close>

lemma to_account_encrypted:
  assumes "vault_ok v" and "\<And>i. length (nonce i) = vt_nonce_size v"
    and "ar_identity r = encrypt_string v (nonce 0) u" and "ar_first r = enc_optional v (nonce 1) fn"
    and "ar_last r = enc_optional v (nonce 2) ln" and "ar_avatar r = enc_optional v (nonce 3) av"
    and "ar_sex r = enc_optional v (nonce 4) sx" and "ar_birthday r = enc_optional v (nonce 5) bd"
  shows "to_account v r = Inr
    \<lparr>ac_id = ar_id r, ac_role = ar_role r, ac_status = ar_status r, ac_provider = ar_provider r,
     ac_user_id = u, ac_first = fn, ac_last = ln, ac_avatar = av, ac_sex = sx, ac_birthday = bd,
     ac_handle = take 8 (hex_encode (ar_ref r)), ac_created = ar_created r\<rparr>"
  using assms by (simp add: to_account_def)

lemma upsert_on_login_row:
  assumes "upsert_on_login v nonce nid inp \<sigma> = (Inr a, \<sigma>')"
  obtains p row dt ws where
    "p = \<lparr>up_provider = li_provider inp, up_ref = vt_index v (li_user_id inp),
        up_identity = encrypt_string v (nonce 0) (li_user_id inp),
        up_first = enc_optional v (nonce 1) (li_first inp),
        up_last = enc_optional v (nonce 2) (li_last inp),
        up_avatar = enc_optional v (nonce 3) (li_avatar inp),
        up_sex = enc_optional v (nonce 4) (li_sex inp),
        up_birthday = enc_optional v (nonce 5) (li_birthday inp),
        up_consent_version = ConsentVersion,
        up_default_status = (if li_auto_approve inp then StatusApproved else StatusPending)\<rparr>"
    and "upsert_account nid p (advance dt ws \<sigma>) = (Inr row, \<sigma>')" and "to_account v row = Inr a"
  using assms that by (auto simp: upsert_on_login_def and_then_Inr return_op_def elim!: statement_ok)

lemma login_result:
  assumes "vault_ok v" and "\<forall>i. length (nonce i) = vt_nonce_size v"
    and "upsert_on_login v nonce nid inp \<sigma> = (Inr a, \<sigma>')"
  shows "ac_provider a = li_provider inp \<and> ac_user_id a = li_user_id inp \<and>
    ac_first a = li_first inp \<and> ac_last a = li_last inp \<and> ac_avatar a = li_avatar inp \<and>
    ac_sex a = li_sex inp \<and> ac_birthday a = li_birthday inp \<and>
    (case find (same_identity (li_provider inp) (vt_index v (li_user_id inp))) (accounts \<sigma>) of
       Some r \<Rightarrow> ac_id a = ar_id r \<and> ac_role a = ar_role r \<and> ac_status a = ar_status r \<and>
         map ar_id (accounts \<sigma>') = map ar_id (accounts \<sigma>)
     | None \<Rightarrow> ac_id a = nid \<and> ac_role a = ''user'' \<and>
         ac_status a = (if li_auto_approve inp then ''approved'' else ''pending'') \<and>
         map ar_id (accounts \<sigma>') = map ar_id (accounts \<sigma>) @ [nid]) \<and>
    (\<forall>q \<in> set (accounts \<sigma>). \<not> same_identity (li_provider inp) (vt_index v (li_user_id inp)) q \<longrightarrow>
       q \<in> set (accounts \<sigma>'))"
proof -
  obtain p row dt ws where p: "p = \<lparr>up_provider = li_provider inp, up_ref = vt_index v (li_user_id inp),
        up_identity = encrypt_string v (nonce 0) (li_user_id inp),
        up_first = enc_optional v (nonce 1) (li_first inp),
        up_last = enc_optional v (nonce 2) (li_last inp),
        up_avatar = enc_optional v (nonce 3) (li_avatar inp),
        up_sex = enc_optional v (nonce 4) (li_sex inp),
        up_birthday = enc_optional v (nonce 5) (li_birthday inp),
        up_consent_version = ConsentVersion,
        up_default_status = (if li_auto_approve inp then StatusApproved else StatusPending)\<rparr>"
    and row: "upsert_account nid p (advance dt ws \<sigma>) = (Inr row, \<sigma>')" and acc: "to_account v row = Inr a"
    using assms(3) by (rule upsert_on_login_row)
  let ?same = "same_identity (li_provider inp) (vt_index v (li_user_id inp))"
  have same: "same_identity (up_provider p) (up_ref p) = ?same" by (simp add: p)
  have ok: "params_ok p" using row by (auto simp: upsert_account_eq split: if_splits)
  have enc: "a = \<lparr>ac_id = ar_id row, ac_role = ar_role row, ac_status = ar_status row,
     ac_provider = ar_provider row, ac_user_id = li_user_id inp, ac_first = li_first inp,
     ac_last = li_last inp, ac_avatar = li_avatar inp, ac_sex = li_sex inp,
     ac_birthday = li_birthday inp, ac_handle = take 8 (hex_encode (ar_ref row)),
     ac_created = ar_created row\<rparr>"
    if "row = refreshed p t r \<or> row = inserted p nid t" for t r
    using to_account_encrypted [where nonce = nonce and r = row and u = "li_user_id inp"
        and fn = "li_first inp" and ln = "li_last inp" and av = "li_avatar inp" and sx = "li_sex inp"
        and bd = "li_birthday inp", OF assms(1)] acc that assms(2)
    by (auto simp: p refreshed_def inserted_def)
  show ?thesis
  proof (cases "find ?same (accounts \<sigma>)")
    case None
    with row ok have new: "row = inserted p nid (clock \<sigma> + int dt)"
      and acs: "accounts \<sigma>' = accounts \<sigma> @ [row]"
      by (auto simp: upsert_account_eq same split: if_splits)
    have a: "ar_id row = nid" "ar_role row = ''user''" "ar_provider row = li_provider inp"
      "ar_status row = up_default_status p"
      by (simp_all add: new) (simp_all add: inserted_def p)
    have "a = \<lparr>ac_id = ar_id row, ac_role = ar_role row, ac_status = ar_status row,
     ac_provider = ar_provider row, ac_user_id = li_user_id inp, ac_first = li_first inp,
     ac_last = li_last inp, ac_avatar = li_avatar inp, ac_sex = li_sex inp,
     ac_birthday = li_birthday inp, ac_handle = take 8 (hex_encode (ar_ref row)),
     ac_created = ar_created row\<rparr>" using new by (intro enc disjI2)
    then show ?thesis using None a acs by (simp add: p account_consts)
  next
    case (Some r)
    then have r: "?same r" by (auto dest: find_SomeD)
    let ?t = "clock \<sigma> + int dt"
    from Some row ok have old: "row = refreshed p ?t r"
      and s': "\<sigma>' = update_where ?same (refreshed p ?t) (advance dt ws \<sigma>)"
      by (auto simp: upsert_account_eq same)
    have a: "ar_id row = ar_id r" "ar_role row = ar_role r" "ar_status row = ar_status r"
      "ar_provider row = li_provider inp"
      using r by (simp_all add: old) (simp_all add: refreshed_def same_identity_def)
    have "map ar_id (accounts \<sigma>') = map ar_id (accounts \<sigma>)"
      unfolding s' update_where_def account_set advance_simps
      by (rule map_cond_same) (simp add: refreshed_def)
    moreover have "\<forall>q \<in> set (accounts \<sigma>). \<not> ?same q \<longrightarrow> q \<in> set (accounts \<sigma>')"
      unfolding s' update_where_def account_set advance_simps by auto
    moreover have "a = \<lparr>ac_id = ar_id row, ac_role = ar_role row, ac_status = ar_status row,
     ac_provider = ar_provider row, ac_user_id = li_user_id inp, ac_first = li_first inp,
     ac_last = li_last inp, ac_avatar = li_avatar inp, ac_sex = li_sex inp,
     ac_birthday = li_birthday inp, ac_handle = take 8 (hex_encode (ar_ref row)),
     ac_created = ar_created row\<rparr>" using old by (intro enc disjI1)
    ultimately show ?thesis using Some a by simp
  qed
qed

text \<open>C5: a login gives back the profile the provider supplied, whole, after encryption and
  decryption. If the pair of provider and user id is known, it is that person's own account, with
  the role and the status it had, open registration or not; if it is not, a new account with the
  user role, approved only under open registration. Nobody else's row is touched.\<close>

theorem login_recognises_or_registers:
  assumes "vault_ok v" and "\<forall>i. length (nonce i) = vt_nonce_size v"
    and "upsert_on_login v nonce nid inp \<sigma> = (Inr a, \<sigma>')"
  shows "ac_provider a = li_provider inp \<and> ac_user_id a = li_user_id inp \<and>
    ac_first a = li_first inp \<and> ac_last a = li_last inp \<and> ac_avatar a = li_avatar inp \<and>
    ac_sex a = li_sex inp \<and> ac_birthday a = li_birthday inp \<and>
    (case find (same_identity (li_provider inp) (vt_index v (li_user_id inp))) (accounts \<sigma>) of
       Some r \<Rightarrow> ac_id a = ar_id r \<and> ac_role a = ar_role r \<and> ac_status a = ar_status r \<and>
         map ar_id (accounts \<sigma>') = map ar_id (accounts \<sigma>)
     | None \<Rightarrow> ac_id a = nid \<and> ac_role a = ''user'' \<and>
         ac_status a = (if li_auto_approve inp then ''approved'' else ''pending'') \<and>
         map ar_id (accounts \<sigma>') = map ar_id (accounts \<sigma>) @ [nid]) \<and>
    (\<forall>q \<in> set (accounts \<sigma>). \<not> same_identity (li_provider inp) (vt_index v (li_user_id inp)) q \<longrightarrow>
       q \<in> set (accounts \<sigma>'))"
  using assms by (rule login_result)

lemma forget_result:
  assumes "account_table_ok \<sigma>" and "forget v n ref i \<sigma> = (Inr (), \<sigma>')"
  obtains r t where "r \<in> set (accounts \<sigma>)" and "pg_uuid i = Some (ar_id r)" and "ar_deleted r = None"
    and "ar_forgotten r = None"
    and "accounts \<sigma>' = map (\<lambda>q. if ar_id q = ar_id r then anonymised ref (encrypt_string v n []) t q else q) (accounts \<sigma>)"
    and "sessions \<sigma>' = sessions \<sigma>"
proof -
  let ?e = "encrypt_string v n []"
  obtain dt ws where f: "forget_account i ref ?e (advance dt ws \<sigma>) = (Inr (), \<sigma>')"
    using assms(2) unfolding forget_def by (rule statement_ok)
  then obtain u r where u: "pg_uuid i = Some u"
    and r: "find (\<lambda>r. has_id u r \<and> ar_forgotten r = None) (accounts \<sigma>) = Some r"
    and s': "\<sigma>' = update_where (\<lambda>r. has_id u r \<and> ar_forgotten r = None)
        (anonymised ref ?e (clock \<sigma> + int dt)) (advance dt ws \<sigma>)"
    by (auto simp: forget_account_def split: option.splits if_splits)
  from find_SomeD [OF r] have rin: "r \<in> set (accounts \<sigma>)" "ar_id r = u" "ar_deleted r = None" "ar_forgotten r = None"
    by (auto simp: has_id_def)
  have only: "ar_id q = u \<longleftrightarrow> has_id u q \<and> ar_forgotten q = None" if "q \<in> set (accounts \<sigma>)" for q
    using distinct_key [of ar_id "accounts \<sigma>" q r] that rin assms(1)
    by (auto simp: account_table_ok_def has_id_def)
  have "accounts \<sigma>' = map (\<lambda>q. if ar_id q = ar_id r then anonymised ref ?e (clock \<sigma> + int dt) q else q) (accounts \<sigma>)"
    unfolding s' update_where_def account_set advance_simps using only rin(2) by (intro map_cong refl) simp
  moreover have "sessions \<sigma>' = sessions \<sigma>" by (simp add: s' update_where_def)
  ultimately show ?thesis using that u rin by blast
qed

text \<open>
  forgetting somebody removes every trace of the person from exactly one row, in one statement:
  the blind index and the encrypted id are replaced, name, picture, sex, birthday and consent are
  gone, the role and the status are the least; the row itself stays, still visible to the lookups
  that render what it wrote. A second forgetting says so and changes nothing.\<close>

theorem forget_anonymises_in_place:
  assumes "account_table_ok \<sigma>" and "forget v n ref i \<sigma> = (Inr (), \<sigma>')" and "weather \<sigma>' = []"
  shows "map ar_id (accounts \<sigma>') = map ar_id (accounts \<sigma>) \<and>
    (\<forall>q \<in> set (accounts \<sigma>'). if pg_uuid i = Some (ar_id q)
       then ar_ref q = ref \<and> ar_identity q = encrypt_string v n [] \<and> ar_first q = None \<and>
            ar_last q = None \<and> ar_avatar q = None \<and> ar_sex q = None \<and> ar_birthday q = None \<and>
            ar_consent_at q = None \<and> ar_consent_version q = None \<and> ar_last_login q = None \<and>
            ar_role q = ''user'' \<and> ar_status q = ''blocked'' \<and> ar_forgotten q \<noteq> None \<and> ar_deleted q = None
       else q \<in> set (accounts \<sigma>)) \<and>
    forget v n' ref' i \<sigma>' = (Inl EAlreadyForgotten, \<sigma>')"
proof -
  obtain r t where r: "r \<in> set (accounts \<sigma>)" "pg_uuid i = Some (ar_id r)" "ar_deleted r = None"
    and acs: "accounts \<sigma>' = map (\<lambda>q. if ar_id q = ar_id r
        then anonymised ref (encrypt_string v n []) t q else q) (accounts \<sigma>)"
    using assms(1,2) by (rule forget_result)
  have same: "q = r" if "q \<in> set (accounts \<sigma>)" "ar_id q = ar_id r" for q
    using distinct_key [of ar_id "accounts \<sigma>" q r] that r(1) assms(1) by (simp add: account_table_ok_def)
  have ids: "map ar_id (accounts \<sigma>') = map ar_id (accounts \<sigma>)"
    unfolding acs by (rule map_cond_same) (simp add: anonymised_def)
  have rows: "if ar_id q = ar_id r then q = anonymised ref (encrypt_string v n []) t r else q \<in> set (accounts \<sigma>)"
    if "q \<in> set (accounts \<sigma>')" for q
  proof -
    from that obtain p where p: "p \<in> set (accounts \<sigma>)"
      "q = (if ar_id p = ar_id r then anonymised ref (encrypt_string v n []) t p else p)"
      unfolding acs set_map by blast
    show ?thesis
    proof (cases "ar_id p = ar_id r")
      case True
      with same [OF p(1)] p(2) show ?thesis by (simp add: anonymised_def)
    next
      case False
      with p show ?thesis by simp
    qed
  qed
  have gone: "find (\<lambda>q. has_id (ar_id r) q \<and> ar_forgotten q = None) (accounts \<sigma>') = None"
    unfolding find_None_iff
  proof
    assume "\<exists>q. q \<in> set (accounts \<sigma>') \<and> has_id (ar_id r) q \<and> ar_forgotten q = None"
    then obtain q where q: "q \<in> set (accounts \<sigma>')" "ar_id q = ar_id r" "ar_forgotten q = None"
      by (auto simp: has_id_def)
    with rows [OF q(1)] show False by (simp add: anonymised_def)
  qed
  have again: "forget v n' ref' i \<sigma>' = (Inl EAlreadyForgotten, \<sigma>')"
    using assms(3) r(2) gone by (simp add: forget_def forget_account_def)
  have "if pg_uuid i = Some (ar_id q)
       then ar_ref q = ref \<and> ar_identity q = encrypt_string v n [] \<and> ar_first q = None \<and>
            ar_last q = None \<and> ar_avatar q = None \<and> ar_sex q = None \<and> ar_birthday q = None \<and>
            ar_consent_at q = None \<and> ar_consent_version q = None \<and> ar_last_login q = None \<and>
            ar_role q = ''user'' \<and> ar_status q = ''blocked'' \<and> ar_forgotten q \<noteq> None \<and> ar_deleted q = None
       else q \<in> set (accounts \<sigma>)" if "q \<in> set (accounts \<sigma>')" for q
    using rows [OF that] r(2,3) by (cases "ar_id q = ar_id r") (simp_all add: anonymised_def)
  with ids again show ?thesis by blast
qed

text \<open>C6: the same person logging in after being forgotten is a new account: a new id, the user role,
  and pending unless registration is open. The old row is not reached.\<close>

theorem forgotten_person_returns_as_a_stranger:
  assumes "account_table_ok \<sigma>" and "forget v n ref i \<sigma> = (Inr (), \<sigma>1)"
    and "r \<in> set (accounts \<sigma>)" and "pg_uuid i = Some (ar_id r)"
    and "same_identity (li_provider inp) (vt_index v (li_user_id inp)) r"
    and "ref \<noteq> vt_index v (li_user_id inp)"
    and "upsert_on_login v nonce nid inp \<sigma>1 = (Inr a, \<sigma>2)"
  shows "ac_id a = nid \<and> nid \<notin> ar_id ` set (accounts \<sigma>) \<and> ac_role a = ''user'' \<and>
    ac_status a = (if li_auto_approve inp then ''approved'' else ''pending'') \<and>
    accounts \<sigma>2 = accounts \<sigma>1 @ [last (accounts \<sigma>2)]"
proof -
  let ?same = "same_identity (li_provider inp) (vt_index v (li_user_id inp))"
  obtain r' t where r': "r' \<in> set (accounts \<sigma>)" "pg_uuid i = Some (ar_id r')"
    and acs: "accounts \<sigma>1 = map (\<lambda>q. if ar_id q = ar_id r'
        then anonymised ref (encrypt_string v n []) t q else q) (accounts \<sigma>)"
    using assms(1,2) by (rule forget_result)
  have rr: "ar_id r' = ar_id r" using r'(2) assms(4) by simp
  have ids: "map ar_id (accounts \<sigma>1) = map ar_id (accounts \<sigma>)"
    unfolding acs by (rule map_cond_same) (simp add: anonymised_def)
  have none: "find ?same (accounts \<sigma>1) = None"
    unfolding find_None_iff
  proof
    assume "\<exists>q. q \<in> set (accounts \<sigma>1) \<and> ?same q"
    then obtain p where p: "p \<in> set (accounts \<sigma>)"
      "?same (if ar_id p = ar_id r' then anonymised ref (encrypt_string v n []) t p else p)"
      unfolding acs by auto
    show False
    proof (cases "ar_id p = ar_id r'")
      case True
      with p(2) assms(6) show False by (simp add: same_identity_def anonymised_def)
    next
      case False
      with p(2) assms(5) have "identity_of p = identity_of r"
        by (simp add: same_identity_def identity_of_def)
      with distinct_key [of identity_of "accounts \<sigma>" p r] p(1) assms(1,3) have "p = r"
        by (simp add: account_table_ok_def)
      with False rr show False by simp
    qed
  qed
  obtain p row dt ws where p: "p = \<lparr>up_provider = li_provider inp, up_ref = vt_index v (li_user_id inp),
        up_identity = encrypt_string v (nonce 0) (li_user_id inp),
        up_first = enc_optional v (nonce 1) (li_first inp),
        up_last = enc_optional v (nonce 2) (li_last inp),
        up_avatar = enc_optional v (nonce 3) (li_avatar inp),
        up_sex = enc_optional v (nonce 4) (li_sex inp),
        up_birthday = enc_optional v (nonce 5) (li_birthday inp),
        up_consent_version = ConsentVersion,
        up_default_status = (if li_auto_approve inp then StatusApproved else StatusPending)\<rparr>"
    and row: "upsert_account nid p (advance dt ws \<sigma>1) = (Inr row, \<sigma>2)" and acc: "to_account v row = Inr a"
    using assms(7) by (rule upsert_on_login_row)
  from row none have new: "row = inserted p nid (clock \<sigma>1 + int dt)" "nid \<notin> ar_id ` set (accounts \<sigma>1)"
    and acs2: "accounts \<sigma>2 = accounts \<sigma>1 @ [row]"
    by (auto simp: upsert_account_eq p split: if_splits)
  have "ar_id ` set (accounts \<sigma>1) = ar_id ` set (accounts \<sigma>)"
    using ids by (metis list.set_map)
  moreover have "ar_id row = nid" "ar_role row = ''user''" "ar_status row = up_default_status p"
    by (simp_all add: new(1)) (simp_all add: inserted_def)
  ultimately show ?thesis
    using to_account_keeps [OF acc] new(2) acs2 by (simp add: p account_consts)
qed

section \<open>Witnesses\<close>

text \<open>
  An instance of the cipher and of the index on which the hypotheses hold: numbers written in
  unary and separated. It keeps nothing secret; it only satisfies the laws.
\<close>

definition unary :: "runes \<Rightarrow> bytes" where
  "unary p = concat (map (\<lambda>k. replicate k CHR ''1'' @ [CHR ''0'']) p)"

fun read_unary :: "nat \<Rightarrow> bytes \<Rightarrow> runes" where
  "read_unary k [] = []"
| "read_unary k (c # cs) = (if c = CHR ''1'' then read_unary (Suc k) cs else k # read_unary 0 cs)"

lemma read_unary_digits: "read_unary k (replicate m CHR ''1'' @ CHR ''0'' # rest) = (k + m) # read_unary 0 rest"
  by (induction m arbitrary: k) auto

lemma read_unary_inverse [simp]: "read_unary 0 (unary p) = p"
  by (induction p) (simp_all add: unary_def read_unary_digits)

definition demo_vault :: vault where
  "demo_vault = \<lparr>vt_nonce_size = 1, vt_seal = (\<lambda>n p. unary p), vt_open = (\<lambda>n c. Some (read_unary 0 c)),
     vt_index = unary\<rparr>"

lemma demo_vault_ok: "vault_ok demo_vault"
  by (simp add: vault_ok_def demo_vault_def)

abbreviation demo_nonce :: "nat \<Rightarrow> bytes" where "demo_nonce \<equiv> (\<lambda>_. ''n'')"

definition ann_login :: login_input where
  "ann_login = \<lparr>li_provider = ''vk'', li_user_id = [7], li_first = [65], li_last = [], li_avatar = [],
     li_sex = [], li_birthday = [], li_auto_approve = False\<rparr>"

definition ann_store :: store where
  "ann_store = empty_store\<lparr>accounts := [plain_account ann_id ''admin'' ''approved'' ''vk'' (unary [7])]\<rparr>"

lemmas ann_defs = ann_store_def empty_store_def plain_account_def ann_login_def demo_vault_def

lemma ann_table: "account_table_ok ann_store"
  by (simp add: account_table_ok_def row_ok_def demo_uuids ann_store_def empty_store_def plain_account_def)

lemma ann_logs_in:
  "\<exists>a \<sigma>'. upsert_on_login demo_vault demo_nonce bob_id ann_login ann_store = (Inr a, \<sigma>')"
  by (simp add: upsert_on_login_def upsert_account_def and_then_def return_op_def account_consts
      same_identity_def refreshed_def ann_defs enc_optional_def to_account_def dec_optional_def
      decrypt_string_def encrypt_string_def)

theorem login_recognises_or_registers_witness:
  "\<exists>a \<sigma>'. upsert_on_login demo_vault demo_nonce bob_id ann_login ann_store = (Inr a, \<sigma>') \<and>
     ac_id a = ann_id \<and> ac_role a = ''admin'' \<and> ac_first a = [65]"
proof -
  obtain a \<sigma>' where l: "upsert_on_login demo_vault demo_nonce bob_id ann_login ann_store = (Inr a, \<sigma>')"
    using ann_logs_in by blast
  have n: "\<forall>i. length (demo_nonce i) = vt_nonce_size demo_vault" by (simp add: demo_vault_def)
  from login_recognises_or_registers [OF demo_vault_ok n l] l show ?thesis
    by (simp add: ann_defs same_identity_def)
qed

lemma ann_forgotten:
  "\<exists>\<sigma>'. forget demo_vault ''n'' ''random'' ann_id ann_store = (Inr (), \<sigma>') \<and> weather \<sigma>' = []"
  using demo_uuids(1)
  by (simp add: forget_def forget_account_def canonical_def has_id_def same_identity_def
      update_where_def ann_defs)

theorem forget_anonymises_in_place_witness:
  "\<exists>\<sigma>'. forget demo_vault ''n'' ''random'' ann_id ann_store = (Inr (), \<sigma>') \<and>
     forget demo_vault ''n'' ''other'' ann_id \<sigma>' = (Inl EAlreadyForgotten, \<sigma>')"
proof -
  obtain \<sigma>' where f: "forget demo_vault ''n'' ''random'' ann_id ann_store = (Inr (), \<sigma>')" "weather \<sigma>' = []"
    using ann_forgotten by blast
  from forget_anonymises_in_place [OF ann_table f, of "''n''" "''other''"] f(1) show ?thesis by blast
qed

theorem forgotten_person_returns_as_a_stranger_witness:
  "\<exists>\<sigma>1 a \<sigma>2. forget demo_vault ''n'' ''random'' ann_id ann_store = (Inr (), \<sigma>1) \<and>
     upsert_on_login demo_vault demo_nonce bob_id ann_login \<sigma>1 = (Inr a, \<sigma>2) \<and>
     ac_id a = bob_id \<and> ac_status a = ''pending''"
proof -
  have u: "pg_uuid ann_id = Some ann_id" using demo_uuids(1) by (simp add: canonical_def)
  let ?\<sigma> = "snd (forget demo_vault ''n'' ''random'' ann_id ann_store)"
  have f: "forget demo_vault ''n'' ''random'' ann_id ann_store = (Inr (), ?\<sigma>)"
    using ann_forgotten by force
  have "\<exists>a \<sigma>2. upsert_on_login demo_vault demo_nonce bob_id ann_login ?\<sigma> = (Inr a, \<sigma>2)"
    using u by (simp add: forget_def forget_account_def has_id_def same_identity_def update_where_def
        anonymised_def upsert_on_login_def upsert_account_def and_then_def return_op_def account_consts
        inserted_def ann_defs enc_optional_def to_account_def dec_optional_def decrypt_string_def
        encrypt_string_def unary_def)
  then obtain a \<sigma>2 where l: "upsert_on_login demo_vault demo_nonce bob_id ann_login ?\<sigma> = (Inr a, \<sigma>2)"
    by blast
  have r: "plain_account ann_id ''admin'' ''approved'' ''vk'' (unary [7]) \<in> set (accounts ann_store)"
    by (simp add: ann_store_def empty_store_def)
  from forgotten_person_returns_as_a_stranger [OF ann_table f r _ _ _ l] u f l show ?thesis
    by (auto simp: plain_account_def same_identity_def ann_login_def demo_vault_def unary_def)
qed

end
