(* ===== verification/Settings.thy ===== *)
theory Settings
  imports Database
begin

text \<open>
  Global settings (\<^verbatim>\<open>internal/settings/settings.go\<close>): one table of key and value, of which the
  program uses one key.
\<close>

definition KeyOpenRegistration :: string where "KeyOpenRegistration = ''open_registration''"

definition get_setting :: "string \<Rightarrow> string op" where
  "get_setting key = statement (\<lambda>\<sigma>. (Inr (case map_of (settings \<sigma>) key of None \<Rightarrow> '''' | Some v \<Rightarrow> v), \<sigma>))"

definition set_setting :: "string \<Rightarrow> string \<Rightarrow> unit op" where
  "set_setting key val = statement (\<lambda>\<sigma>. (Inr (), \<sigma>\<lparr>settings := AList.update key val (settings \<sigma>)\<rparr>))"

definition open_registration :: "bool op" where
  "open_registration = and_then (get_setting KeyOpenRegistration) (\<lambda>v. return_op (Inr (v = ''true'')))"

definition set_open_registration :: "bool \<Rightarrow> unit op" where
  "set_open_registration enabled =
     set_setting KeyOpenRegistration (if enabled then ''true'' else ''false'')"

lemma statement_settings [simp]:
  "accounts (snd (open_registration \<sigma>)) = accounts \<sigma>" "sessions (snd (open_registration \<sigma>)) = sessions \<sigma>"
  by (cases "weather \<sigma>"; auto simp: open_registration_def and_then_def return_op_def get_setting_def
      statement_def Let_def split: outcome.split prod.split)+

lemma settings_round_trip:
  "set_open_registration b \<sigma> = (Inr (), \<sigma>') \<Longrightarrow> open_registration \<sigma>' = (Inr c, \<sigma>'') \<Longrightarrow> c = b"
  by (auto simp: set_open_registration_def set_setting_def open_registration_def get_setting_def
      and_then_Inr return_op_def alist_map_of elim!: statement_ok split: if_splits)

end
