(* ===== verification/HttpAuth.thy ===== *)
theory HttpAuth
  imports Session Account Settings
begin

text \<open>
  Login and the guards of every protected route (\<^verbatim>\<open>internal/httpapi/auth.go\<close>,
  \<^verbatim>\<open>auth_provider.go\<close>, \<^verbatim>\<open>auth_vk.go\<close>, \<^verbatim>\<open>auth_yandex.go\<close>). A handler is a function of
  what it reads from the request (cookies, decoded body, URL parameters) and of the store; it
  gives a response, the cookies it sets and the store. The clients of the login providers
  (\<^verbatim>\<open>internal/vk\<close>, \<^verbatim>\<open>internal/yandex\<close> and the services behind them) are parameters.
\<close>

section \<open>Responses\<close>

text \<open>\<^verbatim>\<open>writeError\<close> with its status and code, or a success with its body.\<close>

datatype 'b response = Failure nat string | Success nat 'b

datatype set_cookie = SetState string string | ClearState string | SetSession string | ClearSession

section \<open>The current account\<close>

definition current_account ::
  "hmac \<Rightarrow> manager \<Rightarrow> vault \<Rightarrow> string option \<Rightarrow> store \<Rightarrow> (account \<times> string) option \<times> store" where
  "current_account hm m v cookie \<sigma> =
     (case cookie of
        None \<Rightarrow> (None, \<sigma>)
      | Some raw \<Rightarrow>
          if raw = '''' then (None, \<sigma>)
          else case resolve hm m raw \<sigma> of
            (Inl err, \<sigma>1) \<Rightarrow> (None, \<sigma>1)
          | (Inr sess, \<sigma>1) \<Rightarrow>
              (case get_by_id v (rs_account sess) \<sigma>1 of
                 (Inl err, \<sigma>2) \<Rightarrow> (None, \<sigma>2)
               | (Inr acc, \<sigma>2) \<Rightarrow> (Some (acc, rs_id sess), \<sigma>2)))"

text \<open>\<^verbatim>\<open>requireAuth\<close>: refuse, or hand the account and the session id to the next handler.\<close>

definition require_auth ::
  "hmac \<Rightarrow> manager \<Rightarrow> vault \<Rightarrow> string option \<Rightarrow> (account \<Rightarrow> string \<Rightarrow> store \<Rightarrow> 'b response \<times> store) \<Rightarrow>
     store \<Rightarrow> 'b response \<times> store" where
  "require_auth hm m v cookie next \<sigma> =
     (case current_account hm m v cookie \<sigma> of
        (None, \<sigma>1) \<Rightarrow> (Failure 401 ''unauthorized'', \<sigma>1)
      | (Some (acc, sid), \<sigma>1) \<Rightarrow>
          if \<not> is_approved acc then (Failure 403 ''not_approved'', \<sigma>1) else next acc sid \<sigma>1)"

definition require_admin :: "account \<Rightarrow> (store \<Rightarrow> 'b response \<times> store) \<Rightarrow> store \<Rightarrow> 'b response \<times> store" where
  "require_admin acc next \<sigma> = (if \<not> is_admin acc then (Failure 403 ''forbidden'', \<sigma>) else next \<sigma>)"

definition require_superadmin :: "account \<Rightarrow> (store \<Rightarrow> 'b response \<times> store) \<Rightarrow> store \<Rightarrow> 'b response \<times> store" where
  "require_superadmin acc next \<sigma> =
     (if \<not> is_superadmin acc then (Failure 403 ''forbidden'', \<sigma>) else next \<sigma>)"

text \<open>What \<^verbatim>\<open>publicAccount\<close> shows.\<close>

record public_account =
  pa_id :: string
  pa_display_name :: runes
  pa_avatar_url :: runes
  pa_provider :: string
  pa_profile_url :: runes
  pa_role :: string
  pa_status :: string
  pa_handle :: string

definition publicAccount :: "account \<Rightarrow> public_account" where
  "publicAccount a = \<lparr>pa_id = ac_id a, pa_display_name = display_name a, pa_avatar_url = ac_avatar a,
     pa_provider = ac_provider a, pa_profile_url = profile_url a, pa_role = ac_role a,
     pa_status = ac_status a, pa_handle = ac_handle a\<rparr>"

definition handle_me ::
  "hmac \<Rightarrow> manager \<Rightarrow> vault \<Rightarrow> string option \<Rightarrow> store \<Rightarrow> public_account response \<times> store" where
  "handle_me hm m v cookie \<sigma> =
     (case current_account hm m v cookie \<sigma> of
        (None, \<sigma>1) \<Rightarrow> (Failure 401 ''unauthorized'', \<sigma>1)
      | (Some (acc, _), \<sigma>1) \<Rightarrow> (Success 200 (publicAccount acc), \<sigma>1))"

definition handle_logout ::
  "hmac \<Rightarrow> manager \<Rightarrow> string option \<Rightarrow> store \<Rightarrow> unit response \<times> set_cookie list \<times> store" where
  "handle_logout hm m cookie \<sigma> =
     (Success 204 (), [ClearSession],
      case cookie of None \<Rightarrow> \<sigma> | Some raw \<Rightarrow> snd (revoke hm m raw \<sigma>))"

section \<open>The login providers\<close>

record callback_req =
  cb_code :: string
  cb_device_id :: string
  cb_state :: string
  cb_code_verifier :: string
  cb_consent_version :: string

record oauth_tokens =
  ot_access :: string
  ot_user_id :: runes
  ot_id_token :: string

record oauth_profile =
  op_user_id :: runes
  op_first :: runes
  op_last :: runes
  op_avatar :: runes
  op_sex :: runes
  op_birthday :: runes

datatype oauth_error = OIncompleteRequest | ONoUserID | OIdentityMismatch | OIDTokenInvalid | OOther

text \<open>The interface \<^verbatim>\<open>oauthProvider\<close>, the answers of the remote service included.\<close>

record provider =
  pv_name :: string
  pv_configured :: bool
  pv_exchange :: "callback_req \<Rightarrow> oauth_error + oauth_tokens"
  pv_profile :: "oauth_tokens \<Rightarrow> oauth_error + oauth_profile"

text \<open>
  The VK client: exchange of code, verifier and device id; the profile of a token; and the
  optional check of the signed identity (\<open>None\<close> when verification is disabled).
\<close>

record vk_client =
  vk_exchange_code :: "string \<Rightarrow> string \<Rightarrow> string \<Rightarrow> oauth_tokens option"
  vk_user_info :: "string \<Rightarrow> oauth_profile option"
  vk_verify :: "(string \<Rightarrow> runes \<Rightarrow> bool) option"

definition vk_exchange :: "vk_client \<Rightarrow> callback_req \<Rightarrow> oauth_error + oauth_tokens" where
  "vk_exchange c req =
     (if cb_device_id req = '''' then Inl OIncompleteRequest
      else case vk_exchange_code c (cb_code req) (cb_code_verifier req) (cb_device_id req) of
        None \<Rightarrow> Inl OOther
      | Some tok \<Rightarrow> Inr tok)"

definition vk_profile :: "vk_client \<Rightarrow> oauth_tokens \<Rightarrow> oauth_error + oauth_profile" where
  "vk_profile c tok =
     (case vk_user_info c (ot_access tok) of
        None \<Rightarrow> Inl OOther
      | Some info \<Rightarrow>
          (let uid = (if op_user_id info = [] then ot_user_id tok else op_user_id info) in
           if uid = [] then Inl ONoUserID
           else if ot_user_id tok \<noteq> [] \<and> op_user_id info \<noteq> [] \<and> ot_user_id tok \<noteq> op_user_id info
             then Inl OIdentityMismatch
           else if (case vk_verify c of None \<Rightarrow> False | Some verify \<Rightarrow> \<not> verify (ot_id_token tok) uid)
             then Inl OIDTokenInvalid
           else Inr (info\<lparr>op_user_id := uid\<rparr>)))"

definition vk_provider :: "bool \<Rightarrow> vk_client \<Rightarrow> provider" where
  "vk_provider configured c = \<lparr>pv_name = ProviderVK, pv_configured = configured,
     pv_exchange = vk_exchange c, pv_profile = vk_profile c\<rparr>"

record yandex_client =
  ya_exchange_code :: "string \<Rightarrow> string \<Rightarrow> string option"
  ya_user_info :: "string \<Rightarrow> oauth_profile option"

definition yandex_exchange :: "yandex_client \<Rightarrow> callback_req \<Rightarrow> oauth_error + oauth_tokens" where
  "yandex_exchange c req =
     (case ya_exchange_code c (cb_code req) (cb_code_verifier req) of
        None \<Rightarrow> Inl OOther
      | Some access \<Rightarrow> Inr \<lparr>ot_access = access, ot_user_id = [], ot_id_token = ''''\<rparr>)"

definition yandex_profile :: "yandex_client \<Rightarrow> oauth_tokens \<Rightarrow> oauth_error + oauth_profile" where
  "yandex_profile c tok =
     (case ya_user_info c (ot_access tok) of
        None \<Rightarrow> Inl OOther
      | Some info \<Rightarrow> if op_user_id info = [] then Inl ONoUserID else Inr info)"

definition yandex_provider :: "bool \<Rightarrow> yandex_client \<Rightarrow> provider" where
  "yandex_provider configured c = \<lparr>pv_name = ProviderYandex, pv_configured = configured,
     pv_exchange = yandex_exchange c, pv_profile = yandex_profile c\<rparr>"

section \<open>Issuing the state\<close>

definition unreserved :: "rune \<Rightarrow> bool" where
  "unreserved r \<longleftrightarrow> (65 \<le> r \<and> r \<le> 90) \<or> (97 \<le> r \<and> r \<le> 122) \<or> (48 \<le> r \<and> r \<le> 57) \<or>
     r = 45 \<or> r = 46 \<or> r = 95 \<or> r = 126"

definition validCodeChallenge :: "runes \<Rightarrow> bool" where
  "validCodeChallenge t \<longleftrightarrow> \<not> (byte_len t < 43 \<or> 128 < byte_len t) \<and> list_all unreserved t"

definition handle_vk_state :: "string \<Rightarrow> string response \<times> set_cookie list" where
  "handle_vk_state state = (Success 200 state, [SetState ProviderVK state])"

definition handle_yandex_state ::
  "bool \<Rightarrow> (string \<Rightarrow> runes \<Rightarrow> 'u) \<Rightarrow> runes \<Rightarrow> string \<Rightarrow> (string \<times> 'u) response \<times> set_cookie list" where
  "handle_yandex_state configured authorize_url challenge state =
     (if \<not> configured then (Failure 503 ''oauth_not_configured'', [])
      else if \<not> validCodeChallenge challenge then (Failure 400 ''bad_request'', [])
      else (Success 200 (state, authorize_url state challenge), [SetState ProviderYandex state]))"

section \<open>The callback\<close>

text \<open>What is drawn at random in one request: nonces, the new row ids and the session token.\<close>

record entropy =
  en_nonce :: "nat \<Rightarrow> bytes"
  en_account :: string
  en_session :: string
  en_token :: string

definition exchange_failure :: "oauth_error \<Rightarrow> 'b response" where
  "exchange_failure err =
     (if err = OIncompleteRequest then Failure 400 ''bad_request'' else Failure 502 ''oauth_exchange_failed'')"

definition profile_failure :: "oauth_error \<Rightarrow> 'b response" where
  "profile_failure err =
     (case err of
        ONoUserID \<Rightarrow> Failure 502 ''oauth_no_user_id''
      | OIdentityMismatch \<Rightarrow> Failure 502 ''oauth_identity_mismatch''
      | OIDTokenInvalid \<Rightarrow> Failure 502 ''oauth_idtoken_invalid''
      | _ \<Rightarrow> Failure 502 ''oauth_userinfo_failed'')"

text \<open>The part of the callback after the provider has identified somebody.\<close>

definition finish_login ::
  "hmac \<Rightarrow> manager \<Rightarrow> vault \<Rightarrow> entropy \<Rightarrow> bool \<Rightarrow> string \<Rightarrow> oauth_profile \<Rightarrow> store \<Rightarrow>
     (string \<times> public_account) response \<times> set_cookie list \<times> store" where
  "finish_login hm m v en has_settings name info \<sigma> =
     (let (auto, \<sigma>1) = (if has_settings
            then (case open_registration \<sigma> of (Inl err, s) \<Rightarrow> (False, s) | (Inr b, s) \<Rightarrow> (b, s))
            else (False, \<sigma>)) in
      case upsert_on_login v (en_nonce en) (en_account en)
          \<lparr>li_provider = name, li_user_id = op_user_id info, li_first = op_first info,
           li_last = op_last info, li_avatar = op_avatar info, li_sex = op_sex info,
           li_birthday = op_birthday info, li_auto_approve = auto\<rparr> \<sigma>1 of
        (Inl err, \<sigma>2) \<Rightarrow> (Failure 500 ''internal'', [], \<sigma>2)
      | (Inr acc, \<sigma>2) \<Rightarrow>
          (case create_session hm m (en_session en) (en_token en) (ac_id acc) \<sigma>2 of
             (Inl err, \<sigma>3) \<Rightarrow> (Failure 500 ''internal'', [ClearState name], \<sigma>3)
           | (Inr raw, \<sigma>3) \<Rightarrow>
               (Success 200 (ac_status acc, publicAccount acc), [ClearState name, SetSession raw], \<sigma>3)))"

definition handle_oauth_callback ::
  "hmac \<Rightarrow> manager \<Rightarrow> vault \<Rightarrow> entropy \<Rightarrow> bool \<Rightarrow> provider \<Rightarrow> callback_req option \<Rightarrow> string option \<Rightarrow>
     store \<Rightarrow> (string \<times> public_account) response \<times> set_cookie list \<times> store" where
  "handle_oauth_callback hm m v en has_settings p body state_cookie \<sigma> =
     (if \<not> pv_configured p then (Failure 503 ''oauth_not_configured'', [], \<sigma>)
      else case body of
        None \<Rightarrow> (Failure 400 ''bad_request'', [], \<sigma>)
      | Some req \<Rightarrow>
          if cb_consent_version req = '''' then (Failure 400 ''consent_required'', [], \<sigma>)
          else if cb_consent_version req \<noteq> ConsentVersion then (Failure 409 ''consent_outdated'', [], \<sigma>)
          else if cb_code req = '''' \<or> cb_code_verifier req = '''' then (Failure 400 ''bad_request'', [], \<sigma>)
          else if (case state_cookie of None \<Rightarrow> True | Some c \<Rightarrow> c = '''' \<or> c \<noteq> cb_state req)
            then (Failure 400 ''bad_state'', [], \<sigma>)
          else case pv_exchange p req of
            Inl err \<Rightarrow> (exchange_failure err, [], \<sigma>)
          | Inr tok \<Rightarrow>
              (case pv_profile p tok of
                 Inl err \<Rightarrow> (profile_failure err, [], \<sigma>)
               | Inr info \<Rightarrow> finish_login hm m v en has_settings (pv_name p) info \<sigma>))"

section \<open>Reading an account back\<close>

lemma get_by_id_clear:
  "weather \<sigma> = [] \<Longrightarrow> pg_uuid i = Some u \<Longrightarrow> get_by_id v i \<sigma> =
     (case find (has_id u) (accounts \<sigma>) of
        None \<Rightarrow> (Inl EAccountNotFound, \<sigma>) | Some r \<Rightarrow> (to_account v r, \<sigma>))"
  by (auto simp: get_by_id_def and_then_def select_account_def return_op_def split: option.split)

lemma find_by_id:
  assumes "account_table_ok \<sigma>" and "r \<in> set (accounts \<sigma>)"
  shows "find (has_id (ar_id r)) (accounts \<sigma>) = (if ar_deleted r = None then Some r else None)"
proof -
  have "distinct (map ar_id (accounts \<sigma>))" using assms(1) by (simp add: account_table_ok_def)
  then have "find (\<lambda>q. ar_id q = ar_id r \<and> ar_deleted q = None) (accounts \<sigma>) =
      (if ar_deleted r = None then Some r else None)"
    using assms(2) by (rule find_distinct)
  then show ?thesis by (simp add: has_id_def [abs_def])
qed

lemma good_standing_row:
  assumes "account_table_ok \<sigma>" and "r \<in> set (accounts \<sigma>)"
  shows "account_in_good_standing \<sigma> (ar_id r) \<longleftrightarrow> ar_deleted r = None \<and> ar_status r = ''approved''"
proof -
  have "distinct (map ar_id (accounts \<sigma>))" using assms(1) by (simp add: account_table_ok_def)
  then have "q = r" if "q \<in> set (accounts \<sigma>)" "ar_id q = ar_id r" for q
    using that(1) assms(2) that(2) by (rule distinct_key)
  then show ?thesis using assms(2) by (auto simp: account_in_good_standing_def list_ex_iff)
qed

lemma current_account_row:
  assumes "session_table_ok \<sigma>" and "account_table_ok \<sigma>" and "weather \<sigma> = []"
    and "s \<in> set (sessions \<sigma>)" and "sr_hash s = hash_token hm m raw" and "raw \<noteq> ''''"
    and "r \<in> set (accounts \<sigma>)" and "ar_id r = sr_account s" and "to_account v r = Inr a"
  shows "current_account hm m v (Some raw) \<sigma> =
    (if token_live \<sigma> s \<and> ar_deleted r = None then Some (a, sr_id s) else None, \<sigma>)"
proof -
  have "distinct (map sr_hash (sessions \<sigma>))" using assms(1) by (simp add: session_table_ok_def)
  from find_distinct [OF this assms(4), of "token_live \<sigma>"]
  have f: "find (\<lambda>q. sr_hash q = hash_token hm m raw \<and> token_live \<sigma> q) (sessions \<sigma>) =
      (if token_live \<sigma> s then Some s else None)" by (simp add: assms(5))
  have u: "pg_uuid (sr_account s) = Some (ar_id r)"
    using assms(2,7,8) by (auto simp: account_table_ok_def row_ok_def canonical_def)
  have re: "resolve hm m raw \<sigma> = (if token_live \<sigma> s
      then Inr \<lparr>rs_id = sr_id s, rs_account = sr_account s\<rparr> else Inl ESessionInvalid, \<sigma>)"
    using assms(3,6) f by (simp add: resolve_def and_then_def select_by_token_def return_op_def)
  show ?thesis
    using assms(6) re get_by_id_clear [OF assms(3) u, of v] find_by_id [OF assms(2,7)] assms(9)
    by (simp add: current_account_def)
qed

section \<open>Properties\<close>

text \<open>C9: the guard of every request and the sweep over live sockets apply one and the same rule. Whenever
  the account's row can be decrypted and the database answers, a session is let through by
  \<^verbatim>\<open>requireAuth\<close>, as the account it belongs to, exactly when \<^verbatim>\<open>RevokedSessions\<close> does not
  name it.\<close>

theorem guard_and_sweep_agree:
  assumes "session_table_ok \<sigma>" and "account_table_ok \<sigma>" and "weather \<sigma> = []"
    and "s \<in> set (sessions \<sigma>)" and "sr_hash s = hash_token hm m raw" and "raw \<noteq> ''''"
    and "\<forall>r \<in> set (accounts \<sigma>). \<exists>a. to_account v r = Inr a"
  shows "fst (revoked_sessions [sr_id s] \<sigma>) =
    Inr (case fst (require_auth hm m v (Some raw) (\<lambda>acc sid \<sigma>. (Success 200 (ac_id acc, sid), \<sigma>)) \<sigma>) of
           Success st body \<Rightarrow> if st = 200 \<and> body = (sr_account s, sr_id s) then [] else [sr_id s]
         | Failure st err \<Rightarrow> [sr_id s])"
proof -
  have can: "canonical (sr_id s)" using assms(1,4) by (simp add: session_table_ok_def)
  obtain r where r: "r \<in> set (accounts \<sigma>)" "ar_id r = sr_account s"
    using assms(1,4) by (force simp: session_table_ok_def)
  obtain a where a: "to_account v r = Inr a" using assms(7) r(1) by blast
  have cur: "current_account hm m v (Some raw) \<sigma> =
      (if token_live \<sigma> s \<and> ar_deleted r = None then Some (a, sr_id s) else None, \<sigma>)"
    using assms(1-6) r a by (rule current_account_row)
  obtain dead \<sigma>' where d: "revoked_sessions [sr_id s] \<sigma> = (Inr dead, \<sigma>')"
    using can assms(3) by (simp add: revoked_sessions_def and_then_def select_alive_def pg_uuid_Some return_op_def)
  moreover have "\<sigma>' = \<sigma>"
    using d can assms(3) by (simp add: revoked_sessions_def and_then_def select_alive_def pg_uuid_Some return_op_def)
  ultimately have "dead = filter (\<lambda>i. \<not> session_live \<sigma> i) [sr_id s]"
    using revoked_sessions_dead can by fastforce
  then have dead: "fst (revoked_sessions [sr_id s] \<sigma>) =
      Inr (if token_live \<sigma> s \<and> ar_deleted r = None \<and> ar_status r = ''approved'' then [] else [sr_id s])"
    using d session_live_row [OF assms(1,4)] good_standing_row [OF assms(2) r(1)] r(2) by auto
  show ?thesis
    unfolding dead require_auth_def cur using to_account_keeps [OF a] r(2)
    by (simp add: is_approved_def StatusApproved_def)
qed

text \<open>C10: nothing happens at a login callback without consent to the edition in force, a code, its
  verifier and the state this server set in the browser's own cookie: no row is written, no
  cookie is set, and the answer is the same whatever the provider would have said, for it is not
  asked.\<close>

theorem callback_gates_before_the_provider:
  assumes "\<not> (pv_configured p \<and> (\<exists>req. body = Some req \<and> cb_consent_version req = ConsentVersion \<and>
      cb_code req \<noteq> '''' \<and> cb_code_verifier req \<noteq> '''' \<and> cb_state req \<noteq> '''' \<and>
      cookie = Some (cb_state req)))"
  shows "handle_oauth_callback hm m v en has_settings p body cookie \<sigma> =
      handle_oauth_callback hm m v en has_settings (p\<lparr>pv_exchange := ex, pv_profile := pr\<rparr>) body cookie \<sigma> \<and>
    (\<exists>st err. handle_oauth_callback hm m v en has_settings p body cookie \<sigma> = (Failure st err, [], \<sigma>))"
proof (cases body)
  case None
  then show ?thesis by (simp add: handle_oauth_callback_def)
next
  case (Some req)
  have c: "ConsentVersion \<noteq> ''''" by (simp add: ConsentVersion_def)
  show ?thesis
  proof (cases "pv_configured p \<and> cb_consent_version req = ConsentVersion \<and> cb_code req \<noteq> '''' \<and>
      cb_code_verifier req \<noteq> ''''")
    case False
    with Some c show ?thesis by (auto simp: handle_oauth_callback_def)
  next
    case True
    with assms Some have "cookie \<noteq> Some (cb_state req) \<or> cb_state req = ''''" by blast
    with True Some c show ?thesis by (cases cookie) (auto simp: handle_oauth_callback_def)
  qed
qed

lemma finish_login_Success:
  assumes "finish_login hm m v en has_settings name info \<sigma> = (Success st (status, pub), cookies, \<sigma>')"
  obtains auto \<sigma>1 acc \<sigma>2 raw where
    "\<sigma>1 = (if has_settings then snd (open_registration \<sigma>) else \<sigma>)"
    and "upsert_on_login v (en_nonce en) (en_account en)
          \<lparr>li_provider = name, li_user_id = op_user_id info, li_first = op_first info,
           li_last = op_last info, li_avatar = op_avatar info, li_sex = op_sex info,
           li_birthday = op_birthday info, li_auto_approve = auto\<rparr> \<sigma>1 = (Inr acc, \<sigma>2)"
    and "create_session hm m (en_session en) (en_token en) (ac_id acc) \<sigma>2 = (Inr raw, \<sigma>')"
    and "st = 200" and "status = ac_status acc" and "pub = publicAccount acc"
    and "cookies = [ClearState name, SetSession raw]"
proof -
  let ?first = "if has_settings
    then (case open_registration \<sigma> of (Inl err, s) \<Rightarrow> (False, s) | (Inr b, s) \<Rightarrow> (b, s)) else (False, \<sigma>)"
  obtain auto \<sigma>1 where 1: "?first = (auto, \<sigma>1)" by (cases ?first)
  then have same: "\<sigma>1 = (if has_settings then snd (open_registration \<sigma>) else \<sigma>)"
    by (auto split: if_splits prod.splits sum.splits)
  from assms show ?thesis
    unfolding finish_login_def Let_def 1 prod.case
    by (auto split: prod.splits sum.splits intro: that [OF same])
qed

lemma upsert_account_row:
  assumes "upsert_account nid p \<sigma> = (Inr row, \<sigma>')"
  shows "row \<in> set (accounts \<sigma>')" and "sessions \<sigma>' = sessions \<sigma>" and "weather \<sigma>' = weather \<sigma>"
    and "clock \<sigma>' = clock \<sigma>" and "ar_id ` set (accounts \<sigma>) \<subseteq> ar_id ` set (accounts \<sigma>')"
    and "(\<forall>r \<in> set (accounts \<sigma>). ar_deleted r = None) \<Longrightarrow> \<forall>r \<in> set (accounts \<sigma>'). ar_deleted r = None"
proof -
  let ?same = "same_identity (up_provider p) (up_ref p)"
  have "row \<in> set (accounts \<sigma>') \<and> sessions \<sigma>' = sessions \<sigma> \<and> weather \<sigma>' = weather \<sigma> \<and>
      clock \<sigma>' = clock \<sigma> \<and> ar_id ` set (accounts \<sigma>) \<subseteq> ar_id ` set (accounts \<sigma>') \<and>
      ((\<forall>r \<in> set (accounts \<sigma>). ar_deleted r = None) \<longrightarrow> (\<forall>r \<in> set (accounts \<sigma>'). ar_deleted r = None))"
  proof (cases "find ?same (accounts \<sigma>)")
    case None
    with assms have "\<sigma>' = \<sigma>\<lparr>accounts := accounts \<sigma> @ [row]\<rparr>" "row = inserted p nid (clock \<sigma>)"
      by (auto simp: upsert_account_eq split: if_splits)
    then show ?thesis by (auto simp: inserted_def)
  next
    case (Some r)
    with assms have eq: "\<sigma>' = update_where ?same (refreshed p (clock \<sigma>)) \<sigma>" "row = refreshed p (clock \<sigma>) r"
      by (auto simp: upsert_account_eq split: if_splits)
    from find_SomeD [OF Some] have r: "r \<in> set (accounts \<sigma>)" "?same r" by auto
    have "map ar_id (accounts \<sigma>') = map ar_id (accounts \<sigma>)"
      unfolding eq update_where_def account_set by (rule map_cond_same) (simp add: refreshed_def)
    then have "ar_id ` set (accounts \<sigma>') = ar_id ` set (accounts \<sigma>)" by (metis list.set_map)
    moreover have "row \<in> set (accounts \<sigma>')"
      using r by (force simp: eq update_where_def)
    moreover have "ar_deleted (refreshed p t q) = ar_deleted q" for t q by (simp add: refreshed_def)
    ultimately show ?thesis by (auto simp: eq update_where_def)
  qed
  then show "row \<in> set (accounts \<sigma>')" and "sessions \<sigma>' = sessions \<sigma>" and "weather \<sigma>' = weather \<sigma>"
    and "clock \<sigma>' = clock \<sigma>" and "ar_id ` set (accounts \<sigma>) \<subseteq> ar_id ` set (accounts \<sigma>')"
    and "(\<forall>r \<in> set (accounts \<sigma>). ar_deleted r = None) \<Longrightarrow> \<forall>r \<in> set (accounts \<sigma>'). ar_deleted r = None"
    by blast+
qed

text \<open>
  the session cookie a successful login sets authenticates, at the next request, as the very account
  the response described: the one of the provider's own answer about who this is. Under a pending
  or blocked status the cookie still identifies its owner, and the guard still refuses it.\<close>

theorem login_cookie_authenticates:
  assumes "session_table_ok \<sigma>" and "account_table_ok \<sigma>" and "\<forall>r \<in> set (accounts \<sigma>). ar_deleted r = None"
    and "vault_ok v" and "\<forall>i. length (en_nonce en i) = vt_nonce_size v"
    and "canonical (en_account en)" and "canonical (en_session en)" and "en_token en \<noteq> ''''" and "0 < mg_ttl m"
    and "weather \<sigma> = []"
    and "handle_oauth_callback hm m v en has_settings p body state_cookie \<sigma> =
      (Success st (status, pub), cookies, \<sigma>')"
  shows "\<exists>req tok info acc. body = Some req \<and> pv_exchange p req = Inr tok \<and> pv_profile p tok = Inr info \<and>
    ac_provider acc = pv_name p \<and> ac_user_id acc = op_user_id info \<and>
    status = ac_status acc \<and> pub = publicAccount acc \<and>
    cookies = [ClearState (pv_name p), SetSession (en_token en)] \<and>
    current_account hm m v (Some (en_token en)) \<sigma>' = (Some (acc, en_session en), \<sigma>') \<and>
    (is_approved acc \<longleftrightarrow> require_auth hm m v (Some (en_token en)) (\<lambda>a i s. (Success 200 (), s)) \<sigma>' =
       (Success 200 (), \<sigma>'))"
proof -
  from assms(11) obtain req tok info where req: "body = Some req" "pv_exchange p req = Inr tok"
    "pv_profile p tok = Inr info"
    and fin: "finish_login hm m v en has_settings (pv_name p) info \<sigma> = (Success st (status, pub), cookies, \<sigma>')"
    by (auto simp: handle_oauth_callback_def exchange_failure_def profile_failure_def
        split: if_splits option.splits sum.splits oauth_error.splits)
  from fin obtain auto \<sigma>1 acc \<sigma>2 raw where s1: "\<sigma>1 = (if has_settings then snd (open_registration \<sigma>) else \<sigma>)"
    and up: "upsert_on_login v (en_nonce en) (en_account en)
          \<lparr>li_provider = pv_name p, li_user_id = op_user_id info, li_first = op_first info,
           li_last = op_last info, li_avatar = op_avatar info, li_sex = op_sex info,
           li_birthday = op_birthday info, li_auto_approve = auto\<rparr> \<sigma>1 = (Inr acc, \<sigma>2)"
    and cs: "create_session hm m (en_session en) (en_token en) (ac_id acc) \<sigma>2 = (Inr raw, \<sigma>')"
    and out: "status = ac_status acc" "pub = publicAccount acc" "cookies = [ClearState (pv_name p), SetSession raw]"
    by (rule finish_login_Success)
  have \<sigma>1: "accounts \<sigma>1 = accounts \<sigma>" "sessions \<sigma>1 = sessions \<sigma>" "weather \<sigma>1 = []"
    using assms(10) by (simp_all add: s1 open_registration_def and_then_def get_setting_def return_op_def)
  obtain params row where row: "upsert_account (en_account en) params \<sigma>1 = (Inr row, \<sigma>2)"
    and acc: "to_account v row = Inr acc"
    using up \<sigma>1(3) by (auto simp: upsert_on_login_def and_then_Inr return_op_def)
  note upd = upsert_account_row [OF row]
  have at2: "account_table_ok \<sigma>2"
    using upsert_account_ok [OF _ assms(6), of \<sigma>1 params] assms(2) row \<sigma>1(1)
    by (simp add: account_table_ok_def)
  have st2: "session_table_ok \<sigma>2"
    using assms(1) upd(2,5) \<sigma>1 by (auto simp: session_table_ok_def)
  have w2: "weather \<sigma>2 = []" using upd(3) \<sigma>1(3) by simp
  let ?h = "hash_token hm m (en_token en)"
  have raw: "raw = en_token en"
    and ins: "insert_session (en_session en) (ac_id acc) ?h (clock \<sigma>2 + mg_ttl m) \<sigma>2 = (Inr (), \<sigma>')"
    using cs w2 by (auto simp: create_session_def and_then_Inr return_op_def)
  have rin: "row \<in> set (accounts \<sigma>2)" "ar_deleted row = None"
    using upd(1) upd(6) assms(3) \<sigma>1(1) by auto
  have id: "ac_id acc = ar_id row" by (rule to_account_keeps [OF acc])
  have u: "pg_uuid (ac_id acc) = Some (ar_id row)"
    using at2 rin(1) id by (simp add: account_table_ok_def row_ok_def canonical_def)
  let ?s = "\<lparr>sr_id = en_session en, sr_account = ar_id row, sr_hash = ?h,
    sr_expires = clock \<sigma>2 + mg_ttl m, sr_created = clock \<sigma>2, sr_deleted = None\<rparr>"
  have s': "\<sigma>' = \<sigma>2\<lparr>sessions := sessions \<sigma>2 @ [?s]\<rparr>"
    using ins u by (auto simp: insert_session_def split: if_splits)
  have st': "session_table_ok \<sigma>'"
    using insert_session_ok [OF assms(7) st2, of "ac_id acc" ?h "clock \<sigma>2 + mg_ttl m"] ins by simp
  have at': "account_table_ok \<sigma>'" using at2 by (simp add: s' account_table_ok_def)
  have cur: "current_account hm m v (Some (en_token en)) \<sigma>' = (Some (acc, en_session en), \<sigma>')"
    using current_account_row [OF st' at' _ _ _ assms(8) _ _ acc, of ?s] rin w2 assms(9)
    by (simp add: s' token_live_def)
  have who: "ac_provider acc = pv_name p \<and> ac_user_id acc = op_user_id info"
    using login_result [OF assms(4,5) up] by simp
  show ?thesis
    using req who out raw cur by (auto simp: require_auth_def)

qed

section \<open>Witnesses\<close>

lemma demo_account_table: "account_table_ok demo_store"
  by (simp add: account_table_ok_def row_ok_def identity_of_def demo_uuids demo_defs)

theorem guard_and_sweep_agree_witness:
  "fst (revoked_sessions [sess_id] demo_store) = Inr [] \<and>
   fst (revoked_sessions [sess_id] (demo_store\<lparr>clock := 100\<rparr>)) = Inr [sess_id]"
proof -
  let ?v = "demo_vault\<lparr>vt_nonce_size := 0\<rparr>" and ?late = "demo_store\<lparr>clock := 100\<rparr>"
  let ?s = "\<lparr>sr_id = sess_id, sr_account = ann_id, sr_hash = ''hk'', sr_expires = 100,
    sr_created = 0, sr_deleted = None\<rparr>"
  let ?ann = "plain_account ann_id ''user'' ''approved'' ''vk'' ''ra''"
  have dec: "to_account ?v (plain_account i r st pr ref) = Inr
     \<lparr>ac_id = i, ac_role = r, ac_status = st, ac_provider = pr, ac_user_id = [], ac_first = [],
      ac_last = [], ac_avatar = [], ac_sex = [], ac_birthday = [], ac_handle = take 8 (hex_encode ref),
      ac_created = 0\<rparr>" for i r st pr ref
    by (simp add: to_account_def plain_account_def decrypt_string_def dec_optional_def demo_vault_def)
  have all: "\<forall>r \<in> set (accounts demo_store). \<exists>a. to_account ?v r = Inr a"
    "\<forall>r \<in> set (accounts ?late). \<exists>a. to_account ?v r = Inr a"
    unfolding demo_store_def by (auto simp: dec)
  have t: "session_table_ok ?late" "account_table_ok ?late"
    using demo_session_table demo_account_table by (simp_all add: session_table_ok_def account_table_ok_def)
  have s: "?s \<in> set (sessions demo_store)" "?s \<in> set (sessions ?late)"
    "sr_hash ?s = hash_token demo_hmac demo_manager ''h''" "weather demo_store = []" "weather ?late = []"
    by (simp_all add: demo_defs)
  have r: "?ann \<in> set (accounts demo_store)" "?ann \<in> set (accounts ?late)" "ar_id ?ann = sr_account ?s"
    "ar_deleted ?ann = None"
    by (simp_all add: demo_defs)
  note cur = current_account_row [OF demo_session_table demo_account_table s(4) s(1,3) _ r(1,3) dec]
    current_account_row [OF t s(5) s(2,3) _ r(2,3) dec]
  have live: "token_live demo_store ?s" "\<not> token_live ?late ?s"
    by (simp_all add: token_live_def demo_defs)
  show ?thesis
    using guard_and_sweep_agree [OF demo_session_table demo_account_table s(4) s(1,3) _ all(1)]
      guard_and_sweep_agree [OF t s(5) s(2,3) _ all(2)] cur live
    by (simp add: require_auth_def is_approved_def StatusApproved_def plain_account_def)
qed

definition ann_client :: yandex_client where
  "ann_client = \<lparr>ya_exchange_code = (\<lambda>code verifier. Some ''access''),
     ya_user_info = (\<lambda>tok. Some \<lparr>op_user_id = [7], op_first = [65], op_last = [], op_avatar = [],
        op_sex = [], op_birthday = []\<rparr>)\<rparr>"

definition ann_request :: callback_req where
  "ann_request = \<lparr>cb_code = ''code'', cb_device_id = '''', cb_state = ''st'', cb_code_verifier = ''ver'',
     cb_consent_version = ''v4''\<rparr>"

definition ann_entropy :: entropy where
  "ann_entropy = \<lparr>en_nonce = demo_nonce, en_account = bob_id, en_session = sess_id, en_token = ''tok''\<rparr>"

theorem callback_gates_before_the_provider_witness:
  "\<exists>st err. handle_oauth_callback demo_hmac demo_manager demo_vault ann_entropy True
     (yandex_provider True ann_client) (Some (ann_request\<lparr>cb_consent_version := ''v3''\<rparr>)) (Some ''st'') ann_store =
     (Failure st err, [], ann_store)"
  using callback_gates_before_the_provider [of "yandex_provider True ann_client"
      "Some (ann_request\<lparr>cb_consent_version := ''v3''\<rparr>)" "Some ''st''"]
  by (simp add: ConsentVersion_def)

theorem login_cookie_authenticates_witness:
  "\<exists>acc \<sigma>'. current_account demo_hmac demo_manager demo_vault (Some ''tok'') \<sigma>' = (Some (acc, sess_id), \<sigma>') \<and>
     ac_user_id acc = [7]"
proof -
  let ?call = "handle_oauth_callback demo_hmac demo_manager demo_vault ann_entropy True
     (yandex_provider True ann_client) (Some ann_request) (Some ''st'') ann_store"
  have u: "pg_uuid bob_id = Some bob_id" using demo_uuids(2) by (simp add: canonical_def)
  have "\<exists>st status pub cookies \<sigma>'. ?call = (Success st (status, pub), cookies, \<sigma>')"
    using u by (simp add: handle_oauth_callback_def finish_login_def yandex_provider_def yandex_exchange_def
        yandex_profile_def ann_client_def ann_request_def ann_entropy_def ConsentVersion_def
        open_registration_def get_setting_def and_then_def return_op_def upsert_on_login_def
        upsert_account_def same_identity_def inserted_def account_consts ann_defs enc_optional_def
        to_account_def dec_optional_def decrypt_string_def encrypt_string_def unary_def
        create_session_def insert_session_def hash_token_def)
  then obtain st status pub cookies \<sigma>' where call: "?call = (Success st (status, pub), cookies, \<sigma>')" by blast
  have pre: "session_table_ok ann_store" "\<forall>r \<in> set (accounts ann_store). ar_deleted r = None"
    "\<forall>i. length (en_nonce ann_entropy i) = vt_nonce_size demo_vault" "canonical (en_account ann_entropy)"
    "canonical (en_session ann_entropy)" "en_token ann_entropy \<noteq> ''''" "0 < mg_ttl demo_manager" "weather ann_store = []"
    using demo_uuids by (simp_all add: session_table_ok_def ann_defs ann_entropy_def demo_manager_def)
  from login_cookie_authenticates [OF pre(1) ann_table pre(2) demo_vault_ok pre(3-8) call]
  show ?thesis
    by (auto simp: ann_entropy_def ann_request_def yandex_provider_def yandex_exchange_def yandex_profile_def
        ann_client_def)
qed

end
