(* ===== verification/HttpAdmin.thy ===== *)
theory HttpAdmin
  imports HttpAuth Realtime
begin

text \<open>
  The administration routes (\<^verbatim>\<open>internal/httpapi/admin.go\<close>, as \<^verbatim>\<open>router.go\<close> chains them
  behind the guards of \<open>HttpAuth\<close>). What a handler does outside the database, kicking
  sockets and clearing the games' memory, is a list of events in the order it happens, with
  the two database steps whose place in that order the code relies on. Requests are handled
  one at a time; the target read before a decision is the row the decision acts on.
\<close>

datatype admin_event = EKick string | ERevokeSessions string | EGamesForget string | EForget string

type_synonym 'b admin_result = "('b response \<times> admin_event list) \<times> store"

section \<open>Guards\<close>

definition admin_route ::
  "hmac \<Rightarrow> manager \<Rightarrow> vault \<Rightarrow> string option \<Rightarrow> bool \<Rightarrow> (account \<Rightarrow> store \<Rightarrow> 'b admin_result) \<Rightarrow>
     store \<Rightarrow> 'b admin_result" where
  "admin_route hm m v cookie super handler \<sigma> =
     (case require_auth hm m v cookie
          (\<lambda>acc sid. require_admin acc
            (if super then require_superadmin acc (\<lambda>\<sigma>. (Success 200 acc, \<sigma>))
             else (\<lambda>\<sigma>. (Success 200 acc, \<sigma>)))) \<sigma> of
        (Failure st err, \<sigma>1) \<Rightarrow> ((Failure st err, []), \<sigma>1)
      | (Success st acc, \<sigma>1) \<Rightarrow> handler acc \<sigma>1)"

section \<open>Settings and the list\<close>

definition handle_settings_get :: "account \<Rightarrow> store \<Rightarrow> bool admin_result" where
  "handle_settings_get actor \<sigma> =
     (case open_registration \<sigma> of
        (Inl err, \<sigma>1) \<Rightarrow> ((Failure 500 ''internal'', []), \<sigma>1)
      | (Inr b, \<sigma>1) \<Rightarrow> ((Success 200 b, []), \<sigma>1))"

definition handle_set_open_registration :: "bool option \<Rightarrow> account \<Rightarrow> store \<Rightarrow> bool admin_result" where
  "handle_set_open_registration body actor \<sigma> =
     (case body of
        None \<Rightarrow> ((Failure 400 ''bad_request'', []), \<sigma>)
      | Some enabled \<Rightarrow>
          (case set_open_registration enabled \<sigma> of
             (Inl err, \<sigma>1) \<Rightarrow> ((Failure 500 ''internal'', []), \<sigma>1)
           | (Inr _, \<sigma>1) \<Rightarrow> ((Success 200 enabled, []), \<sigma>1)))"

record admin_account = public_account +
  aa_created :: int

definition adminAccountResponse :: "account \<Rightarrow> admin_account" where
  "adminAccountResponse a =
     \<lparr>pa_id = ac_id a, pa_display_name = display_name a, pa_avatar_url = ac_avatar a,
      pa_provider = ac_provider a, pa_profile_url = profile_url a, pa_role = ac_role a,
      pa_status = ac_status a, pa_handle = ac_handle a, aa_created = ac_created a\<rparr>"

definition handle_admin_list :: "vault \<Rightarrow> string \<Rightarrow> account \<Rightarrow> store \<Rightarrow> admin_account list admin_result" where
  "handle_admin_list v query actor \<sigma> =
     (let status = (if query = '''' then StatusPending else query) in
      if status \<notin> {StatusPending, StatusApproved, StatusBlocked}
      then ((Failure 400 ''bad_request'', []), \<sigma>)
      else case list_by_status v status \<sigma> of
        (Inl err, \<sigma>1) \<Rightarrow> ((Failure 500 ''internal'', []), \<sigma>1)
      | (Inr acs, \<sigma>1) \<Rightarrow> ((Success 200 (map adminAccountResponse acs), []), \<sigma>1))"

section \<open>Acting on an account\<close>

definition lookup_failure :: "app_error \<Rightarrow> 'b response" where
  "lookup_failure err =
     (if err = EAccountNotFound then Failure 404 ''not_found'' else Failure 500 ''internal'')"

definition admin_set_status :: "vault \<Rightarrow> string \<Rightarrow> string \<Rightarrow> account \<Rightarrow> store \<Rightarrow> unit admin_result" where
  "admin_set_status v i status actor \<sigma> =
     (if \<not> validUUID i then ((Failure 400 ''bad_request'', []), \<sigma>)
      else if status = StatusBlocked \<and> i = ac_id actor then ((Failure 403 ''cannot_modify_self'', []), \<sigma>)
      else case get_by_id v i \<sigma> of
        (Inl err, \<sigma>1) \<Rightarrow> ((lookup_failure err, []), \<sigma>1)
      | (Inr target, \<sigma>1) \<Rightarrow>
          if status = StatusBlocked \<and> is_superadmin target
          then ((Failure 403 ''cannot_block_superadmin'', []), \<sigma>1)
          else if is_admin target \<and> \<not> is_superadmin actor then ((Failure 403 ''forbidden'', []), \<sigma>1)
          else case (if status = StatusApproved then approve i else block i) \<sigma>1 of
            (Inl err, \<sigma>2) \<Rightarrow> ((Failure 500 ''internal'', []), \<sigma>2)
          | (Inr _, \<sigma>2) \<Rightarrow>
              if status = StatusBlocked
              then ((Success 204 (), [ERevokeSessions i, EKick i]), snd (revoke_all_for_account i \<sigma>2))
              else ((Success 204 (), []), \<sigma>2))"

definition handle_admin_approve :: "vault \<Rightarrow> string \<Rightarrow> account \<Rightarrow> store \<Rightarrow> unit admin_result" where
  "handle_admin_approve v i = admin_set_status v i StatusApproved"

definition handle_admin_block :: "vault \<Rightarrow> string \<Rightarrow> account \<Rightarrow> store \<Rightarrow> unit admin_result" where
  "handle_admin_block v i = admin_set_status v i StatusBlocked"

definition handle_admin_forget ::
  "vault \<Rightarrow> bytes \<Rightarrow> bytes \<Rightarrow> string \<Rightarrow> account \<Rightarrow> store \<Rightarrow> unit admin_result" where
  "handle_admin_forget v nonce new_ref i actor \<sigma> =
     (if \<not> validUUID i then ((Failure 400 ''bad_request'', []), \<sigma>)
      else if i = ac_id actor then ((Failure 403 ''cannot_modify_self'', []), \<sigma>)
      else case get_by_id v i \<sigma> of
        (Inl err, \<sigma>1) \<Rightarrow> ((lookup_failure err, []), \<sigma>1)
      | (Inr target, \<sigma>1) \<Rightarrow>
          if is_superadmin target then ((Failure 403 ''cannot_modify_superadmin'', []), \<sigma>1)
          else let \<sigma>2 = snd (revoke_all_for_account i \<sigma>1) in
            (case forget v nonce new_ref i \<sigma>2 of
               (Inl err, \<sigma>3) \<Rightarrow>
                 ((if err = EAlreadyForgotten then Failure 409 ''already_forgotten'' else Failure 500 ''internal'',
                   [EKick i, ERevokeSessions i, EGamesForget i, EForget i]), \<sigma>3)
             | (Inr _, \<sigma>3) \<Rightarrow>
                 ((Success 204 (), [EKick i, ERevokeSessions i, EGamesForget i, EForget i, EGamesForget i]), \<sigma>3)))"

definition handle_admin_promote :: "vault \<Rightarrow> string \<Rightarrow> account \<Rightarrow> store \<Rightarrow> unit admin_result" where
  "handle_admin_promote v i actor \<sigma> =
     (if \<not> validUUID i then ((Failure 400 ''bad_request'', []), \<sigma>)
      else case get_by_id v i \<sigma> of
        (Inl err, \<sigma>1) \<Rightarrow> ((lookup_failure err, []), \<sigma>1)
      | (Inr target, \<sigma>1) \<Rightarrow>
          (case promote i \<sigma>1 of
             (Inl err, \<sigma>2) \<Rightarrow> ((Failure 500 ''internal'', []), \<sigma>2)
           | (Inr _, \<sigma>2) \<Rightarrow> ((Success 204 (), []), \<sigma>2)))"

definition handle_admin_demote :: "vault \<Rightarrow> string \<Rightarrow> account \<Rightarrow> store \<Rightarrow> unit admin_result" where
  "handle_admin_demote v i actor \<sigma> =
     (if \<not> validUUID i then ((Failure 400 ''bad_request'', []), \<sigma>)
      else case get_by_id v i \<sigma> of
        (Inl err, \<sigma>1) \<Rightarrow> ((lookup_failure err, []), \<sigma>1)
      | (Inr target, \<sigma>1) \<Rightarrow>
          if is_superadmin target then ((Failure 403 ''cannot_modify_superadmin'', []), \<sigma>1)
          else case demote i \<sigma>1 of
            (Inl err, \<sigma>2) \<Rightarrow> ((Failure 500 ''internal'', []), \<sigma>2)
          | (Inr _, \<sigma>2) \<Rightarrow> ((Success 204 (), []), \<sigma>2))"

text \<open>\<^verbatim>\<open>Hub.KickAccount\<close>: what becomes of an \<open>EKick\<close> once the hub receives it.\<close>

definition kick_account :: "'e sink_ops \<Rightarrow> sink list \<Rightarrow> string \<Rightarrow> hub \<times> 'e \<Rightarrow> hub \<times> 'e" where
  "kick_account ops ord i he =
     (if h_done (fst he) then he else do_kick ops ord i CloseUnauthorized ReasonUnauthorized he)"

section \<open>What the statements can have done\<close>

lemma and_then_return: "snd (and_then f (\<lambda>x. return_op (g x)) \<sigma>) = snd (f \<sigma>)"
  by (auto simp: and_then_def return_op_def split: prod.split sum.split)

lemma select_account_state: "snd (select_account i \<sigma>) = \<sigma>"
  by (auto simp: select_account_def split: option.split)

lemma get_by_id_tables [simp]:
  "accounts (snd (get_by_id v i \<sigma>)) = accounts \<sigma>" "sessions (snd (get_by_id v i \<sigma>)) = sessions \<sigma>"
  by (cases "select_account i" \<sigma> rule: statement_cases;
      simp add: get_by_id_def and_then_return select_account_state)+

lemma get_by_id_row:
  assumes "get_by_id v i \<sigma> = (Inr a, \<sigma>')"
  obtains u r where "pg_uuid i = Some u" "r \<in> set (accounts \<sigma>)" "has_id u r" "to_account v r = Inr a"
proof -
  from assms obtain r where st: "statement (select_account i) \<sigma> = (Inr r, \<sigma>')" and a: "to_account v r = Inr a"
    by (auto simp: get_by_id_def and_then_Inr return_op_def)
  from st obtain dt ws where "select_account i (advance dt ws \<sigma>) = (Inr r, \<sigma>')" by (rule statement_ok)
  then obtain u where "pg_uuid i = Some u" "find (has_id u) (accounts \<sigma>) = Some r"
    by (auto simp: select_account_def split: option.splits)
  with a that show ?thesis by (auto dest: find_SomeD)
qed

lemma update_account_rows:
  "accounts (snd (statement (update_account i f) \<sigma>)) = accounts \<sigma> \<or>
   (\<exists>u t. pg_uuid i = Some u \<and> accounts (snd (statement (update_account i f) \<sigma>)) =
      map (\<lambda>r. if has_id u r then f t r else r) (accounts \<sigma>))"
proof -
  have "accounts (snd (update_account i f \<tau>)) = accounts \<sigma> \<or>
   (\<exists>u t. pg_uuid i = Some u \<and> accounts (snd (update_account i f \<tau>)) =
      map (\<lambda>r. if has_id u r then f t r else r) (accounts \<sigma>))" if "accounts \<tau> = accounts \<sigma>" for \<tau>
    using that by (auto simp: update_account_def update_where_def split: option.split)
  then show ?thesis by (cases "update_account i f" \<sigma> rule: statement_cases) simp_all
qed

lemma update_account_done:
  assumes "statement (update_account i f) \<sigma> = (Inr x, \<sigma>')"
  obtains u t where "pg_uuid i = Some u" "sessions \<sigma>' = sessions \<sigma>"
    "accounts \<sigma>' = map (\<lambda>r. if has_id u r then f t r else r) (accounts \<sigma>)"
proof -
  obtain dt ws where "update_account i f (advance dt ws \<sigma>) = (Inr x, \<sigma>')"
    using assms by (rule statement_ok)
  with that [of _ "clock (advance dt ws \<sigma>)"] show ?thesis
    by (auto simp: update_account_def update_where_def split: option.splits if_splits)
qed

lemma revoke_all_accounts [simp]: "accounts (snd (revoke_all_for_account i \<sigma>)) = accounts \<sigma>"
proof -
  let ?f = "\<lambda>\<sigma>. case pg_uuid i of None \<Rightarrow> (Inl EDb, \<sigma>) | Some a \<Rightarrow> delete_sessions (\<lambda>r. sr_account r = a) \<sigma>"
  have "accounts (snd (?f \<tau>)) = accounts \<tau>" for \<tau>
    by (simp add: delete_sessions_def split: option.split)
  then show ?thesis
    unfolding revoke_all_for_account_def by (cases ?f \<sigma> rule: statement_cases) simp_all
qed

lemma forget_rows:
  "accounts (snd (forget v n ref i \<sigma>)) = accounts \<sigma> \<or>
   (\<exists>u t. pg_uuid i = Some u \<and> accounts (snd (forget v n ref i \<sigma>)) =
      map (\<lambda>r. if has_id u r \<and> ar_forgotten r = None then anonymised ref (encrypt_string v n []) t r else r)
        (accounts \<sigma>))"
proof -
  let ?f = "forget_account i ref (encrypt_string v n [])"
  have "accounts (snd (?f \<tau>)) = accounts \<sigma> \<or>
   (\<exists>u t. pg_uuid i = Some u \<and> accounts (snd (?f \<tau>)) =
      map (\<lambda>r. if has_id u r \<and> ar_forgotten r = None then anonymised ref (encrypt_string v n []) t r else r)
        (accounts \<sigma>))" if "accounts \<tau> = accounts \<sigma>" for \<tau>
    using that by (auto simp: forget_account_def update_where_def split: option.split)
  then show ?thesis unfolding forget_def by (cases ?f \<sigma> rule: statement_cases) simp_all
qed

text \<open>An account that was found is the only live row of its id, and carries its role.\<close>

lemma target_row:
  assumes "account_table_ok \<sigma>" and "get_by_id v i \<sigma> = (Inr a, \<sigma>')" and "q \<in> set (accounts \<sigma>)"
    and "pg_uuid i = Some u" and "has_id u q"
  shows "ar_role q = ac_role a" and "ar_status q = ac_status a" and "ar_id q = ac_id a"
proof -
  obtain w r where r: "pg_uuid i = Some w" "r \<in> set (accounts \<sigma>)" "has_id w r" "to_account v r = Inr a"
    using assms(2) by (rule get_by_id_row)
  have "q = r"
    using distinct_key [of ar_id "accounts \<sigma>" q r] assms r by (simp add: account_table_ok_def has_id_def)
  with to_account_keeps [OF r(4)] show "ar_role q = ac_role a" "ar_status q = ac_status a" "ar_id q = ac_id a"
    by simp_all
qed

section \<open>Properties\<close>

text \<open>The row of another id, or of a superadmin the handler refuses, survives an update as it is.\<close>

lemma untouched_by_update:
  "q \<in> set (accounts \<sigma>) \<Longrightarrow> \<not> (\<exists>u. pg_uuid i = Some u \<and> has_id u q) \<Longrightarrow>
     q \<in> set (accounts (snd (statement (update_account i f) \<sigma>)))"
  using update_account_rows [of i f \<sigma>] by (auto simp: image_iff)

lemma untouched_by_forget:
  "q \<in> set (accounts \<sigma>) \<Longrightarrow> \<not> (\<exists>u. pg_uuid i = Some u \<and> has_id u q) \<Longrightarrow>
     q \<in> set (accounts (snd (forget v n ref i \<sigma>)))"
  using forget_rows [of v n ref i \<sigma>] by (auto simp: image_iff)

lemma block_status_cases:
  assumes "account_table_ok \<sigma>" and "q \<in> set (accounts \<sigma>)" and "ar_role q = ''superadmin''"
  shows "q \<in> set (accounts (snd (admin_set_status v i StatusBlocked actor \<sigma>)))"
proof (cases "get_by_id v i \<sigma>")
  case (Pair res \<sigma>1)
  have same: "accounts \<sigma>1 = accounts \<sigma>" using get_by_id_tables(1) [of v i \<sigma>] Pair by simp
  show ?thesis
  proof (cases res)
    case (Inl err)
    with Pair same assms(2) show ?thesis by (simp add: admin_set_status_def)
  next
    case (Inr a)
    show ?thesis
    proof (cases "is_superadmin a \<or> (is_admin a \<and> \<not> is_superadmin actor)")
      case True
      with Pair Inr same assms(2) show ?thesis by (auto simp: admin_set_status_def)
    next
      case False
      then have "\<not> (\<exists>u. pg_uuid i = Some u \<and> has_id u q)"
        using target_row(1) [OF assms(1) Pair [unfolded Inr] assms(2)] assms(3)
        by (auto simp: is_superadmin_def RoleSuperadmin_def)
      then have "q \<in> set (accounts (snd (block i \<sigma>1)))"
        unfolding block_def set_status_def using assms(2) same by (intro untouched_by_update) simp_all
      with False Pair Inr same assms(2) show ?thesis
        by (auto simp: admin_set_status_def StatusApproved_def StatusBlocked_def split: prod.split sum.split)
    qed
  qed
qed

lemma approve_keeps_role:
  assumes "account_table_ok \<sigma>" and "q \<in> set (accounts \<sigma>)"
  shows "\<exists>q' \<in> set (accounts (snd (admin_set_status v i StatusApproved actor \<sigma>))).
    ar_id q' = ar_id q \<and> ar_role q' = ar_role q \<and> (ar_status q' = ar_status q \<or> ar_status q' = ''approved'')"
proof (cases "get_by_id v i \<sigma>")
  case (Pair res \<sigma>1)
  have same: "accounts \<sigma>1 = accounts \<sigma>" using get_by_id_tables(1) [of v i \<sigma>] Pair by simp
  have "\<exists>q' \<in> set (accounts (snd (approve i \<sigma>1))).
    ar_id q' = ar_id q \<and> ar_role q' = ar_role q \<and> (ar_status q' = ar_status q \<or> ar_status q' = ''approved'')"
  proof (rule disjE [OF update_account_rows [of i "\<lambda>t r. r\<lparr>ar_status := StatusApproved, ar_updated := t\<rparr>" \<sigma>1]])
    assume "accounts (snd (statement (update_account i
        (\<lambda>t r. r\<lparr>ar_status := StatusApproved, ar_updated := t\<rparr>)) \<sigma>1)) = accounts \<sigma>1"
    then show ?thesis unfolding approve_def set_status_def using assms(2) same by auto
  next
    let ?f = "\<lambda>t r. r\<lparr>ar_status := StatusApproved, ar_updated := t\<rparr>"
    assume "\<exists>u t. pg_uuid i = Some u \<and> accounts (snd (statement (update_account i ?f) \<sigma>1)) =
        map (\<lambda>r. if has_id u r then ?f t r else r) (accounts \<sigma>1)"
    then obtain u t where m: "accounts (snd (approve i \<sigma>1)) =
        map (\<lambda>r. if has_id u r then ?f t r else r) (accounts \<sigma>)"
      unfolding approve_def set_status_def same by blast
    have "(if has_id u q then ?f t q else q) \<in> set (accounts (snd (approve i \<sigma>1)))"
      unfolding m set_map using assms(2) by (rule imageI)
    then show ?thesis by (rule bexI [rotated]) (simp add: StatusApproved_def)
  qed
  with Pair same assms(2) show ?thesis
    by (cases res) (auto simp: admin_set_status_def StatusApproved_def StatusBlocked_def split: prod.split sum.split)
qed

text \<open>C11: the superadmin is unrevokable by blocking, approving, demoting or forgetting: whoever asks, in
  whatever spelling of the id, and however the database behaves, a superadmin's row keeps its role,
  and its status except for becoming approved; blocking, demoting and forgetting leave the whole
  row as it was.\<close>

theorem superadmin_is_unrevokable:
  assumes "account_table_ok \<sigma>" and "q \<in> set (accounts \<sigma>)" and "ar_role q = ''superadmin''"
  shows "q \<in> set (accounts (snd (handle_admin_block v i actor \<sigma>))) \<and>
    q \<in> set (accounts (snd (handle_admin_demote v i actor \<sigma>))) \<and>
    q \<in> set (accounts (snd (handle_admin_forget v nonce ref i actor \<sigma>))) \<and>
    (\<exists>q' \<in> set (accounts (snd (handle_admin_approve v i actor \<sigma>))). ar_id q' = ar_id q \<and>
       ar_role q' = ''superadmin'' \<and> (ar_status q' = ar_status q \<or> ar_status q' = ''approved''))"
proof -
  obtain res \<sigma>1 where g: "get_by_id v i \<sigma> = (res, \<sigma>1)" by (cases "get_by_id v i \<sigma>")
  have same: "accounts \<sigma>1 = accounts \<sigma>" using get_by_id_tables(1) [of v i \<sigma>] g by simp
  have away: "\<not> (\<exists>u. pg_uuid i = Some u \<and> has_id u q)" if "res = Inr a" "\<not> is_superadmin a" for a
    using target_row(1) [OF assms(1) g [unfolded that(1)] assms(2)] assms(3) that(2)
    by (auto simp: is_superadmin_def RoleSuperadmin_def)
  have demote: "q \<in> set (accounts (snd (handle_admin_demote v i actor \<sigma>)))"
  proof (cases "\<exists>a. res = Inr a \<and> \<not> is_superadmin a")
    case True
    then have "q \<in> set (accounts (snd (demote i \<sigma>1)))"
      unfolding demote_def using away assms(2) same by (intro untouched_by_update) auto
    with True g assms(2) show ?thesis
      by (auto simp: handle_admin_demote_def split: prod.split sum.split)
  next
    case False
    with g same assms(2) show ?thesis
      by (cases res) (auto simp: handle_admin_demote_def)
  qed
  have forget: "q \<in> set (accounts (snd (handle_admin_forget v nonce ref i actor \<sigma>)))"
  proof (cases "\<exists>a. res = Inr a \<and> \<not> is_superadmin a")
    case True
    then have "q \<in> set (accounts (snd (forget v nonce ref i (snd (revoke_all_for_account i \<sigma>1)))))"
      using away assms(2) same by (intro untouched_by_forget) auto
    with True g assms(2) show ?thesis
      by (auto simp: handle_admin_forget_def Let_def split: prod.split sum.split)
  next
    case False
    with g same assms(2) show ?thesis
      by (cases res) (auto simp: handle_admin_forget_def)
  qed
  show ?thesis
    using block_status_cases [OF assms] approve_keeps_role [OF assms(1,2)] demote forget assms(3)
    unfolding handle_admin_block_def handle_admin_approve_def by auto
qed

text \<open>
  promoting has no such protection. Whoever the target is, a superadmin included, a successful
  promotion leaves it with the admin role: it lowers a superadmin.\<close>

theorem promotion_sets_admin_whatever_the_role:
  assumes "account_table_ok \<sigma>" and "handle_admin_promote v i actor \<sigma> = ((Success st (), evs), \<sigma>')"
  shows "\<exists>u q. pg_uuid i = Some u \<and> q \<in> set (accounts \<sigma>) \<and> ar_id q = u \<and> evs = [] \<and>
    (\<exists>q' \<in> set (accounts \<sigma>'). ar_id q' = u \<and> ar_role q' = ''admin'' \<and> ar_status q' = ''approved'') \<and>
    (\<forall>p \<in> set (accounts \<sigma>'). ar_id p = u \<longrightarrow> ar_role p \<noteq> ''superadmin'') \<and>
    (\<forall>p \<in> set (accounts \<sigma>). ar_id p \<noteq> u \<longrightarrow> p \<in> set (accounts \<sigma>'))"
proof -
  from assms(2) obtain a \<sigma>1 where g: "get_by_id v i \<sigma> = (Inr a, \<sigma>1)" and evs: "evs = []"
    and p: "promote i \<sigma>1 = (Inr (), \<sigma>')"
    by (auto simp: handle_admin_promote_def lookup_failure_def split: if_splits prod.splits sum.splits)
  have same: "accounts \<sigma>1 = accounts \<sigma>" using get_by_id_tables(1) [of v i \<sigma>] g by simp
  obtain u t where u: "pg_uuid i = Some u"
    and rows: "accounts \<sigma>' = map (\<lambda>r. if has_id u r then r\<lparr>ar_role := ''admin'', ar_status := ''approved'',
        ar_updated := t\<rparr> else r) (accounts \<sigma>1)"
    by (rule update_account_done [OF p [unfolded promote_def]])
  note acs = rows [unfolded same]
  obtain r where r: "r \<in> set (accounts \<sigma>)" "has_id u r"
    using get_by_id_row [OF g] u by (metis option.inject)
  have only: "has_id u p" if "p \<in> set (accounts \<sigma>)" "ar_id p = u" for p
    using distinct_key [of ar_id "accounts \<sigma>" p r] that r assms(1)
    by (simp add: account_table_ok_def has_id_def)
  let ?r = "r\<lparr>ar_role := ''admin'', ar_status := ''approved'', ar_updated := t\<rparr>"
  have idr: "ar_id r = u" using r(2) by (simp add: has_id_def)
  have "?r \<in> set (accounts \<sigma>')"
    unfolding acs set_map using r by (intro image_eqI [of _ _ r]) simp_all
  then have 1: "\<exists>q' \<in> set (accounts \<sigma>'). ar_id q' = u \<and> ar_role q' = ''admin'' \<and> ar_status q' = ''approved''"
    by (rule bexI [rotated]) (simp add: idr)
  have 2: "ar_role p \<noteq> ''superadmin''" if p: "p \<in> set (accounts \<sigma>')" "ar_id p = u" for p
  proof -
    from p(1) obtain x where x: "x \<in> set (accounts \<sigma>)"
      "p = (if has_id u x then x\<lparr>ar_role := ''admin'', ar_status := ''approved'', ar_updated := t\<rparr> else x)"
      unfolding acs set_map by blast
    show ?thesis
    proof (cases "has_id u x")
      case True
      with x(2) show ?thesis by simp
    next
      case False
      with x p(2) only [OF x(1)] show ?thesis by simp
    qed
  qed
  have 3: "p \<in> set (accounts \<sigma>')" if "p \<in> set (accounts \<sigma>)" "ar_id p \<noteq> u" for p
    unfolding acs set_map using that by (intro image_eqI [of _ _ p]) (simp_all add: has_id_def)
  show ?thesis using u r(1) idr evs 1 2 3 by blast
qed

lemma current_account_state:
  "accounts (snd (current_account hm m v cookie \<sigma>)) = accounts \<sigma> \<and>
   sessions (snd (current_account hm m v cookie \<sigma>)) = sessions \<sigma>"
proof (cases cookie)
  case None
  then show ?thesis by (simp add: current_account_def)
next
  case (Some raw)
  have sel: "snd (select_by_token h \<tau>) = \<tau>" for h \<tau> by (simp add: select_by_token_def)
  have "accounts (snd (resolve hm m raw \<sigma>)) = accounts \<sigma> \<and> sessions (snd (resolve hm m raw \<sigma>)) = sessions \<sigma>"
    if "raw \<noteq> ''''"
    using that by (cases "select_by_token (hash_token hm m raw)" \<sigma> rule: statement_cases)
      (simp_all add: resolve_def and_then_return sel)
  moreover obtain res \<sigma>1 where "resolve hm m raw \<sigma> = (res, \<sigma>1)" by (cases "resolve hm m raw \<sigma>")
  moreover obtain res2 \<sigma>2 where "get_by_id v (rs_account (projr res)) \<sigma>1 = (res2, \<sigma>2)"
    by (cases "get_by_id v (rs_account (projr res)) \<sigma>1")
  moreover have "accounts \<sigma>2 = accounts \<sigma>1" "sessions \<sigma>2 = sessions \<sigma>1"
    using get_by_id_tables [of v "rs_account (projr res)" \<sigma>1] calculation(3) by simp_all
  ultimately show ?thesis
    using Some by (cases res; cases res2) (auto simp: current_account_def)
qed

lemma current_account_Some:
  assumes "current_account hm m v cookie \<sigma> = (Some (acc, sid), \<sigma>')"
  obtains r where "r \<in> set (accounts \<sigma>)" and "ar_deleted r = None" and "to_account v r = Inr acc"
    and "ac_id acc = ar_id r" and "ac_role acc = ar_role r" and "ac_status acc = ar_status r"
proof -
  from assms obtain raw sess \<sigma>1 where raw: "cookie = Some raw" "raw \<noteq> ''''"
    and re: "resolve hm m raw \<sigma> = (Inr sess, \<sigma>1)" and g: "get_by_id v (rs_account sess) \<sigma>1 = (Inr acc, \<sigma>')"
    by (auto simp: current_account_def split: option.splits if_splits prod.splits sum.splits)
  have acs: "accounts \<sigma>1 = accounts \<sigma>"
    using re by (rule resolve_Inr) simp
  obtain u r where "r \<in> set (accounts \<sigma>1)" "has_id u r" "to_account v r = Inr acc"
    using g by (rule get_by_id_row)
  with acs that to_account_keeps [of v r acc] show ?thesis by (simp add: has_id_def)
qed

lemma admin_route_Success:
  assumes "admin_route hm m v cookie super handler \<sigma> = ((Success st x, evs), \<sigma>')"
  obtains actor sid \<sigma>1 where "current_account hm m v cookie \<sigma> = (Some (actor, sid), \<sigma>1)"
    and "is_approved actor" and "is_admin actor" and "super \<Longrightarrow> is_superadmin actor"
    and "accounts \<sigma>1 = accounts \<sigma>" and "handler actor \<sigma>1 = ((Success st x, evs), \<sigma>')"
proof -
  obtain who \<sigma>1 where c: "current_account hm m v cookie \<sigma> = (who, \<sigma>1)"
    by (cases "current_account hm m v cookie \<sigma>")
  have "accounts \<sigma>1 = accounts \<sigma>" using current_account_state [of hm m v cookie \<sigma>] c by simp
  with assms c that show ?thesis
    by (auto simp: admin_route_def require_auth_def require_admin_def require_superadmin_def
        split: option.splits if_splits prod.splits)
qed

text \<open>
  an accepted request to block cuts the account off. The actor is an approved admin and not the
  target, in whatever spelling the id came; the target is not a superadmin, and an admin only for
  a superadmin. Exactly the target's row becomes blocked, its sockets are kicked after its
  sessions were revoked, and from then on no cookie is let through for it, even if revoking the
  sessions failed.\<close>

theorem blocking_cuts_the_account_off:
  assumes "account_table_ok \<sigma>"
    and "admin_route hm m v cookie False (handle_admin_block v i) \<sigma> = ((Success st (), evs), \<sigma>')"
  shows "\<exists>actor sid \<sigma>1 u q. current_account hm m v cookie \<sigma> = (Some (actor, sid), \<sigma>1) \<and> is_admin actor \<and>
    pg_uuid i = Some u \<and> u \<noteq> ac_id actor \<and> evs = [ERevokeSessions i, EKick i] \<and>
    q \<in> set (accounts \<sigma>) \<and> ar_id q = u \<and> ar_role q \<noteq> ''superadmin'' \<and>
    (ar_role q = ''admin'' \<longrightarrow> is_superadmin actor) \<and>
    (\<forall>p \<in> set (accounts \<sigma>'). if ar_id p = u then ar_status p = ''blocked'' else p \<in> set (accounts \<sigma>)) \<and>
    (\<forall>hm' m' v' raw t ws acc sid \<sigma>2. current_account hm' m' v' raw (\<sigma>'\<lparr>clock := t, weather := ws\<rparr>) =
       (Some (acc, sid), \<sigma>2) \<longrightarrow> ac_id acc = u \<longrightarrow> \<not> is_approved acc)"
proof -
  obtain actor sid \<sigma>1 where cur: "current_account hm m v cookie \<sigma> = (Some (actor, sid), \<sigma>1)"
    and adm: "is_admin actor" and s1: "accounts \<sigma>1 = accounts \<sigma>"
    and h: "handle_admin_block v i actor \<sigma>1 = ((Success st (), evs), \<sigma>')"
    using assms(2) by (rule admin_route_Success)
  have at1: "account_table_ok \<sigma>1" using assms(1) s1 by (simp add: account_table_ok_def)
  from h obtain a \<sigma>2 \<sigma>3 where g: "get_by_id v i \<sigma>1 = (Inr a, \<sigma>2)" and na: "\<not> is_superadmin a"
    "\<not> (is_admin a \<and> \<not> is_superadmin actor)" and b: "block i \<sigma>2 = (Inr (), \<sigma>3)"
    and evs: "evs = [ERevokeSessions i, EKick i]" and s': "\<sigma>' = snd (revoke_all_for_account i \<sigma>3)"
    by (auto simp: handle_admin_block_def admin_set_status_def lookup_failure_def StatusApproved_def
        StatusBlocked_def split: if_splits prod.splits sum.splits)
  have s2: "accounts \<sigma>2 = accounts \<sigma>" using get_by_id_tables(1) [of v i \<sigma>1] g s1 by simp
  obtain u q where u: "pg_uuid i = Some u" and q: "q \<in> set (accounts \<sigma>)" "has_id u q" "to_account v q = Inr a"
    using get_by_id_row [OF g] s1 by metis
  note qa = to_account_keeps [OF q(3)]
  obtain w t where w: "pg_uuid i = Some w"
    and rows: "accounts \<sigma>3 = map (\<lambda>r. if has_id w r then r\<lparr>ar_status := StatusBlocked, ar_updated := t\<rparr> else r) (accounts \<sigma>2)"
    by (rule update_account_done [OF b [unfolded block_def set_status_def]])
  have only: "has_id u p" if "p \<in> set (accounts \<sigma>)" "ar_id p = u" for p
    using distinct_key [of ar_id "accounts \<sigma>" p q] that q assms(1)
    by (simp add: account_table_ok_def has_id_def)
  have acs: "accounts \<sigma>' = map (\<lambda>r. if has_id u r then r\<lparr>ar_status := StatusBlocked, ar_updated := t\<rparr> else r) (accounts \<sigma>)"
    using w u unfolding s' revoke_all_accounts rows s2 by simp
  have all: "if ar_id p = u then ar_status p = ''blocked'' else p \<in> set (accounts \<sigma>)"
    if p: "p \<in> set (accounts \<sigma>')" for p
  proof -
    from p obtain x where x: "x \<in> set (accounts \<sigma>)"
      "p = (if has_id u x then x\<lparr>ar_status := StatusBlocked, ar_updated := t\<rparr> else x)"
      unfolding acs set_map by blast
    show ?thesis
    proof (cases "has_id u x")
      case True
      with x(2) show ?thesis by (simp add: has_id_def StatusBlocked_def)
    next
      case False
      with x only [OF x(1)] show ?thesis by auto
    qed
  qed
  have refused: "\<not> is_approved acc"
    if ok: "current_account hm' m' v' raw (\<sigma>'\<lparr>clock := t, weather := ws\<rparr>) = (Some (acc, sid), \<sigma>2)" "ac_id acc = u"
    for hm' m' v' raw t ws acc sid \<sigma>2
  proof -
    obtain r where "r \<in> set (accounts (\<sigma>'\<lparr>clock := t, weather := ws\<rparr>))" "ac_id acc = ar_id r" "ac_status acc = ar_status r"
      using ok(1) by (rule current_account_Some)
    with all [of r] ok(2) show ?thesis by (simp add: is_approved_def StatusApproved_def)
  qed
  have other: "u \<noteq> ac_id actor"
  proof
    assume same: "u = ac_id actor"
    obtain r where r: "r \<in> set (accounts \<sigma>)" "ac_id actor = ar_id r" "ac_role actor = ar_role r"
      using cur by (rule current_account_Some)
    with distinct_key [of ar_id "accounts \<sigma>" r q] q same assms(1) have "r = q"
      by (simp add: account_table_ok_def has_id_def)
    with r(3) qa(2) adm na show False by (auto simp: is_admin_def is_superadmin_def)
  qed
  have role: "ar_role q \<noteq> ''superadmin''" "ar_role q = ''admin'' \<longrightarrow> is_superadmin actor"
    using na qa(2) by (auto simp: is_admin_def is_superadmin_def account_consts)
  show ?thesis
    using cur adm u other evs q(1,2) role all refused by (auto simp: has_id_def)
qed

lemma block_Success:
  assumes "handle_admin_block v i actor \<sigma> = ((Success st (), evs), \<sigma>')"
  shows "evs = [ERevokeSessions i, EKick i]"
  using assms
  by (auto simp: handle_admin_block_def admin_set_status_def lookup_failure_def StatusApproved_def
      StatusBlocked_def split: if_splits prod.splits sum.splits)

text \<open>C12: blocking somebody through a spelling of the id other than the one the database prints, such as
  upper-case digits, is accepted and blocks the account, but the kick it sends names nobody: every
  socket of the account stays connected, until the periodic sweep finds its sessions revoked.\<close>

theorem kick_in_another_spelling_misses:
  assumes "handle_admin_block v i actor \<sigma> = ((Success st (), evs), \<sigma>')"
    and "pg_uuid i = Some u" and "i \<noteq> u"
    and "hub_reach h" and "is_order ord (h_clients h)" and "\<forall>s \<in> dom (abs_hub h). canonical (sk_account s)"
  shows "evs = [ERevokeSessions i, EKick i] \<and>
    abs_hub (fst (kick_account conn_ops ord i (h, e))) = abs_hub h \<and>
    snd (kick_account conn_ops ord i (h, e)) = e"
proof -
  have "\<not> canonical i" using assms(2,3) by (auto simp: canonical_def)
  with assms(6) have nobody: "abs_hub h s = None" if "sk_account s = i" for s
    using that by (metis domI option.exhaust)
  note k = conn.cut_all_spec(2) [OF hub_reachD(1) [OF assms(4)] assms(5) refl,
      of CloseUnauthorized ReasonUnauthorized "\<lambda>s. sk_account s = i" e]
  have "abs_hub (fst (do_kick conn_ops ord i CloseUnauthorized ReasonUnauthorized (h, e))) =
      (\<lambda>s. if sk_account s = i then None else abs_hub h s)"
    and "snd (do_kick conn_ops ord i CloseUnauthorized ReasonUnauthorized (h, e)) =
      (\<lambda>s. if sk_account s = i \<and> abs_hub h s \<noteq> None then conn_close CloseUnauthorized ReasonUnauthorized (e s) else e s)"
    using k by (simp_all add: do_kick_def spec_cut_def)
  then show ?thesis
    using nobody block_Success [OF assms(1)] by (auto simp: kick_account_def fun_eq_iff)
qed

section \<open>Witnesses\<close>

definition admin_store :: store where
  "admin_store = empty_store\<lparr>
     accounts := [plain_account ann_id ''superadmin'' ''approved'' ''vk'' ''ra'',
                  plain_account bob_id ''user'' ''approved'' ''vk'' ''rb''],
     sessions := [\<lparr>sr_id = sess_id, sr_account = ann_id, sr_hash = ''hk'', sr_expires = 100,
                   sr_created = 0, sr_deleted = None\<rparr>]\<rparr>"

abbreviation open_vault :: vault where "open_vault \<equiv> demo_vault\<lparr>vt_nonce_size := 0\<rparr>"

abbreviation bob_upper :: string where "bob_upper \<equiv> ''0000000B-0000-0000-0000-00000000000B''"

lemmas admin_eval = admin_store_def empty_store_def plain_account_def demo_vault_def demo_manager_def

lemma admin_table: "account_table_ok admin_store"
  using demo_uuids by (simp add: account_table_ok_def row_ok_def identity_of_def admin_eval)

lemma open_account: "to_account open_vault (plain_account i r st pr ref) = Inr
     \<lparr>ac_id = i, ac_role = r, ac_status = st, ac_provider = pr, ac_user_id = [], ac_first = [],
      ac_last = [], ac_avatar = [], ac_sex = [], ac_birthday = [], ac_handle = take 8 (hex_encode ref),
      ac_created = 0\<rparr>"
  by (simp add: to_account_def plain_account_def decrypt_string_def dec_optional_def demo_vault_def)

lemma bob_upper_uuid: "pg_uuid bob_upper = Some bob_id" "validUUID bob_upper" "validUUID bob_id"
  by code_simp+

lemma bob_row: "get_by_id open_vault i admin_store =
    (to_account open_vault (plain_account bob_id ''user'' ''approved'' ''vk'' ''rb''), admin_store)"
  if "pg_uuid i = Some bob_id"
  using get_by_id_clear [of admin_store i bob_id open_vault] that
  by (simp add: admin_store_def empty_store_def has_id_def) (simp add: plain_account_def)

lemma bob_blocked: "\<exists>\<sigma>'. handle_admin_block open_vault i actor admin_store =
    ((Success 204 (), [ERevokeSessions i, EKick i]), \<sigma>')"
  if "pg_uuid i = Some bob_id" "validUUID i" "i \<noteq> ac_id actor"
  using that bob_row [OF that(1)]
  by (simp add: handle_admin_block_def admin_set_status_def open_account is_superadmin_def is_admin_def
      account_consts block_def set_status_def update_account_def has_id_def admin_store_def empty_store_def)
    (simp add: plain_account_def)

definition ann_actor :: account where
  "ann_actor = \<lparr>ac_id = ann_id, ac_role = ''superadmin'', ac_status = ''approved'', ac_provider = ''vk'',
     ac_user_id = [], ac_first = [], ac_last = [], ac_avatar = [], ac_sex = [], ac_birthday = [],
     ac_handle = take 8 (hex_encode ''ra''), ac_created = 0\<rparr>"

lemma yard_members: "dom (abs_hub yard) = {phone, laptop}"
  by (auto simp: yard_presence)

theorem kick_in_another_spelling_misses_witness:
  "sk_account laptop = bob_id \<and>
   (\<exists>\<sigma>' evs. handle_admin_block open_vault bob_upper ann_actor admin_store = ((Success 204 (), evs), \<sigma>') \<and>
     evs = [ERevokeSessions bob_upper, EKick bob_upper] \<and>
     abs_hub (fst (kick_account conn_ops [phone, laptop] bob_upper (yard, calm))) laptop = Some (''yard'', 0))"
proof -
  have ne: "bob_upper \<noteq> ac_id ann_actor" by (simp add: ann_actor_def)
  obtain \<sigma>' where b: "handle_admin_block open_vault bob_upper ann_actor admin_store =
      ((Success 204 (), [ERevokeSessions bob_upper, EKick bob_upper]), \<sigma>')"
    using bob_blocked [OF bob_upper_uuid(1,2) ne] by blast
  have "\<forall>s \<in> dom (abs_hub yard). canonical (sk_account s)"
    unfolding yard_members using demo_uuids(1,2) by simp
  from kick_in_another_spelling_misses [OF b bob_upper_uuid(1) _ yard_reach yard_order this, of calm] b
  show ?thesis by (simp add: yard_presence)
qed

theorem superadmin_is_unrevokable_witness:
  "plain_account ann_id ''superadmin'' ''approved'' ''vk'' ''ra'' \<in>
     set (accounts (snd (handle_admin_block open_vault ann_id ann_actor admin_store)))"
  using superadmin_is_unrevokable [OF admin_table, of "plain_account ann_id ''superadmin'' ''approved'' ''vk'' ''ra''"]
  by (simp add: admin_store_def empty_store_def) (simp add: plain_account_def)

lemma ann_row: "get_by_id open_vault ann_id admin_store =
    (to_account open_vault (plain_account ann_id ''superadmin'' ''approved'' ''vk'' ''ra''), admin_store)"
  using get_by_id_clear [of admin_store ann_id ann_id open_vault] demo_uuids(1)
  by (simp add: admin_store_def empty_store_def has_id_def canonical_def) (simp add: plain_account_def)

theorem promotion_sets_admin_whatever_the_role_witness:
  "\<exists>\<sigma>'. handle_admin_promote open_vault ann_id ann_actor admin_store = ((Success 204 (), []), \<sigma>') \<and>
     (\<forall>p \<in> set (accounts \<sigma>'). ar_id p = ann_id \<longrightarrow> ar_role p \<noteq> ''superadmin'')"
proof -
  have u: "pg_uuid ann_id = Some ann_id" "validUUID ann_id"
    using demo_uuids(1) canonical_valid by (simp_all add: canonical_def)
  have "\<exists>\<sigma>'. handle_admin_promote open_vault ann_id ann_actor admin_store = ((Success 204 (), []), \<sigma>')"
    using u ann_row
    by (simp add: handle_admin_promote_def open_account promote_def update_account_def has_id_def
        admin_store_def empty_store_def) (simp add: plain_account_def)
  then obtain \<sigma>' where p: "handle_admin_promote open_vault ann_id ann_actor admin_store = ((Success 204 (), []), \<sigma>')"
    by blast
  from promotion_sets_admin_whatever_the_role [OF admin_table p] u p show ?thesis by auto
qed

lemma admin_sessions: "session_table_ok admin_store"
  using demo_uuids by (simp add: session_table_ok_def admin_eval)

lemma ann_current: "current_account demo_hmac demo_manager open_vault (Some ''h'') admin_store =
    (Some (ann_actor, sess_id), admin_store)"
proof -
  let ?s = "\<lparr>sr_id = sess_id, sr_account = ann_id, sr_hash = ''hk'', sr_expires = 100,
    sr_created = 0, sr_deleted = None\<rparr>"
  let ?r = "plain_account ann_id ''superadmin'' ''approved'' ''vk'' ''ra''"
  have "weather admin_store = []" "?s \<in> set (sessions admin_store)" "?r \<in> set (accounts admin_store)"
    "sr_hash ?s = hash_token demo_hmac demo_manager ''h''" "ar_id ?r = sr_account ?s" "ar_deleted ?r = None"
    "token_live admin_store ?s"
    by (simp_all add: admin_eval hash_token_def token_live_def)
  with current_account_row [OF admin_sessions admin_table, of ?s demo_hmac demo_manager "''h''" ?r] open_account
  show ?thesis by (simp add: ann_actor_def)
qed

theorem blocking_cuts_the_account_off_witness:
  "\<exists>\<sigma>' evs. admin_route demo_hmac demo_manager open_vault (Some ''h'') False (handle_admin_block open_vault bob_id)
       admin_store = ((Success 204 (), evs), \<sigma>') \<and> evs = [ERevokeSessions bob_id, EKick bob_id]"
proof -
  have u: "pg_uuid bob_id = Some bob_id" using demo_uuids(2) by (simp add: canonical_def)
  have "bob_id \<noteq> ac_id ann_actor" by (simp add: ann_actor_def)
  from bob_blocked [OF u bob_upper_uuid(3) this] obtain \<sigma>' where
    "handle_admin_block open_vault bob_id ann_actor admin_store =
      ((Success 204 (), [ERevokeSessions bob_id, EKick bob_id]), \<sigma>')" by blast
  then have r: "admin_route demo_hmac demo_manager open_vault (Some ''h'') False (handle_admin_block open_vault bob_id)
       admin_store = ((Success 204 (), [ERevokeSessions bob_id, EKick bob_id]), \<sigma>')"
    by (simp add: admin_route_def require_auth_def ann_current require_admin_def is_approved_def is_admin_def
        ann_actor_def account_consts)
  from blocking_cuts_the_account_off [OF admin_table r] r show ?thesis by blast
qed

end
