(* ===== verification/GameAssets.thy ===== *)
theory GameAssets
  imports HttpAuth
begin

text \<open>
  Game art kept as blobs in the database (\<^verbatim>\<open>internal/gameassets\<close>) and the route that serves it
  (\<^verbatim>\<open>internal/httpapi/gameassets.go\<close>). The primary key is the pair of game and art.
\<close>

definition repo_bytes :: "string \<Rightarrow> runes \<Rightarrow> (bytes \<times> runes) op" where
  "repo_bytes game_key art_key = statement (\<lambda>\<sigma>.
     (case find (\<lambda>r. as_game r = game_key \<and> as_key r = art_key) (assets \<sigma>) of
        None \<Rightarrow> Inl EAssetNotFound
      | Some r \<Rightarrow> Inr (as_bytes r, as_type r), \<sigma>))"

definition repo_keys :: "string \<Rightarrow> runes list op" where
  "repo_keys game_key = statement (\<lambda>\<sigma>. (Inr (map as_key (filter (\<lambda>r. as_game r = game_key) (assets \<sigma>))), \<sigma>))"

text \<open>The set a Go map stands for is the list of its keys.\<close>

definition present_keys :: "string \<Rightarrow> runes list op" where
  "present_keys game_key = and_then (repo_keys game_key) (\<lambda>keys. return_op (Inr (remdups keys)))"

definition imageContentType :: "runes \<Rightarrow> string" where
  "imageContentType ct =
     (let t = to_lower (trim_space ct) in
      if t = ascii ''image/webp'' then ''image/webp''
      else if t = ascii ''image/png'' then ''image/png''
      else if t = ascii ''image/jpeg'' \<or> t = ascii ''image/jpg'' then ''image/jpeg''
      else if t = ascii ''image/gif'' then ''image/gif''
      else if t = ascii ''image/avif'' then ''image/avif''
      else ''application/octet-stream'')"

text \<open>Without an asset service there is no art; any failure is a 404.\<close>

definition handle_game_asset :: "bool \<Rightarrow> string \<Rightarrow> runes \<Rightarrow> store \<Rightarrow> (string \<times> bytes) response \<times> store" where
  "handle_game_asset configured game_key art_key \<sigma> =
     (if \<not> configured then (Failure 404 ''asset_not_found'', \<sigma>)
      else case repo_bytes game_key art_key \<sigma> of
        (Inl err, \<sigma>1) \<Rightarrow> (Failure 404 ''asset_not_found'', \<sigma>1)
      | (Inr (b, ct), \<sigma>1) \<Rightarrow> (Success 200 (imageContentType ct, b), \<sigma>1))"

text \<open>Whatever the table says, nothing is served as a document.\<close>

lemma served_types:
  "imageContentType ct \<in> {''image/webp'', ''image/png'', ''image/jpeg'', ''image/gif'', ''image/avif'',
     ''application/octet-stream''}"
  by (simp add: imageContentType_def Let_def)

lemma imageContentType_idem: "imageContentType (ascii (imageContentType ct)) = imageContentType ct"
proof -
  have "trim_space (ascii s) = ascii s \<and> to_lower (ascii s) = ascii s"
    if "s \<in> {''image/webp'', ''image/png'', ''image/jpeg'', ''image/gif'', ''image/avif'', ''application/octet-stream''}" for s
    using that by (auto simp: ascii_def trim_space_def is_space_def to_lower_def rune_lower_def)
  with served_types have "trim_space (ascii (imageContentType ct)) = ascii (imageContentType ct) \<and>
      to_lower (ascii (imageContentType ct)) = ascii (imageContentType ct)" by blast
  moreover have "ascii s = ascii t \<longleftrightarrow> s = t" for s t
    by (auto simp: ascii_def intro: injD [OF inj_mapI [OF inj_of_char]])
  ultimately show ?thesis using served_types [of ct] by (auto simp: imageContentType_def [of "ascii _"] Let_def)
qed

end
