(* ===== verification/Wishlist.thy ===== *)
theory Wishlist
  imports Database "HOL-Library.Product_Lexorder" "HOL-Library.Multiset"
begin

text \<open>
  The wishlist (\<^verbatim>\<open>internal/wishlist\<close>): ideas and comments, both of which can be voted for,
  as the service and the SQL of its repository. A text column takes no NUL, so a statement
  that would store one fails. Two rows that the \<^verbatim>\<open>ORDER BY\<close> does not separate come out in
  the order they were inserted.
\<close>

section \<open>Types and limits\<close>

datatype sort_by = SortTop | SortNew

definition maxTitle :: nat where "maxTitle = 200"
definition maxBody :: nat where "maxBody = 4000"
definition maxCommentBody :: nat where "maxCommentBody = 2000"

record item =
  i_id :: string
  i_author :: string
  i_title :: runes
  i_body :: runes
  i_votes :: int
  i_voted :: bool
  i_comments :: int
  i_created :: int

record comment =
  c_id :: string
  c_item :: string
  c_author :: string
  c_body :: runes
  c_votes :: int
  c_voted :: bool
  c_created :: int

definition storable :: "runes \<Rightarrow> bool" where
  "storable t \<longleftrightarrow> 0 \<notin> set t"

section \<open>The repository\<close>

definition live_item :: "string \<Rightarrow> item_row \<Rightarrow> bool" where
  "live_item u r \<longleftrightarrow> it_id r = u \<and> it_deleted r = None"

definition live_comment :: "string \<Rightarrow> comment_row \<Rightarrow> bool" where
  "live_comment u r \<longleftrightarrow> cm_id r = u \<and> cm_deleted r = None"

definition vote_count :: "vote_row list \<Rightarrow> string \<Rightarrow> int" where
  "vote_count votes u = int (length (filter (\<lambda>v. fst v = u) votes))"

definition repo_create :: "string \<Rightarrow> string \<Rightarrow> runes \<Rightarrow> runes \<Rightarrow> item op" where
  "repo_create nid author title body = statement (with_uuid author (\<lambda>a \<sigma>.
     if a \<notin> ar_id ` set (accounts \<sigma>) \<or> nid \<in> it_id ` set (items \<sigma>) \<or> \<not> storable title \<or> \<not> storable body
     then (Inl EDb, \<sigma>)
     else (Inr \<lparr>i_id = nid, i_author = a, i_title = title, i_body = body, i_votes = 0, i_voted = False,
                i_comments = 0, i_created = clock \<sigma>\<rparr>,
           \<sigma>\<lparr>items := items \<sigma> @ [\<lparr>it_id = nid, it_account = a, it_title = title, it_body = body,
               it_created = clock \<sigma>, it_deleted = None\<rparr>]\<rparr>)))"

definition item_view :: "store \<Rightarrow> string \<Rightarrow> item_row \<Rightarrow> item" where
  "item_view \<sigma> viewer r =
     \<lparr>i_id = it_id r, i_author = it_account r, i_title = it_title r, i_body = it_body r,
      i_votes = vote_count (item_votes \<sigma>) (it_id r), i_voted = (it_id r, viewer) \<in> set (item_votes \<sigma>),
      i_comments = int (length (filter (\<lambda>c. cm_item c = it_id r \<and> cm_deleted c = None) (comments \<sigma>))),
      i_created = it_created r\<rparr>"

definition item_order :: "sort_by \<Rightarrow> item \<Rightarrow> int \<times> int" where
  "item_order srt i = (case srt of SortTop \<Rightarrow> (- i_votes i, - i_created i) | SortNew \<Rightarrow> (- i_created i, 0))"

definition repo_list :: "string \<Rightarrow> sort_by \<Rightarrow> item list op" where
  "repo_list viewer srt = statement (with_uuid viewer (\<lambda>w \<sigma>.
     (Inr (sort_key (item_order srt)
        (map (item_view \<sigma> w) (filter (\<lambda>r. it_deleted r = None) (items \<sigma>)))), \<sigma>)))"

definition repo_exists :: "string \<Rightarrow> bool op" where
  "repo_exists i = statement (with_uuid i (\<lambda>u \<sigma>. (Inr (list_ex (live_item u) (items \<sigma>)), \<sigma>)))"

definition add_vote :: "(store \<Rightarrow> vote_row list) \<Rightarrow> ((vote_row list \<Rightarrow> vote_row list) \<Rightarrow> store \<Rightarrow> store) \<Rightarrow>
    (store \<Rightarrow> string set) \<Rightarrow> string \<Rightarrow> string \<Rightarrow> unit op" where
  "add_vote votes update targets i account = statement (with_uuid i (\<lambda>u. with_uuid account (\<lambda>a \<sigma>.
     if (u, a) \<in> set (votes \<sigma>) then (Inr (), \<sigma>)
     else if u \<notin> targets \<sigma> \<or> a \<notin> ar_id ` set (accounts \<sigma>) then (Inl EDb, \<sigma>)
     else (Inr (), update (\<lambda>vs. vs @ [(u, a)]) \<sigma>))))"

definition remove_vote :: "((vote_row list \<Rightarrow> vote_row list) \<Rightarrow> store \<Rightarrow> store) \<Rightarrow> string \<Rightarrow> string \<Rightarrow> unit op" where
  "remove_vote update i account = statement (with_uuid i (\<lambda>u. with_uuid account (\<lambda>a \<sigma>.
     (Inr (), update (filter (\<lambda>v. v \<noteq> (u, a))) \<sigma>))))"

definition repo_add_vote :: "string \<Rightarrow> string \<Rightarrow> unit op" where
  "repo_add_vote = add_vote item_votes item_votes_update (\<lambda>\<sigma>. it_id ` set (items \<sigma>))"

definition repo_remove_vote :: "string \<Rightarrow> string \<Rightarrow> unit op" where
  "repo_remove_vote = remove_vote item_votes_update"

definition repo_add_comment_vote :: "string \<Rightarrow> string \<Rightarrow> unit op" where
  "repo_add_comment_vote = add_vote comment_votes comment_votes_update (\<lambda>\<sigma>. cm_id ` set (comments \<sigma>))"

definition repo_remove_comment_vote :: "string \<Rightarrow> string \<Rightarrow> unit op" where
  "repo_remove_comment_vote = remove_vote comment_votes_update"

definition repo_item_author :: "string \<Rightarrow> string op" where
  "repo_item_author i = statement (with_uuid i (\<lambda>u \<sigma>.
     (case find (live_item u) (items \<sigma>) of None \<Rightarrow> Inl EItemNotFound | Some r \<Rightarrow> Inr (it_account r), \<sigma>)))"

definition repo_delete_item :: "string \<Rightarrow> unit op" where
  "repo_delete_item i = statement (with_uuid i (\<lambda>u \<sigma>.
     (Inr (), \<sigma>\<lparr>items := map (\<lambda>r. if live_item u r then r\<lparr>it_deleted := Some (clock \<sigma>)\<rparr> else r) (items \<sigma>)\<rparr>)))"

definition repo_create_comment :: "string \<Rightarrow> string \<Rightarrow> string \<Rightarrow> runes \<Rightarrow> comment op" where
  "repo_create_comment nid i author body = statement (with_uuid i (\<lambda>u. with_uuid author (\<lambda>a \<sigma>.
     if u \<notin> it_id ` set (items \<sigma>) \<or> a \<notin> ar_id ` set (accounts \<sigma>) \<or> nid \<in> cm_id ` set (comments \<sigma>) \<or>
        \<not> storable body
     then (Inl EDb, \<sigma>)
     else (Inr \<lparr>c_id = nid, c_item = u, c_author = a, c_body = body, c_votes = 0, c_voted = False,
                c_created = clock \<sigma>\<rparr>,
           \<sigma>\<lparr>comments := comments \<sigma> @ [\<lparr>cm_id = nid, cm_item = u, cm_account = a, cm_body = body,
               cm_created = clock \<sigma>, cm_deleted = None\<rparr>]\<rparr>))))"

definition comment_view :: "store \<Rightarrow> string \<Rightarrow> comment_row \<Rightarrow> comment" where
  "comment_view \<sigma> viewer r =
     \<lparr>c_id = cm_id r, c_item = cm_item r, c_author = cm_account r, c_body = cm_body r,
      c_votes = vote_count (comment_votes \<sigma>) (cm_id r), c_voted = (cm_id r, viewer) \<in> set (comment_votes \<sigma>),
      c_created = cm_created r\<rparr>"

definition repo_list_comments :: "string \<Rightarrow> string \<Rightarrow> comment list op" where
  "repo_list_comments i viewer = statement (with_uuid i (\<lambda>u. with_uuid viewer (\<lambda>w \<sigma>.
     (Inr (sort_key (\<lambda>c. (- c_votes c, c_created c))
        (map (comment_view \<sigma> w) (filter (\<lambda>r. cm_item r = u \<and> cm_deleted r = None) (comments \<sigma>)))), \<sigma>))))"

definition repo_comment_exists :: "string \<Rightarrow> bool op" where
  "repo_comment_exists i = statement (with_uuid i (\<lambda>u \<sigma>. (Inr (list_ex (live_comment u) (comments \<sigma>)), \<sigma>)))"

definition repo_comment_author :: "string \<Rightarrow> string op" where
  "repo_comment_author i = statement (with_uuid i (\<lambda>u \<sigma>.
     (case find (live_comment u) (comments \<sigma>) of
        None \<Rightarrow> Inl ECommentNotFound | Some r \<Rightarrow> Inr (cm_account r), \<sigma>)))"

definition repo_delete_comment :: "string \<Rightarrow> unit op" where
  "repo_delete_comment i = statement (with_uuid i (\<lambda>u \<sigma>.
     (Inr (), \<sigma>\<lparr>comments :=
        map (\<lambda>r. if live_comment u r then r\<lparr>cm_deleted := Some (clock \<sigma>)\<rparr> else r) (comments \<sigma>)\<rparr>)))"

section \<open>The service\<close>

definition create_item :: "string \<Rightarrow> string \<Rightarrow> runes \<Rightarrow> runes \<Rightarrow> item op" where
  "create_item nid author title body =
     (let t = trim_space title; b = trim_space body in
      if t = [] then return_op (Inl EEmptyTitle)
      else if maxTitle < byte_len t \<or> maxBody < byte_len b then return_op (Inl ETooLong)
      else repo_create nid author t b)"

text \<open>A sort that is neither of the two becomes the first; \<open>None\<close> stands for any other word.\<close>

definition list_items :: "string \<Rightarrow> sort_by option \<Rightarrow> item list op" where
  "list_items viewer srt = repo_list viewer (case srt of None \<Rightarrow> SortTop | Some s \<Rightarrow> s)"

definition vote :: "string \<Rightarrow> string \<Rightarrow> unit op" where
  "vote i account = and_then (repo_exists i)
     (\<lambda>ok. if \<not> ok then return_op (Inl EItemNotFound) else repo_add_vote i account)"

definition unvote :: "string \<Rightarrow> string \<Rightarrow> unit op" where
  "unvote i account = repo_remove_vote i account"

definition delete_item :: "string \<Rightarrow> string \<Rightarrow> bool \<Rightarrow> unit op" where
  "delete_item i actor admin = and_then (repo_item_author i)
     (\<lambda>author. if author \<noteq> actor \<and> \<not> admin then return_op (Inl EForbidden) else repo_delete_item i)"

definition delete_comment :: "string \<Rightarrow> string \<Rightarrow> bool \<Rightarrow> unit op" where
  "delete_comment i actor admin = and_then (repo_comment_author i)
     (\<lambda>author. if author \<noteq> actor \<and> \<not> admin then return_op (Inl EForbidden) else repo_delete_comment i)"

definition add_comment :: "string \<Rightarrow> string \<Rightarrow> string \<Rightarrow> runes \<Rightarrow> comment op" where
  "add_comment nid i author body =
     (let b = trim_space body in
      if b = [] then return_op (Inl EEmptyComment)
      else if maxCommentBody < byte_len b then return_op (Inl ETooLong)
      else and_then (repo_exists i)
        (\<lambda>ok. if \<not> ok then return_op (Inl EItemNotFound) else repo_create_comment nid i author b))"

definition list_comments :: "string \<Rightarrow> string \<Rightarrow> comment list op" where
  "list_comments i viewer = repo_list_comments i viewer"

definition vote_comment :: "string \<Rightarrow> string \<Rightarrow> unit op" where
  "vote_comment i account = and_then (repo_comment_exists i)
     (\<lambda>ok. if \<not> ok then return_op (Inl ECommentNotFound) else repo_add_comment_vote i account)"

definition unvote_comment :: "string \<Rightarrow> string \<Rightarrow> unit op" where
  "unvote_comment i account = repo_remove_comment_vote i account"

section \<open>The invariant of the tables\<close>

definition item_ok :: "item_row \<Rightarrow> bool" where
  "item_ok r \<longleftrightarrow> it_title r \<noteq> [] \<and> trim_space (it_title r) = it_title r \<and> byte_len (it_title r) \<le> 200 \<and>
     trim_space (it_body r) = it_body r \<and> byte_len (it_body r) \<le> 4000"

definition comment_ok :: "comment_row \<Rightarrow> bool" where
  "comment_ok r \<longleftrightarrow> cm_body r \<noteq> [] \<and> trim_space (cm_body r) = cm_body r \<and> byte_len (cm_body r) \<le> 2000"

definition wishlist_ok :: "store \<Rightarrow> bool" where
  "wishlist_ok \<sigma> \<longleftrightarrow>
     (\<forall>r \<in> set (items \<sigma>). item_ok r) \<and> (\<forall>r \<in> set (comments \<sigma>). comment_ok r) \<and>
     distinct (map it_id (items \<sigma>)) \<and> distinct (map cm_id (comments \<sigma>)) \<and>
     distinct (item_votes \<sigma>) \<and> distinct (comment_votes \<sigma>) \<and>
     (\<forall>v \<in> set (item_votes \<sigma>). fst v \<in> it_id ` set (items \<sigma>)) \<and>
     (\<forall>v \<in> set (comment_votes \<sigma>). fst v \<in> cm_id ` set (comments \<sigma>))"

lemma wishlist_advance [simp]: "wishlist_ok (advance dt ws \<sigma>) = wishlist_ok \<sigma>"
  by (simp add: wishlist_ok_def)

lemma wishlist_statement:
  assumes "\<And>\<sigma>. wishlist_ok \<sigma> \<Longrightarrow> wishlist_ok (snd (f \<sigma>))" and "wishlist_ok \<sigma>"
  shows "wishlist_ok (snd (statement f \<sigma>))"
  by (cases f \<sigma> rule: statement_cases) (use assms in simp_all)

lemma wishlist_with_uuid:
  assumes "\<And>u. wishlist_ok (snd (f u \<sigma>))" and "wishlist_ok \<sigma>"
  shows "wishlist_ok (snd (with_uuid s f \<sigma>))"
  using assms by (simp add: with_uuid_def split: option.split)

lemma map_marked [simp]:
  "map it_id (map (\<lambda>r. if P r then r\<lparr>it_deleted := d\<rparr> else r) rs) = map it_id rs"
  "map cm_id (map (\<lambda>r. if Q r then r\<lparr>cm_deleted := d\<rparr> else r) cs) = map cm_id cs"
  by (induction rs; simp) (induction cs; simp)

lemma set_marked:
  "it_id ` set (map (\<lambda>r. if P r then r\<lparr>it_deleted := d\<rparr> else r) rs) = it_id ` set rs"
  "cm_id ` set (map (\<lambda>r. if Q r then r\<lparr>cm_deleted := d\<rparr> else r) cs) = cm_id ` set cs"
  by (metis map_marked list.set_map)+

lemma repo_create_ok [inv_intros]:
  assumes "wishlist_ok \<sigma>" and "title \<noteq> []" and "trim_space title = title" and "byte_len title \<le> 200"
    and "trim_space body = body" and "byte_len body \<le> 4000"
  shows "wishlist_ok (snd (repo_create nid author title body \<sigma>))"
  unfolding repo_create_def
proof (rule wishlist_statement [OF _ assms(1)], rule wishlist_with_uuid)
  fix \<tau> u
  assume ok: "wishlist_ok \<tau>"
  let ?new = "\<lparr>it_id = nid, it_account = u, it_title = title, it_body = body, it_created = clock \<tau>, it_deleted = None\<rparr>"
  have "item_ok ?new" using assms(2-) by (simp add: item_ok_def)
  with ok have "wishlist_ok (\<tau>\<lparr>items := items \<tau> @ [?new]\<rparr>)" if "nid \<notin> it_id ` set (items \<tau>)"
    using that unfolding wishlist_ok_def by simp
  with ok show "wishlist_ok (snd (if u \<notin> ar_id ` set (accounts \<tau>) \<or> nid \<in> it_id ` set (items \<tau>) \<or>
      \<not> storable title \<or> \<not> storable body then (Inl EDb, \<tau>)
     else (Inr \<lparr>i_id = nid, i_author = u, i_title = title, i_body = body, i_votes = 0, i_voted = False,
                i_comments = 0, i_created = clock \<tau>\<rparr>, \<tau>\<lparr>items := items \<tau> @ [?new]\<rparr>)))"
    by simp
qed

lemma repo_create_comment_ok [inv_intros]:
  assumes "wishlist_ok \<sigma>" and "body \<noteq> []" and "trim_space body = body" and "byte_len body \<le> 2000"
  shows "wishlist_ok (snd (repo_create_comment nid i author body \<sigma>))"
  unfolding repo_create_comment_def
proof (rule wishlist_statement [OF _ assms(1)], (rule wishlist_with_uuid)+)
  fix \<tau> u a
  assume ok: "wishlist_ok \<tau>"
  let ?new = "\<lparr>cm_id = nid, cm_item = u, cm_account = a, cm_body = body, cm_created = clock \<tau>, cm_deleted = None\<rparr>"
  have "comment_ok ?new" using assms(2-) by (simp add: comment_ok_def)
  with ok have "wishlist_ok (\<tau>\<lparr>comments := comments \<tau> @ [?new]\<rparr>)" if "nid \<notin> cm_id ` set (comments \<tau>)"
    using that unfolding wishlist_ok_def by simp
  with ok show "wishlist_ok (snd (if u \<notin> it_id ` set (items \<tau>) \<or> a \<notin> ar_id ` set (accounts \<tau>) \<or>
      nid \<in> cm_id ` set (comments \<tau>) \<or> \<not> storable body then (Inl EDb, \<tau>)
     else (Inr \<lparr>c_id = nid, c_item = u, c_author = a, c_body = body, c_votes = 0, c_voted = False,
                c_created = clock \<tau>\<rparr>, \<tau>\<lparr>comments := comments \<tau> @ [?new]\<rparr>)))"
    by simp
qed

lemma votes_cases_ok:
  "wishlist_ok \<tau> \<Longrightarrow> u \<in> it_id ` set (items \<tau>) \<Longrightarrow> (u, a) \<notin> set (item_votes \<tau>) \<Longrightarrow>
     wishlist_ok (item_votes_update (\<lambda>vs. vs @ [(u, a)]) \<tau>)"
  "wishlist_ok \<tau> \<Longrightarrow> wishlist_ok (item_votes_update (filter P) \<tau>)"
  "wishlist_ok \<tau> \<Longrightarrow> u \<in> cm_id ` set (comments \<tau>) \<Longrightarrow> (u, a) \<notin> set (comment_votes \<tau>) \<Longrightarrow>
     wishlist_ok (comment_votes_update (\<lambda>vs. vs @ [(u, a)]) \<tau>)"
  "wishlist_ok \<tau> \<Longrightarrow> wishlist_ok (comment_votes_update (filter P) \<tau>)"
  unfolding wishlist_ok_def by simp_all

lemma repo_votes_ok [inv_intros]:
  assumes "wishlist_ok \<sigma>"
  shows "wishlist_ok (snd (repo_add_vote i a \<sigma>))" "wishlist_ok (snd (repo_remove_vote i a \<sigma>))"
    "wishlist_ok (snd (repo_add_comment_vote i a \<sigma>))" "wishlist_ok (snd (repo_remove_comment_vote i a \<sigma>))"
  unfolding repo_add_vote_def repo_remove_vote_def repo_add_comment_vote_def repo_remove_comment_vote_def
    add_vote_def remove_vote_def
  by (rule wishlist_statement [OF _ assms], (rule wishlist_with_uuid)+, simp_all add: votes_cases_ok)+

lemma marked_ok:
  "wishlist_ok \<tau> \<Longrightarrow> wishlist_ok (\<tau>\<lparr>items := map (\<lambda>r. if P r then r\<lparr>it_deleted := d\<rparr> else r) (items \<tau>)\<rparr>)"
  "wishlist_ok \<tau> \<Longrightarrow> wishlist_ok (\<tau>\<lparr>comments := map (\<lambda>r. if Q r then r\<lparr>cm_deleted := d\<rparr> else r) (comments \<tau>)\<rparr>)"
proof -
  have i: "(\<forall>r \<in> set (map (\<lambda>r. if P r then r\<lparr>it_deleted := d\<rparr> else r) rs). item_ok r) \<longleftrightarrow> (\<forall>r \<in> set rs. item_ok r)" for rs
    by (induction rs) (auto simp: item_ok_def)
  have c: "(\<forall>r \<in> set (map (\<lambda>r. if Q r then r\<lparr>cm_deleted := d\<rparr> else r) rs). comment_ok r) \<longleftrightarrow> (\<forall>r \<in> set rs. comment_ok r)" for rs
    by (induction rs) (auto simp: comment_ok_def)
  show "wishlist_ok \<tau> \<Longrightarrow> wishlist_ok (\<tau>\<lparr>items := map (\<lambda>r. if P r then r\<lparr>it_deleted := d\<rparr> else r) (items \<tau>)\<rparr>)"
    unfolding wishlist_ok_def by (simp add: i set_marked del: map_map set_map list.set_map)
  show "wishlist_ok \<tau> \<Longrightarrow> wishlist_ok (\<tau>\<lparr>comments := map (\<lambda>r. if Q r then r\<lparr>cm_deleted := d\<rparr> else r) (comments \<tau>)\<rparr>)"
    unfolding wishlist_ok_def by (simp add: c set_marked del: map_map set_map list.set_map)
qed

lemma repo_deletes_ok [inv_intros]:
  assumes "wishlist_ok \<sigma>"
  shows "wishlist_ok (snd (repo_delete_item i \<sigma>))" "wishlist_ok (snd (repo_delete_comment i \<sigma>))"
  unfolding repo_delete_item_def repo_delete_comment_def
  by (rule wishlist_statement [OF _ assms], rule wishlist_with_uuid, unfold snd_conv, rule marked_ok, assumption+)+

section \<open>Properties\<close>

text \<open>Every way in, reads included, as the state it leaves.\<close>

datatype wish_op =
    WCreate string string runes runes
  | WList string "sort_by option"
  | WVote string string
  | WUnvote string string
  | WDelete string string bool
  | WComment string string string runes
  | WComments string string
  | WVoteComment string string
  | WUnvoteComment string string
  | WDeleteComment string string bool

fun wish_run :: "wish_op \<Rightarrow> store \<Rightarrow> store" where
  "wish_run (WCreate nid author title body) \<sigma> = snd (create_item nid author title body \<sigma>)"
| "wish_run (WList viewer srt) \<sigma> = snd (list_items viewer srt \<sigma>)"
| "wish_run (WVote i a) \<sigma> = snd (vote i a \<sigma>)"
| "wish_run (WUnvote i a) \<sigma> = snd (unvote i a \<sigma>)"
| "wish_run (WDelete i actor admin) \<sigma> = snd (delete_item i actor admin \<sigma>)"
| "wish_run (WComment nid i author body) \<sigma> = snd (add_comment nid i author body \<sigma>)"
| "wish_run (WComments i viewer) \<sigma> = snd (list_comments i viewer \<sigma>)"
| "wish_run (WVoteComment i a) \<sigma> = snd (vote_comment i a \<sigma>)"
| "wish_run (WUnvoteComment i a) \<sigma> = snd (unvote_comment i a \<sigma>)"
| "wish_run (WDeleteComment i actor admin) \<sigma> = snd (delete_comment i actor admin \<sigma>)"

lemma wishlist_and_then:
  assumes "wishlist_ok (snd (f \<sigma>))" and "\<And>x \<tau>. wishlist_ok \<tau> \<Longrightarrow> wishlist_ok (snd (g x \<tau>))"
  shows "wishlist_ok (snd (and_then f g \<sigma>))"
  using assms by (cases "f \<sigma>") (auto simp: and_then_def split: sum.split)

lemma repo_reads_ok:
  assumes "wishlist_ok \<sigma>"
  shows "wishlist_ok (snd (repo_exists i \<sigma>))" "wishlist_ok (snd (repo_comment_exists i \<sigma>))"
    "wishlist_ok (snd (repo_item_author i \<sigma>))" "wishlist_ok (snd (repo_comment_author i \<sigma>))"
    "wishlist_ok (snd (repo_list viewer srt \<sigma>))" "wishlist_ok (snd (repo_list_comments i viewer \<sigma>))"
  unfolding repo_exists_def repo_comment_exists_def repo_item_author_def repo_comment_author_def
    repo_list_def repo_list_comments_def
  by (rule wishlist_statement [OF _ assms], (rule wishlist_with_uuid)+, simp_all)+

lemma return_op_state [simp]: "snd (return_op r \<sigma>) = \<sigma>"
  by (simp add: return_op_def)

lemma wish_run_ok:
  assumes "wishlist_ok \<sigma>"
  shows "wishlist_ok (wish_run w \<sigma>)"
proof (cases w)
  case (WCreate nid author title body)
  with assms show ?thesis
    by (simp add: create_item_def Let_def repo_create_ok maxTitle_def maxBody_def)
next
  case (WComment nid i author body)
  have "wishlist_ok (snd (add_comment nid i author body \<sigma>))"
  proof (cases "trim_space body = [] \<or> maxCommentBody < byte_len (trim_space body)")
    case True
    with assms show ?thesis by (auto simp: add_comment_def Let_def)
  next
    case False
    then have "wishlist_ok (snd (repo_create_comment nid i author (trim_space body) \<tau>))" if "wishlist_ok \<tau>" for \<tau>
      using that by (intro repo_create_comment_ok) (simp_all add: maxCommentBody_def)
    with False assms show ?thesis
      by (auto simp: add_comment_def Let_def intro!: wishlist_and_then repo_reads_ok)
  qed
  with WComment show ?thesis by simp
qed (use assms in \<open>auto simp: list_items_def list_comments_def vote_def unvote_def delete_item_def
    delete_comment_def vote_comment_def unvote_comment_def repo_votes_ok repo_reads_ok repo_deletes_ok
    intro!: wishlist_and_then\<close>)

text \<open>C13: whatever is asked of the wishlist, in whatever order and however the database behaves, every
  stored title is trimmed, not empty and at most 200 bytes, every body and comment is trimmed and
  within its limit, a person votes at most once for anything, and nobody votes for what does not
  exist.\<close>

theorem wishlist_stays_well_formed:
  assumes "wishlist_ok \<sigma>"
  shows "wishlist_ok (fold wish_run ops \<sigma>)"
  using assms by (induction ops arbitrary: \<sigma>) (simp_all add: wish_run_ok)

theorem wishlist_stays_well_formed_witness:
  "wishlist_ok (fold wish_run [WCreate sess_id ann_id [32, 65, 32] [], WVote sess_id bob_id,
     WVote sess_id bob_id, WDelete sess_id ann_id False] empty_store)"
  by (rule wishlist_stays_well_formed) (simp add: wishlist_ok_def empty_store_def)

text \<open>the list shows every idea that has not been deleted exactly once, with the number of its votes,
  whether the viewer voted, and the number of its live comments; it is ordered by votes and then
  by age, newest first, or by age alone; an unknown sort means by votes.\<close>

theorem list_shows_live_items_in_order:
  assumes "weather \<sigma> = []" and "pg_uuid viewer = Some w"
  shows "\<exists>l. list_items viewer srt \<sigma> = (Inr l, \<sigma>) \<and>
    mset l = mset (map (item_view \<sigma> w) (filter (\<lambda>r. it_deleted r = None) (items \<sigma>))) \<and>
    sorted (map (item_order (if srt = Some SortNew then SortNew else SortTop)) l) \<and>
    (\<forall>i j. i < j \<and> j < length l \<and> srt \<noteq> Some SortNew \<longrightarrow> i_votes (l ! j) \<le> i_votes (l ! i))"
proof -
  let ?s = "case srt of None \<Rightarrow> SortTop | Some s \<Rightarrow> s"
  have s: "(if srt = Some SortNew then SortNew else SortTop) = ?s"
    by (cases srt; cases "the srt") auto
  let ?l = "sort_key (item_order ?s) (map (item_view \<sigma> w) (filter (\<lambda>r. it_deleted r = None) (items \<sigma>)))"
  have l: "list_items viewer srt \<sigma> = (Inr ?l, \<sigma>)"
    using assms by (simp add: list_items_def repo_list_def with_uuid_def)
  have srtd: "sorted (map (item_order ?s) ?l)" by simp
  have "i_votes (?l ! j) \<le> i_votes (?l ! i)" if ij: "i < j" "j < length ?l" "srt \<noteq> Some SortNew" for i j
  proof -
    have "item_order ?s (?l ! i) \<le> item_order ?s (?l ! j)"
      using sorted_nth_mono [OF srtd, of i j] ij(1,2) by simp
    with ij(3) show ?thesis
      by (cases srt; cases "the srt") (auto simp: item_order_def)
  qed
  with l srtd show ?thesis unfolding s by auto
qed

theorem list_shows_live_items_in_order_witness:
  "\<exists>l. list_items ann_id None empty_store = (Inr l, empty_store) \<and> mset l = {#}"
  using list_shows_live_items_in_order [of empty_store ann_id ann_id None] demo_uuids(1)
  by (simp add: canonical_def) (auto simp: empty_store_def)

lemma vote_clear:
  assumes "weather \<sigma> = []" and "pg_uuid i = Some u" and "pg_uuid account = Some a"
  shows "vote i account \<sigma> =
    (if \<not> list_ex (live_item u) (items \<sigma>) then (Inl EItemNotFound, \<sigma>)
     else if (u, a) \<in> set (item_votes \<sigma>) then (Inr (), \<sigma>)
     else if a \<notin> ar_id ` set (accounts \<sigma>) then (Inl EDb, \<sigma>)
     else (Inr (), \<sigma>\<lparr>item_votes := item_votes \<sigma> @ [(u, a)]\<rparr>))"
proof -
  have "u \<in> it_id ` set (items \<sigma>)" if "list_ex (live_item u) (items \<sigma>)"
    using that by (auto simp: list_ex_iff live_item_def)
  with assms show ?thesis
    by (auto simp: vote_def and_then_def repo_exists_def with_uuid_def return_op_def repo_add_vote_def add_vote_def)
qed

lemma unvote_clear:
  assumes "weather \<sigma> = []" and "pg_uuid i = Some u" and "pg_uuid account = Some a"
  shows "unvote i account \<sigma> = (Inr (), \<sigma>\<lparr>item_votes := filter (\<lambda>v. v \<noteq> (u, a)) (item_votes \<sigma>)\<rparr>)"
  using assms by (simp add: unvote_def repo_remove_vote_def remove_vote_def with_uuid_def)

text \<open>an accepted vote counts once: it raises the tally of that idea by one if the person had not voted
  and by nothing otherwise, leaves every other tally alone, and can be repeated without effect;
  taking it back restores exactly the votes there were without this person's.\<close>

theorem votes_count_once:
  assumes "weather \<sigma> = []" and "pg_uuid i = Some u" and "pg_uuid account = Some a"
    and "vote i account \<sigma> = (Inr (), \<sigma>')"
  shows "vote i account \<sigma>' = (Inr (), \<sigma>') \<and> (u, a) \<in> set (item_votes \<sigma>') \<and>
    (\<forall>x. vote_count (item_votes \<sigma>') x = vote_count (item_votes \<sigma>) x +
       (if x = u \<and> (u, a) \<notin> set (item_votes \<sigma>) then 1 else 0)) \<and>
    fst (unvote i account \<sigma>') = Inr () \<and>
    item_votes (snd (unvote i account \<sigma>')) = filter (\<lambda>v. v \<noteq> (u, a)) (item_votes \<sigma>)"
proof -
  have s': "\<sigma>' = (if (u, a) \<in> set (item_votes \<sigma>) then \<sigma> else \<sigma>\<lparr>item_votes := item_votes \<sigma> @ [(u, a)]\<rparr>)"
    and live: "list_ex (live_item u) (items \<sigma>)"
    using assms(4) unfolding vote_clear [OF assms(1-3)] by (auto split: if_splits)
  have w: "weather \<sigma>' = []" "items \<sigma>' = items \<sigma>" and v: "(u, a) \<in> set (item_votes \<sigma>')"
    using assms(1) by (auto simp: s')
  have "vote i account \<sigma>' = (Inr (), \<sigma>')"
    unfolding vote_clear [OF w(1) assms(2,3)] using v live w(2) by simp
  moreover have "vote_count (item_votes \<sigma>') x = vote_count (item_votes \<sigma>) x +
       (if x = u \<and> (u, a) \<notin> set (item_votes \<sigma>) then 1 else 0)" for x
    by (simp add: s' vote_count_def)
  moreover have "item_votes (snd (unvote i account \<sigma>')) = filter (\<lambda>v. v \<noteq> (u, a)) (item_votes \<sigma>)"
    unfolding unvote_clear [OF w(1) assms(2,3)] by (simp add: s')
  ultimately show ?thesis using v unvote_clear [OF w(1) assms(2,3)] by simp
qed

definition wish_store :: store where
  "wish_store = empty_store\<lparr>accounts := [plain_account ann_id ''user'' ''approved'' ''vk'' ''ra'',
       plain_account bob_id ''user'' ''approved'' ''vk'' ''rb''],
     items := [\<lparr>it_id = sess_id, it_account = ann_id, it_title = [65], it_body = [], it_created = 0,
       it_deleted = None\<rparr>]\<rparr>"

lemma wish_uuids: "pg_uuid ann_id = Some ann_id" "pg_uuid bob_id = Some bob_id" "pg_uuid sess_id = Some sess_id"
  using demo_uuids by (simp_all add: canonical_def)

theorem votes_count_once_witness:
  "\<exists>\<sigma>'. vote sess_id bob_id wish_store = (Inr (), \<sigma>') \<and> vote_count (item_votes \<sigma>') sess_id = 1"
proof -
  have w: "weather wish_store = []" "item_votes wish_store = []" by (simp_all add: wish_store_def empty_store_def)
  have "\<exists>\<sigma>'. vote sess_id bob_id wish_store = (Inr (), \<sigma>')"
    unfolding vote_clear [OF w(1) wish_uuids(3,2)]
    by (simp add: wish_store_def empty_store_def live_item_def plain_account_def)
  then obtain \<sigma>' where v: "vote sess_id bob_id wish_store = (Inr (), \<sigma>')" by blast
  from votes_count_once [OF w(1) wish_uuids(3,2) v] w(2)
  have "vote_count (item_votes \<sigma>') sess_id = vote_count [] sess_id + 1" by simp
  also have "vote_count [] sess_id = 0" by (simp add: vote_count_def)
  finally show ?thesis using v by simp
qed

text \<open>
  an idea is deleted only by its author or an admin: anybody else is refused and nothing changes;
  after an accepted deletion the idea is gone for every reader, a second deletion does not find
  it, and all other ideas are as they were.\<close>

theorem only_author_or_admin_deletes:
  assumes "weather \<sigma> = []" and "pg_uuid i = Some u" and "wishlist_ok \<sigma>"
  shows "case find (live_item u) (items \<sigma>) of
      None \<Rightarrow> delete_item i actor admin \<sigma> = (Inl EItemNotFound, \<sigma>)
    | Some r \<Rightarrow>
        if it_account r \<noteq> actor \<and> \<not> admin then delete_item i actor admin \<sigma> = (Inl EForbidden, \<sigma>)
        else \<exists>\<sigma>'. delete_item i actor admin \<sigma> = (Inr (), \<sigma>') \<and>
          filter (\<lambda>q. it_deleted q = None) (items \<sigma>') =
            filter (\<lambda>q. it_deleted q = None \<and> it_id q \<noteq> u) (items \<sigma>) \<and>
          delete_item i actor' True \<sigma>' = (Inl EItemNotFound, \<sigma>')"
proof (cases "find (live_item u) (items \<sigma>)")
  case None
  with assms(1,2) show ?thesis
    by (simp add: delete_item_def and_then_def repo_item_author_def with_uuid_def)
next
  case (Some r)
  let ?\<sigma> = "\<sigma>\<lparr>items := map (\<lambda>q. if live_item u q then q\<lparr>it_deleted := Some (clock \<sigma>)\<rparr> else q) (items \<sigma>)\<rparr>"
  have d: "delete_item i actor admin \<sigma> =
      (if it_account r \<noteq> actor \<and> \<not> admin then (Inl EForbidden, \<sigma>) else (Inr (), ?\<sigma>))"
    using Some assms(1,2)
    by (simp add: delete_item_def and_then_def repo_item_author_def with_uuid_def return_op_def repo_delete_item_def)
  have "filter (\<lambda>q. it_deleted q = None) (map (\<lambda>q. if live_item u q then q\<lparr>it_deleted := Some t\<rparr> else q) rs) =
      filter (\<lambda>q. it_deleted q = None \<and> it_id q \<noteq> u) rs" for t rs
    by (induction rs) (auto simp: live_item_def)
  then have f: "filter (\<lambda>q. it_deleted q = None) (items ?\<sigma>) =
      filter (\<lambda>q. it_deleted q = None \<and> it_id q \<noteq> u) (items \<sigma>)" by simp
  have "find (live_item u) (map (\<lambda>q. if live_item u q then q\<lparr>it_deleted := Some t\<rparr> else q) rs) = None" for t rs
    by (induction rs) (auto simp: live_item_def)
  then have "find (live_item u) (items ?\<sigma>) = None" by simp
  then have again: "delete_item i actor' True ?\<sigma> = (Inl EItemNotFound, ?\<sigma>)"
    using assms(1,2) by (simp add: delete_item_def and_then_def repo_item_author_def with_uuid_def)
  show ?thesis
  proof (cases "it_account r \<noteq> actor \<and> \<not> admin")
    case True
    with d Some show ?thesis by simp
  next
    case False
    then have "delete_item i actor admin \<sigma> = (Inr (), ?\<sigma>)" unfolding d by (simp only: if_False)
    with f again have "\<exists>\<sigma>'. delete_item i actor admin \<sigma> = (Inr (), \<sigma>') \<and>
          filter (\<lambda>q. it_deleted q = None) (items \<sigma>') =
            filter (\<lambda>q. it_deleted q = None \<and> it_id q \<noteq> u) (items \<sigma>) \<and>
          delete_item i actor' True \<sigma>' = (Inl EItemNotFound, \<sigma>')" by blast
    then show ?thesis unfolding Some option.case if_not_P [OF False] .
  qed
qed

theorem only_author_or_admin_deletes_witness:
  "delete_item sess_id bob_id False wish_store = (Inl EForbidden, wish_store) \<and>
   fst (delete_item sess_id ann_id False wish_store) = Inr ()"
proof -
  have w: "weather wish_store = []" "wishlist_ok wish_store"
    by (simp_all add: wish_store_def empty_store_def wishlist_ok_def item_ok_def trim_space_def is_space_def
        byte_len_def rune_len_def)
  have f: "find (live_item sess_id) (items wish_store) =
      Some \<lparr>it_id = sess_id, it_account = ann_id, it_title = [65], it_body = [], it_created = 0, it_deleted = None\<rparr>"
    by (simp add: wish_store_def empty_store_def live_item_def)
  show ?thesis
    using only_author_or_admin_deletes [OF w(1) wish_uuids(3) w(2), of bob_id False ann_id]
      only_author_or_admin_deletes [OF w(1) wish_uuids(3) w(2), of ann_id False ann_id]
    unfolding f by auto
qed

end
