(* ===== verification/HttpWishlist.thy ===== *)
theory HttpWishlist
  imports HttpAuth Wishlist
begin

text \<open>
  The wishlist routes (\<^verbatim>\<open>internal/httpapi/wishlist.go\<close>). Each handler runs behind
  \<^verbatim>\<open>requireAuth\<close> and is given the viewer; it checks the id, calls the service and maps its
  errors to a status and a code.
\<close>

record author_view =
  av_display_name :: runes
  av_avatar_url :: runes
  av_profile_url :: runes

record item_json =
  ij_item :: item
  ij_author :: author_view
  ij_mine :: bool

record comment_json =
  cj_comment :: comment
  cj_author :: author_view
  cj_mine :: bool

definition author_of :: "(string \<times> account) list \<Rightarrow> string \<Rightarrow> author_view" where
  "author_of authors i =
     (case map_of authors i of
        None \<Rightarrow> \<lparr>av_display_name = [], av_avatar_url = [], av_profile_url = []\<rparr>
      | Some a \<Rightarrow> \<lparr>av_display_name = display_name a, av_avatar_url = ac_avatar a, av_profile_url = profile_url a\<rparr>)"

definition oneItemResponse :: "account \<Rightarrow> item \<Rightarrow> (string \<times> account) list \<Rightarrow> item_json" where
  "oneItemResponse viewer it authors =
     \<lparr>ij_item = it, ij_author = author_of authors (i_author it), ij_mine = (i_author it = ac_id viewer)\<rparr>"

definition oneCommentResponse :: "account \<Rightarrow> comment \<Rightarrow> (string \<times> account) list \<Rightarrow> comment_json" where
  "oneCommentResponse viewer c authors =
     \<lparr>cj_comment = c, cj_author = author_of authors (c_author c), cj_mine = (c_author c = ac_id viewer)\<rparr>"

text \<open>The loop that looks each author up once; an author that cannot be read is left out.\<close>

fun load_authors :: "vault \<Rightarrow> string list \<Rightarrow> (string \<times> account) list \<Rightarrow> store \<Rightarrow> (string \<times> account) list \<times> store" where
  "load_authors v [] authors \<sigma> = (authors, \<sigma>)"
| "load_authors v (i # ids) authors \<sigma> =
     (if map_of authors i \<noteq> None then load_authors v ids authors \<sigma>
      else case get_by_id v i \<sigma> of
        (Inl err, \<sigma>1) \<Rightarrow> load_authors v ids authors \<sigma>1
      | (Inr a, \<sigma>1) \<Rightarrow> load_authors v ids ((i, a) # authors) \<sigma>1)"

definition itemsResponse :: "vault \<Rightarrow> account \<Rightarrow> item list \<Rightarrow> store \<Rightarrow> item_json list \<times> store" where
  "itemsResponse v viewer its \<sigma> =
     (let (authors, \<sigma>1) = load_authors v (map i_author its) [] \<sigma> in
      (map (\<lambda>it. oneItemResponse viewer it authors) its, \<sigma>1))"

definition commentsResponse :: "vault \<Rightarrow> account \<Rightarrow> comment list \<Rightarrow> store \<Rightarrow> comment_json list \<times> store" where
  "commentsResponse v viewer cs \<sigma> =
     (let (authors, \<sigma>1) = load_authors v (map c_author cs) [] \<sigma> in
      (map (\<lambda>c. oneCommentResponse viewer c authors) cs, \<sigma>1))"

section \<open>Handlers\<close>

definition handle_wishlist_list :: "vault \<Rightarrow> sort_by option \<Rightarrow> account \<Rightarrow> store \<Rightarrow> item_json list response \<times> store" where
  "handle_wishlist_list v srt viewer \<sigma> =
     (case list_items (ac_id viewer) srt \<sigma> of
        (Inl err, \<sigma>1) \<Rightarrow> (Failure 500 ''internal'', \<sigma>1)
      | (Inr its, \<sigma>1) \<Rightarrow> (let (js, \<sigma>2) = itemsResponse v viewer its \<sigma>1 in (Success 200 js, \<sigma>2)))"

definition create_failure :: "app_error \<Rightarrow> 'b response" where
  "create_failure err =
     (if err = EEmptyTitle then Failure 422 ''title_required''
      else if err = ETooLong then Failure 422 ''too_long''
      else Failure 500 ''internal'')"

definition handle_wishlist_create ::
  "string \<Rightarrow> (runes \<times> runes) option \<Rightarrow> account \<Rightarrow> store \<Rightarrow> item_json response \<times> store" where
  "handle_wishlist_create nid body viewer \<sigma> =
     (case body of
        None \<Rightarrow> (Failure 400 ''bad_request'', \<sigma>)
      | Some (title, text_body) \<Rightarrow>
          (case create_item nid (ac_id viewer) title text_body \<sigma> of
             (Inl err, \<sigma>1) \<Rightarrow> (create_failure err, \<sigma>1)
           | (Inr it, \<sigma>1) \<Rightarrow> (Success 201 (oneItemResponse viewer it [(ac_id viewer, viewer)]), \<sigma>1)))"

text \<open>
  The four vote handlers share a shape: check the id, do it, and let one error, if any, be a
  404.
\<close>

definition handle_by_id :: "(string \<Rightarrow> string \<Rightarrow> unit op) \<Rightarrow> app_error option \<Rightarrow> string \<Rightarrow> account \<Rightarrow>
    store \<Rightarrow> unit response \<times> store" where
  "handle_by_id act missing i viewer \<sigma> =
     (if \<not> validUUID i then (Failure 400 ''bad_request'', \<sigma>)
      else case act i (ac_id viewer) \<sigma> of
        (Inl err, \<sigma>1) \<Rightarrow>
          (if missing = Some err then Failure 404 ''not_found'' else Failure 500 ''internal'', \<sigma>1)
      | (Inr _, \<sigma>1) \<Rightarrow> (Success 204 (), \<sigma>1))"

definition handle_vote :: "string \<Rightarrow> account \<Rightarrow> store \<Rightarrow> unit response \<times> store" where
  "handle_vote = handle_by_id vote (Some EItemNotFound)"

definition handle_unvote :: "string \<Rightarrow> account \<Rightarrow> store \<Rightarrow> unit response \<times> store" where
  "handle_unvote = handle_by_id unvote None"

definition handle_comment_vote :: "string \<Rightarrow> account \<Rightarrow> store \<Rightarrow> unit response \<times> store" where
  "handle_comment_vote = handle_by_id vote_comment (Some ECommentNotFound)"

definition handle_comment_unvote :: "string \<Rightarrow> account \<Rightarrow> store \<Rightarrow> unit response \<times> store" where
  "handle_comment_unvote = handle_by_id unvote_comment None"

definition delete_reply :: "app_error \<Rightarrow> unit res \<Rightarrow> unit response" where
  "delete_reply missing r =
     (case r of
        Inr _ \<Rightarrow> Success 204 ()
      | Inl err \<Rightarrow>
          if err = missing then Failure 404 ''not_found''
          else if err = EForbidden then Failure 403 ''forbidden''
          else Failure 500 ''internal'')"

definition handle_delete_item :: "string \<Rightarrow> account \<Rightarrow> store \<Rightarrow> unit response \<times> store" where
  "handle_delete_item i viewer \<sigma> =
     (if \<not> validUUID i then (Failure 400 ''bad_request'', \<sigma>)
      else let (r, \<sigma>1) = delete_item i (ac_id viewer) (is_admin viewer) \<sigma> in (delete_reply EItemNotFound r, \<sigma>1))"

definition handle_delete_comment :: "string \<Rightarrow> account \<Rightarrow> store \<Rightarrow> unit response \<times> store" where
  "handle_delete_comment i viewer \<sigma> =
     (if \<not> validUUID i then (Failure 400 ''bad_request'', \<sigma>)
      else let (r, \<sigma>1) = delete_comment i (ac_id viewer) (is_admin viewer) \<sigma> in
        (delete_reply ECommentNotFound r, \<sigma>1))"

definition handle_comment_list :: "vault \<Rightarrow> string \<Rightarrow> account \<Rightarrow> store \<Rightarrow> comment_json list response \<times> store" where
  "handle_comment_list v i viewer \<sigma> =
     (if \<not> validUUID i then (Failure 400 ''bad_request'', \<sigma>)
      else case list_comments i (ac_id viewer) \<sigma> of
        (Inl err, \<sigma>1) \<Rightarrow> (Failure 500 ''internal'', \<sigma>1)
      | (Inr cs, \<sigma>1) \<Rightarrow> (let (js, \<sigma>2) = commentsResponse v viewer cs \<sigma>1 in (Success 200 js, \<sigma>2)))"

definition comment_failure :: "app_error \<Rightarrow> 'b response" where
  "comment_failure err =
     (if err = EEmptyComment then Failure 422 ''comment_required''
      else if err = ETooLong then Failure 422 ''too_long''
      else if err = EItemNotFound then Failure 404 ''not_found''
      else Failure 500 ''internal'')"

definition handle_comment_create ::
  "string \<Rightarrow> string \<Rightarrow> runes option \<Rightarrow> account \<Rightarrow> store \<Rightarrow> comment_json response \<times> store" where
  "handle_comment_create nid i body viewer \<sigma> =
     (if \<not> validUUID i then (Failure 400 ''bad_request'', \<sigma>)
      else case body of
        None \<Rightarrow> (Failure 400 ''bad_request'', \<sigma>)
      | Some b \<Rightarrow>
          (case add_comment nid i (ac_id viewer) b \<sigma> of
             (Inl err, \<sigma>1) \<Rightarrow> (comment_failure err, \<sigma>1)
           | (Inr c, \<sigma>1) \<Rightarrow> (Success 201 (oneCommentResponse viewer c [(ac_id viewer, viewer)]), \<sigma>1)))"

section \<open>Properties\<close>

lemma load_authors_each:
  assumes "weather \<sigma> = []"
  shows "snd (load_authors v ids authors \<sigma>) = \<sigma>"
    and "j \<in> set ids \<Longrightarrow> map_of authors j = None \<Longrightarrow>
      map_of (fst (load_authors v ids authors \<sigma>)) j =
        (case fst (get_by_id v j \<sigma>) of Inl err \<Rightarrow> None | Inr a \<Rightarrow> Some a)"
    and "j \<notin> set ids \<Longrightarrow> map_of (fst (load_authors v ids authors \<sigma>)) j = map_of authors j"
proof -
  have g: "snd (get_by_id v i \<sigma>) = \<sigma>" for i
    using assms by (auto simp: get_by_id_def and_then_def return_op_def select_account_def
        split: option.splits prod.splits sum.splits)
  have "snd (load_authors v ids authors \<sigma>) = \<sigma> \<and>
    (\<forall>j. map_of (fst (load_authors v ids authors \<sigma>)) j =
       (if j \<in> set ids \<and> map_of authors j = None
        then (case fst (get_by_id v j \<sigma>) of Inl err \<Rightarrow> None | Inr a \<Rightarrow> Some a) else map_of authors j))"
  proof (induction ids arbitrary: authors)
    case (Cons i ids)
    obtain r where r: "get_by_id v i \<sigma> = (r, \<sigma>)" using g [of i] by (cases "get_by_id v i \<sigma>") simp
    show ?case
      using Cons.IH [of authors] Cons.IH [of "(i, projr r) # authors"] r by (cases r) auto
  qed simp
  then show "snd (load_authors v ids authors \<sigma>) = \<sigma>"
    and "j \<in> set ids \<Longrightarrow> map_of authors j = None \<Longrightarrow>
      map_of (fst (load_authors v ids authors \<sigma>)) j =
        (case fst (get_by_id v j \<sigma>) of Inl err \<Rightarrow> None | Inr a \<Rightarrow> Some a)"
    and "j \<notin> set ids \<Longrightarrow> map_of (fst (load_authors v ids authors \<sigma>)) j = map_of authors j"
    by auto
qed

text \<open>every idea in a list comes with its own author: the name, picture and profile link of the account
  that wrote it as it reads at that moment, empty when that account can no longer be read, however
  many ideas share an author; and it is marked as the viewer's own exactly when it is.\<close>

theorem every_item_has_its_own_author:
  assumes "weather \<sigma> = []"
  shows "itemsResponse v viewer its \<sigma> =
    (map (\<lambda>it. \<lparr>ij_item = it,
       ij_author = (case fst (get_by_id v (i_author it) \<sigma>) of
           Inl err \<Rightarrow> \<lparr>av_display_name = [], av_avatar_url = [], av_profile_url = []\<rparr>
         | Inr a \<Rightarrow> \<lparr>av_display_name = display_name a, av_avatar_url = ac_avatar a, av_profile_url = profile_url a\<rparr>),
       ij_mine = (i_author it = ac_id viewer)\<rparr>) its, \<sigma>)"
proof -
  have "map_of (fst (load_authors v (map i_author its) [] \<sigma>)) (i_author it) =
      (case fst (get_by_id v (i_author it) \<sigma>) of Inl err \<Rightarrow> None | Inr a \<Rightarrow> Some a)" if "it \<in> set its" for it
    using that by (intro load_authors_each(2) [OF assms]) simp_all
  then show ?thesis
    using load_authors_each(1) [OF assms, of v "map i_author its" "[]"]
    by (auto simp: itemsResponse_def oneItemResponse_def author_of_def split_def Let_def split: sum.split)
qed

definition demo_item :: "string \<Rightarrow> string \<Rightarrow> item" where
  "demo_item i who = \<lparr>i_id = i, i_author = who, i_title = [65], i_body = [], i_votes = 0, i_voted = False,
     i_comments = 0, i_created = 0\<rparr>"

definition author_store :: store where
  "author_store = empty_store\<lparr>accounts :=
     [plain_account ann_id ''user'' ''approved'' ''vk'' ''ra''\<lparr>ar_identity := encrypt_string demo_vault (demo_nonce 0) [7]\<rparr>]\<rparr>"

lemma ann_reads: "\<exists>a. get_by_id demo_vault ann_id author_store = (Inr a, author_store) \<and> ac_id a = ann_id"
  by (simp add: get_by_id_def and_then_def return_op_def statement_def select_account_def has_id_def
      wish_uuids to_account_def dec_optional_def decrypt_string_def encrypt_string_def ann_defs author_store_def)

lemma bob_unread: "fst (get_by_id demo_vault bob_id author_store) = Inl EAccountNotFound"
  by (simp add: get_by_id_def and_then_def return_op_def statement_def select_account_def has_id_def
      wish_uuids ann_defs author_store_def)

theorem every_item_has_its_own_author_witness:
  "\<exists>a. get_by_id demo_vault ann_id author_store = (Inr a, author_store) \<and>
     itemsResponse demo_vault a [demo_item sess_id ann_id, demo_item sess2_id bob_id] author_store =
       ([\<lparr>ij_item = demo_item sess_id ann_id,
          ij_author = \<lparr>av_display_name = display_name a, av_avatar_url = ac_avatar a, av_profile_url = profile_url a\<rparr>,
          ij_mine = True\<rparr>,
         \<lparr>ij_item = demo_item sess2_id bob_id,
          ij_author = \<lparr>av_display_name = [], av_avatar_url = [], av_profile_url = []\<rparr>, ij_mine = False\<rparr>], author_store)"
proof -
  obtain a where a: "get_by_id demo_vault ann_id author_store = (Inr a, author_store)" "ac_id a = ann_id"
    using ann_reads by blast
  have w: "weather author_store = []" by (simp add: author_store_def empty_store_def)
  have "bob_id \<noteq> ann_id" by simp
  with a show ?thesis
    using every_item_has_its_own_author [OF w, of demo_vault a "[demo_item sess_id ann_id, demo_item sess2_id bob_id]"]
    by (intro exI [of _ a]) (simp add: bob_unread demo_item_def)
qed

end
