(* ===== verification/KhimkiContent.thy ===== *)
theory KhimkiContent
  imports Prelude
begin

text \<open>
  The content of the game ``Smalltalk in Khimki'' (\<^verbatim>\<open>internal/gamekhimki/content.go\<close> and
  the types of \<^verbatim>\<open>gamekhimki.go\<close>): the catalogue types and the one script there is. The texts
  are Russian and stand here as the code points of their letters.
\<close>

section \<open>Types\<close>

record theme =
  th_key :: runes
  th_label :: runes
  th_keywords :: "runes list"

record art =
  at_key :: runes
  at_emoji :: runes
  at_gradient :: runes
  at_image :: runes

record character =
  ch_key :: string
  ch_name :: runes
  ch_goal :: runes
  ch_greeting :: runes
  ch_openings :: "runes list"
  ch_arts :: "art list"
  ch_objective :: runes
  ch_failure :: runes
  ch_game_over_art :: runes
  ch_themes :: "theme list"
  ch_motivation :: runes
  ch_persona :: runes
  ch_talk_style :: runes

record game =
  gm_key :: string
  gm_title :: runes
  gm_intro :: runes
  gm_default :: string
  gm_max_anger :: int
  gm_anger_lose_at :: int
  gm_start_anger :: int
  gm_characters :: "character list"

definition GameSmalltalkKhimki :: string where "GameSmalltalkKhimki = ''smalltalk_khimki''"

definition MaxAnger :: int where "MaxAnger = 100"
definition AngerLoseAt :: int where "AngerLoseAt = 90"
definition StartAnger :: int where "StartAnger = 40"

definition theme_keys :: "character \<Rightarrow> runes list" where
  "theme_keys c = map th_key (ch_themes c)"

definition art_keys :: "character \<Rightarrow> runes list" where
  "art_keys c = map at_key (ch_arts c)"

section \<open>The script\<close>

text \<open>Keywords: bab, zhen, det, syn, doch', potomstv, sem', odinok, lyubov, vlyub.\<close>

definition theme_woman_children :: theme where
  "theme_woman_children = \<lparr>th_key = ascii ''woman_children'',
     th_label = [1090, 1086, 1089, 1082, 1072, 32, 1087, 1086, 32, 1078, 1077, 1085, 1097, 1080, 1085, 1077, 32,
       1080, 32, 1076, 1077, 1090, 1103, 1084, 44, 32, 1078, 1077, 1083, 1072, 1085, 1080, 1077, 32,
       1086, 1089, 1090, 1072, 1074, 1080, 1090, 1100, 32, 1087, 1086, 1090, 1086, 1084, 1089, 1090,
       1074, 1086],
     th_keywords = [
       [1073, 1072, 1073],
       [1078, 1077, 1085],
       [1076, 1077, 1090],
       [1089, 1099, 1085],
       [1076, 1086, 1095, 1100],
       [1087, 1086, 1090, 1086, 1084, 1089, 1090, 1074],
       [1089, 1077, 1084, 1100],
       [1086, 1076, 1080, 1085, 1086, 1082],
       [1083, 1102, 1073, 1086, 1074],
       [1074, 1083, 1102, 1073]]\<rparr>"

text \<open>Keywords: sakhur, tung, drug, druzh, koresh, tovarishch.\<close>

definition theme_sahur :: theme where
  "theme_sahur = \<lparr>th_key = ascii ''sahur'',
     th_label = [1082, 1088, 1077, 1087, 1082, 1072, 1103, 44, 32, 1087, 1086, 1095, 1090, 1080, 32, 1073, 1088,
       1072, 1090, 1089, 1082, 1072, 1103, 32, 1076, 1088, 1091, 1078, 1073, 1072, 32, 1089, 32,
       1058, 1091, 1085, 1075, 32, 1058, 1091, 1085, 1075, 32, 1057, 1072, 1093, 1091, 1088, 1086,
       1084],
     th_keywords = [
       [1089, 1072, 1093, 1091, 1088],
       [1090, 1091, 1085, 1075],
       [1076, 1088, 1091, 1075],
       [1076, 1088, 1091, 1078],
       [1082, 1086, 1088, 1077, 1096],
       [1090, 1086, 1074, 1072, 1088, 1080, 1097]]\<rparr>"

text \<open>Keywords: pit', pil, vypi, alkog, bukhl, bukhn, trezv, zavyaz, ryumk, stakan, naliv, butyl, alkash, p'yosh', p'esh', kodir, sto gramm.\<close>

definition theme_alcohol :: theme where
  "theme_alcohol = \<lparr>th_key = ascii ''alcohol'',
     th_label = [1077, 1075, 1086, 32, 1086, 1090, 1085, 1086, 1096, 1077, 1085, 1080, 1103, 32, 1089, 32, 1072,
       1083, 1082, 1086, 1075, 1086, 1083, 1077, 1084, 58, 32, 1090, 1103, 1075, 1072, 32, 1074,
       1099, 1087, 1080, 1090, 1100, 32, 1080, 32, 1084, 1099, 1089, 1083, 1080, 32, 1079, 1072,
       1074, 1103, 1079, 1072, 1090, 1100],
     th_keywords = [
       [1087, 1080, 1090, 1100],
       [1087, 1080, 1083],
       [1074, 1099, 1087, 1080],
       [1072, 1083, 1082, 1086, 1075],
       [1073, 1091, 1093, 1083],
       [1073, 1091, 1093, 1085],
       [1090, 1088, 1077, 1079, 1074],
       [1079, 1072, 1074, 1103, 1079],
       [1088, 1102, 1084, 1082],
       [1089, 1090, 1072, 1082, 1072, 1085],
       [1085, 1072, 1083, 1080, 1074],
       [1073, 1091, 1090, 1099, 1083],
       [1072, 1083, 1082, 1072, 1096],
       [1087, 1100, 1105, 1096, 1100],
       [1087, 1100, 1077, 1096, 1100],
       [1082, 1086, 1076, 1080, 1088],
       [1089, 1090, 1086, 32, 1075, 1088, 1072, 1084, 1084]]\<rparr>"

definition vanya_greeting :: runes where
  "vanya_greeting = [1050, 1091, 1076, 1072, 32, 1087, 1088, 1105, 1096, 1100, 44, 32, 1101, 63, 32, 1057, 1090, 1086,
     1081, 44, 32, 1090, 1086, 1088, 1084, 1086, 1079, 1085, 1080, 32, 1085, 1072, 32, 1087, 1086,
     1088, 1086, 1075, 1077, 32, 8212, 10, 1090, 1091, 1090, 32, 1084, 1086, 1081, 32, 1087, 1086,
     1076, 1098, 1077, 1079, 1076, 44, 32, 1084, 1086, 1080, 32, 1087, 1088, 1072, 1074, 1080, 1083,
     1072, 44, 32, 1084, 1086, 1080, 32, 1076, 1086, 1088, 1086, 1075, 1080, 46, 10, 1042, 1099,
     1087, 1080, 1090, 1100, 32, 1077, 1089, 1090, 1100, 63, 32, 1055, 1083, 1077, 1089, 1085, 1080,
     32, 8212, 32, 1080, 32, 1073, 1072, 1079, 1072, 1088, 32, 1073, 1091, 1076, 1077, 1090, 32,
     1084, 1103, 1075, 1095, 1077, 46, 10, 1041, 1072, 1073, 1091, 32, 1073, 1099, 32, 1084, 1085,
     1077, 32, 1076, 1072, 32, 1089, 1099, 1085, 1072, 32, 8212, 32, 1074, 1086, 1090, 32, 1080, 32,
     1074, 1089, 1103, 32, 1084, 1086, 1103, 32, 1079, 1072, 1076, 1072, 1095, 1072, 46, 46, 46]"

definition vanya_openings :: "runes list" where
  "vanya_openings = [
     [1044, 1103, 1076, 1100, 32, 1042, 1072, 1085, 1100, 44, 32, 1085, 1091, 32, 1090, 1099, 32, 1095,
      1077, 1075, 1086, 44, 32, 1103, 32, 1089, 1074, 1086, 1081, 44, 32, 1090, 1091, 1090, 32,
      1078, 1080, 1074, 1091],
     [1045, 1089, 1090, 1100, 32, 1085, 1077, 1084, 1085, 1086, 1075, 1086, 46, 46, 46, 32, 1072, 32,
      1090, 1099, 32, 1095, 1077, 1075, 1086, 32, 1090, 1072, 1082, 1086, 1081, 32, 1076, 1105,
      1088, 1075, 1072, 1085, 1099, 1081, 32, 1089, 1077, 1075, 1086, 1076, 1085, 1103, 63],
     [1057, 1083, 1099, 1096, 1100, 44, 32, 1076, 1072, 1081, 32, 1087, 1088, 1086, 1081, 1090, 1080, 44,
      32, 1091, 1089, 1090, 1072, 1083, 32, 1082, 1072, 1082, 32, 1089, 1086, 1073, 1072, 1082,
      1072],
     [1044, 1072, 32, 1090, 1099, 32, 1089, 1072, 1084, 45, 1090, 1086, 32, 1082, 1072, 1082, 63, 32,
      1044, 1072, 1074, 1085, 1086, 32, 1090, 1077, 1073, 1103, 32, 1085, 1077, 32, 1074, 1080,
      1076, 1077, 1083]]"

definition vanya_arts :: "art list" where
  "vanya_arts = [
     \<lparr>at_key = ascii ''entrance_far_angry'', at_emoji = [127970],
       at_gradient = ascii ''linear-gradient(160deg, #2a2f3a, #14171d)'', at_image = []\<rparr>,
     \<lparr>at_key = ascii ''vanya_angry'', at_emoji = [128545],
       at_gradient = ascii ''linear-gradient(160deg, #5a2f2f, #2a1717)'', at_image = []\<rparr>,
     \<lparr>at_key = ascii ''vanya_suspicious'', at_emoji = [129320],
       at_gradient = ascii ''linear-gradient(160deg, #4a3b2f, #241c16)'', at_image = []\<rparr>,
     \<lparr>at_key = ascii ''vanya_neutral'', at_emoji = [128528],
       at_gradient = ascii ''linear-gradient(160deg, #3a3f4b, #20242c)'', at_image = []\<rparr>,
     \<lparr>at_key = ascii ''vanya_warming'', at_emoji = [128578],
       at_gradient = ascii ''linear-gradient(160deg, #2f4738, #1c2a22)'', at_image = []\<rparr>,
     \<lparr>at_key = ascii ''vanya_deep'', at_emoji = [129401],
       at_gradient = ascii ''linear-gradient(160deg, #2d5a53, #173b36)'', at_image = []\<rparr>,
     \<lparr>at_key = ascii ''vanya_sahur'', at_emoji = [129717],
       at_gradient = ascii ''linear-gradient(160deg, #3a2f4a, #1c1726)'', at_image = []\<rparr>,
     \<lparr>at_key = ascii ''memory_children'', at_emoji = [129490],
       at_gradient = ascii ''linear-gradient(160deg, #4a4368, #241f3a)'', at_image = []\<rparr>,
     \<lparr>at_key = ascii ''hallway_pass'', at_emoji = [128682],
       at_gradient = ascii ''linear-gradient(160deg, #2d5a53, #0f2b27)'', at_image = []\<rparr>,
     \<lparr>at_key = ascii ''vanya_game_over_hits_us'', at_emoji = [129354],
       at_gradient = ascii ''linear-gradient(160deg, #6b1f1f, #240c0c)'', at_image = []\<rparr>]"

definition vanya_name :: runes where
  "vanya_name = [1044, 1103, 1076, 1103, 32, 1042, 1072, 1085, 1103]"

definition vanya_goal :: runes where
  "vanya_goal = [1059, 1075, 1086, 1074, 1086, 1088, 1080, 32, 1076, 1103, 1076, 1102, 32, 1042, 1072, 1085, 1102,
     32, 1087, 1088, 1086, 1087, 1091, 1089, 1090, 1080, 1090, 1100, 32, 1090, 1077, 1073, 1103, 32,
     1074, 32, 1087, 1086, 1076, 1098, 1077, 1079, 1076, 32, 8212, 32, 1076, 1086, 1084, 1086, 1081,
     46]"

definition vanya_objective :: runes where
  "vanya_objective = [1059, 1089, 1087, 1077, 1093, 32, 61, 32, 1080, 1075, 1088, 1086, 1082, 32, 1088, 1072, 1079, 1075,
     1083, 1103, 1076, 1077, 1083, 32, 1079, 1072, 32, 1084, 1072, 1089, 1082, 1086, 1081, 32, 1087,
     1086, 1074, 1077, 1088, 1093, 1085, 1086, 1089, 1090, 1085, 1086, 1075, 1086, 32, 1072, 1083,
     1082, 1072, 1096, 1072, 32, 1078, 1080, 1074, 1086, 1075, 1086, 32, 1095, 1077, 1083, 1086,
     1074, 1077, 1082, 1072, 32, 1080, 32, 1080, 1089, 1082, 1088, 1077, 1085, 1085, 1077, 44, 32,
     1087, 1086, 45, 1076, 1086, 1073, 1088, 1086, 1084, 1091, 44, 32, 1073, 1077, 1079, 32, 1086,
     1089, 1091, 1078, 1076, 1077, 1085, 1080, 1103, 32, 1087, 1088, 1086, 1088, 1072, 1073, 1086,
     1090, 1072, 1083, 32, 1042, 1057, 1045, 32, 1077, 1075, 1086, 32, 1075, 1083, 1091, 1073, 1080,
     1085, 1085, 1099, 1077, 32, 1090, 1077, 1084, 1099, 32, 40, 1086, 1085, 1080, 32, 1087, 1077,
     1088, 1077, 1095, 1080, 1089, 1083, 1077, 1085, 1099, 32, 1086, 1090, 1076, 1077, 1083, 1100,
     1085, 1086, 41, 46, 32, 1063, 1072, 1089, 1090, 1080, 1095, 1085, 1099, 1081, 32, 1086, 1093,
     1074, 1072, 1090, 44, 32, 1087, 1086, 1074, 1077, 1088, 1093, 1085, 1086, 1089, 1090, 1085,
     1072, 1103, 32, 1073, 1086, 1083, 1090, 1086, 1074, 1085, 1103, 44, 32, 1087, 1086, 1076, 1082,
     1091, 1087, 32, 1080, 1083, 1080, 32, 1075, 1088, 1091, 1073, 1086, 1089, 1090, 1100, 32, 1094,
     1077, 1083, 1100, 32, 1053, 1045, 32, 1076, 1086, 1089, 1090, 1080, 1075, 1072, 1102, 1090, 46,
     32, 1052, 1103, 1075, 1082, 1086, 32, 1087, 1086, 1076, 1074, 1086, 1076, 1080, 32, 1080, 1075,
     1088, 1086, 1082, 1072, 32, 1082, 32, 1085, 1077, 1088, 1072, 1089, 1082, 1088, 1099, 1090,
     1099, 1084, 32, 1090, 1077, 1084, 1072, 1084, 44, 32, 1085, 1086, 32, 1085, 1077, 32, 1088,
     1072, 1089, 1082, 1088, 1099, 1074, 1072, 1081, 32, 1101, 1090, 1086, 32, 1091, 1089, 1083,
     1086, 1074, 1080, 1077, 32, 1085, 1072, 1087, 1088, 1103, 1084, 1091, 1102, 46]"

definition vanya_failure :: runes where
  "vanya_failure = [1042, 1072, 1085, 1103, 32, 1089, 1088, 1099, 1074, 1072, 1077, 1090, 1089, 1103, 32, 1080, 32,
     1073, 1100, 1105, 1090, 32, 1080, 1075, 1088, 1086, 1082, 1072, 44, 32, 1077, 1089, 1083, 1080,
     32, 1090, 1086, 1090, 32, 1075, 1088, 1091, 1073, 44, 32, 1080, 1079, 1076, 1077, 1074, 1072,
     1077, 1090, 1089, 1103, 44, 32, 1091, 1075, 1088, 1086, 1078, 1072, 1077, 1090, 44, 32, 1091,
     1085, 1080, 1078, 1072, 1077, 1090, 32, 1077, 1075, 1086, 32, 1080, 1083, 1080, 32, 1089, 32,
     1087, 1088, 1077, 1079, 1088, 1077, 1085, 1080, 1077, 1084, 32, 1076, 1072, 1074, 1080, 1090,
     32, 1085, 1072, 32, 1073, 1086, 1083, 1100, 1085, 1086, 1077, 32, 8212, 32, 1086, 1089, 1086,
     1073, 1077, 1085, 1085, 1086, 32, 1077, 1089, 1083, 1080, 32, 1076, 1077, 1083, 1072, 1077,
     1090, 32, 1101, 1090, 1086, 32, 1085, 1077, 1089, 1082, 1086, 1083, 1100, 1082, 1086, 32, 1088,
     1072, 1079, 32, 1087, 1086, 1076, 1088, 1103, 1076, 44, 32, 1085, 1077, 32, 1089, 1095, 1080,
     1090, 1072, 1103, 1089, 1100, 32, 1089, 32, 1091, 1078, 1077, 32, 1087, 1086, 1090, 1077, 1087,
     1083, 1077, 1074, 1096, 1080, 1084, 32, 1086, 1090, 1085, 1086, 1096, 1077, 1085, 1080, 1077,
     1084, 46, 32, 1054, 1076, 1085, 1072, 32, 1085, 1077, 1083, 1086, 1074, 1082, 1072, 1103, 32,
     1092, 1088, 1072, 1079, 1072, 32, 1089, 1088, 1099, 1074, 1086, 1084, 32, 1085, 1077, 32, 1089,
     1095, 1080, 1090, 1072, 1077, 1090, 1089, 1103, 58, 32, 1089, 1085, 1072, 1095, 1072, 1083,
     1072, 32, 1086, 1085, 32, 1086, 1075, 1088, 1099, 1079, 1072, 1077, 1090, 1089, 1103, 32, 1080,
     32, 1084, 1088, 1072, 1095, 1085, 1077, 1077, 1090, 44, 32, 1080, 32, 1090, 1086, 1083, 1100,
     1082, 1086, 32, 1077, 1089, 1083, 1080, 32, 1080, 1075, 1088, 1086, 1082, 32, 1087, 1088, 1086,
     1076, 1086, 1083, 1078, 1072, 1077, 1090, 32, 1074, 32, 1090, 1086, 1084, 32, 1078, 1077, 32,
     1076, 1091, 1093, 1077, 32, 8212, 32, 1073, 1100, 1105, 1090, 46]"

definition vanya_motivation :: runes where
  "vanya_motivation = [1055, 1086, 1089, 1090, 1086, 1103, 1085, 1085, 1086, 32, 1093, 1086, 1095, 1077, 1090, 32, 1074,
     1099, 1087, 1080, 1090, 1100, 32, 1080, 32, 1085, 1072, 1081, 1090, 1080, 32, 1078, 1077, 1085,
     1097, 1080, 1085, 1091, 44, 32, 1095, 1090, 1086, 1073, 1099, 32, 1086, 1089, 1090, 1072, 1074,
     1080, 1090, 1100, 32, 1087, 1086, 1090, 1086, 1084, 1089, 1090, 1074, 1086, 46, 32, 1048, 1079,
     1085, 1072, 1095, 1072, 1083, 1100, 1085, 1086, 32, 1085, 1077, 32, 1093, 1086, 1095, 1077,
     1090, 32, 1085, 1080, 1082, 1086, 1075, 1086, 32, 1087, 1088, 1086, 1087, 1091, 1089, 1082,
     1072, 1090, 1100, 46, 32, 1042, 32, 1075, 1083, 1091, 1073, 1080, 1085, 1077, 32, 8212, 32,
     1090, 1086, 1089, 1082, 1091, 1077, 1090, 32, 1087, 1086, 32, 1089, 1084, 1099, 1089, 1083,
     1091, 44, 32, 1083, 1102, 1073, 1074, 1080, 44, 32, 1076, 1077, 1090, 1103, 1093, 32, 1080, 32,
     1087, 1086, 32, 1089, 1074, 1086, 1077, 1084, 1091, 32, 1083, 1091, 1095, 1096, 1077, 1084,
     1091, 32, 1076, 1088, 1091, 1075, 1091, 32, 1058, 1091, 1085, 1075, 32, 1058, 1091, 1085, 1075,
     32, 1057, 1072, 1093, 1091, 1088, 1091, 46]"

definition vanya_persona :: runes where
  "vanya_persona = [1057, 1090, 1088, 1072, 1085, 1085, 1099, 1081, 32, 1089, 1086, 1089, 1077, 1076, 32, 1091, 32,
     1087, 1086, 1076, 1098, 1077, 1079, 1076, 1072, 44, 32, 1085, 1072, 32, 1075, 1088, 1072, 1085,
     1080, 32, 1096, 1080, 1079, 1086, 1092, 1088, 1077, 1085, 1080, 1080, 46, 32, 1047, 1072, 32,
     1084, 1072, 1089, 1082, 1086, 1081, 32, 1087, 1086, 1074, 1077, 1088, 1093, 1085, 1086, 1089,
     1090, 1085, 1086, 1075, 1086, 32, 1074, 1099, 1087, 1080, 1074, 1086, 1093, 1080, 45, 1072,
     1083, 1082, 1072, 1096, 1072, 32, 1087, 1088, 1103, 1095, 1077, 1090, 1089, 1103, 32, 1075,
     1083, 1091, 1073, 1086, 1082, 1072, 1103, 44, 32, 1088, 1072, 1085, 1080, 1084, 1072, 1103, 32,
     1083, 1080, 1095, 1085, 1086, 1089, 1090, 1100, 58, 32, 1083, 1102, 1073, 1080, 1090, 32, 1076,
     1077, 1090, 1077, 1081, 44, 32, 1080, 1089, 1087, 1086, 1074, 1077, 1076, 1091, 1077, 1090, 32,
     1075, 1091, 1084, 1072, 1085, 1080, 1089, 1090, 1080, 1095, 1077, 1089, 1082, 1080, 1077, 32,
     1094, 1077, 1085, 1085, 1086, 1089, 1090, 1080, 46, 32, 1045, 1075, 1086, 32, 1089, 1072, 1084,
     1086, 1077, 32, 1076, 1086, 1088, 1086, 1075, 1086, 1077, 32, 8212, 32, 1082, 1088, 1077, 1087,
     1082, 1072, 1103, 44, 32, 1087, 1086, 1095, 1090, 1080, 32, 1073, 1088, 1072, 1090, 1089, 1082,
     1072, 1103, 32, 1076, 1088, 1091, 1078, 1073, 1072, 32, 1089, 32, 1058, 1091, 1085, 1075, 32,
     1058, 1091, 1085, 1075, 32, 1057, 1072, 1093, 1091, 1088, 1086, 1084, 59, 32, 1086, 32, 1085,
     1077, 1081, 32, 1086, 1085, 32, 1075, 1086, 1074, 1086, 1088, 1080, 1090, 32, 1089, 32, 1090,
     1077, 1087, 1083, 1086, 1090, 1086, 1081, 44, 32, 1090, 1086, 1083, 1100, 1082, 1086, 32, 1077,
     1089, 1083, 1080, 32, 1089, 1086, 1073, 1077, 1089, 1077, 1076, 1085, 1080, 1082, 32, 1077,
     1075, 1086, 32, 1088, 1072, 1089, 1087, 1086, 1083, 1086, 1078, 1080, 1083, 46]"

definition vanya_talk :: runes where
  "vanya_talk = [1043, 1086, 1074, 1086, 1088, 1080, 1090, 32, 1058, 1054, 1051, 1068, 1050, 1054, 32, 1088, 1101,
     1087, 1086, 1084, 58, 32, 1086, 1090, 32, 50, 32, 1076, 1086, 32, 56, 32, 1082, 1086, 1088,
     1086, 1090, 1082, 1080, 1093, 32, 1088, 1080, 1092, 1084, 1086, 1074, 1072, 1085, 1085, 1099,
     1093, 32, 1089, 1090, 1088, 1086, 1082, 44, 32, 1088, 1074, 1072, 1085, 1099, 1081, 32, 1091,
     1083, 1080, 1095, 1085, 1099, 1081, 32, 1092, 1083, 1086, 1091, 44, 32, 1089, 1090, 1088, 1086,
     1082, 1080, 32, 1088, 1072, 1079, 1076, 1077, 1083, 1103, 1081, 32, 1087, 1077, 1088, 1077,
     1074, 1086, 1076, 1086, 1084, 32, 1089, 1090, 1088, 1086, 1082, 1080, 46, 32, 1056, 1080, 1092,
     1084, 1072, 32, 1086, 1073, 1103, 1079, 1072, 1090, 1077, 1083, 1100, 1085, 1072, 44, 32, 1085,
     1086, 32, 1089, 1084, 1099, 1089, 1083, 32, 1074, 1072, 1078, 1085, 1077, 1077, 32, 1088, 1080,
     1092, 1084, 1099, 32, 8212, 32, 1085, 1080, 1082, 1086, 1075, 1076, 1072, 32, 1085, 1077, 32,
     1078, 1077, 1088, 1090, 1074, 1091, 1081, 32, 1089, 1086, 1076, 1077, 1088, 1078, 1072, 1085,
     1080, 1077, 1084, 32, 1088, 1072, 1076, 1080, 32, 1089, 1086, 1079, 1074, 1091, 1095, 1080,
     1103, 32, 1080, 32, 1085, 1077, 32, 1088, 1072, 1089, 1090, 1077, 1082, 1072, 1081, 1089, 1103,
     32, 1085, 1072, 32, 1076, 1083, 1080, 1085, 1085, 1099, 1077, 32, 1082, 1091, 1087, 1083, 1077,
     1090, 1099, 46, 32, 1042, 1085, 1091, 1090, 1088, 1080, 32, 1088, 1101, 1087, 1072, 32, 1086,
     1085, 32, 1074, 1089, 1105, 32, 1090, 1086, 1090, 32, 1078, 1077, 58, 32, 1089, 1073, 1080,
     1074, 1095, 1080, 1074, 1086, 32, 1089, 1082, 1072, 1095, 1077, 1090, 32, 1084, 1077, 1078,
     1076, 1091, 32, 1073, 1088, 1077, 1076, 1086, 1084, 32, 1080, 32, 1074, 1085, 1077, 1079, 1072,
     1087, 1085, 1086, 32, 1075, 1083, 1091, 1073, 1086, 1082, 1080, 1084, 1080, 32, 1084, 1099,
     1089, 1083, 1103, 1084, 1080, 59, 32, 1089, 1087, 1077, 1088, 1074, 1072, 32, 1072, 1075, 1088,
     1077, 1089, 1089, 1080, 1074, 1085, 1086, 32, 1080, 32, 1087, 1086, 1076, 1086, 1079, 1088,
     1080, 1090, 1077, 1083, 1100, 1085, 1086, 44, 32, 1090, 1077, 1087, 1083, 1077, 1077, 1090, 44,
     32, 1082, 1086, 1075, 1076, 1072, 32, 1074, 32, 1085, 1105, 1084, 32, 1074, 1080, 1076, 1103,
     1090, 32, 1095, 1077, 1083, 1086, 1074, 1077, 1082, 1072, 44, 32, 1072, 32, 1085, 1077, 32,
     1080, 1076, 1080, 1086, 1090, 1072, 59, 32, 1085, 1072, 32, 1075, 1088, 1091, 1073, 1086, 1089,
     1090, 1100, 32, 1080, 32, 1089, 1085, 1080, 1089, 1093, 1086, 1076, 1080, 1090, 1077, 1083,
     1100, 1085, 1086, 1089, 1090, 1100, 32, 1079, 1072, 1074, 1086, 1076, 1080, 1090, 1089, 1103,
     32, 1086, 1073, 1088, 1072, 1090, 1085, 1086, 46]"

definition dyadyaVanya :: character where
  "dyadyaVanya = \<lparr>ch_key = ''dyadya_vanya'', ch_name = vanya_name, ch_goal = vanya_goal,
     ch_greeting = vanya_greeting, ch_openings = vanya_openings, ch_arts = vanya_arts,
     ch_objective = vanya_objective, ch_failure = vanya_failure,
     ch_game_over_art = ascii ''vanya_game_over_hits_us'',
     ch_themes = [theme_woman_children, theme_sahur, theme_alcohol],
     ch_motivation = vanya_motivation, ch_persona = vanya_persona, ch_talk_style = vanya_talk\<rparr>"

definition smalltalkKhimki :: game where
  "smalltalkKhimki = \<lparr>gm_key = GameSmalltalkKhimki,
     gm_title = [1057, 1084, 1086, 1083, 1090, 1086, 1083, 1082, 32, 1074, 32, 1061, 1080, 1084, 1082, 1072, 1093],
     gm_intro = [1058, 1099, 32, 1087, 1086, 1095, 1090, 1080, 32, 1076, 1086, 1084, 1072, 44, 32, 1085, 1086, 32,
     1091, 32, 1087, 1086, 1076, 1098, 1077, 1079, 1076, 1072, 32, 8212, 32, 1089, 1090, 1088, 1072,
     1085, 1085, 1099, 1081, 32, 1089, 1086, 1089, 1077, 1076, 44, 32, 1076, 1103, 1076, 1103, 32,
     1042, 1072, 1085, 1103, 46, 32, 1057, 1085, 1072, 1095, 1072, 1083, 1072, 32, 1086, 1085, 32,
     1074, 1080, 1076, 1080, 1090, 1089, 1103, 32, 1087, 1086, 1074, 1077, 1088, 1093, 1085, 1086,
     1089, 1090, 1085, 1099, 1084, 32, 1072, 1083, 1082, 1072, 1096, 1086, 1084, 44, 32, 1082, 1086,
     1090, 1086, 1088, 1099, 1081, 32, 1085, 1080, 1082, 1086, 1075, 1086, 32, 1085, 1077, 32, 1087,
     1091, 1089, 1082, 1072, 1077, 1090, 32, 1080, 32, 1087, 1086, 1095, 1077, 1084, 1091, 45, 1090,
     1086, 32, 1095, 1080, 1090, 1072, 1077, 1090, 32, 1088, 1101, 1087, 46, 32, 1056, 1072, 1079,
     1075, 1086, 1074, 1086, 1088, 1080, 32, 1077, 1075, 1086, 44, 32, 1079, 1072, 1075, 1083, 1103,
     1085, 1080, 32, 1075, 1083, 1091, 1073, 1078, 1077, 32, 8212, 32, 1080, 44, 32, 1084, 1086,
     1078, 1077, 1090, 44, 32, 1086, 1085, 32, 1086, 1090, 1082, 1088, 1086, 1077, 1090, 1089, 1103,
     32, 1080, 32, 1087, 1088, 1086, 1087, 1091, 1089, 1090, 1080, 1090, 32, 1090, 1077, 1073, 1103,
     32, 1076, 1086, 1084, 1086, 1081, 32, 40, 1072, 32, 1082, 1086, 1090, 32, 1091, 1078, 1077, 32,
     1085, 1072, 1073, 1083, 1077, 1074, 1072, 1083, 32, 1085, 1072, 32, 1096, 1090, 1086, 1088,
     1099, 41, 46],
     gm_default = ch_key dyadyaVanya, gm_max_anger = MaxAnger, gm_anger_lose_at = AngerLoseAt,
     gm_start_anger = StartAnger, gm_characters = [dyadyaVanya]\<rparr>"

section \<open>Looking content up\<close>

definition ContentFor :: "string \<Rightarrow> game option" where
  "ContentFor key = (if key = GameSmalltalkKhimki then Some smalltalkKhimki else None)"

definition find_character :: "game \<Rightarrow> string \<Rightarrow> character option" where
  "find_character g key = find (\<lambda>c. ch_key c = key) (gm_characters g)"

definition KnownGame :: "string \<Rightarrow> bool" where
  "KnownGame key \<longleftrightarrow> key = GameSmalltalkKhimki"

section \<open>What the rules rely on\<close>

text \<open>
  Matching folds the case of the text but not of the keyword, the themes a client sends back are
  compared trimmed and folded, and the art of a lost run is looked up by its key.
\<close>

definition theme_ok :: "theme \<Rightarrow> bool" where
  "theme_ok t \<longleftrightarrow> th_key t \<noteq> [] \<and> to_lower (th_key t) = th_key t \<and> trim_space (th_key t) = th_key t \<and>
     th_keywords t \<noteq> [] \<and> list_all (\<lambda>k. k \<noteq> [] \<and> to_lower k = k) (th_keywords t)"

definition character_ok :: "character \<Rightarrow> bool" where
  "character_ok c \<longleftrightarrow> list_all theme_ok (ch_themes c) \<and> distinct (theme_keys c) \<and>
     distinct (art_keys c) \<and> list_all (\<lambda>a. a \<noteq> [] \<and> trim_space a = a) (art_keys c) \<and>
     ch_game_over_art c \<in> set (art_keys c) \<and> trim_space (ch_greeting c) \<noteq> []"

lemmas content_simps = ascii_def to_lower_def rune_lower_def trim_space_def is_space_def theme_ok_def

lemma themes_ok: "theme_ok theme_woman_children" "theme_ok theme_sahur" "theme_ok theme_alcohol"
  by (simp_all add: content_simps theme_woman_children_def theme_sahur_def theme_alcohol_def)

lemma vanya_theme_keys:
  "theme_keys dyadyaVanya = map ascii [''woman_children'', ''sahur'', ''alcohol'']"
  by (simp add: theme_keys_def dyadyaVanya_def theme_woman_children_def theme_sahur_def theme_alcohol_def)

lemma vanya_art_keys:
  "art_keys dyadyaVanya = map ascii [''entrance_far_angry'', ''vanya_angry'', ''vanya_suspicious'',
     ''vanya_neutral'', ''vanya_warming'', ''vanya_deep'', ''vanya_sahur'', ''memory_children'',
     ''hallway_pass'', ''vanya_game_over_hits_us'']"
  by (simp add: art_keys_def dyadyaVanya_def vanya_arts_def)

lemma inj_ascii: "ascii s = ascii t \<longleftrightarrow> s = t"
  by (auto simp: ascii_def intro: injD [OF inj_mapI [OF inj_of_char]])

lemma vanya_ok: "character_ok dyadyaVanya"
proof -
  have "list_all theme_ok (ch_themes dyadyaVanya)" by (simp add: dyadyaVanya_def themes_ok)
  moreover have "distinct (theme_keys dyadyaVanya)" by (simp add: vanya_theme_keys inj_ascii)
  moreover have "distinct (art_keys dyadyaVanya)" by (simp add: vanya_art_keys inj_ascii)
  moreover have "list_all (\<lambda>a. a \<noteq> [] \<and> trim_space a = a) (art_keys dyadyaVanya)"
    by (simp add: vanya_art_keys content_simps)
  moreover have "ch_game_over_art dyadyaVanya \<in> set (art_keys dyadyaVanya)"
    by (simp add: vanya_art_keys inj_ascii) (simp add: dyadyaVanya_def)
  moreover have "trim_space (ch_greeting dyadyaVanya) \<noteq> []"
    by (simp add: dyadyaVanya_def vanya_greeting_def trim_space_def is_space_def)
  ultimately show ?thesis by (simp add: character_ok_def)
qed

lemma vanya_openings_differ: "length vanya_openings = 4" "distinct (map to_lower vanya_openings)"
  by (simp_all add: vanya_openings_def to_lower_def rune_lower_def)

text \<open>
  the script meets what the rules rely on: every theme has a lower-case, trimmed key of its own and
  only lower-case keywords, none of them empty; the arts are distinct and the art of a lost run is
  one of them; the default character exists; a run starts below the tension that ends it, which the
  scale can reach; and the four opening options differ even when case is ignored.\<close>

theorem script_is_consistent:
  "list_all character_ok (gm_characters smalltalkKhimki) \<and>
   find_character smalltalkKhimki (gm_default smalltalkKhimki) = Some dyadyaVanya \<and>
   0 \<le> gm_start_anger smalltalkKhimki \<and> gm_start_anger smalltalkKhimki < gm_anger_lose_at smalltalkKhimki \<and>
   gm_anger_lose_at smalltalkKhimki \<le> gm_max_anger smalltalkKhimki \<and>
   length (ch_openings dyadyaVanya) = 4 \<and> distinct (map to_lower (ch_openings dyadyaVanya))"
proof -
  have "ch_openings dyadyaVanya = vanya_openings" by (simp add: dyadyaVanya_def)
  then show ?thesis
    by (simp add: smalltalkKhimki_def vanya_ok find_character_def vanya_openings_differ
        StartAnger_def AngerLoseAt_def MaxAnger_def)
qed

end
