(* ===== verification/KhimkiRules.thy ===== *)
theory KhimkiRules
  imports KhimkiContent
begin

text \<open>
  The rules of a turn of ``Smalltalk in Khimki'' that do not involve the model: the tension scale,
  which themes count as opened, what the next options are steered at, and what of the model's
  answer is clamped (\<^verbatim>\<open>internal/gamekhimki/gamekhimki.go\<close>, and the theme functions of
  \<^verbatim>\<open>llm.go\<close>). A Go \<^verbatim>\<open>nil\<close> slice is the empty list; a Go map of counters is a
  function that is 0 where the map has no entry.
\<close>

section \<open>Exchanges and constants\<close>

record exchange =
  ex_choice :: runes
  ex_reply :: runes
  ex_options :: "runes list"
  ex_art :: runes
  ex_anger :: "int option"
  ex_themes :: "runes list"

definition themeConfirmTurns :: nat where "themeConfirmTurns = 2"
definition themeAutoDoneTurns :: nat where "themeAutoDoneTurns = 4"
definition optionCount :: nat where "optionCount = 4"
definition angerDriftOnMissing :: int where "angerDriftOnMissing = 5"

section \<open>The tension scale\<close>

definition ClampAnger :: "int \<Rightarrow> int" where
  "ClampAnger v = (if v < 0 then 0 else if MaxAnger < v then MaxAnger else v)"

section \<open>Themes\<close>

definition theme_matches :: "theme \<Rightarrow> runes \<Rightarrow> bool" where
  "theme_matches t text_in = (let low = to_lower text_in in list_ex (contains low) (th_keywords t))"

definition clampThemes :: "character \<Rightarrow> runes list \<Rightarrow> runes list" where
  "clampThemes ch got =
     (if got = [] then []
      else let want = map (\<lambda>g. trim_space (to_lower g)) got in
        filter (\<lambda>key. to_lower key \<in> set want) (theme_keys ch))"

definition mergeThemes :: "character \<Rightarrow> runes list \<Rightarrow> runes list \<Rightarrow> runes list" where
  "mergeThemes ch was now = clampThemes ch (was @ now)"

definition openThemes :: "character \<Rightarrow> runes list \<Rightarrow> theme list" where
  "openThemes ch done_keys = filter (\<lambda>t. th_key t \<notin> set done_keys) (ch_themes ch)"

type_synonym engagement = "runes \<Rightarrow> nat"

definition engage :: "exchange list \<Rightarrow> runes \<Rightarrow> theme \<Rightarrow> engagement \<Rightarrow> engagement" where
  "engage transcript choice t eng =
     eng(th_key t := eng (th_key t) +
       length (filter (\<lambda>ex. theme_matches t (ex_choice ex) \<or> theme_matches t (ex_reply ex)) transcript) +
       (if theme_matches t choice then 1 else 0))"

definition themeEngagement :: "character \<Rightarrow> exchange list \<Rightarrow> runes \<Rightarrow> engagement" where
  "themeEngagement ch transcript choice = fold (engage transcript choice) (ch_themes ch) (\<lambda>_. 0)"

definition autoMarkThemes :: "character \<Rightarrow> runes list \<Rightarrow> engagement \<Rightarrow> runes list" where
  "autoMarkThemes ch done_keys eng =
     (let add = map th_key (filter (\<lambda>t. themeAutoDoneTurns \<le> eng (th_key t)) (ch_themes ch)) in
      if add = [] then done_keys else mergeThemes ch done_keys add)"

definition confirmThemes :: "character \<Rightarrow> runes list \<Rightarrow> runes list \<Rightarrow> engagement \<Rightarrow> runes list" where
  "confirmThemes ch already claimed eng =
     mergeThemes ch already
       (filter (\<lambda>c. c \<in> set already \<or> themeConfirmTurns \<le> eng c) (clampThemes ch claimed))"

definition steerTheme :: "character \<Rightarrow> runes list \<Rightarrow> engagement \<Rightarrow> theme option" where
  "steerTheme ch done_keys eng =
     (case openThemes ch done_keys of
        [] \<Rightarrow> None
      | t # ts \<Rightarrow>
          (let best = fold (\<lambda>u best. if eng (th_key u) < eng (th_key best) then u else best) ts t in
           if themeConfirmTurns \<le> eng (th_key best) then None else Some best))"

definition currentTopic :: "character \<Rightarrow> exchange list \<Rightarrow> runes \<Rightarrow> theme option" where
  "currentTopic ch transcript choice =
     (let recent = (if transcript = [] then choice
                    else choice @ ascii '' '' @ ex_reply (last transcript) @ ascii '' '' @ ex_choice (last transcript)) in
      find (\<lambda>t. theme_matches t recent) (ch_themes ch))"

section \<open>Clamping the answer\<close>

definition normalizeArt :: "runes \<Rightarrow> runes list \<Rightarrow> runes" where
  "normalizeArt got allowed =
     (let g = trim_space got in
      if g \<in> set allowed then g else case allowed of [] \<Rightarrow> [] | a # _ \<Rightarrow> a)"

definition optionsWhilePlaying :: "bool \<Rightarrow> runes list \<Rightarrow> runes list" where
  "optionsWhilePlaying over opts = (if over then [] else take optionCount opts)"

section \<open>Lemmas\<close>

lemma ClampAnger_range: "0 \<le> ClampAnger v \<and> ClampAnger v \<le> MaxAnger"
  by (simp add: ClampAnger_def MaxAnger_def)

lemma clamp_in_scale: "0 \<le> v \<Longrightarrow> v \<le> MaxAnger \<Longrightarrow> ClampAnger v = v"
  by (simp add: ClampAnger_def)

text \<open>With trimmed, lower-case and distinct keys, the clamped list is the character's own list filtered.\<close>

definition named :: "runes list \<Rightarrow> runes \<Rightarrow> bool" where
  "named got key \<longleftrightarrow> (\<exists>g \<in> set got. trim_space (to_lower g) = key)"

lemma key_norm: "character_ok ch \<Longrightarrow> k \<in> set (theme_keys ch) \<Longrightarrow> to_lower k = k \<and> trim_space k = k"
  by (auto simp: character_ok_def theme_ok_def theme_keys_def list_all_iff)

lemma clampThemes_eq:
  assumes "character_ok ch"
  shows "clampThemes ch got = filter (named got) (theme_keys ch)"
proof -
  have "filter (\<lambda>key. to_lower key \<in> set (map (\<lambda>g. trim_space (to_lower g)) got)) (theme_keys ch) =
      filter (named got) (theme_keys ch)"
    by (rule filter_cong) (auto simp: named_def key_norm [OF assms])
  then show ?thesis by (auto simp: clampThemes_def Let_def named_def)
qed

lemma named_own:
  assumes "character_ok ch" and "set ks \<subseteq> set (theme_keys ch)" and "key \<in> set (theme_keys ch)"
  shows "named ks key \<longleftrightarrow> key \<in> set ks"
  using assms key_norm [OF assms(1)] unfolding named_def by (metis subsetD)

lemma named_append [simp]: "named (xs @ ys) key \<longleftrightarrow> named xs key \<or> named ys key"
  by (auto simp: named_def)

lemma clampThemes_sub: "set (clampThemes ch got) \<subseteq> set (theme_keys ch)"
  by (auto simp: clampThemes_def Let_def)

lemma mergeThemes_eq:
  assumes "character_ok ch" and "set xs \<subseteq> set (theme_keys ch)" and "set ys \<subseteq> set (theme_keys ch)"
  shows "mergeThemes ch xs ys = filter (\<lambda>k. k \<in> set xs \<or> k \<in> set ys) (theme_keys ch)"
  unfolding mergeThemes_def clampThemes_eq [OF assms(1)]
  by (rule filter_cong) (simp_all add: named_own [OF assms(1)] assms(2,3))

lemma autoMarkThemes_eq:
  assumes "character_ok ch" and "d = filter P (theme_keys ch)"
  shows "autoMarkThemes ch d eng = filter (\<lambda>k. P k \<or> themeAutoDoneTurns \<le> eng k) (theme_keys ch)"
proof -
  define add where "add = map th_key (filter (\<lambda>t. themeAutoDoneTurns \<le> eng (th_key t)) (ch_themes ch))"
  have add: "add = filter (\<lambda>k. themeAutoDoneTurns \<le> eng k) (theme_keys ch)"
    by (simp add: add_def theme_keys_def filter_map comp_def)
  show ?thesis
  proof (cases "add = []")
    case True
    then have "\<forall>k \<in> set (theme_keys ch). \<not> themeAutoDoneTurns \<le> eng k" by (simp add: add filter_empty_conv)
    then have "filter P (theme_keys ch) = filter (\<lambda>k. P k \<or> themeAutoDoneTurns \<le> eng k) (theme_keys ch)"
      by (intro filter_cong) auto
    then show ?thesis using True assms(2) by (simp add: autoMarkThemes_def add_def [symmetric])
  next
    case False
    have "mergeThemes ch d add = filter (\<lambda>k. k \<in> set d \<or> k \<in> set add) (theme_keys ch)"
      by (rule mergeThemes_eq [OF assms(1)]) (auto simp: assms(2) add)
    also have "\<dots> = filter (\<lambda>k. P k \<or> themeAutoDoneTurns \<le> eng k) (theme_keys ch)"
      by (rule filter_cong) (auto simp: assms(2) add)
    finally show ?thesis using False by (simp add: autoMarkThemes_def add_def [symmetric])
  qed
qed

lemma confirmThemes_eq:
  assumes "character_ok ch" and "d = filter P (theme_keys ch)"
  shows "confirmThemes ch d claimed eng =
    filter (\<lambda>k. P k \<or> named claimed k \<and> themeConfirmTurns \<le> eng k) (theme_keys ch)"
proof -
  have "confirmThemes ch d claimed eng = filter (\<lambda>k. k \<in> set d \<or>
      k \<in> set (filter (\<lambda>c. c \<in> set d \<or> themeConfirmTurns \<le> eng c) (clampThemes ch claimed))) (theme_keys ch)"
    unfolding confirmThemes_def
    by (rule mergeThemes_eq [OF assms(1)]) (auto simp: assms(2) clampThemes_eq [OF assms(1)])
  also have "\<dots> = filter (\<lambda>k. P k \<or> named claimed k \<and> themeConfirmTurns \<le> eng k) (theme_keys ch)"
    by (rule filter_cong) (auto simp: assms(2) clampThemes_eq [OF assms(1)])
  finally show ?thesis .
qed

section \<open>Engagement\<close>

lemma engage_other: "k \<noteq> th_key t \<Longrightarrow> engage tr choice t eng k = eng k"
  by (simp add: engage_def)

lemma fold_engage_other: "k \<notin> th_key ` set ts \<Longrightarrow> fold (engage tr choice) ts eng k = eng k"
  by (induction ts arbitrary: eng) (simp_all add: engage_other)

definition mentions :: "theme \<Rightarrow> exchange list \<Rightarrow> runes \<Rightarrow> nat" where
  "mentions t tr choice =
     length (filter (\<lambda>ex. theme_matches t (ex_choice ex) \<or> theme_matches t (ex_reply ex)) tr) +
     (if theme_matches t choice then 1 else 0)"

lemma engage_self: "engage tr choice t eng (th_key t) = eng (th_key t) + mentions t tr choice"
  by (simp add: engage_def mentions_def)

lemma fold_engage_own:
  "distinct (map th_key ts) \<Longrightarrow> t \<in> set ts \<Longrightarrow>
     fold (engage tr choice) ts eng (th_key t) = eng (th_key t) + mentions t tr choice"
proof (induction ts arbitrary: eng)
  case (Cons u us)
  show ?case
  proof (cases "t = u")
    case True
    with Cons.prems have "th_key t \<notin> th_key ` set us" by auto
    then show ?thesis by (simp add: True fold_engage_other engage_self)
  next
    case False
    with Cons.prems have m: "t \<in> set us" by simp
    then have "th_key t \<in> th_key ` set us" by simp
    with Cons.prems have k: "th_key t \<noteq> th_key u" by auto
    have "fold (engage tr choice) us (engage tr choice u eng) (th_key t) =
        engage tr choice u eng (th_key t) + mentions t tr choice"
      by (rule Cons.IH) (use Cons.prems m in auto)
    with k show ?thesis by (simp add: engage_other)
  qed
qed simp

lemma themeEngagement_own:
  "character_ok ch \<Longrightarrow> t \<in> set (ch_themes ch) \<Longrightarrow> themeEngagement ch tr choice (th_key t) = mentions t tr choice"
  by (simp add: themeEngagement_def fold_engage_own character_ok_def theme_keys_def)

lemma fold_least:
  "fold (\<lambda>u best. if f u < (f best :: nat) then u else best) ts t \<in> set (t # ts) \<and>
   (\<forall>u \<in> set (t # ts). f (fold (\<lambda>u best. if f u < f best then u else best) ts t) \<le> f u)"
proof (induction ts arbitrary: t)
  case (Cons v vs)
  show ?case using Cons [of "if f v < f t then v else t"] by (auto split: if_splits)
qed simp

section \<open>Properties\<close>

text \<open>
  which themes count as opened after a turn whose answer claims some is exact: in the character's own
  order and each once, those the client brought, those at least four exchanges touched, whatever
  the answer says, and those the answer claims that at least two exchanges touched. Junk keys
  disappear, nothing once opened closes again, and an exchange is counted for a theme when the
  player's line or the reply contains one of its keywords in any case.\<close>

theorem theme_progress_is_exact:
  assumes "character_ok ch" and "eng = themeEngagement ch transcript choice"
  shows "confirmThemes ch (autoMarkThemes ch (clampThemes ch got) eng) claimed eng =
      filter (\<lambda>k. named got k \<or> 4 \<le> eng k \<or> named claimed k \<and> 2 \<le> eng k) (theme_keys ch) \<and>
    (\<forall>t \<in> set (ch_themes ch). eng (th_key t) = mentions t transcript choice)"
proof -
  have "autoMarkThemes ch (clampThemes ch got) eng =
      filter (\<lambda>k. named got k \<or> themeAutoDoneTurns \<le> eng k) (theme_keys ch)"
    by (rule autoMarkThemes_eq [OF assms(1) clampThemes_eq [OF assms(1)]])
  from confirmThemes_eq [OF assms(1) this, of claimed eng] show ?thesis
    using assms by (simp add: themeAutoDoneTurns_def themeConfirmTurns_def themeEngagement_own disj_assoc)
qed

text \<open>A player who says ``baba'', and then asks about the friend: the claim for the friend has one exchange
  behind it, the claim for the woman two.\<close>

abbreviation baba :: runes where "baba \<equiv> [1041, 1072, 1073, 1072]"
abbreviation drug :: runes where "drug \<equiv> [1044, 1088, 1091, 1075]"

definition baba_talk :: "exchange list" where
  "baba_talk = replicate 2 \<lparr>ex_choice = baba, ex_reply = [], ex_options = [], ex_art = [], ex_anger = None, ex_themes = []\<rparr>"

lemma baba_mentions:
  "mentions theme_woman_children baba_talk drug = 2" "mentions theme_sahur baba_talk drug = 1"
  "mentions theme_alcohol baba_talk drug = 0"
  by (simp_all add: mentions_def baba_talk_def theme_matches_def Let_def to_lower_def rune_lower_def
      theme_woman_children_def theme_sahur_def theme_alcohol_def numeral_2_eq_2)

theorem theme_progress_is_exact_witness:
  "confirmThemes dyadyaVanya (autoMarkThemes dyadyaVanya (clampThemes dyadyaVanya [ascii '' Alcohol '', ascii ''junk''])
       (themeEngagement dyadyaVanya baba_talk drug))
     (map ascii [''woman_children'', ''sahur'']) (themeEngagement dyadyaVanya baba_talk drug) =
   map ascii [''woman_children'', ''alcohol'']"
proof -
  have keys: "ch_themes dyadyaVanya = [theme_woman_children, theme_sahur, theme_alcohol]"
    "th_key theme_woman_children = ascii ''woman_children''" "th_key theme_sahur = ascii ''sahur''"
    "th_key theme_alcohol = ascii ''alcohol''"
    by (simp_all add: dyadyaVanya_def theme_woman_children_def theme_sahur_def theme_alcohol_def)
  note ex = theme_progress_is_exact [OF vanya_ok refl, where transcript = baba_talk
      and choice = drug and got = "[ascii '' Alcohol '', ascii ''junk'']"
      and claimed = "map ascii [''woman_children'', ''sahur'']"]
  have "named [ascii '' Alcohol '', ascii ''junk''] (ascii ''alcohol'')"
    "\<not> named [ascii '' Alcohol '', ascii ''junk''] (ascii ''sahur'')"
    "\<not> named [ascii '' Alcohol '', ascii ''junk''] (ascii ''woman_children'')"
    "named (map ascii [''woman_children'', ''sahur'']) (ascii ''woman_children'')"
    "named (map ascii [''woman_children'', ''sahur'']) (ascii ''sahur'')"
    by (simp_all add: named_def content_simps)
  then show ?thesis using ex by (simp add: keys vanya_theme_keys baba_mentions)
qed

text \<open>the first option is steered at a still closed theme that no other closed theme undercuts, and only
  while fewer than two exchanges touched it; when every closed theme is already being talked about,
  or none is left, it is steered at nothing, so no subject is pushed once it is in play.\<close>

theorem steering_aims_at_the_least_discussed:
  "case steerTheme ch done_keys eng of
     Some t \<Rightarrow> t \<in> set (openThemes ch done_keys) \<and> eng (th_key t) < 2 \<and>
       (\<forall>u \<in> set (openThemes ch done_keys). eng (th_key t) \<le> eng (th_key u))
   | None \<Rightarrow> (\<forall>u \<in> set (openThemes ch done_keys). 2 \<le> eng (th_key u))"
proof (cases "openThemes ch done_keys")
  case Nil
  then show ?thesis by (simp add: steerTheme_def)
next
  case (Cons t ts)
  define best where "best = fold (\<lambda>u best. if eng (th_key u) < eng (th_key best) then u else best) ts t"
  have b: "best \<in> set (t # ts)" "\<forall>u \<in> set (t # ts). eng (th_key best) \<le> eng (th_key u)"
    using fold_least [of "\<lambda>u. eng (th_key u)" ts t] unfolding best_def by blast+
  have s: "steerTheme ch done_keys eng = (if 2 \<le> eng (th_key best) then None else Some best)"
    by (simp add: steerTheme_def Cons best_def themeConfirmTurns_def Let_def)
  show ?thesis
  proof (cases "2 \<le> eng (th_key best)")
    case True
    then have "steerTheme ch done_keys eng = None" by (simp add: s)
    then show ?thesis using True b(2) unfolding Cons by (auto intro: order_trans)
  next
    case False
    then have "steerTheme ch done_keys eng = Some best" by (simp add: s)
    then show ?thesis using False b unfolding Cons by simp
  qed
qed

theorem steering_aims_at_the_least_discussed_witness:
  "steerTheme dyadyaVanya [ascii ''sahur''] (themeEngagement dyadyaVanya baba_talk drug) = Some theme_alcohol"
proof -
  have keys: "ch_themes dyadyaVanya = [theme_woman_children, theme_sahur, theme_alcohol]"
    "th_key theme_woman_children = ascii ''woman_children''" "th_key theme_sahur = ascii ''sahur''"
    "th_key theme_alcohol = ascii ''alcohol''"
    by (simp_all add: dyadyaVanya_def theme_woman_children_def theme_sahur_def theme_alcohol_def)
  let ?e = "themeEngagement dyadyaVanya baba_talk drug"
  have e: "?e (ascii ''woman_children'') = 2" "?e (ascii ''alcohol'') = 0"
    using themeEngagement_own [OF vanya_ok, of theme_woman_children] themeEngagement_own [OF vanya_ok, of theme_alcohol]
    by (simp_all add: keys baba_mentions)
  have open_themes: "openThemes dyadyaVanya [ascii ''sahur''] = [theme_woman_children, theme_alcohol]"
    by (simp add: openThemes_def keys inj_ascii)
  show ?thesis
    using steering_aims_at_the_least_discussed [of dyadyaVanya "[ascii ''sahur'']" ?e]
    by (auto simp: open_themes keys e split: option.splits)
qed

end
