(* ===== verification/KhimkiText.thy ===== *)
theory KhimkiText
  imports KhimkiRules
begin

text \<open>
  The text work around the model's answer (\<^verbatim>\<open>internal/gamekhimki/llm.go\<close>): the repair of
  almost-JSON, the lenient number and boolean fields, the line breaks of a rapped reply, and how
  much of the conversation is sent again. Bytes are not told apart from runes where the code looks
  only for ASCII characters, whose bytes occur in no other character's UTF-8 form.
\<close>

section \<open>Repairing raw control characters\<close>

text \<open>
  \<^verbatim>\<open>escapeControlCharsInStrings\<close>: the loop with its two flags, whether it is inside a
  string literal and whether the previous character began an escape. 92 is the backslash, 34 the
  quote, 10, 13 and 9 are newline, carriage return and tab.
\<close>

fun escape_from :: "bool \<Rightarrow> bool \<Rightarrow> runes \<Rightarrow> runes" where
  "escape_from inString escaped [] = []"
| "escape_from inString escaped (c # s) =
     (if escaped then c # escape_from inString False s
      else if inString \<and> c = 92 then c # escape_from inString True s
      else if c = 34 then c # escape_from (\<not> inString) False s
      else if inString \<and> c = 10 then 92 # 110 # escape_from inString False s
      else if inString \<and> c = 13 then 92 # 114 # escape_from inString False s
      else if inString \<and> c = 9 then 92 # 116 # escape_from inString False s
      else c # escape_from inString False s)"

definition escapeControlCharsInStrings :: "runes \<Rightarrow> runes" where
  "escapeControlCharsInStrings s = escape_from False False s"

section \<open>Lenient fields\<close>

definition trim_quotes :: "runes \<Rightarrow> runes" where
  "trim_quotes t = rev (dropWhile (\<lambda>c. c = 34) (rev (dropWhile (\<lambda>c. c = 34) t)))"

definition digit :: "rune \<Rightarrow> bool" where
  "digit c \<longleftrightarrow> 48 \<le> c \<and> c \<le> 57"

definition digits_value :: "runes \<Rightarrow> int" where
  "digits_value ds = foldl (\<lambda>v c. v * 10 + (int c - 48)) 0 ds"

text \<open>\<^verbatim>\<open>strconv.Atoi\<close> on a 64-bit machine.\<close>

definition atoi :: "runes \<Rightarrow> int option" where
  "atoi s =
     (let neg = (s \<noteq> [] \<and> hd s = 45); ds = (if s \<noteq> [] \<and> (hd s = 45 \<or> hd s = 43) then tl s else s) in
      if ds = [] \<or> \<not> list_all digit ds then None
      else let v = (if neg then - digits_value ds else digits_value ds) in
        if - (2 ^ 63) \<le> v \<and> v < 2 ^ 63 then Some v else None)"

text \<open>
  \<^verbatim>\<open>flexInt.UnmarshalJSON\<close> on the raw text of a value and what the variable held; \<open>None\<close>
  is the error. \<open>parse_float\<close> is \<^verbatim>\<open>strconv.ParseFloat\<close> followed by the conversion to
  an integer.
\<close>

definition flexInt :: "(runes \<Rightarrow> int option) \<Rightarrow> int \<Rightarrow> runes \<Rightarrow> int option" where
  "flexInt parse_float old tok =
     (let s = trim_quotes (trim_space tok) in
      if s = [] \<or> s = ascii ''null'' then Some old
      else case atoi s of
        Some n \<Rightarrow> Some n
      | None \<Rightarrow> parse_float s)"

definition flexBool :: "runes \<Rightarrow> bool option" where
  "flexBool tok =
     (let s = to_lower (trim_quotes (trim_space tok)) in
      if s = ascii ''true'' then Some True
      else if s = ascii ''false'' \<or> s = [] \<or> s = ascii ''null'' then Some False
      else None)"

section \<open>The lines of a reply\<close>

text \<open>
  The \<^verbatim>\<open>strings.Replacer\<close> of \<^verbatim>\<open>normalizeVerse\<close>: at each position the first of the
  five patterns that matches, backslash-r-backslash-n, backslash-n, backslash-r, CR LF, CR.
\<close>

function verse_breaks :: "runes \<Rightarrow> runes" where
  "verse_breaks s =
     (if s = [] then []
      else if take 4 s = [92, 114, 92, 110] then 10 # verse_breaks (drop 4 s)
      else if take 2 s = [92, 110] then 10 # verse_breaks (drop 2 s)
      else if take 2 s = [92, 114] then 10 # verse_breaks (drop 2 s)
      else if take 2 s = [13, 10] then 10 # verse_breaks (drop 2 s)
      else if hd s = 13 then 10 # verse_breaks (tl s)
      else hd s # verse_breaks (tl s))"
  by pat_completeness auto
termination
  by (relation "measure length") auto

declare verse_breaks.simps [simp del]

text \<open>\<^verbatim>\<open>strings.ReplaceAll(s, "\n\n\n", "\n\n")\<close>.\<close>

fun replace_triple :: "runes \<Rightarrow> runes" where
  "replace_triple (a # b # c # s) =
     (if a = 10 \<and> b = 10 \<and> c = 10 then 10 # 10 # replace_triple s
      else a # replace_triple (b # c # s))"
| "replace_triple s = s"

lemma replace_triple_le: "length (replace_triple s) \<le> length s"
  by (induction s rule: replace_triple.induct) auto

lemma contains_triple:
  "contains (a # b # c # s) [10, 10, 10] \<longleftrightarrow> a = 10 \<and> b = 10 \<and> c = 10 \<or> contains (b # c # s) [10, 10, 10]"
  "\<not> contains [a, b] [10, 10, 10]" "\<not> contains [a] [10, 10, 10]" "\<not> contains [] [10, 10, 10]"
  by (auto simp: numeral_3_eq_3)

lemma replace_triple_less: "contains s [10, 10, 10] \<Longrightarrow> length (replace_triple s) < length s"
proof (induction s rule: replace_triple.induct)
  case (1 a b c s)
  show ?case using 1 replace_triple_le [of s] by (auto simp: contains_triple(1))
qed (simp_all only: contains_triple simp_thms)

text \<open>The loop that collapses blank lines; every round shortens the text.\<close>

function collapse_blank :: "runes \<Rightarrow> runes" where
  "collapse_blank s = (if contains s [10, 10, 10] then collapse_blank (replace_triple s) else s)"
  by pat_completeness auto
termination
  by (relation "measure length") (simp_all add: replace_triple_less)

declare collapse_blank.simps [simp del]

definition normalizeVerse :: "runes \<Rightarrow> runes" where
  "normalizeVerse s = trim_space (collapse_blank (verse_breaks s))"

section \<open>How much is sent again\<close>

definition clampRunes :: "runes \<Rightarrow> nat \<Rightarrow> runes" where
  "clampRunes s m = (if length s \<le> m then s else take m s @ [8230])"

definition nonEmpty :: "runes list \<Rightarrow> runes list" where
  "nonEmpty xs = map trim_space (filter (\<lambda>s. trim_space s \<noteq> []) xs)"

definition modelContextTokens :: int where "modelContextTokens = 1048576"
definition outputReserveTokens :: int where "outputReserveTokens = 2048"
definition historyTokens :: int where "historyTokens = 6000"
definition historyExchanges :: nat where "historyExchanges = 12"
definition maxRecentlyOffered :: nat where "maxRecentlyOffered = 6 * optionCount"
definition maxRecentReplies :: nat where "maxRecentReplies = 6"

definition estTokens :: "runes \<Rightarrow> int" where
  "estTokens s = int (length s) + 1"

definition exchangeTokens :: "exchange \<Rightarrow> int" where
  "exchangeTokens ex = fold (\<lambda>opt n. n + estTokens opt) (ex_options ex) (estTokens (ex_choice ex) + estTokens (ex_reply ex))"

text \<open>The loop runs from the newest exchange; \<open>n\<close> counts those already taken.\<close>

fun window_back :: "int \<Rightarrow> int \<Rightarrow> nat \<Rightarrow> exchange list \<Rightarrow> exchange list" where
  "window_back budget used n [] = []"
| "window_back budget used n (ex # older) =
     (if historyExchanges < n + 1 then []
      else if budget < used + exchangeTokens ex then []
      else ex # window_back budget (used + exchangeTokens ex) (n + 1) older)"

definition windowTranscript :: "exchange list \<Rightarrow> int \<Rightarrow> exchange list" where
  "windowTranscript transcript budget =
     (if budget \<le> 0 then [] else rev (window_back budget 0 0 (rev transcript)))"

fun recent_back :: "runes list \<Rightarrow> exchange list \<Rightarrow> runes list" where
  "recent_back out [] = out"
| "recent_back out (ex # older) =
     (if maxRecentReplies \<le> length out then out
      else let r = trim_space (ex_reply ex) in
        recent_back (if r \<noteq> [] then out @ [clampRunes r 120] else out) older)"

definition recentReplies :: "exchange list \<Rightarrow> runes list" where
  "recentReplies windowed = recent_back [] (rev windowed)"

text \<open>The closure \<^verbatim>\<open>add\<close> over a run of options; what was seen are the lower-case forms of the output.\<close>

fun offer :: "runes list \<Rightarrow> runes list \<Rightarrow> runes list" where
  "offer out [] = out"
| "offer out (opt # opts) =
     (let t = trim_space opt in
      if t = [] \<or> to_lower t \<in> to_lower ` set out then offer out opts
      else if maxRecentlyOffered \<le> length out then out
      else offer (out @ [t]) opts)"

definition recentlyOffered :: "character \<Rightarrow> exchange list \<Rightarrow> runes list" where
  "recentlyOffered ch windowed = offer [] (concat (map ex_options (rev windowed)) @ ch_openings ch)"

section \<open>The repair\<close>

text \<open>
  A newline, carriage return or tab standing unescaped inside a string literal, and what lies outside
  all string literals, both by the scanner's own flags.
\<close>

fun has_raw :: "bool \<Rightarrow> bool \<Rightarrow> runes \<Rightarrow> bool" where
  "has_raw inString escaped [] = False"
| "has_raw inString escaped (c # s) =
     (if escaped then has_raw inString False s
      else if inString \<and> c = 92 then has_raw inString True s
      else if c = 34 then has_raw (\<not> inString) False s
      else inString \<and> (c = 10 \<or> c = 13 \<or> c = 9) \<or> has_raw inString False s)"

fun outside :: "bool \<Rightarrow> bool \<Rightarrow> runes \<Rightarrow> runes" where
  "outside inString escaped [] = []"
| "outside inString escaped (c # s) =
     (if escaped then outside inString False s
      else if inString \<and> c = 92 then outside inString True s
      else if c = 34 then outside (\<not> inString) False s
      else (if inString then outside inString False s else c # outside inString False s))"

lemma escape_no_raw: "\<not> has_raw i e (escape_from i e s)"
  by (induction i e s rule: escape_from.induct) auto

lemma escape_length: "length s \<le> length (escape_from i e s)"
  by (induction i e s rule: escape_from.induct) auto

lemma escape_id: "\<not> has_raw i e s \<Longrightarrow> escape_from i e s = s"
  by (induction i e s rule: escape_from.induct) (auto split: if_splits)

lemma escape_outside: "escaped \<longrightarrow> inString \<Longrightarrow>
    outside inString escaped (escape_from inString escaped s) = outside inString escaped s"
  by (induction inString escaped s rule: escape_from.induct) auto

text \<open>
  the repair of the model's JSON leaves no raw newline, carriage return or tab inside a string
  literal, except one the model itself put behind a backslash; it changes nothing outside the
  string literals, changes nothing at all in a text that needs no repair, and repairing twice is
  repairing once.\<close>

theorem repair_only_escapes_raw_controls:
  "\<not> has_raw False False (escapeControlCharsInStrings s) \<and>
   (escapeControlCharsInStrings s = s \<longleftrightarrow> \<not> has_raw False False s) \<and>
   outside False False (escapeControlCharsInStrings s) = outside False False s \<and>
   escapeControlCharsInStrings (escapeControlCharsInStrings s) = escapeControlCharsInStrings s"
proof -
  have "\<not> has_raw False False s" if "escapeControlCharsInStrings s = s"
    using escape_no_raw [of False False s] that by (simp add: escapeControlCharsInStrings_def)
  then show ?thesis
    by (auto simp: escapeControlCharsInStrings_def escape_no_raw escape_outside intro: escape_id)
qed

section \<open>Numbers\<close>

text \<open>Decimal text of a natural number, as \<^verbatim>\<open>%d\<close> prints it.\<close>

fun decimal :: "nat \<Rightarrow> runes" where
  "decimal n = (if n < 10 then [48 + n] else decimal (n div 10) @ [48 + n mod 10])"

declare decimal.simps [simp del]

lemma decimal_digits: "list_all digit (decimal n) \<and> decimal n \<noteq> [] \<and> digits_value (decimal n) = int n"
proof (induction n rule: decimal.induct)
  case (1 n)
  show ?case
  proof (cases "n < 10")
    case True
    then show ?thesis by (subst (1 2 3) decimal.simps) (simp add: digit_def digits_value_def)
  next
    case False
    note ih = 1 [OF False]
    have d: "decimal n = decimal (n div 10) @ [48 + n mod 10]"
      by (subst decimal.simps) (simp add: False)
    have m: "n mod 10 < 10" by simp
    have "digit (48 + n mod 10)" using m by (simp add: digit_def)
    moreover have "int (n div 10) * 10 + int (n mod 10) = int n" by presburger
    ultimately show ?thesis using ih unfolding d by (simp add: digits_value_def)
  qed
qed

definition signed :: "int \<Rightarrow> runes" where
  "signed n = (if n < 0 then 45 # decimal (nat (- n)) else decimal (nat n))"

lemma digit_neither: "digit c \<Longrightarrow> c \<noteq> 45 \<and> c \<noteq> 43 \<and> c \<noteq> 34 \<and> c \<noteq> 110 \<and> \<not> is_space c"
  by (auto simp: digit_def is_space_def)

lemma decimal_ends: "digit (hd (decimal n))" "digit (last (decimal n))"
  using decimal_digits [of n] by (auto simp: list_all_iff)

lemma atoi_signed: "- (2 ^ 63) \<le> n \<Longrightarrow> n < 2 ^ 63 \<Longrightarrow> atoi (signed n) = Some n"
  using decimal_digits [of "nat n"] decimal_digits [of "nat (- n)"] decimal_ends(1) [of "nat n"]
    digit_neither [of "hd (decimal (nat n))"]
  by (auto simp: atoi_def signed_def Let_def)

lemma signed_ends: "signed n \<noteq> []" "hd (signed n) \<noteq> 34" "last (signed n) \<noteq> 34"
    "\<not> is_space (hd (signed n))" "\<not> is_space (last (signed n))" "hd (signed n) \<noteq> 110"
  using decimal_digits decimal_ends digit_neither
  by (auto simp: signed_def is_space_def)

lemma trim_quotes_wrapped: "trim_quotes (34 # t @ [34]) = trim_quotes t"
proof (cases "dropWhile (\<lambda>c. c = 34) t = []")
  case True
  then have a: "\<forall>c \<in> set t. c = 34" by (simp add: dropWhile_eq_Nil_conv)
  then have "dropWhile (\<lambda>c. c = 34) (t @ [34]) = []" by (subst dropWhile_eq_Nil_conv) simp
  then show ?thesis unfolding trim_quotes_def True by simp
next
  case False
  then have "dropWhile (\<lambda>c. c = 34) (t @ [34]) = dropWhile (\<lambda>c. c = 34) t @ [34]"
    by (induction t) auto
  then show ?thesis by (simp add: trim_quotes_def)
qed

lemma trim_quotes_id: "t \<noteq> [] \<Longrightarrow> hd t \<noteq> 34 \<Longrightarrow> last t \<noteq> 34 \<Longrightarrow> trim_quotes t = t"
  by (simp add: trim_quotes_def dropWhile_hd_id hd_rev)

text \<open>a number field survives quoting: any 64-bit integer the model writes, bare or in quotes, is read
  as itself, whatever the field held before; and a field that holds only quotes leaves the field
  as it was.\<close>

theorem quoted_numbers_are_read:
  assumes "- (2 ^ 63) \<le> n" and "n < 2 ^ 63"
  shows "flexInt parse_float old (signed n) = Some n \<and>
    flexInt parse_float old (34 # signed n @ [34]) = Some n \<and>
    flexInt parse_float old [34, 34] = Some old"
proof -
  have t: "trim_space (signed n) = signed n" by (rule trim_space_nonspace_ends) (simp_all add: signed_ends)
  have q: "trim_quotes (signed n) = signed n" by (rule trim_quotes_id) (simp_all add: signed_ends)
  have w: "trim_space (34 # signed n @ [34]) = 34 # signed n @ [34]"
    by (rule trim_space_nonspace_ends) (simp_all add: is_space_def)
  have nn: "signed n \<noteq> ascii ''null''"
    using signed_ends(6) [of n] by (auto simp: ascii_def)
  have e: "trim_quotes (trim_space [34, 34]) = []" by (simp add: trim_space_def is_space_def trim_quotes_def)
  show ?thesis
    by (simp add: flexInt_def Let_def t q w trim_quotes_wrapped nn signed_ends(1) atoi_signed [OF assms] e)
qed

theorem quoted_numbers_are_read_witness:
  "flexInt (\<lambda>_. None) 7 (34 # signed 35 @ [34]) = Some 35"
  using quoted_numbers_are_read [of 35 "\<lambda>_. None" 7] by simp

section \<open>Verses\<close>

text \<open>One pass that keeps at most two newlines of every run; \<open>n\<close> counts the current run.\<close>

fun squeeze :: "nat \<Rightarrow> runes \<Rightarrow> runes" where
  "squeeze n [] = []"
| "squeeze n (c # s) =
     (if c = 10 then (if n < 2 then 10 # squeeze (Suc n) s else squeeze n s) else c # squeeze 0 s)"

lemma squeeze_replace: "squeeze n (replace_triple s) = squeeze n s"
  by (induction s arbitrary: n rule: replace_triple.induct) (auto simp: numeral_2_eq_2)

lemma squeeze_id: "\<not> contains (replicate n 10 @ s) [10, 10, 10] \<Longrightarrow> n \<le> 2 \<Longrightarrow> squeeze n s = s"
proof (induction n s rule: squeeze.induct)
  case (2 n c s)
  have app: "replicate n (10 :: nat) @ 10 # s = replicate (Suc n) 10 @ s" by (simp add: replicate_app_Cons_same)
  show ?case
  proof (cases "c = 10")
    case True
    have "n \<noteq> 2"
    proof
      assume "n = 2"
      with 2(4) True have "\<not> contains ([10, 10, 10] @ s) [10, 10, 10]" by (simp add: numeral_2_eq_2)
      then show False by (simp only: contains_self_prefix simp_thms)
    qed
    with 2(1) 2(4,5) True app show ?thesis by simp
  next
    case False
    have "\<not> contains s [10, 10, 10]"
      using 2(4) unfolding contains_iff by (metis append_Cons append_assoc)
    with 2(3) False show ?thesis by simp
  qed
qed simp

lemma collapse_blank_squeeze: "collapse_blank s = squeeze 0 s"
proof (induction s rule: collapse_blank.induct)
  case (1 s)
  show ?case
  proof (cases "contains s [10, 10, 10]")
    case True
    then show ?thesis by (subst collapse_blank.simps) (simp add: 1 squeeze_replace)
  next
    case False
    then show ?thesis by (subst collapse_blank.simps) (simp add: squeeze_id)
  qed
qed

lemma collapse_blank_none: "\<not> contains (collapse_blank s) [10, 10, 10]"
proof (induction s rule: collapse_blank.induct)
  case (1 s)
  then show ?case by (cases "contains s [10, 10, 10]"; subst collapse_blank.simps) simp_all
qed

lemma set_squeeze: "set (squeeze n s) \<subseteq> set s"
  by (induction n s rule: squeeze.induct) auto

lemma trim_part: "\<exists>pre post. t = pre @ trim_space t @ post"
proof -
  obtain pre where p: "t = pre @ dropWhile is_space t" by (metis takeWhile_dropWhile_id)
  obtain post where "dropWhile is_space t = trim_space t @ post"
    by (metis rev_append rev_rev_ident takeWhile_dropWhile_id trim_space_def)
  with p show ?thesis by metis
qed

text \<open>No escape sequence is left standing as text.\<close>

fun no_escapes :: "runes \<Rightarrow> bool" where
  "no_escapes (a # b # s) = (\<not> (a = 92 \<and> (b = 110 \<or> b = 114)) \<and> no_escapes (b # s))"
| "no_escapes s = True"

lemma no_escapes_Cons:
  "no_escapes (c # s) \<longleftrightarrow> (s = [] \<or> \<not> (c = 92 \<and> (hd s = 110 \<or> hd s = 114))) \<and> no_escapes s"
  by (cases s) auto

lemma no_escapes_append: "no_escapes (xs @ ys) \<Longrightarrow> no_escapes xs \<and> no_escapes ys"
proof (induction xs)
  case (Cons x xs)
  then show ?case by (cases xs) (auto simp: no_escapes_Cons)
qed simp

lemma hd_verse_breaks: "s \<noteq> [] \<Longrightarrow> verse_breaks s \<noteq> [] \<and> (hd (verse_breaks s) = 10 \<or> hd (verse_breaks s) = hd s)"
  by (subst (1 2 3) verse_breaks.simps) simp

lemma verse_breaks_clean: "13 \<notin> set (verse_breaks s) \<and> no_escapes (verse_breaks s)"
proof (induction s rule: verse_breaks.induct)
  case (1 s)
  show ?case
  proof (cases "s = [] \<or> take 4 s = [92, 114, 92, 110] \<or> take 2 s = [92, 110] \<or> take 2 s = [92, 114] \<or>
      take 2 s = [13, 10] \<or> hd s = 13")
    case True
    then show ?thesis using 1(1-5) by (subst (1 2) verse_breaks.simps) (auto simp: no_escapes_Cons)
  next
    case False
    then have v: "verse_breaks s = hd s # verse_breaks (tl s)" by (subst verse_breaks.simps) simp
    have ih: "13 \<notin> set (verse_breaks (tl s)) \<and> no_escapes (verse_breaks (tl s))" using 1(6) False by blast
    have "\<not> (hd s = 92 \<and> (hd (tl s) = 110 \<or> hd (tl s) = 114))" if "tl s \<noteq> []"
    proof -
      from that obtain a b r where "s = a # b # r" by (metis list.exhaust list.sel(2,3))
      with False show ?thesis by (auto simp: numeral_2_eq_2)
    qed
    with ih False hd_verse_breaks [of "tl s"] show ?thesis
      unfolding v by (cases "tl s") (auto simp: no_escapes_Cons verse_breaks.simps [of "[]"])
  qed
qed

lemma verse_breaks_id: "13 \<notin> set s \<Longrightarrow> no_escapes s \<Longrightarrow> verse_breaks s = s"
proof (induction s)
  case Nil
  show ?case by (subst verse_breaks.simps) simp
next
  case (Cons c s)
  have "verse_breaks (c # s) = c # verse_breaks s"
    using Cons.prems by (subst verse_breaks.simps) (cases s; auto simp: numeral_2_eq_2 numeral_eq_Suc)
  with Cons show ?case by (simp add: no_escapes_Cons)
qed

lemma no_escapes_squeeze: "no_escapes s \<Longrightarrow> no_escapes (squeeze n s)"
proof (induction n s rule: squeeze.induct)
  case (2 n c s)
  have "squeeze 0 s \<noteq> [] \<Longrightarrow> hd (squeeze 0 s) = hd s" "s = [] \<longleftrightarrow> squeeze 0 s = []" by (cases s; simp)+
  with 2 show ?case by (auto simp: no_escapes_Cons)
qed simp

text \<open>C14: whatever line breaks the model typed, as text or as characters, a reply is shown in one normal
  form: the loop that collapses blank lines ends and does in effect a single pass that keeps at
  most two newlines of every run; no carriage return, no escape sequence and no two blank lines in
  a row remain, nor space at either end; and normalising again changes nothing.\<close>

theorem verse_has_a_normal_form:
  "normalizeVerse s = trim_space (squeeze 0 (verse_breaks s)) \<and>
   13 \<notin> set (normalizeVerse s) \<and> no_escapes (normalizeVerse s) \<and>
   \<not> contains (normalizeVerse s) [10, 10, 10] \<and>
   normalizeVerse (normalizeVerse s) = normalizeVerse s"
proof -
  define q where "q = collapse_blank (verse_breaks s)"
  have n: "normalizeVerse s = trim_space q" by (simp add: normalizeVerse_def q_def)
  obtain pre post where part: "q = pre @ trim_space q @ post" using trim_part by blast
  have q: "q = squeeze 0 (verse_breaks s)" by (simp add: q_def collapse_blank_squeeze)
  have "13 \<notin> set q" using verse_breaks_clean [of s] set_squeeze [of 0 "verse_breaks s"] by (auto simp: q)
  then have a: "13 \<notin> set (trim_space q)" by (subst (asm) part) simp
  have "no_escapes q" using verse_breaks_clean [of s] by (simp add: q no_escapes_squeeze)
  then have b: "no_escapes (trim_space q)"
    by (subst (asm) part) (auto dest: no_escapes_append)
  have c: "\<not> contains (trim_space q) [10, 10, 10]"
  proof
    assume "contains (trim_space q) [10, 10, 10]"
    then obtain u v where "trim_space q = u @ [10, 10, 10] @ v" unfolding contains_iff by blast
    with part have "q = (pre @ u) @ [10, 10, 10] @ (v @ post)" by simp
    then have "contains q [10, 10, 10]" unfolding contains_iff by blast
    then show False using collapse_blank_none unfolding q_def by blast
  qed
  have "collapse_blank (verse_breaks (trim_space q)) = trim_space q"
    using c by (subst collapse_blank.simps) (simp add: verse_breaks_id [OF a b])
  then have "normalizeVerse (trim_space q) = trim_space q" by (simp add: normalizeVerse_def)
  then show ?thesis using a b c by (simp add: n q [symmetric])
qed

section \<open>The window\<close>

lemma exchangeTokens_pos: "2 \<le> exchangeTokens ex"
proof -
  have "n \<le> fold (\<lambda>opt n. n + estTokens opt) opts n" for n and opts :: "runes list"
  proof (induction opts arbitrary: n)
    case (Cons o1 opts)
    have "n \<le> n + estTokens o1" by (simp add: estTokens_def)
    also have "\<dots> \<le> fold (\<lambda>opt n. n + estTokens opt) opts (n + estTokens o1)" by (rule Cons)
    finally show ?case by simp
  qed simp
  from this [of "estTokens (ex_choice ex) + estTokens (ex_reply ex)" "ex_options ex"]
  show ?thesis unfolding exchangeTokens_def by (simp add: estTokens_def)
qed

abbreviation cost :: "exchange list \<Rightarrow> int" where
  "cost exs \<equiv> sum_list (map exchangeTokens exs)"

lemma window_back:
  "\<exists>older. exs = window_back budget used n exs @ older \<and>
     n + length (window_back budget used n exs) \<le> max n historyExchanges \<and>
     used + cost (window_back budget used n exs) \<le> max used budget \<and>
     (older = [] \<or> historyExchanges \<le> n + length (window_back budget used n exs) \<or>
      budget < used + cost (window_back budget used n exs) + exchangeTokens (hd older))"
proof (induction budget used n exs rule: window_back.induct)
  case (2 budget used n ex older)
  show ?case
  proof (cases "historyExchanges < n + 1 \<or> budget < used + exchangeTokens ex")
    case True
    then have "window_back budget used n (ex # older) = []" by auto
    with True show ?thesis by auto
  next
    case False
    then have w: "window_back budget used n (ex # older) =
        ex # window_back budget (used + exchangeTokens ex) (n + 1) older" by simp
    from 2 False obtain rest where
      "older = window_back budget (used + exchangeTokens ex) (n + 1) older @ rest"
      "n + 1 + length (window_back budget (used + exchangeTokens ex) (n + 1) older) \<le> max (n + 1) historyExchanges"
      "used + exchangeTokens ex + cost (window_back budget (used + exchangeTokens ex) (n + 1) older)
         \<le> max (used + exchangeTokens ex) budget"
      "rest = [] \<or> historyExchanges \<le> n + 1 + length (window_back budget (used + exchangeTokens ex) (n + 1) older) \<or>
       budget < used + exchangeTokens ex + cost (window_back budget (used + exchangeTokens ex) (n + 1) older) +
         exchangeTokens (hd rest)"
      by auto
    with False show ?thesis unfolding w by (intro exI [of _ rest]) (auto simp: max_def)
  qed
qed simp

text \<open>what is sent again of the conversation is its end: as many of the newest exchanges as fit both the
  budget and twelve exchanges, in their order, and not one more; with no budget, none.\<close>

theorem window_is_the_longest_affordable_end:
  "\<exists>forgotten. transcript = forgotten @ windowTranscript transcript budget \<and>
     length (windowTranscript transcript budget) \<le> 12 \<and>
     cost (windowTranscript transcript budget) \<le> max 0 budget \<and>
     (forgotten = [] \<or> length (windowTranscript transcript budget) = 12 \<or>
      budget < cost (windowTranscript transcript budget) + exchangeTokens (last forgotten))"
proof (cases "budget \<le> 0")
  case True
  have "budget < exchangeTokens (last transcript)" using exchangeTokens_pos [of "last transcript"] True by simp
  with True show ?thesis by (simp add: windowTranscript_def)
next
  case False
  define w where "w = window_back budget 0 0 (rev transcript)"
  obtain older where o: "rev transcript = w @ older" "length w \<le> 12" "cost w \<le> max 0 budget"
    "older = [] \<or> 12 \<le> length w \<or> budget < cost w + exchangeTokens (hd older)"
    using window_back [of "rev transcript" budget 0 0] by (auto simp: w_def historyExchanges_def)
  have t: "transcript = rev older @ rev w" using o(1) by (metis rev_append rev_rev_ident)
  have "windowTranscript transcript budget = rev w" using False by (simp add: windowTranscript_def w_def)
  moreover have "cost (rev w) = cost w" by (simp add: rev_map [symmetric])
  ultimately show ?thesis
    using o t by (intro exI [of _ "rev older"]) (auto simp: last_rev)
qed

section \<open>What was already offered\<close>

lemma offer_props:
  assumes "distinct (map to_lower out)" and "length out \<le> maxRecentlyOffered"
    and "\<forall>x \<in> set out. x \<noteq> [] \<and> trim_space x = x"
  shows "distinct (map to_lower (offer out opts)) \<and> length (offer out opts) \<le> maxRecentlyOffered \<and>
    (\<forall>x \<in> set (offer out opts). x \<noteq> [] \<and> trim_space x = x) \<and>
    set (offer out opts) \<subseteq> set out \<union> trim_space ` set opts \<and> set out \<subseteq> set (offer out opts) \<and>
    (length (offer out opts) = maxRecentlyOffered \<or>
     (\<forall>x \<in> set opts. trim_space x = [] \<or> to_lower (trim_space x) \<in> to_lower ` set (offer out opts)))"
  using assms
proof (induction out opts rule: offer.induct)
  case (2 out opt opts)
  define t where "t = trim_space opt"
  consider "t = [] \<or> to_lower t \<in> to_lower ` set out"
    | "\<not> (t = [] \<or> to_lower t \<in> to_lower ` set out)" "maxRecentlyOffered \<le> length out"
    | "\<not> (t = [] \<or> to_lower t \<in> to_lower ` set out)" "\<not> maxRecentlyOffered \<le> length out" by blast
  then show ?case
  proof cases
    case 1
    then have e: "offer out (opt # opts) = offer out opts" by (auto simp: t_def Let_def)
    note ih = 2(1) [OF t_def 1 2(3-5)]
    have "to_lower ` set out \<subseteq> to_lower ` set (offer out opts)" using ih by blast
    then have "t = [] \<or> to_lower t \<in> to_lower ` set (offer out opts)" using 1 by blast
    then show ?thesis using ih unfolding e t_def by auto
  next
    case 2
    then have "offer out (opt # opts) = out" by (auto simp: t_def Let_def)
    then show ?thesis using 2(2) \<open>length out \<le> maxRecentlyOffered\<close> \<open>distinct (map to_lower out)\<close>
        \<open>\<forall>x \<in> set out. x \<noteq> [] \<and> trim_space x = x\<close> by auto
  next
    case 3
    then have e: "offer out (opt # opts) = offer (out @ [t]) opts" by (auto simp: t_def Let_def)
    have "distinct (map to_lower (out @ [t]))" using 3(1) 2(3) by auto
    moreover have "length (out @ [t]) \<le> maxRecentlyOffered" using 3(2) by simp
    moreover have "\<forall>x \<in> set (out @ [t]). x \<noteq> [] \<and> trim_space x = x" using 3(1) 2(5) by (auto simp: t_def)
    ultimately have ih: "distinct (map to_lower (offer (out @ [t]) opts)) \<and>
      length (offer (out @ [t]) opts) \<le> maxRecentlyOffered \<and>
      (\<forall>x \<in> set (offer (out @ [t]) opts). x \<noteq> [] \<and> trim_space x = x) \<and>
      set (offer (out @ [t]) opts) \<subseteq> set (out @ [t]) \<union> trim_space ` set opts \<and>
      set (out @ [t]) \<subseteq> set (offer (out @ [t]) opts) \<and>
      (length (offer (out @ [t]) opts) = maxRecentlyOffered \<or>
       (\<forall>x \<in> set opts. trim_space x = [] \<or> to_lower (trim_space x) \<in> to_lower ` set (offer (out @ [t]) opts)))"
      by (rule 2(2) [OF t_def 3])
    then show ?thesis unfolding e t_def by auto
  qed
qed simp

text \<open>the list of options already offered holds no two that differ only in case, none that is blank, at
  most twenty-four, and only options of the remembered exchanges or the opening ones, trimmed;
  unless it is full, every option of those is on it.\<close>

theorem offered_options_are_listed_once:
  "distinct (map to_lower (recentlyOffered ch windowed)) \<and>
    length (recentlyOffered ch windowed) \<le> 24 \<and> [] \<notin> set (recentlyOffered ch windowed) \<and>
    set (recentlyOffered ch windowed) \<subseteq> trim_space ` set (concat (map ex_options windowed) @ ch_openings ch) \<and>
    (length (recentlyOffered ch windowed) = 24 \<or>
     (\<lambda>x. to_lower (trim_space x)) ` set (concat (map ex_options windowed) @ ch_openings ch) - {[]}
       \<subseteq> to_lower ` set (recentlyOffered ch windowed))"
proof -
  define opts where "opts = concat (map ex_options (rev windowed)) @ ch_openings ch"
  have e: "set (concat (map ex_options windowed) @ ch_openings ch) = set opts" by (simp add: opts_def)
  have nil: "to_lower t = [] \<longleftrightarrow> t = []" for t by (simp add: to_lower_def)
  have r: "recentlyOffered ch windowed = offer [] opts" by (simp add: recentlyOffered_def opts_def)
  have m: "maxRecentlyOffered = 24" by (simp add: maxRecentlyOffered_def optionCount_def)
  have p: "distinct (map to_lower (offer [] opts))" "length (offer [] opts) \<le> 24"
    "\<forall>x \<in> set (offer [] opts). x \<noteq> [] \<and> trim_space x = x" "set (offer [] opts) \<subseteq> trim_space ` set opts"
    "length (offer [] opts) = 24 \<or>
     (\<forall>x \<in> set opts. trim_space x = [] \<or> to_lower (trim_space x) \<in> to_lower ` set (offer [] opts))"
    using offer_props [of "[]" opts] unfolding m by simp_all
  have "(\<lambda>x. to_lower (trim_space x)) ` set opts - {[]} \<subseteq> to_lower ` set (offer [] opts)"
    if "\<forall>x \<in> set opts. trim_space x = [] \<or> to_lower (trim_space x) \<in> to_lower ` set (offer [] opts)"
    using that by (auto simp: nil)
  then show ?thesis unfolding e r using p by blast
qed

end
