(* ===== verification/KhimkiJudge.thy ===== *)
theory KhimkiJudge
  imports KhimkiText Database "HOL-Library.List_Lexorder"
begin

text \<open>
  One judged turn of ``Smalltalk in Khimki'' (\<^verbatim>\<open>internal/gamekhimki/llm.go\<close>,
  \<^verbatim>\<open>service.go\<close>): the messages sent to the model, what becomes of its answer, and the salvage
  of an answer that is not quite JSON. The model itself is a function from the messages to an
  answer; the wording around the values of a message is not repeated, only what is in it, in
  order. Of \<^verbatim>\<open>encoding/json\<close> the development takes what it makes of a text: the fields of a
  reply with the raw text of the lenient ones, and the members of an object.
\<close>

section \<open>What the model is asked and answers\<close>

record raw_reply =
  rr_reply :: runes
  rr_art :: runes
  rr_achieved :: "runes option"
  rr_game_over :: "runes option"
  rr_options :: "runes list"
  rr_anger :: "runes option"
  rr_themes :: "runes list option"

record json_lib =
  jl_reply :: "runes \<Rightarrow> raw_reply option"
  jl_members :: "runes \<Rightarrow> (runes \<times> runes list option) list option"
  jl_float :: "runes \<Rightarrow> int option"

record judge_reply =
  jr_reply :: runes
  jr_art :: runes
  jr_achieved :: bool
  jr_game_over :: bool
  jr_options :: "runes list"
  jr_anger :: "int option"
  jr_themes :: "runes list option"

record turn_result =
  tr_reply :: runes
  tr_art :: runes
  tr_achieved :: bool
  tr_game_over :: bool
  tr_anger :: int
  tr_options :: "runes list"
  tr_themes :: "runes list"

text \<open>
  The last message is a list of its parts. \<open>PlayerLine None\<close> is the stage direction that stands for
  an empty first line.
\<close>

datatype tail_part =
    Tension int
  | StillClosed "(theme \<times> nat option) list"
  | SteerAt theme
  | SteerAtNothing
  | AllOpened
  | NotAbout theme
  | PlayerLine "runes option"
  | JsonOnly

datatype chat_message =
    System character
  | Assistant runes
  | User runes
  | Replayed judge_reply
  | Turn "tail_part list"

text \<open>The request failed, was refused, came back undecodable or empty, or carries a content.\<close>

datatype answer = NoResponse | Status nat | NotDecodable | NoChoices | Content runes

section \<open>Decoding the reply\<close>

definition flag_field :: "runes option \<Rightarrow> bool option" where
  "flag_field tok = (case tok of None \<Rightarrow> Some False | Some t \<Rightarrow> flexBool t)"

text \<open>
  The field is a pointer: a missing or \<^verbatim>\<open>null\<close> one stays \<^verbatim>\<open>nil\<close>, any other value is read
  into a fresh integer, which holds 0.
\<close>

definition anger_field :: "(runes \<Rightarrow> int option) \<Rightarrow> runes option \<Rightarrow> int option option" where
  "anger_field parse_float tok =
     (case tok of
        None \<Rightarrow> Some None
      | Some t \<Rightarrow> if t = ascii ''null'' then Some None else map_option Some (flexInt parse_float 0 t))"

definition decode_reply :: "json_lib \<Rightarrow> runes \<Rightarrow> judge_reply option" where
  "decode_reply lib content =
     (case jl_reply lib content of
        None \<Rightarrow> None
      | Some r \<Rightarrow>
          (case (flag_field (rr_achieved r), flag_field (rr_game_over r), anger_field (jl_float lib) (rr_anger r)) of
             (Some won, Some lost, Some anger) \<Rightarrow>
               Some \<lparr>jr_reply = rr_reply r, jr_art = rr_art r, jr_achieved = won, jr_game_over = lost,
                     jr_options = rr_options r, jr_anger = anger, jr_themes = rr_themes r\<rparr>
           | _ \<Rightarrow> None))"

definition judgeReplyKeys :: "runes list" where
  "judgeReplyKeys = map ascii [''reply'', ''art'', ''achieved'', ''game_over'', ''anger'', ''options'']"

fun collect_options :: "nat \<Rightarrow> runes list \<Rightarrow> runes list \<Rightarrow> runes list" where
  "collect_options have_n out [] = out"
| "collect_options have_n out (s # ss) =
     (if optionCount \<le> have_n + length out then out
      else collect_options have_n (if trim_space s \<noteq> [] then out @ [s] else out) ss)"

definition strayOptions :: "json_lib \<Rightarrow> runes \<Rightarrow> nat \<Rightarrow> runes list" where
  "strayOptions lib json_text have_n =
     (case jl_members lib json_text of
        None \<Rightarrow> []
      | Some obj \<Rightarrow>
          (let keys = sort (filter (\<lambda>k. k \<notin> set judgeReplyKeys) (map fst obj));
               arrs = map (\<lambda>k. case map_of obj k of Some (Some arr) \<Rightarrow> arr | _ \<Rightarrow> []) keys in
           collect_options have_n [] (concat arrs)))"

definition salvageJudgeReply :: "json_lib \<Rightarrow> runes \<Rightarrow> judge_reply option" where
  "salvageJudgeReply lib content =
     (let fixed = escapeControlCharsInStrings content in
      case decode_reply lib fixed of
        None \<Rightarrow> None
      | Some jr \<Rightarrow>
          if trim_space (jr_reply jr) = [] then None
          else if length (jr_options jr) < optionCount
          then Some (jr\<lparr>jr_options := jr_options jr @ strayOptions lib fixed (length (jr_options jr))\<rparr>)
          else Some jr)"

section \<open>The messages\<close>

text \<open>\<^verbatim>\<open>judgeReplayJSON\<close>: the object marshalled for a past turn.\<close>

definition judgeReplay :: "exchange \<Rightarrow> judge_reply" where
  "judgeReplay ex =
     \<lparr>jr_reply = ex_reply ex, jr_art = ex_art ex, jr_achieved = False, jr_game_over = False,
      jr_options = nonEmpty (ex_options ex),
      jr_anger = Some (case ex_anger ex of None \<Rightarrow> 0 | Some a \<Rightarrow> ClampAnger a),
      jr_themes = Some (ex_themes ex)\<rparr>"

text \<open>
  The length of the system prompt: 3073 runes of fixed wording, the character's texts, the numbers
  100, 90 and 100, and the two lists of keys joined with a comma and a space. The stage direction
  has 81 runes.
\<close>

definition joined :: "runes list \<Rightarrow> nat" where
  "joined ks = sum_list (map length ks) + 2 * (length ks - 1)"

definition system_tokens :: "character \<Rightarrow> int" where
  "system_tokens ch = int (3073 + length (ch_name ch) + length (ch_persona ch) + length (ch_motivation ch) +
     length (ch_talk_style ch) + length (ch_objective ch) + length (ch_failure ch) + 8 +
     joined (art_keys ch) + joined (theme_keys ch)) + 1"

definition current_line :: "runes \<Rightarrow> runes option" where
  "current_line choice = (if trim_space choice = [] then None else Some choice)"

definition history_budget :: "character \<Rightarrow> runes \<Rightarrow> int" where
  "history_budget ch choice =
     min historyTokens (modelContextTokens - outputReserveTokens - system_tokens ch -
       (case current_line choice of None \<Rightarrow> 82 | Some c \<Rightarrow> estTokens c))"

definition steering_part :: "character \<Rightarrow> runes list \<Rightarrow> engagement \<Rightarrow> tail_part list" where
  "steering_part ch done_keys eng =
     (if openThemes ch done_keys \<noteq> []
      then [StillClosed (map (\<lambda>t. (t, if themeConfirmTurns \<le> eng (th_key t) then Some (eng (th_key t)) else None))
              (openThemes ch done_keys)),
            (case steerTheme ch done_keys eng of Some t \<Rightarrow> SteerAt t | None \<Rightarrow> SteerAtNothing)]
      else if ch_themes ch \<noteq> [] then [AllOpened] else [])"

definition buildMessages ::
  "character \<Rightarrow> exchange list \<Rightarrow> runes \<Rightarrow> int \<Rightarrow> runes list \<Rightarrow> engagement \<Rightarrow> chat_message list \<times> runes list" where
  "buildMessages ch transcript choice anger done_keys eng =
     (let windowed = windowTranscript transcript (history_budget ch choice);
          greeting = (if trim_space (ch_greeting ch) \<noteq> [] then [Assistant (ch_greeting ch)] else []);
          replayed = concat (map (\<lambda>ex. [User (ex_choice ex), Replayed (judgeReplay ex)]) windowed);
          topic = (case currentTopic ch transcript choice of Some t \<Rightarrow> [NotAbout t] | None \<Rightarrow> []) in
      (System ch # greeting @ replayed @
         [Turn (Tension anger # steering_part ch done_keys eng @ topic @ [PlayerLine (current_line choice), JsonOnly])],
       recentlyOffered ch windowed))"

section \<open>The turn\<close>

definition turn_outcome :: "character \<Rightarrow> int \<Rightarrow> runes list \<Rightarrow> engagement \<Rightarrow> judge_reply \<Rightarrow> turn_result" where
  "turn_outcome ch anger done_keys eng jr =
     (let newAnger = (case jr_anger jr of None \<Rightarrow> ClampAnger (anger + angerDriftOnMissing) | Some a \<Rightarrow> ClampAnger a);
          newThemes = (case jr_themes jr of None \<Rightarrow> done_keys | Some ks \<Rightarrow> confirmThemes ch done_keys ks eng);
          gameOver = ((jr_game_over jr \<or> AngerLoseAt \<le> newAnger) \<and> \<not> jr_achieved jr);
          art = (if gameOver \<and> ch_game_over_art ch \<noteq> [] then normalizeArt (ch_game_over_art ch) (art_keys ch)
                 else normalizeArt (jr_art jr) (art_keys ch)) in
      \<lparr>tr_reply = normalizeVerse (jr_reply jr), tr_art = art, tr_achieved = jr_achieved jr,
       tr_game_over = gameOver, tr_anger = newAnger,
       tr_options = optionsWhilePlaying (jr_achieved jr \<or> gameOver) (jr_options jr), tr_themes = newThemes\<rparr>)"

definition read_answer :: "json_lib \<Rightarrow> runes \<Rightarrow> judge_reply option" where
  "read_answer lib content =
     (case decode_reply lib content of Some jr \<Rightarrow> Some jr | None \<Rightarrow> salvageJudgeReply lib content)"

definition judge ::
  "json_lib \<Rightarrow> (chat_message list \<Rightarrow> answer) \<Rightarrow> character \<Rightarrow> exchange list \<Rightarrow> runes \<Rightarrow> int \<Rightarrow> runes list \<Rightarrow>
     turn_result res" where
  "judge lib ask ch transcript choice anger0 themes0 =
     (let anger = ClampAnger anger0;
          eng = themeEngagement ch transcript choice;
          done_keys = autoMarkThemes ch (clampThemes ch themes0) eng in
      case ask (fst (buildMessages ch transcript choice anger done_keys eng)) of
        Content content \<Rightarrow>
          (case read_answer lib content of
             None \<Rightarrow> Inl ELlmUnparsable
           | Some jr \<Rightarrow> Inr (turn_outcome ch anger done_keys eng jr))
      | _ \<Rightarrow> Inl ELlm)"

definition service_judge ::
  "json_lib \<Rightarrow> (chat_message list \<Rightarrow> answer) \<Rightarrow> string \<Rightarrow> string \<Rightarrow> exchange list \<Rightarrow> runes \<Rightarrow> int \<Rightarrow> runes list \<Rightarrow>
     turn_result res" where
  "service_judge lib ask game_key character_key transcript choice anger themes_done =
     (case ContentFor game_key of
        None \<Rightarrow> Inl EUnknownGame
      | Some g \<Rightarrow>
          (case find_character g character_key of
             None \<Rightarrow> Inl EUnknownCharacter
           | Some ch \<Rightarrow> judge lib ask ch transcript choice anger themes_done))"

section \<open>A turn keeps its shape\<close>

lemma normalizeArt_allowed: "allowed \<noteq> [] \<Longrightarrow> normalizeArt got allowed \<in> set allowed"
  by (cases allowed) (auto simp: normalizeArt_def Let_def)

lemma judge_Inr:
  assumes "judge lib ask ch transcript choice anger themes = Inr r"
  obtains content jr where
    "ask (fst (buildMessages ch transcript choice (ClampAnger anger)
        (autoMarkThemes ch (clampThemes ch themes) (themeEngagement ch transcript choice))
        (themeEngagement ch transcript choice))) = Content content"
    "read_answer lib content = Some jr"
    "r = turn_outcome ch (ClampAnger anger) (autoMarkThemes ch (clampThemes ch themes) (themeEngagement ch transcript choice))
       (themeEngagement ch transcript choice) jr"
  using assms that by (auto simp: judge_def Let_def split: answer.splits option.splits)

lemma outcome_themes:
  assumes "character_ok ch" and "d = filter P (theme_keys ch)"
  shows "\<exists>Q. tr_themes (turn_outcome ch a d eng jr) = filter Q (theme_keys ch) \<and> (\<forall>k. P k \<longrightarrow> Q k)"
proof (cases "jr_themes jr")
  case None
  with assms(2) show ?thesis by (auto simp: turn_outcome_def Let_def)
next
  case (Some ks)
  with confirmThemes_eq [OF assms, of ks eng] show ?thesis
    by (intro exI [of _ "\<lambda>k. P k \<or> named ks k \<and> themeConfirmTurns \<le> eng k"]) (simp add: turn_outcome_def Let_def)
qed

lemma outcome_art:
  assumes "character_ok ch"
  shows "tr_art (turn_outcome ch a d eng jr) \<in> set (art_keys ch)"
    and "tr_game_over (turn_outcome ch a d eng jr) \<Longrightarrow> tr_art (turn_outcome ch a d eng jr) = ch_game_over_art ch"
proof -
  have over: "ch_game_over_art ch \<in> set (art_keys ch)" "\<forall>k \<in> set (art_keys ch). k \<noteq> [] \<and> trim_space k = k"
    using assms by (auto simp: character_ok_def list_all_iff)
  then have "art_keys ch \<noteq> []" by auto
  then show "tr_art (turn_outcome ch a d eng jr) \<in> set (art_keys ch)"
    by (simp add: turn_outcome_def Let_def normalizeArt_allowed)
  have "normalizeArt (ch_game_over_art ch) (art_keys ch) = ch_game_over_art ch"
    using over by (simp add: normalizeArt_def)
  then show "tr_art (turn_outcome ch a d eng jr) = ch_game_over_art ch"
    if "tr_game_over (turn_outcome ch a d eng jr)"
    using that over by (auto simp: turn_outcome_def Let_def)
qed

lemma outcome_shape:
  "0 \<le> tr_anger (turn_outcome ch a d eng jr) \<and> tr_anger (turn_outcome ch a d eng jr) \<le> 100"
  "\<not> (tr_achieved (turn_outcome ch a d eng jr) \<and> tr_game_over (turn_outcome ch a d eng jr))"
  "90 \<le> tr_anger (turn_outcome ch a d eng jr) \<Longrightarrow>
     tr_achieved (turn_outcome ch a d eng jr) \<or> tr_game_over (turn_outcome ch a d eng jr)"
  "tr_options (turn_outcome ch a d eng jr) =
     (if tr_achieved (turn_outcome ch a d eng jr) \<or> tr_game_over (turn_outcome ch a d eng jr) then []
      else take 4 (jr_options jr))"
  by (auto simp: turn_outcome_def Let_def optionsWhilePlaying_def optionCount_def AngerLoseAt_def
      ClampAnger_def MaxAnger_def split: option.splits)

text \<open>C15: whatever the model answers and whatever the client sent along, a turn that comes back is well formed:
  the tension is on its scale, a run is never won and lost at once, it is lost as soon as the
  tension reaches 90 unless it is won, an ended run offers no options and a live one at most four,
  the art is one of the character's and on a lost run the one for it, and the themes are some of
  the character's own, in its order, among them all the client brought.\<close>

theorem turn_is_well_formed:
  assumes "character_ok ch" and "judge lib ask ch transcript choice anger themes = Inr r"
  shows "0 \<le> tr_anger r \<and> tr_anger r \<le> 100 \<and> \<not> (tr_achieved r \<and> tr_game_over r) \<and>
    (90 \<le> tr_anger r \<longrightarrow> tr_achieved r \<or> tr_game_over r) \<and>
    (tr_achieved r \<or> tr_game_over r \<longrightarrow> tr_options r = []) \<and> length (tr_options r) \<le> 4 \<and>
    tr_art r \<in> set (art_keys ch) \<and> (tr_game_over r \<longrightarrow> tr_art r = ch_game_over_art ch) \<and>
    (\<exists>Q. tr_themes r = filter Q (theme_keys ch)) \<and> set (clampThemes ch themes) \<subseteq> set (tr_themes r)"
proof -
  define eng where "eng = themeEngagement ch transcript choice"
  define d where "d = autoMarkThemes ch (clampThemes ch themes) eng"
  from assms(2) obtain content jr where
    r: "r = turn_outcome ch (ClampAnger anger) d eng jr" unfolding d_def eng_def by (rule judge_Inr)
  have "d = filter (\<lambda>k. named themes k \<or> themeAutoDoneTurns \<le> eng k) (theme_keys ch)"
    unfolding d_def by (rule autoMarkThemes_eq [OF assms(1) clampThemes_eq [OF assms(1)]])
  from outcome_themes [OF assms(1) this] obtain Q where
    Q: "tr_themes r = filter Q (theme_keys ch)" "\<forall>k. named themes k \<longrightarrow> Q k" unfolding r by blast
  have "set (clampThemes ch themes) \<subseteq> set (tr_themes r)"
    using Q by (auto simp: clampThemes_eq [OF assms(1)])
  moreover have "length (tr_options r) \<le> 4" by (simp add: r outcome_shape(4))
  moreover have "tr_achieved r \<or> tr_game_over r \<longrightarrow> tr_options r = []" by (simp add: r outcome_shape(4))
  moreover have "\<exists>Q. tr_themes r = filter Q (theme_keys ch)" using Q(1) by blast
  moreover note outcome_shape(1-3) [of ch "ClampAnger anger" d eng jr, folded r]
    outcome_art [OF assms(1), of "ClampAnger anger" d eng jr, folded r]
  ultimately show ?thesis by blast
qed

section \<open>A silent model cannot stall the run\<close>

text \<open>
  The client's side of the protocol: it sends back the tension and the themes of the turn before,
  and stops when the run has ended. A turn that fails is not counted and is tried again with
  the same tension.
\<close>

record move =
  mv_transcript :: "exchange list"
  mv_choice :: runes
  mv_ask :: "chat_message list \<Rightarrow> answer"

fun play :: "json_lib \<Rightarrow> character \<Rightarrow> move list \<Rightarrow> int \<Rightarrow> runes list \<Rightarrow> turn_result list" where
  "play lib ch [] anger themes = []"
| "play lib ch (mv # mvs) anger themes =
     (case judge lib (mv_ask mv) ch (mv_transcript mv) (mv_choice mv) anger themes of
        Inl err \<Rightarrow> play lib ch mvs anger themes
      | Inr r \<Rightarrow>
          r # (if tr_achieved r \<or> tr_game_over r then [] else play lib ch mvs (tr_anger r) (tr_themes r)))"

definition silent :: "json_lib \<Rightarrow> (chat_message list \<Rightarrow> answer) \<Rightarrow> bool" where
  "silent lib ask \<longleftrightarrow> (\<forall>msgs. \<exists>content jr. ask msgs = Content content \<and> read_answer lib content = Some jr \<and>
     jr_anger jr = None \<and> \<not> jr_achieved jr)"

lemma silent_turn:
  assumes "silent lib ask" and "0 \<le> anger" and "anger \<le> 100"
  obtains r where "judge lib ask ch transcript choice anger themes = Inr r" "\<not> tr_achieved r"
    "tr_anger r = min 100 (anger + 5)"
proof -
  define eng where "eng = themeEngagement ch transcript choice"
  define d where "d = autoMarkThemes ch (clampThemes ch themes) eng"
  obtain content jr where a: "ask (fst (buildMessages ch transcript choice (ClampAnger anger) d eng)) = Content content"
    "read_answer lib content = Some jr" "jr_anger jr = None" "\<not> jr_achieved jr"
    using assms(1) unfolding silent_def by blast
  have "judge lib ask ch transcript choice anger themes = Inr (turn_outcome ch (ClampAnger anger) d eng jr)"
    using a(1,2) by (simp add: judge_def eng_def d_def Let_def)
  then show ?thesis
    by (rule that) (use a(3,4) assms(2,3) in
      \<open>simp_all add: turn_outcome_def Let_def ClampAnger_def MaxAnger_def angerDriftOnMissing_def\<close>)
qed

lemma silent_run_ends:
  assumes "\<forall>mv \<in> set mvs. silent lib (mv_ask mv)"
  shows "0 \<le> anger \<Longrightarrow> anger \<le> 100 \<Longrightarrow> 90 \<le> anger + 5 * int (length mvs) \<Longrightarrow> mvs \<noteq> [] \<Longrightarrow>
    play lib ch mvs anger themes \<noteq> [] \<and> tr_game_over (last (play lib ch mvs anger themes))"
  using assms
proof (induction mvs arbitrary: anger themes)
  case (Cons mv mvs)
  have "silent lib (mv_ask mv)" using Cons.prems by simp
  from silent_turn [OF this Cons.prems(1,2), of ch "mv_transcript mv" "mv_choice mv" themes]
  obtain r where r: "judge lib (mv_ask mv) ch (mv_transcript mv) (mv_choice mv) anger themes = Inr r"
    "\<not> tr_achieved r" "tr_anger r = min 100 (anger + 5)" .
  show ?case
  proof (cases "tr_game_over r")
    case True
    with r show ?thesis by simp
  next
    case False
    have "\<not> 90 \<le> tr_anger r"
    proof
      assume "90 \<le> tr_anger r"
      moreover obtain jr d eng where "r = turn_outcome ch (ClampAnger anger) d eng jr"
        using r(1) by (rule judge_Inr)
      ultimately show False using outcome_shape(3) [of ch "ClampAnger anger" d eng jr] r(2) False by simp
    qed
    then have lt: "anger + 5 < 90" using r(3) by simp
    then have "mvs \<noteq> []" using Cons.prems(3) by auto
    then have "play lib ch mvs (tr_anger r) (tr_themes r) \<noteq> [] \<and>
        tr_game_over (last (play lib ch mvs (tr_anger r) (tr_themes r)))"
      using Cons.prems lt r(3) by (intro Cons.IH) auto
    with r False show ?thesis by simp
  qed
qed simp

text \<open>C16: a run cannot be stalled by leaving the tension out: if the model never reports it and never lets the
  player through, the run that starts at the opening tension is lost within ten answered turns,
  whatever the player says and whatever else the answers hold.\<close>

theorem silent_model_still_ends_the_run:
  assumes "length mvs = 10" and "\<forall>mv \<in> set mvs. silent lib (mv_ask mv)"
  shows "play lib ch mvs StartAnger themes \<noteq> [] \<and> tr_game_over (last (play lib ch mvs StartAnger themes))"
  by (rule silent_run_ends [OF assms(2)]) (use assms(1) in \<open>auto simp: StartAnger_def\<close>)

section \<open>Where the lenient reading goes wrong\<close>

text \<open>
  A tension sent as an empty string is not ``treated as absent'': the pointer is set, to 0, so the
  turn ends with the calmest tension whatever it was before.
\<close>

theorem blank_tension_resets_the_scale:
  assumes "jl_reply lib content = Some raw" and "rr_anger raw = Some [34, 34]"
    and "rr_achieved raw = None" and "rr_game_over raw = None"
  shows "judge lib (\<lambda>_. Content content) ch transcript choice anger themes = Inr r \<Longrightarrow> tr_anger r = 0"
    and "\<exists>r. judge lib (\<lambda>_. Content content) ch transcript choice anger themes = Inr r"
proof -
  have nn: "[34, 34] \<noteq> ascii ''null''" by (simp add: ascii_def)
  have "flexInt (jl_float lib) 0 [34, 34] = Some 0"
    by (simp add: flexInt_def trim_space_def is_space_def trim_quotes_def)
  then have "read_answer lib content = Some \<lparr>jr_reply = rr_reply raw, jr_art = rr_art raw, jr_achieved = False,
      jr_game_over = False, jr_options = rr_options raw, jr_anger = Some 0, jr_themes = rr_themes raw\<rparr>"
    using assms nn by (simp add: read_answer_def decode_reply_def flag_field_def anger_field_def)
  then show "judge lib (\<lambda>_. Content content) ch transcript choice anger themes = Inr r \<Longrightarrow> tr_anger r = 0"
    and "\<exists>r. judge lib (\<lambda>_. Content content) ch transcript choice anger themes = Inr r"
    by (auto simp: judge_def Let_def turn_outcome_def ClampAnger_def MaxAnger_def)
qed

text \<open>
  The keys the salvage knows do not include \<^verbatim>\<open>themes_done\<close>: when a salvaged reply is short of
  options, the keys of the opened themes fill the gap, and are offered to the player.
\<close>

lemma collect_options_eq:
  "length out + have_n \<le> optionCount \<Longrightarrow>
     collect_options have_n out ss = out @ take (optionCount - have_n - length out) (filter (\<lambda>s. trim_space s \<noteq> []) ss)"
proof (induction ss arbitrary: out)
  case (Cons s ss)
  show ?case
  proof (cases "optionCount \<le> have_n + length out")
    case True
    with Cons.prems show ?thesis by simp
  next
    case False
    show ?thesis
    proof (cases "trim_space s = []")
      case True
      with False Cons show ?thesis by simp
    next
      case ne: False
      have "optionCount - have_n - length out = Suc (optionCount - have_n - length (out @ [s]))" using False by simp
      then show ?thesis using False ne Cons.IH [of "out @ [s]"] by simp
    qed
  qed
qed simp

theorem salvaged_options_can_be_theme_keys:
  assumes "decode_reply lib (escapeControlCharsInStrings content) = Some jr" and "trim_space (jr_reply jr) \<noteq> []"
    and "jr_options jr = []"
    and "jl_members lib (escapeControlCharsInStrings content) = Some [(ascii ''themes_done'', Some ks)]"
  shows "salvageJudgeReply lib content =
    Some (jr\<lparr>jr_options := take 4 (filter (\<lambda>s. trim_space s \<noteq> []) ks)\<rparr>)"
proof -
  have "ascii ''themes_done'' \<notin> set judgeReplyKeys" by (simp add: judgeReplyKeys_def inj_ascii)
  then have "strayOptions lib (escapeControlCharsInStrings content) 0 =
      take 4 (filter (\<lambda>s. trim_space s \<noteq> []) ks)"
    using assms(4) by (simp add: strayOptions_def collect_options_eq optionCount_def)
  then show ?thesis using assms(1-3) by (simp add: salvageJudgeReply_def Let_def optionCount_def)
qed

section \<open>Witnesses\<close>

definition demo_lib :: json_lib where
  "demo_lib = \<lparr>jl_reply = (\<lambda>c. if c = [] then None else Some \<lparr>rr_reply = c, rr_art = [], rr_achieved = None,
       rr_game_over = None, rr_options = [c, c, c, c, c], rr_anger = None, rr_themes = None\<rparr>),
     jl_members = (\<lambda>_. None), jl_float = (\<lambda>_. None)\<rparr>"

abbreviation mutter :: "chat_message list \<Rightarrow> answer" where
  "mutter \<equiv> (\<lambda>_. Content baba)"

lemma mutter_silent: "silent demo_lib mutter"
  by (simp add: silent_def read_answer_def decode_reply_def demo_lib_def flag_field_def anger_field_def)

theorem turn_is_well_formed_witness:
  "\<exists>r. judge demo_lib mutter dyadyaVanya [] baba 88 [ascii ''sahur''] = Inr r \<and> tr_anger r = 93 \<and>
     tr_game_over r \<and> tr_options r = [] \<and> tr_art r = ascii ''vanya_game_over_hits_us'' \<and>
     ascii ''sahur'' \<in> set (tr_themes r)"
proof -
  obtain r where r: "judge demo_lib mutter dyadyaVanya [] baba 88 [ascii ''sahur''] = Inr r"
    "\<not> tr_achieved r" "tr_anger r = min 100 (88 + 5)"
    by (rule silent_turn [OF mutter_silent, of 88]) simp_all
  have "clampThemes dyadyaVanya [ascii ''sahur''] = [ascii ''sahur'']"
    unfolding clampThemes_eq [OF vanya_ok] vanya_theme_keys
    by (simp add: named_def content_simps)
  moreover have "ch_game_over_art dyadyaVanya = ascii ''vanya_game_over_hits_us''" by (simp add: dyadyaVanya_def)
  ultimately show ?thesis
    using turn_is_well_formed [OF vanya_ok r(1)] r by auto
qed

theorem silent_model_still_ends_the_run_witness:
  "tr_game_over (last (play demo_lib dyadyaVanya
     (replicate 10 \<lparr>mv_transcript = baba_talk, mv_choice = drug, mv_ask = mutter\<rparr>) StartAnger []))"
  using silent_model_still_ends_the_run
    [of "replicate 10 \<lparr>mv_transcript = baba_talk, mv_choice = drug, mv_ask = mutter\<rparr>" demo_lib dyadyaVanya "[]"]
    mutter_silent by simp

end
