(* ===== verification/KhimkiRuns.thy ===== *)
theory KhimkiRuns
  imports KhimkiContent Database "HOL-Library.List_Lexorder" "HOL-Library.Product_Lexorder"
    "HOL-Library.Char_ord" "HOL-Library.Multiset"
begin

text \<open>
  Recorded runs of ``Smalltalk in Khimki'' and the four boards ranked from them
  (\<^verbatim>\<open>internal/gamekhimki/service.go\<close>, \<^verbatim>\<open>postgres_repository.go\<close>). A query without
  an \<^verbatim>\<open>ORDER BY\<close> lists the accounts in the order they first appear; the boards do not depend on it.
\<close>

section \<open>Types\<close>

definition maxSteps :: int where "maxSteps = 1000"
definition defaultLeaderboardLimit :: int where "defaultLeaderboardLimit = 20"
definition maxLeaderboardLimit :: int where "maxLeaderboardLimit = 100"

record run =
  ru_id :: string
  ru_account :: string
  ru_game :: string
  ru_character :: string
  ru_success :: bool
  ru_steps :: int
  ru_created :: int

datatype record_board = BoardLongestWin | BoardShortestWin | BoardLongestLoss | BoardShortestLoss

definition RecordBoards :: "record_board list" where
  "RecordBoards = [BoardLongestWin, BoardShortestWin, BoardLongestLoss, BoardShortestLoss]"

record player_records =
  pr_account :: string
  pr_plays :: int
  pr_wins :: int
  pr_losses :: int
  pr_longest_win :: "int option"
  pr_shortest_win :: "int option"
  pr_longest_loss :: "int option"
  pr_shortest_loss :: "int option"

record record_entry =
  re_account :: string
  re_steps :: int
  re_plays :: int
  re_wins :: int
  re_losses :: int

record player_stats =
  ps_successes :: int
  ps_plays :: int
  ps_best :: int

section \<open>The repository\<close>

definition record_run :: "string \<Rightarrow> string \<Rightarrow> string \<Rightarrow> string \<Rightarrow> bool \<Rightarrow> int \<Rightarrow> run op" where
  "record_run nid account game_key character_key success steps = statement (with_uuid account (\<lambda>a \<sigma>.
     if a \<notin> ar_id ` set (accounts \<sigma>) \<or> nid \<in> rn_id ` set (runs \<sigma>) \<or> steps < 0 \<or> 2 ^ 31 \<le> steps
     then (Inl EDb, \<sigma>)
     else (Inr \<lparr>ru_id = nid, ru_account = a, ru_game = game_key, ru_character = character_key,
                ru_success = success, ru_steps = steps, ru_created = clock \<sigma>\<rparr>,
           \<sigma>\<lparr>runs := runs \<sigma> @ [\<lparr>rn_id = nid, rn_account = a, rn_game = game_key, rn_character = character_key,
               rn_success = success, rn_steps = steps, rn_created = clock \<sigma>, rn_deleted = None\<rparr>]\<rparr>)))"

text \<open>The aggregates over a group; \<^verbatim>\<open>max\<close> and \<^verbatim>\<open>min\<close> of no row are \<^verbatim>\<open>NULL\<close>.\<close>

fun longest :: "int list \<Rightarrow> int option" where
  "longest [] = None"
| "longest (x # xs) = Some (fold max xs x)"

fun shortest :: "int list \<Rightarrow> int option" where
  "shortest [] = None"
| "shortest (x # xs) = Some (fold min xs x)"

definition live_runs :: "string \<Rightarrow> store \<Rightarrow> run_row list" where
  "live_runs game_key \<sigma> = filter (\<lambda>r. rn_game r = game_key \<and> rn_deleted r = None) (runs \<sigma>)"

definition records_of :: "run_row list \<Rightarrow> string \<Rightarrow> player_records" where
  "records_of rows a =
     (let own = filter (\<lambda>r. rn_account r = a) rows;
          won = map rn_steps (filter rn_success own); lost = map rn_steps (filter (\<lambda>r. \<not> rn_success r) own) in
      \<lparr>pr_account = a, pr_plays = int (length own), pr_wins = int (length won), pr_losses = int (length lost),
       pr_longest_win = longest won, pr_shortest_win = shortest won,
       pr_longest_loss = longest lost, pr_shortest_loss = shortest lost\<rparr>)"

definition repo_records :: "string \<Rightarrow> player_records list op" where
  "repo_records game_key = statement (\<lambda>\<sigma>.
     (Inr (map (records_of (live_runs game_key \<sigma>)) (remdups (map rn_account (live_runs game_key \<sigma>)))), \<sigma>))"

definition stats_for :: "string \<Rightarrow> string \<Rightarrow> player_stats op" where
  "stats_for game_key account = statement (with_uuid account (\<lambda>a \<sigma>.
     let own = filter (\<lambda>r. rn_account r = a) (live_runs game_key \<sigma>);
         won = map rn_steps (filter rn_success own) in
     (Inr \<lparr>ps_successes = int (length won), ps_plays = int (length own),
           ps_best = (case shortest won of None \<Rightarrow> 0 | Some s \<Rightarrow> s)\<rparr>, \<sigma>)))"

section \<open>The service\<close>

definition submit_run :: "string \<Rightarrow> string \<Rightarrow> string \<Rightarrow> string \<Rightarrow> bool \<Rightarrow> int \<Rightarrow> run op" where
  "submit_run nid account game_key character_key success steps =
     (case ContentFor game_key of
        None \<Rightarrow> return_op (Inl EUnknownGame)
      | Some g \<Rightarrow>
          if find_character g character_key = None then return_op (Inl EUnknownCharacter)
          else if steps < 0 \<or> maxSteps < steps then return_op (Inl EStepsRange)
          else record_run nid account game_key character_key success steps)"

definition board_steps :: "record_board \<Rightarrow> player_records \<Rightarrow> int option" where
  "board_steps b p =
     (case b of
        BoardLongestWin \<Rightarrow> pr_longest_win p
      | BoardShortestWin \<Rightarrow> pr_shortest_win p
      | BoardLongestLoss \<Rightarrow> pr_longest_loss p
      | BoardShortestLoss \<Rightarrow> pr_shortest_loss p)"

definition board_desc :: "record_board \<Rightarrow> bool" where
  "board_desc b \<longleftrightarrow> b = BoardLongestWin \<or> b = BoardLongestLoss"

definition entry_of :: "player_records \<Rightarrow> int \<Rightarrow> record_entry" where
  "entry_of p steps = \<lparr>re_account = pr_account p, re_steps = steps, re_plays = pr_plays p,
     re_wins = pr_wins p, re_losses = pr_losses p\<rparr>"

text \<open>
  The comparison of \<^verbatim>\<open>slices.SortFunc\<close> is by this key: the steps, downwards or upwards, then
  the account id. No two entries of a board share an account, so the order of the sorted list is
  determined although the sort is not stable.
\<close>

definition entry_key :: "record_board \<Rightarrow> record_entry \<Rightarrow> int \<times> string" where
  "entry_key b e = (if board_desc b then - re_steps e else re_steps e, re_account e)"

definition board_entries :: "record_board \<Rightarrow> player_records list \<Rightarrow> record_entry list" where
  "board_entries b records = List.map_filter (\<lambda>p. map_option (entry_of p) (board_steps b p)) records"

definition build_board :: "player_records list \<Rightarrow> int \<Rightarrow> record_board \<Rightarrow> record_entry list" where
  "build_board records limit b = take (nat limit) (sort_key (entry_key b) (board_entries b records))"

definition buildBoards :: "player_records list \<Rightarrow> int \<Rightarrow> (record_board \<times> record_entry list) list" where
  "buildBoards records limit = map (\<lambda>b. (b, build_board records limit b)) RecordBoards"

definition clamp_limit :: "int \<Rightarrow> int" where
  "clamp_limit limit =
     (let l = (if limit \<le> 0 then defaultLeaderboardLimit else limit) in
      if maxLeaderboardLimit < l then maxLeaderboardLimit else l)"

definition leaderboard :: "string \<Rightarrow> int \<Rightarrow> (record_board \<times> record_entry list) list op" where
  "leaderboard game_key limit =
     (if \<not> KnownGame game_key then return_op (Inl EUnknownGame)
      else and_then (repo_records game_key) (\<lambda>records. return_op (Inr (buildBoards records (clamp_limit limit)))))"

definition stats :: "string \<Rightarrow> string \<Rightarrow> player_stats op" where
  "stats game_key account =
     (if \<not> KnownGame game_key then return_op (Inl EUnknownGame) else stats_for game_key account)"

section \<open>Aggregates\<close>

lemma fold_min_snoc: "shortest (xs @ [y]) = Some (case shortest xs of None \<Rightarrow> y | Some m \<Rightarrow> min m y)"
  by (cases xs) (simp_all add: min.commute)

section \<open>Boards\<close>

lemma board_entries_eq: "board_entries b records =
    map (\<lambda>p. entry_of p (the (board_steps b p))) (filter (\<lambda>p. board_steps b p \<noteq> None) records)"
  by (auto simp: board_entries_def List.map_filter_def comp_def)

lemma re_account_entries: "map re_account (board_entries b records) =
    map pr_account (filter (\<lambda>p. board_steps b p \<noteq> None) records)"
  by (simp add: board_entries_eq entry_of_def)

lemma length_entries: "length (board_entries b records) = length (filter (\<lambda>p. board_steps b p \<noteq> None) records)"
  by (simp add: board_entries_eq)

lemma mset_entries: "mset records = mset records' \<Longrightarrow> mset (board_entries b records) = mset (board_entries b records')"
  by (simp add: board_entries_eq)

lemma inj_on_entry_key:
  assumes "distinct (map pr_account records)"
  shows "inj_on (entry_key b) (set (board_entries b records))"
proof -
  have "distinct (map re_account (board_entries b records))"
    unfolding re_account_entries using assms by (simp add: distinct_map_filter)
  then have "inj_on re_account (set (board_entries b records))" by (simp add: distinct_map)
  then show ?thesis by (intro inj_onI) (simp add: entry_key_def inj_onD)
qed

lemma distinct_entries: "distinct (map pr_account records) \<Longrightarrow> distinct (board_entries b records)"
  using re_account_entries [of b records] by (metis distinct_map distinct_map_filter)

lemma filter_one: "distinct l \<Longrightarrow> e \<in> set l \<Longrightarrow> filter (\<lambda>x. x = e) l = [e]"
  by (induction l) (auto simp: filter_empty_conv)

text \<open>
  a board ranks exactly the players who hold a record of its kind, most steps first on the two longest
  boards and fewest first on the others, equal counts by account id; it shows the best of them up
  to the limit, so that whoever is left out ranks behind everybody shown; and it is the same
  whatever order the database listed the players in.\<close>

theorem boards_rank_the_records:
  assumes "distinct (map pr_account records)" and "mset records' = mset records"
  shows "build_board records' limit b = build_board records limit b \<and>
    sorted (map (entry_key b) (build_board records limit b)) \<and>
    length (build_board records limit b) =
      min (nat limit) (length (filter (\<lambda>p. board_steps b p \<noteq> None) records)) \<and>
    set (build_board records limit b) \<subseteq> set (board_entries b records) \<and>
    (\<forall>e \<in> set (build_board records limit b). \<forall>f \<in> set (board_entries b records) - set (build_board records limit b).
      entry_key b e < entry_key b f)"
proof -
  let ?k = "entry_key b" and ?es = "board_entries b records"
  define s where "s = sort_key ?k ?es"
  have inj: "inj_on ?k (set ?es)" by (rule inj_on_entry_key [OF assms(1)])
  have "sort_key ?k (board_entries b records') = s"
    unfolding s_def
  proof (rule properties_for_sort_key)
    show "mset (sort_key ?k ?es) = mset (board_entries b records')" by (simp add: mset_entries [OF assms(2)])
    show "filter (\<lambda>x. ?k e = ?k x) (sort_key ?k ?es) = filter (\<lambda>x. ?k e = ?k x) (board_entries b records')"
      if "e \<in> set (sort_key ?k ?es)" for e
    proof -
      have m: "set ?es = set (board_entries b records')"
        using mset_entries [OF assms(2), of b] by (metis mset_eq_setD)
      have one: "filter (\<lambda>x. ?k e = ?k x) l = [e]" if d: "distinct l" and l: "set l = set ?es" for l
      proof -
        have "filter (\<lambda>x. ?k e = ?k x) l = filter (\<lambda>x. x = e) l"
          using inj l \<open>e \<in> set (sort_key ?k ?es)\<close> by (intro filter_cong) (auto simp: inj_on_def)
        also have "\<dots> = [e]"
          using filter_one [OF d] l \<open>e \<in> set (sort_key ?k ?es)\<close> by simp
        finally show ?thesis .
      qed
      have d: "distinct ?es" by (rule distinct_entries [OF assms(1)])
      then have "distinct (board_entries b records')"
        using mset_entries [OF assms(2), of b] by (metis mset_eq_imp_distinct_iff)
      then show ?thesis using one [of "sort_key ?k ?es"] one [of "board_entries b records'"] d m by simp
    qed
    show "sorted (map ?k (sort_key ?k ?es))" by simp
  qed
  then have same: "build_board records' limit b = build_board records limit b"
    by (simp add: build_board_def s_def)
  have b: "build_board records limit b = take (nat limit) s" by (simp add: build_board_def s_def)
  have srt: "sorted (map ?k s)" and st: "set s = set ?es" and ds: "distinct s" and ln: "length s = length ?es"
    using distinct_entries [OF assms(1), of b] by (simp_all add: s_def)
  have "?k e < ?k f" if "e \<in> set (take (nat limit) s)" and "f \<in> set ?es - set (take (nat limit) s)" for e f
  proof -
    have split: "s = take (nat limit) s @ drop (nat limit) s" by simp
    have f: "f \<in> set (drop (nat limit) s)" using that(2) st by (metis DiffD1 DiffD2 UnE set_append split)
    have "?k e \<le> ?k f" using srt that(1) f by (subst (asm) split) (auto simp: sorted_append simp del: append_take_drop_id)
    moreover have "?k e \<noteq> ?k f"
      using inj that st by (metis DiffD1 DiffD2 in_set_takeD inj_on_def)
    ultimately show ?thesis by simp
  qed
  moreover have "sorted (map ?k (take (nat limit) s))" using srt by (simp add: take_map [symmetric] sorted_wrt_take)
  moreover have "set (take (nat limit) s) \<subseteq> set ?es" using st set_take_subset by metis
  ultimately show ?thesis using same by (simp add: b ln length_entries min.commute)
qed

abbreviation rec_of :: "string \<Rightarrow> int \<Rightarrow> player_records" where
  "rec_of a n \<equiv> \<lparr>pr_account = a, pr_plays = 1, pr_wins = 1, pr_losses = 0, pr_longest_win = Some n,
     pr_shortest_win = Some n, pr_longest_loss = None, pr_shortest_loss = None\<rparr>"

theorem boards_rank_the_records_witness:
  "build_board [rec_of bob_id 3, rec_of ann_id 3] 1 BoardLongestWin =
   build_board [rec_of ann_id 3, rec_of bob_id 3] 1 BoardLongestWin \<and>
   length (build_board [rec_of ann_id 3, rec_of bob_id 3] 1 BoardLongestWin) = 1"
  using boards_rank_the_records [of "[rec_of ann_id 3, rec_of bob_id 3]" "[rec_of bob_id 3, rec_of ann_id 3]" 1
    BoardLongestWin]
  by (simp add: board_steps_def add_mset_commute)

section \<open>A submitted run\<close>

lemma live_runs_snoc: "live_runs g (\<sigma>\<lparr>runs := runs \<sigma> @ [r]\<rparr>) =
    live_runs g \<sigma> @ (if rn_game r = g \<and> rn_deleted r = None then [r] else [])"
  by (simp add: live_runs_def)

lemma submit_run_Inr:
  assumes "weather \<sigma> = []" and "submit_run nid account g c success steps \<sigma> = (Inr r, \<sigma>')"
  obtains a where "pg_uuid account = Some a" "g = GameSmalltalkKhimki" "0 \<le> steps" "steps \<le> 1000"
    "ru_account r = a" "ru_steps r = steps" "ru_success r = success" "a \<in> ar_id ` set (accounts \<sigma>)"
    "\<sigma>' = \<sigma>\<lparr>runs := runs \<sigma> @ [\<lparr>rn_id = nid, rn_account = a, rn_game = g, rn_character = c,
       rn_success = success, rn_steps = steps, rn_created = clock \<sigma>, rn_deleted = None\<rparr>]\<rparr>"
  using assms that
  by (auto simp: submit_run_def ContentFor_def return_op_def maxSteps_def record_run_def with_uuid_def
      split: if_splits option.splits)

text \<open>
  an accepted run is of the known game, with between 0 and 1000 steps, and counts once: the player's
  summary has one play more, one success more if it was won, and as best the fewest steps of a won
  run so far; everybody else's summary is as before, and a refused submission stores nothing.\<close>

theorem submitted_run_is_counted:
  assumes "weather \<sigma> = []" and "submit_run nid account g c success steps \<sigma> = (Inr r, \<sigma>')"
    and "fst (stats g account \<sigma>) = Inr before"
  shows "g = GameSmalltalkKhimki \<and> 0 \<le> steps \<and> steps \<le> 1000 \<and>
    fst (stats g account \<sigma>') = Inr \<lparr>ps_successes = ps_successes before + (if success then 1 else 0),
      ps_plays = ps_plays before + 1,
      ps_best = (if \<not> success then ps_best before
                 else if ps_successes before = 0 then steps else min (ps_best before) steps)\<rparr> \<and>
    (\<forall>other. pg_uuid other \<noteq> pg_uuid account \<longrightarrow> fst (stats g other \<sigma>') = fst (stats g other \<sigma>))"
proof -
  from assms(1,2) obtain a where a: "pg_uuid account = Some a" "g = GameSmalltalkKhimki" "0 \<le> steps" "steps \<le> 1000"
    and s': "\<sigma>' = \<sigma>\<lparr>runs := runs \<sigma> @ [\<lparr>rn_id = nid, rn_account = a, rn_game = g, rn_character = c,
       rn_success = success, rn_steps = steps, rn_created = clock \<sigma>, rn_deleted = None\<rparr>]\<rparr>"
    by (rule submit_run_Inr)
  have w: "weather \<sigma>' = []" using assms(1) by (simp add: s')
  have k: "KnownGame g" by (simp add: a KnownGame_def)
  define won where "won = map rn_steps (filter (\<lambda>r. rn_account r = a \<and> rn_success r) (live_runs g \<sigma>))"
  have len: "length (filter (\<lambda>r. rn_account r = a \<and> rn_success r) (live_runs g \<sigma>)) = length won"
    by (simp add: won_def)
  have b: "before = \<lparr>ps_successes = int (length won),
      ps_plays = int (length (filter (\<lambda>r. rn_account r = a) (live_runs g \<sigma>))),
      ps_best = (case shortest won of None \<Rightarrow> 0 | Some s \<Rightarrow> s)\<rparr>"
    using assms(1,3) k by (simp add: stats_def stats_for_def with_uuid_def a(1) Let_def won_def)
  have sh: "shortest won = None \<longleftrightarrow> won = []" by (cases won) simp_all
  have "fst (stats g account \<sigma>') = Inr \<lparr>ps_successes = ps_successes before + (if success then 1 else 0),
      ps_plays = ps_plays before + 1,
      ps_best = (if \<not> success then ps_best before
                 else if ps_successes before = 0 then steps else min (ps_best before) steps)\<rparr>"
  proof (cases success)
    case True
    have "(case shortest (won @ [steps]) of None \<Rightarrow> 0 | Some s \<Rightarrow> s) =
        (if won = [] then steps else min (case shortest won of None \<Rightarrow> 0 | Some s \<Rightarrow> s) steps)"
      using sh by (auto simp: fold_min_snoc split: option.split)
    then show ?thesis
      using w k True by (simp add: stats_def stats_for_def with_uuid_def a(1) Let_def b s' live_runs_snoc won_def [symmetric] len)
  next
    case False
    then show ?thesis
      using w k by (simp add: stats_def stats_for_def with_uuid_def a(1) Let_def b s' live_runs_snoc won_def [symmetric] len)
  qed
  moreover have "fst (stats g other \<sigma>') = fst (stats g other \<sigma>)" if "pg_uuid other \<noteq> pg_uuid account" for other
    using that w k assms(1) a(1)
    by (auto simp: stats_def stats_for_def with_uuid_def Let_def s' live_runs_snoc split: option.split)
  ultimately show ?thesis using a by blast
qed

lemma refused_run_stores_nothing:
  assumes "submit_run nid account g c success steps \<sigma> = (Inl err, \<sigma>')" and "weather \<sigma> = []"
  shows "\<sigma>' = \<sigma>"
  using assms by (auto simp: submit_run_def return_op_def record_run_def with_uuid_def split: option.splits if_splits)

definition run_store :: store where
  "run_store = empty_store\<lparr>accounts := [plain_account ann_id ''user'' ''approved'' ''vk'' ''ra'']\<rparr>"

lemma ann_uuid: "pg_uuid ann_id = Some ann_id"
  using demo_uuids(1) by (simp add: canonical_def)

theorem submitted_run_is_counted_witness:
  "\<exists>r \<sigma>'. submit_run sess_id ann_id ''smalltalk_khimki'' ''dyadya_vanya'' True 7 run_store = (Inr r, \<sigma>') \<and>
     fst (stats ''smalltalk_khimki'' ann_id \<sigma>') = Inr \<lparr>ps_successes = 1, ps_plays = 1, ps_best = 7\<rparr>"
proof -
  have w: "weather run_store = []" by (simp add: run_store_def empty_store_def)
  have "\<exists>r \<sigma>'. submit_run sess_id ann_id ''smalltalk_khimki'' ''dyadya_vanya'' True 7 run_store = (Inr r, \<sigma>')"
    by (simp add: submit_run_def ContentFor_def GameSmalltalkKhimki_def find_character_def smalltalkKhimki_def
        dyadyaVanya_def maxSteps_def record_run_def with_uuid_def ann_uuid run_store_def empty_store_def plain_account_def)
  then obtain r \<sigma>' where r: "submit_run sess_id ann_id ''smalltalk_khimki'' ''dyadya_vanya'' True 7 run_store = (Inr r, \<sigma>')"
    by blast
  have "fst (stats ''smalltalk_khimki'' ann_id run_store) = Inr \<lparr>ps_successes = 0, ps_plays = 0, ps_best = 0\<rparr>"
    by (simp add: stats_def KnownGame_def GameSmalltalkKhimki_def stats_for_def with_uuid_def ann_uuid w)
      (simp add: run_store_def empty_store_def live_runs_def)
  from submitted_run_is_counted [OF w r this] r show ?thesis by (auto simp: GameSmalltalkKhimki_def)
qed

end
