(* ===== verification/HttpKhimki.thy ===== *)
theory HttpKhimki
  imports GameAssets HttpWishlist KhimkiJudge KhimkiRuns
begin

text \<open>
  The routes of ``Smalltalk in Khimki'' (\<^verbatim>\<open>internal/httpapi/gamekhimki.go\<close>), each behind
  \<^verbatim>\<open>requireAuth\<close>. A body that does not decode is \<open>None\<close>.
\<close>

section \<open>The public catalogue\<close>

text \<open>What the JSON tags let out of a character and a game.\<close>

record public_character =
  pc_key :: string
  pc_name :: runes
  pc_goal :: runes
  pc_greeting :: runes
  pc_openings :: "runes list"
  pc_arts :: "art list"

record public_game =
  pg_key :: string
  pg_title :: runes
  pg_intro :: runes
  pg_default :: string
  pg_max_anger :: int
  pg_anger_lose_at :: int
  pg_start_anger :: int
  pg_characters :: "public_character list"

definition public_character_of :: "character \<Rightarrow> public_character" where
  "public_character_of c = \<lparr>pc_key = ch_key c, pc_name = ch_name c, pc_goal = ch_goal c,
     pc_greeting = ch_greeting c, pc_openings = ch_openings c, pc_arts = ch_arts c\<rparr>"

definition public_game_of :: "game \<Rightarrow> public_game" where
  "public_game_of g = \<lparr>pg_key = gm_key g, pg_title = gm_title g, pg_intro = gm_intro g,
     pg_default = gm_default g, pg_max_anger = gm_max_anger g, pg_anger_lose_at = gm_anger_lose_at g,
     pg_start_anger = gm_start_anger g, pg_characters = map public_character_of (gm_characters g)\<rparr>"

definition GameAssetPath :: runes where
  "GameAssetPath = ascii ''/api/game-assets/''"

definition art_image :: "string \<Rightarrow> runes list \<Rightarrow> art \<Rightarrow> art" where
  "art_image game_key present a =
     (if at_key a \<in> set present
      then a\<lparr>at_image := GameAssetPath @ ascii game_key @ ascii ''/'' @ at_key a\<rparr> else a)"

text \<open>\<open>configured\<close> says whether there is an asset store; a failed lookup advertises no images.\<close>

definition handle_khimki_config :: "bool \<Rightarrow> string \<Rightarrow> store \<Rightarrow> public_game response \<times> store" where
  "handle_khimki_config configured game_key \<sigma> =
     (case ContentFor game_key of
        None \<Rightarrow> (Failure 404 ''unknown_game'', \<sigma>)
      | Some g \<Rightarrow>
          (let (r, \<sigma>1) = (if configured then present_keys (gm_key g) \<sigma> else (Inr [], \<sigma>));
               present = (case r of Inl err \<Rightarrow> [] | Inr ks \<Rightarrow> ks);
               g' = g\<lparr>gm_characters := map (\<lambda>c. c\<lparr>ch_arts := map (art_image (gm_key g) present) (ch_arts c)\<rparr>)
                 (gm_characters g)\<rparr> in
           (Success 200 (public_game_of g'), \<sigma>1)))"

section \<open>A turn\<close>

record attempt_req =
  aq_game :: string
  aq_character :: string
  aq_transcript :: "exchange list"
  aq_choice :: runes
  aq_anger :: "int option"
  aq_themes :: "runes list"

definition judge_failure :: "app_error \<Rightarrow> 'b response" where
  "judge_failure err =
     (if err = EUnknownGame then Failure 404 ''unknown_game''
      else if err = EUnknownCharacter then Failure 404 ''unknown_character''
      else if err = ELlmUnparsable then Failure 422 ''llm_unparsable''
      else Failure 502 ''llm_error'')"

definition handle_khimki_attempt ::
  "bool \<Rightarrow> json_lib \<Rightarrow> (chat_message list \<Rightarrow> answer) \<Rightarrow> attempt_req option \<Rightarrow> turn_result response" where
  "handle_khimki_attempt enabled lib ask body =
     (if \<not> enabled then Failure 503 ''llm_not_configured''
      else case body of
        None \<Rightarrow> Failure 400 ''bad_request''
      | Some req \<Rightarrow>
          (let anger = (case aq_anger req of None \<Rightarrow> StartAnger | Some a \<Rightarrow> a) in
           case service_judge lib ask (aq_game req) (aq_character req) (aq_transcript req) (aq_choice req) anger
               (aq_themes req) of
             Inl err \<Rightarrow> judge_failure err
           | Inr r \<Rightarrow> Success 200 r))"

section \<open>Runs and boards\<close>

record submit_req =
  sq_game :: string
  sq_character :: string
  sq_success :: bool
  sq_steps :: int

definition submit_failure :: "app_error \<Rightarrow> 'b response" where
  "submit_failure err =
     (if err = EUnknownGame then Failure 404 ''unknown_game''
      else if err = EUnknownCharacter then Failure 404 ''unknown_character''
      else if err = EStepsRange then Failure 422 ''steps_range''
      else Failure 500 ''internal'')"

definition handle_khimki_submit :: "string \<Rightarrow> submit_req option \<Rightarrow> account \<Rightarrow> store \<Rightarrow> run response \<times> store" where
  "handle_khimki_submit nid body viewer \<sigma> =
     (case body of
        None \<Rightarrow> (Failure 400 ''bad_request'', \<sigma>)
      | Some req \<Rightarrow>
          (case submit_run nid (ac_id viewer) (sq_game req) (sq_character req) (sq_success req) (sq_steps req) \<sigma> of
             (Inl err, \<sigma>1) \<Rightarrow> (submit_failure err, \<sigma>1)
           | (Inr r, \<sigma>1) \<Rightarrow> (Success 201 r, \<sigma>1)))"

text \<open>
  \<^verbatim>\<open>limit, _ := strconv.Atoi(...)\<close>: a number out of range comes back as the nearest one in range,
  anything else as 0.
\<close>

definition limit_param :: "runes \<Rightarrow> int" where
  "limit_param s =
     (case atoi s of
        Some n \<Rightarrow> n
      | None \<Rightarrow>
          (let neg = (s \<noteq> [] \<and> hd s = 45); ds = (if s \<noteq> [] \<and> (hd s = 45 \<or> hd s = 43) then tl s else s) in
           if ds = [] \<or> \<not> list_all digit ds then 0 else if neg then - (2 ^ 63) else 2 ^ 63 - 1))"

record board_row =
  br_player :: author_view
  br_steps :: int
  br_plays :: int
  br_wins :: int
  br_losses :: int
  br_mine :: bool

definition board_row_of :: "account \<Rightarrow> (string \<times> account) list \<Rightarrow> record_entry \<Rightarrow> board_row" where
  "board_row_of viewer players e =
     \<lparr>br_player = author_of players (re_account e), br_steps = re_steps e, br_plays = re_plays e,
      br_wins = re_wins e, br_losses = re_losses e, br_mine = (re_account e = ac_id viewer)\<rparr>"

text \<open>\<open>ord\<close> is the order in which the range over the boards visits them to look the players up.\<close>

definition handle_khimki_leaderboard ::
  "vault \<Rightarrow> record_board list \<Rightarrow> string \<Rightarrow> runes \<Rightarrow> account \<Rightarrow> store \<Rightarrow>
     (record_board \<times> board_row list) list response \<times> store" where
  "handle_khimki_leaderboard v ord game_key limit viewer \<sigma> =
     (case leaderboard game_key (limit_param limit) \<sigma> of
        (Inl err, \<sigma>1) \<Rightarrow> (if err = EUnknownGame then Failure 404 ''unknown_game'' else Failure 500 ''internal'', \<sigma>1)
      | (Inr boards, \<sigma>1) \<Rightarrow>
          (let entries = (\<lambda>b. case map_of boards b of None \<Rightarrow> [] | Some es \<Rightarrow> es);
               (players, \<sigma>2) = load_authors v (map re_account (concat (map entries ord))) [] \<sigma>1 in
           (Success 200 (map (\<lambda>b. (b, map (board_row_of viewer players) (entries b))) RecordBoards), \<sigma>2)))"

definition handle_khimki_stats :: "string \<Rightarrow> account \<Rightarrow> store \<Rightarrow> player_stats response \<times> store" where
  "handle_khimki_stats game_key viewer \<sigma> =
     (case stats game_key (ac_id viewer) \<sigma> of
        (Inl err, \<sigma>1) \<Rightarrow> (if err = EUnknownGame then Failure 404 ''unknown_game'' else Failure 500 ''internal'', \<sigma>1)
      | (Inr st, \<sigma>1) \<Rightarrow> (Success 200 st, \<sigma>1))"

section \<open>Properties\<close>

lemma only_vanya:
  assumes "ContentFor g = Some gm" and "find_character gm c = Some ch"
  shows "ch = dyadyaVanya"
  using assms by (auto simp: ContentFor_def find_character_def smalltalkKhimki_def split: if_splits)

lemma judge_errors:
  "judge lib ask ch transcript choice anger themes = Inl err \<Longrightarrow> err = ELlm \<or> err = ELlmUnparsable"
  by (auto simp: judge_def Let_def split: answer.splits option.splits)

lemma service_judge_cases:
  obtains "service_judge lib ask g c tr choice anger themes = Inl EUnknownGame"
  | "service_judge lib ask g c tr choice anger themes = Inl EUnknownCharacter"
  | "service_judge lib ask g c tr choice anger themes = judge lib ask dyadyaVanya tr choice anger themes"
proof (cases "ContentFor g")
  case None
  then show ?thesis using that by (simp add: service_judge_def)
next
  case g: (Some gm)
  show ?thesis
  proof (cases "find_character gm c")
    case None
    then show ?thesis using g that by (simp add: service_judge_def)
  next
    case (Some ch)
    then show ?thesis using g that only_vanya [OF g Some] by (simp add: service_judge_def)
  qed
qed

text \<open>C17: a turn asked for over HTTP is answered by a turn a client can draw, or by one of six errors. On
  success the tension is on the scale, the run is not both won and lost, an ended run offers
  nothing, and the art is in the catalogue; the player is told to say something else (422) only if
  the model answered something that neither decodes nor can be salvaged.\<close>

theorem attempt_is_a_legal_turn_or_a_named_error:
  "case handle_khimki_attempt enabled lib ask body of
     Success st r \<Rightarrow> st = 200 \<and> enabled \<and> 0 \<le> tr_anger r \<and> tr_anger r \<le> MaxAnger \<and>
       \<not> (tr_achieved r \<and> tr_game_over r) \<and> length (tr_options r) \<le> 4 \<and>
       (tr_options r = [] \<or> \<not> tr_achieved r \<and> \<not> tr_game_over r) \<and> tr_art r \<in> set (art_keys dyadyaVanya)
   | Failure st code \<Rightarrow>
       (st, code) \<in> {(503, ''llm_not_configured''), (400, ''bad_request''), (404, ''unknown_game''),
         (404, ''unknown_character''), (422, ''llm_unparsable''), (502, ''llm_error'')} \<and>
       (st \<noteq> 422 \<or> (\<exists>msgs content. ask msgs = Content content \<and> read_answer lib content = None))"
proof (cases "enabled \<and> body \<noteq> None")
  case False
  then show ?thesis by (auto simp: handle_khimki_attempt_def)
next
  case True
  then obtain req where req: "body = Some req" and en: "enabled" by auto
  define anger where "anger = (case aq_anger req of None \<Rightarrow> StartAnger | Some a \<Rightarrow> a)"
  let ?j = "service_judge lib ask (aq_game req) (aq_character req) (aq_transcript req) (aq_choice req) anger (aq_themes req)"
  have h: "handle_khimki_attempt enabled lib ask body =
      (case ?j of Inl err \<Rightarrow> judge_failure err | Inr r \<Rightarrow> Success 200 r)"
    by (simp add: handle_khimki_attempt_def req en anger_def)
  show ?thesis
  proof (rule service_judge_cases [of lib ask "aq_game req" "aq_character req" "aq_transcript req" "aq_choice req"
        anger "aq_themes req"])
    assume j: "?j = judge lib ask dyadyaVanya (aq_transcript req) (aq_choice req) anger (aq_themes req)"
    show ?thesis
    proof (cases ?j)
      case (Inr r)
      then obtain jr d eng where r: "r = turn_outcome dyadyaVanya (ClampAnger anger) d eng jr"
        unfolding j by (rule judge_Inr)
      have "length (tr_options r) \<le> 4" "tr_options r = [] \<or> \<not> tr_achieved r \<and> \<not> tr_game_over r"
        by (simp_all add: r outcome_shape(4))
      then show ?thesis
        using outcome_shape(1,2) [of dyadyaVanya "ClampAnger anger" d eng jr, folded r]
          outcome_art(1) [OF vanya_ok, of "ClampAnger anger" d eng jr, folded r] en
        unfolding h Inr by (simp add: MaxAnger_def)
    next
      case (Inl err)
      then have e: "judge lib ask dyadyaVanya (aq_transcript req) (aq_choice req) anger (aq_themes req) = Inl err"
        by (simp add: j)
      from judge_errors [OF this] consider "err = ELlm" | "err = ELlmUnparsable" by blast
      then show ?thesis
      proof cases
        case 1
        then show ?thesis by (simp add: h Inl judge_failure_def)
      next
        case 2
        have "\<exists>msgs content. ask msgs = Content content \<and> read_answer lib content = None"
          using e unfolding 2 judge_def Let_def by (auto split: answer.splits option.splits)
        with 2 show ?thesis by (simp add: h Inl judge_failure_def)
      qed
    qed
  qed (simp_all add: h judge_failure_def)
qed

definition demo_attempt :: attempt_req where
  "demo_attempt = \<lparr>aq_game = GameSmalltalkKhimki, aq_character = ''dyadya_vanya'', aq_transcript = [],
     aq_choice = baba, aq_anger = None, aq_themes = []\<rparr>"

theorem attempt_is_a_legal_turn_or_a_named_error_witness:
  "\<exists>r. handle_khimki_attempt True demo_lib mutter (Some demo_attempt) = Success 200 r \<and>
     tr_anger r = 45 \<and> tr_art r \<in> set (art_keys dyadyaVanya)"
proof -
  obtain r where r: "judge demo_lib mutter dyadyaVanya [] baba StartAnger [] = Inr r" "tr_anger r = min 100 (StartAnger + 5)"
    by (rule silent_turn [OF mutter_silent, of StartAnger]) (auto simp: StartAnger_def)
  have "find_character smalltalkKhimki ''dyadya_vanya'' = Some dyadyaVanya"
    by (simp add: find_character_def smalltalkKhimki_def dyadyaVanya_def)
  then have "handle_khimki_attempt True demo_lib mutter (Some demo_attempt) = Success 200 r"
    using r(1) by (simp add: handle_khimki_attempt_def demo_attempt_def service_judge_def ContentFor_def)
  with attempt_is_a_legal_turn_or_a_named_error
    [where enabled = True and lib = demo_lib and ask = mutter and body = "Some demo_attempt"] r(2)
  show ?thesis by (simp add: StartAnger_def)
qed

end
