(* ===== verification/Float64.thy ===== *)
theory Float64
  imports Prelude Complex_Main
begin

text \<open>
  \<^verbatim>\<open>float64\<close> as the games use it. A finite double is a rational number, and every
  operation of the code is the exact operation rounded to the nearest double, ties to the even
  significand (\<open>fl\<close>); comparisons, \<^verbatim>\<open>math.Min\<close>, \<^verbatim>\<open>math.Max\<close> and negation are
  exact. Not represented: signed zero, and overflow and underflow, which no quantity of the games
  comes near (the exponent is unbounded here). Constant expressions of the source are exact until
  they are used, so they are rounded once.
\<close>

type_synonym f64 = rat

section \<open>Rounding to the nearest integer, ties to even\<close>

definition rne :: "rat \<Rightarrow> int" where
  "rne x = (let n = \<lfloor>x\<rfloor>; r = x - of_int n in
     if r < 1 / 2 then n else if 1 / 2 < r then n + 1 else if even n then n else n + 1)"

lemma rne_of_int [simp]: "rne (of_int n) = n"
  by (simp add: rne_def)

lemma rne_bounds: "\<bar>of_int (rne x) - x\<bar> \<le> 1 / 2"
proof -
  obtain n where n: "\<lfloor>x\<rfloor> = n" by blast
  have "of_int n \<le> x" "x < of_int n + 1" unfolding n [symmetric] by linarith+
  then show ?thesis by (auto simp: rne_def n Let_def abs_if)
qed

lemma rne_mono: "x \<le> y \<Longrightarrow> rne x \<le> rne y"
proof -
  assume le: "x \<le> y"
  have fx: "of_int \<lfloor>x\<rfloor> \<le> x" "x < of_int \<lfloor>x\<rfloor> + 1" by linarith+
  have fy: "of_int \<lfloor>y\<rfloor> \<le> y" "y < of_int \<lfloor>y\<rfloor> + 1" by linarith+
  have "\<lfloor>x\<rfloor> \<le> \<lfloor>y\<rfloor>" using le by (rule floor_mono)
  then consider "\<lfloor>x\<rfloor> = \<lfloor>y\<rfloor>" | "\<lfloor>x\<rfloor> + 1 \<le> \<lfloor>y\<rfloor>" by linarith
  then show ?thesis
  proof cases
    case 1
    then show ?thesis using le by (auto simp: rne_def Let_def)
  next
    case 2
    then show ?thesis by (auto simp: rne_def Let_def)
  qed
qed

lemma rne_le_int: "x \<le> of_int n \<Longrightarrow> rne x \<le> n"
  using rne_mono [of x "of_int n"] by simp

lemma int_le_rne: "of_int n \<le> x \<Longrightarrow> n \<le> rne x"
  using rne_mono [of "of_int n" x] by simp

section \<open>The binary exponent\<close>

lemma powi_less_iff [simp]: "(2::rat) powi i < 2 powi j \<longleftrightarrow> i < j"
proof -
  have inc: "a < b \<Longrightarrow> (2::rat) powi a < 2 powi b" for a b :: int
    by (rule power_int_strict_increasing) simp_all
  show ?thesis using inc [of i j] inc [of j i] by (cases i j rule: linorder_cases) auto
qed

lemma powi_le_iff [simp]: "(2::rat) powi i \<le> 2 powi j \<longleftrightarrow> i \<le> j"
  by (simp flip: not_less)

text \<open>\<open>2 powi lg x\<close> is the largest power of two not above a positive \<open>x\<close>.\<close>

fun bits :: "int \<Rightarrow> int" where
  "bits n = (if n \<le> 0 then 0 else 1 + bits (n div 2))"

declare bits.simps [simp del]

definition lg :: "rat \<Rightarrow> int" where
  "lg x = (let (n, d) = quotient_of x; k = bits n - bits d in if 2 powi k \<le> x then k else k - 1)"

lemma bits_bounds:
  assumes "0 < n" shows "2 powi (bits n - 1) \<le> (of_int n :: rat)" and "(of_int n :: rat) < 2 powi bits n"
proof -
  have "2 powi (bits n - 1) \<le> (of_int n :: rat) \<and> (of_int n :: rat) < 2 powi bits n"
    using assms
  proof (induction n rule: bits.induct)
    case (1 n)
    show ?case
    proof (cases "n div 2 = 0")
      case True
      then have "n = 1" using 1(2) by linarith
      moreover have "bits 1 = 1" by (simp add: bits.simps)
      ultimately show ?thesis by simp
    next
      case False
      let ?m = "n div 2"
      have "0 < ?m" using False 1(2) by linarith
      then have ih: "2 powi (bits ?m - 1) \<le> (of_int ?m :: rat)" "(of_int ?m :: rat) < 2 powi bits ?m"
        using 1 by auto
      have b: "bits n = 1 + bits ?m" using 1(2) bits.simps [of n] by simp
      have nonneg: "0 \<le> bits ?m"
      proof (rule ccontr)
        assume "\<not> ?thesis"
        then have "(2::rat) powi bits ?m \<le> 2 powi 0" by (simp only: powi_le_iff)
        then show False using ih(2) \<open>0 < ?m\<close> by simp
      qed
      have p: "(2::rat) powi bits ?m = of_int (2 ^ nat (bits ?m))" using nonneg by (simp add: power_int_def)
      have "?m < 2 ^ nat (bits ?m)" using ih(2) unfolding p by (simp only: of_int_less_iff)
      then have "n < 2 * 2 ^ nat (bits ?m)" by linarith
      then have "(of_int n :: rat) < of_int (2 * 2 ^ nat (bits ?m))" by (simp only: of_int_less_iff)
      then have "(of_int n :: rat) < 2 powi bits n" unfolding b using p by (simp add: power_int_add)
      moreover have "2 * of_int ?m \<le> (of_int n :: rat)"
        using of_int_le_iff [of "2 * ?m" n, where ?'a = rat] by simp
      then have "2 powi (bits n - 1) \<le> (of_int n :: rat)"
        using ih(1) unfolding b by (simp add: power_int_diff)
      ultimately show ?thesis by simp
    qed
  qed
  then show "2 powi (bits n - 1) \<le> (of_int n :: rat)" and "(of_int n :: rat) < 2 powi bits n" by simp_all
qed

lemma lg_bounds:
  assumes "0 < x" shows "2 powi lg x \<le> x" and "x < 2 powi (lg x + 1)"
proof -
  obtain n d where q: "quotient_of x = (n, d)" by fastforce
  have d: "0 < d" and x: "x = of_int n / of_int d"
    using quotient_of_denom_pos [OF q] quotient_of_div [OF q] by auto
  have n: "0 < n" using assms d unfolding x by (simp add: zero_less_divide_iff)
  define k where "k = bits n - bits d"
  have l: "lg x = (if 2 powi k \<le> x then k else k - 1)" by (simp add: lg_def q k_def)
  note bn = bits_bounds [OF n] and bd = bits_bounds [OF d]
  have dp: "(0::rat) < of_int d" using d by simp
  have p2: "(0::rat) < 2 powi i" for i :: int by (rule zero_less_power_int) simp
  have add: "(2::rat) powi (i + j) = 2 powi i * 2 powi j" for i j :: int by (simp add: power_int_add)
  have "(2::rat) powi (k - 1) * of_int d \<le> 2 powi (k - 1) * 2 powi bits d"
    using bd(2) p2 [of "k - 1"] by (intro mult_left_mono) auto
  also have "\<dots> = 2 powi (bits n - 1)" by (simp add: add [symmetric] k_def)
  also note bn(1)
  finally have lo: "2 powi (k - 1) \<le> x" using dp unfolding x by (simp add: pos_le_divide_eq)
  have "(of_int n :: rat) < 2 powi (k + 1) * 2 powi (bits d - 1)"
    using bn(2) by (simp add: add [symmetric] k_def)
  also have "\<dots> \<le> 2 powi (k + 1) * of_int d" using bd(1) p2 [of "k + 1"] by (intro mult_left_mono) auto
  finally have hi: "x < 2 powi (k + 1)" using dp unfolding x by (simp add: pos_divide_less_eq)
  show "2 powi lg x \<le> x" and "x < 2 powi (lg x + 1)" using lo hi l by (auto split: if_splits)
qed

lemma lg_unique:
  assumes "2 powi k \<le> x" and "x < 2 powi (k + 1)" shows "lg x = k"
proof -
  have "0 < x" using assms(1) zero_less_power_int [of "2::rat" k] by linarith
  note b = lg_bounds [OF this]
  have "2 powi lg x < (2::rat) powi (k + 1)" "2 powi k < (2::rat) powi (lg x + 1)" using assms b by linarith+
  then have "lg x < k + 1" "k < lg x + 1" by simp_all
  then show ?thesis by simp
qed

lemma lg_mono:
  assumes "0 < x" and "x \<le> y" shows "lg x \<le> lg y"
proof -
  have "2 powi lg x < (2::rat) powi (lg y + 1)" using lg_bounds [of x] lg_bounds [of y] assms by linarith
  then show ?thesis by simp
qed

section \<open>Rounding to 53 significant bits\<close>

definition ulp :: "rat \<Rightarrow> rat" where
  "ulp x = 2 powi (lg x - 52)"

definition fl :: "rat \<Rightarrow> f64" where
  "fl x = (if x = 0 then 0
     else if 0 < x then of_int (rne (x / ulp x)) * ulp x
     else - (of_int (rne (- x / ulp (- x))) * ulp (- x)))"

lemma ulp_pos [simp]: "0 < ulp x"
  by (simp add: ulp_def)

lemma ulp_nonzero [simp]: "ulp x \<noteq> 0"
  using ulp_pos [of x] by linarith

lemma fl_zero [simp]: "fl 0 = 0"
  by (simp add: fl_def)

lemma fl_minus [simp]: "fl (- x) = - fl x"
  by (auto simp: fl_def)

lemma fl_pos_eq: "0 < x \<Longrightarrow> fl x = of_int (rne (x / ulp x)) * ulp x"
  by (simp add: fl_def)

text \<open>A number of at most 53 significant bits is its own rounding.\<close>

lemma fl_exact_pos:
  assumes "0 < m" and "m \<le> 2 ^ 53" shows "fl (of_int m * 2 powi e) = of_int m * 2 powi e"
proof -
  let ?x = "of_int m * 2 powi e :: rat"
  have p: "(0::rat) < 2 powi e" by (rule zero_less_power_int) simp
  have pos: "0 < ?x" using assms(1) p by simp
  have "?x \<le> of_int (2 ^ 53) * 2 powi e" using assms(2) p by (intro mult_right_mono) (auto simp only: of_int_le_iff)
  also have "\<dots> = 2 powi (53 + e)" by (simp add: power_int_add)
  finally have le: "?x \<le> 2 powi (53 + e)" .
  show ?thesis
  proof (cases "?x = 2 powi (53 + e)")
    case True
    have "lg ?x = 53 + e" unfolding True by (rule lg_unique) simp_all
    then have "?x / ulp ?x = of_int (2 ^ 52)" unfolding ulp_def True by (simp add: power_int_diff power_int_add)
    then show ?thesis using pos ulp_pos [of ?x] unfolding fl_pos_eq [OF pos] by (metis rne_of_int nonzero_divide_eq_eq less_irrefl)
  next
    case False
    then have "2 powi lg ?x < (2::rat) powi (53 + e)" using le lg_bounds [OF pos] by linarith
    then have l: "lg ?x - 52 \<le> e" by simp
    define j where "j = nat (e - (lg ?x - 52))"
    have "e = int j + (lg ?x - 52)" using l by (simp add: j_def)
    then have "(2::rat) powi e = 2 powi (int j + (lg ?x - 52))" by (rule arg_cong)
    then have pe: "(2::rat) powi e = 2 ^ j * ulp ?x" by (simp add: power_int_add ulp_def)
    have "?x = of_int m * (2 ^ j * ulp ?x)" by (rule arg_cong [OF pe])
    then have "?x / ulp ?x = of_int (m * 2 ^ j)" using ulp_pos [of ?x] by (simp only: nonzero_divide_eq_eq) simp
    then show ?thesis using ulp_pos [of ?x] unfolding fl_pos_eq [OF pos] by (metis rne_of_int nonzero_divide_eq_eq less_irrefl)
  qed
qed

lemma fl_exact:
  assumes "\<bar>m\<bar> \<le> 2 ^ 53" shows "fl (of_int m * 2 powi e) = of_int m * 2 powi e"
proof (cases m "0 :: int" rule: linorder_cases)
  case less
  then show ?thesis using fl_exact_pos [of "- m" e] assms fl_minus [of "of_int m * 2 powi e"] by simp
next
  case greater
  then show ?thesis using fl_exact_pos [of m e] assms by simp
qed simp

lemma fl_int: "\<bar>m\<bar> \<le> 2 ^ 53 \<Longrightarrow> fl (of_int m) = of_int m"
  using fl_exact [of m 0] by simp

section \<open>Monotonicity and accuracy\<close>

text \<open>The rounding of a positive number stays in the closed binade it comes from.\<close>

lemma fl_binade:
  assumes "0 < x" shows "2 powi lg x \<le> fl x" and "fl x \<le> 2 powi (lg x + 1)"
proof -
  note b = lg_bounds [OF assms]
  have w: "2 powi lg x = of_int (2 ^ 52) * ulp x" "2 powi (lg x + 1) = of_int (2 ^ 53) * ulp x"
    by (simp_all add: ulp_def power_int_add power_int_diff)
  have lo: "of_int (2 ^ 52) \<le> x / ulp x" and hi: "x / ulp x \<le> of_int (2 ^ 53)"
    using b unfolding w by (simp_all add: pos_le_divide_eq pos_divide_le_eq)
  from int_le_rne [OF lo] rne_le_int [OF hi]
  have "(of_int (2 ^ 52) :: rat) \<le> of_int (rne (x / ulp x))" "(of_int (rne (x / ulp x)) :: rat) \<le> of_int (2 ^ 53)"
    by (simp_all only: of_int_le_iff)
  then show "2 powi lg x \<le> fl x" and "fl x \<le> 2 powi (lg x + 1)"
    unfolding w fl_pos_eq [OF assms] by (simp_all only: mult_le_cancel_right_pos ulp_pos)
qed

lemma fl_pos: "0 < x \<Longrightarrow> 0 < fl x"
  by (rule less_le_trans [OF zero_less_power_int fl_binade(1)]) simp_all

lemma fl_mono_pos:
  assumes "0 < x" and "x \<le> y" shows "fl x \<le> fl y"
proof (cases "lg x = lg y")
  case True
  then have u: "ulp x = ulp y" by (simp add: ulp_def)
  have "x / ulp y \<le> y / ulp y" using assms by (simp add: divide_right_mono less_imp_le)
  from rne_mono [OF this] show ?thesis using assms u by (simp add: fl_pos_eq)
next
  case False
  then have "lg x + 1 \<le> lg y" using lg_mono [OF assms] by simp
  then have "(2::rat) powi (lg x + 1) \<le> 2 powi lg y" by simp
  then show ?thesis using fl_binade(2) [of x] fl_binade(1) [of y] assms by linarith
qed

theorem fl_mono: "x \<le> y \<Longrightarrow> fl x \<le> fl y"
proof -
  assume le: "x \<le> y"
  consider "0 < x" | "x \<le> 0" "0 \<le> y" | "y < 0" by linarith
  then show ?thesis
  proof cases
    case 1 then show ?thesis using le by (rule fl_mono_pos)
  next
    case 2
    have "fl x \<le> 0" using 2(1) fl_pos [of "- x"] by (cases "x = 0") auto
    moreover have "0 \<le> fl y" using 2(2) fl_pos [of y] by (cases "y = 0") auto
    ultimately show ?thesis by simp
  next
    case 3 then show ?thesis using le fl_mono_pos [of "- y" "- x"] by simp
  qed
qed

lemma fl_nonneg: "0 \<le> x \<Longrightarrow> 0 \<le> fl x"
  using fl_mono [of 0 x] by simp

lemma fl_nonpos: "x \<le> 0 \<Longrightarrow> fl x \<le> 0"
  using fl_mono [of x 0] by simp

text \<open>Half a unit in the last place: a relative error of at most \<open>2 ^ -53\<close>.\<close>

lemma fl_error_pos: "0 < x \<Longrightarrow> \<bar>fl x - x\<bar> \<le> x / 2 ^ 53"
proof -
  assume pos: "0 < x"
  have "fl x - x = (of_int (rne (x / ulp x)) - x / ulp x) * ulp x"
    using ulp_pos [of x] unfolding fl_pos_eq [OF pos] by (simp add: left_diff_distrib)
  then have "\<bar>fl x - x\<bar> = \<bar>of_int (rne (x / ulp x)) - x / ulp x\<bar> * ulp x" by (simp add: abs_mult abs_of_pos)
  also have "\<dots> \<le> 1 / 2 * ulp x" using rne_bounds [of "x / ulp x"] by (intro mult_right_mono) (simp_all add: less_imp_le)
  also have "\<dots> = 2 powi lg x / 2 ^ 53" by (simp add: ulp_def power_int_diff)
  also have "\<dots> \<le> x / 2 ^ 53" using lg_bounds(1) [OF pos] by (simp add: divide_right_mono)
  finally show ?thesis .
qed

lemma fl_error: "\<bar>fl x - x\<bar> \<le> \<bar>x\<bar> / 2 ^ 53"
proof (cases x "0 :: rat" rule: linorder_cases)
  case less
  then show ?thesis using fl_error_pos [of "- x"] by (simp add: abs_minus_commute)
next
  case greater
  then show ?thesis using fl_error_pos [of x] by simp
qed simp

text \<open>What a rounding produces is a double: rounding it again changes nothing.\<close>

lemma fl_fl_pos: "0 < x \<Longrightarrow> fl (fl x) = fl x"
proof -
  assume pos: "0 < x"
  have "fl x / ulp x = of_int (rne (x / ulp x))" by (simp add: fl_pos_eq [OF pos])
  moreover have "fl x / ulp x \<le> of_int (2 ^ 53)"
    using fl_binade(2) [OF pos] by (simp add: pos_divide_le_eq ulp_def power_int_add power_int_diff)
  moreover have "0 < fl x / ulp x" using fl_pos [OF pos] by simp
  ultimately have "0 < rne (x / ulp x)" "rne (x / ulp x) \<le> 2 ^ 53" by (simp_all only: of_int_le_iff of_int_0_less_iff)
  then show ?thesis unfolding fl_pos_eq [OF pos] ulp_def by (intro fl_exact) simp
qed

lemma fl_fl [simp]: "fl (fl x) = fl x"
  using fl_fl_pos [of x] fl_fl_pos [of "- x"] by (cases x "0 :: rat" rule: linorder_cases) auto

lemma fl_le: "x \<le> c \<Longrightarrow> fl c = c \<Longrightarrow> fl x \<le> c"
  using fl_mono [of x c] by simp

lemma le_fl: "c \<le> x \<Longrightarrow> fl c = c \<Longrightarrow> c \<le> fl x"
  using fl_mono [of c x] by simp

section \<open>The operations\<close>

definition fadd :: "f64 \<Rightarrow> f64 \<Rightarrow> f64" where "fadd x y = fl (x + y)"
definition fsub :: "f64 \<Rightarrow> f64 \<Rightarrow> f64" where "fsub x y = fl (x - y)"
definition fmul :: "f64 \<Rightarrow> f64 \<Rightarrow> f64" where "fmul x y = fl (x * y)"
definition fdiv :: "f64 \<Rightarrow> f64 \<Rightarrow> f64" where "fdiv x y = fl (x / y)"

text \<open>The conversion \<^verbatim>\<open>int(x)\<close> drops the fraction.\<close>

definition ftrunc :: "f64 \<Rightarrow> int" where
  "ftrunc x = (if x < 0 then \<lceil>x\<rceil> else \<lfloor>x\<rfloor>)"

lemmas float_ops = fadd_def fsub_def fmul_def fdiv_def

text \<open>Doubling, and scaling by any power of two, is exact.\<close>

lemma lg_scale: "0 < x \<Longrightarrow> lg (x * 2 powi k) = lg x + k"
proof (rule lg_unique)
  assume "0 < x"
  note b = lg_bounds [OF this]
  have p: "(0::rat) < 2 powi k" by simp
  show "2 powi (lg x + k) \<le> x * 2 powi k" using mult_right_mono [OF b(1), of "2 powi k"] p by (simp add: power_int_add)
  show "x * 2 powi k < 2 powi (lg x + k + 1)" using mult_strict_right_mono [OF b(2) p] by (simp add: power_int_add algebra_simps)
qed

lemma fl_scale_pos: "0 < x \<Longrightarrow> fl (x * 2 powi k) = fl x * 2 powi k"
proof -
  assume pos: "0 < x"
  have p: "(0::rat) < x * 2 powi k" using pos by simp
  have u: "ulp (x * 2 powi k) = ulp x * 2 powi k" using lg_scale [OF pos] by (simp add: ulp_def power_int_add power_int_diff)
  show ?thesis unfolding fl_pos_eq [OF pos] fl_pos_eq [OF p] u by simp
qed

lemma fl_scale: "fl (x * 2 powi k) = fl x * 2 powi k"
  using fl_scale_pos [of x k] fl_scale_pos [of "- x" k] by (cases x "0 :: rat" rule: linorder_cases) auto

section \<open>Square root and \<^verbatim>\<open>math.Hypot\<close>\<close>

text \<open>The integer part of a square root, two bits at a time.\<close>

fun isqrt :: "int \<Rightarrow> int" where
  "isqrt n = (if n \<le> 0 then 0 else let r = 2 * isqrt (n div 4) in if (r + 1) * (r + 1) \<le> n then r + 1 else r)"

declare isqrt.simps [simp del]

lemma isqrt_spec: "0 \<le> n \<Longrightarrow> 0 \<le> isqrt n \<and> isqrt n * isqrt n \<le> n \<and> n < (isqrt n + 1) * (isqrt n + 1)"
proof (induction n rule: isqrt.induct)
  case (1 n)
  show ?case
  proof (cases "n = 0")
    case True
    then show ?thesis by (simp add: isqrt.simps)
  next
    case False
    define s where "s = isqrt (n div 4)"
    have ih: "0 \<le> s" "s * s \<le> n div 4" "n div 4 < (s + 1) * (s + 1)"
      using 1 False by (auto simp: s_def)
    have "4 * (s * s) \<le> n" using ih(2) by linarith
    moreover have "n < 4 * ((s + 1) * (s + 1))" using ih(3) by linarith
    moreover have eq: "isqrt n = (if (2 * s + 1) * (2 * s + 1) \<le> n then 2 * s + 1 else 2 * s)"
      using False 1(2) isqrt.simps [of n] by (simp add: s_def Let_def)
    ultimately show ?thesis using ih(1) unfolding eq by (simp add: algebra_simps)
  qed
qed

text \<open>
  \<^verbatim>\<open>math.Sqrt\<close> is the correctly rounded root: \<open>s\<close> has 53 bits, and the root of a double is
  never half way between two doubles.
\<close>

definition fsqrt :: "f64 \<Rightarrow> f64" where
  "fsqrt x = (if x \<le> 0 then 0
     else let k = lg x div 2 - 52; y = x / 2 powi (2 * k); s = isqrt \<lfloor>y\<rfloor> in
       (if (of_int s + 1 / 2) * (of_int s + 1 / 2) < y then of_int (s + 1) else of_int s) * 2 powi k)"

text \<open>\<^verbatim>\<open>math.Hypot\<close>: the larger leg times \<open>Sqrt(1 + q*q)\<close>, as the library computes it.\<close>

definition hypot :: "f64 \<Rightarrow> f64 \<Rightarrow> f64" where
  "hypot x y = (let p = max \<bar>x\<bar> \<bar>y\<bar>; q = min \<bar>x\<bar> \<bar>y\<bar> in
     if p = 0 then 0 else let r = fdiv q p in fmul p (fsqrt (fadd 1 (fmul r r))))"

lemma fsqrt_ge_1: assumes "1 \<le> x" shows "1 \<le> fsqrt x"
proof -
  define k where "k = lg x div 2 - 52"
  define y where "y = x / 2 powi (2 * k)"
  have x: "0 < x" using assms by simp
  have "2 powi (2 * (k + 52)) \<le> (2::rat) powi lg x" unfolding k_def by simp
  then have "2 powi (2 * (k + 52)) \<le> x" using lg_bounds(1) [OF x] by linarith
  moreover have "2 powi (2 * (k + 52)) = (2::rat) powi (2 * k) * of_int (2 ^ 104)"
    by (simp add: power_int_add distrib_left)
  ultimately have "of_int (2 ^ 104) \<le> y" unfolding y_def by (simp add: pos_le_divide_eq mult.commute)
  then have f: "2 ^ 104 \<le> \<lfloor>y\<rfloor>" by (simp add: le_floor_iff)
  have k0: "0 \<le> k + 52"
  proof -
    have "2 powi 0 < (2::rat) powi (lg x + 1)" using lg_bounds(2) [OF x] assms by simp
    then have "0 < lg x + 1" by (simp only: powi_less_iff)
    then show ?thesis unfolding k_def by simp
  qed
  define s where "s = isqrt \<lfloor>y\<rfloor>"
  have s: "0 \<le> s" "\<lfloor>y\<rfloor> < (s + 1) * (s + 1)" using isqrt_spec [of "\<lfloor>y\<rfloor>"] f by (auto simp: s_def)
  have "2 ^ 52 \<le> s"
  proof (rule ccontr)
    assume "\<not> ?thesis"
    then have "(s + 1) * (s + 1) \<le> 2 ^ 52 * 2 ^ 52" using s(1) by (intro mult_mono) auto
    moreover have "(2::int) ^ 52 * 2 ^ 52 = 2 ^ 104" by simp
    ultimately have "(s + 1) * (s + 1) \<le> 2 ^ 104" by (simp only:)
    then show False using s(2) f by linarith
  qed
  then have "(of_int (2 ^ 52) :: rat) \<le> of_int s" by (simp only: of_int_le_iff)
  then have "of_int (2 ^ 52) * (2::rat) powi k \<le> of_int s * 2 powi k" by (intro mult_right_mono) simp_all
  moreover have "1 \<le> of_int (2 ^ 52) * (2::rat) powi k"
  proof -
    have "of_int (2 ^ 52) * (2::rat) powi k = 2 powi (k + 52)" by (simp add: power_int_add)
    then show ?thesis using k0 by (simp del: of_int_power of_int_numeral)
  qed
  ultimately have "1 \<le> of_int s * (2::rat) powi k" by linarith
  moreover from this have "1 \<le> (of_int s + 1) * (2::rat) powi k"
    using less_imp_le [OF zero_less_power_int [of "2::rat" k]] unfolding distrib_right by linarith
  ultimately show ?thesis
    using x by (simp add: fsqrt_def Let_def k_def [symmetric] y_def [symmetric] s_def [symmetric])
qed

lemma fsqrt_1 [simp]: "fsqrt 1 = 1"
  by code_simp

lemma fsqrt_arg: "1 \<le> fadd 1 (fmul r r)"
  unfolding float_ops by (intro le_fl) (use fl_nonneg [of "r * r"] fl_int [of 1] in simp_all)

text \<open>A hypotenuse is at least as long as either leg.\<close>

lemma hypot_ge:
  assumes "fl x = x" and "fl y = y" shows "\<bar>x\<bar> \<le> hypot x y" and "\<bar>y\<bar> \<le> hypot x y"
proof -
  let ?p = "max \<bar>x\<bar> \<bar>y\<bar>"
  have fp: "fl ?p = ?p" using assms fl_minus [of x] fl_minus [of y] by (auto simp: max_def abs_if simp del: fl_minus)
  have "?p * 1 \<le> ?p * fsqrt (fadd 1 (fmul r r))" for r
    by (intro mult_left_mono fsqrt_ge_1 fsqrt_arg) simp
  then have "?p \<le> fmul ?p (fsqrt (fadd 1 (fmul r r)))" for r
    unfolding fmul_def by (intro le_fl) (simp_all add: fp)
  then have "?p \<le> hypot x y" by (auto simp: hypot_def Let_def)
  then show "\<bar>x\<bar> \<le> hypot x y" and "\<bar>y\<bar> \<le> hypot x y" by simp_all
qed

lemma hypot_nonneg: "0 \<le> hypot x y"
proof -
  have "0 \<le> fmul (max \<bar>x\<bar> \<bar>y\<bar>) (fsqrt (fadd 1 (fmul r r)))" for r
    unfolding fmul_def using fsqrt_ge_1 [OF fsqrt_arg [of r]]
    by (intro fl_nonneg mult_nonneg_nonneg) (auto simp: fmul_def)
  then show ?thesis by (auto simp: hypot_def Let_def)
qed


section \<open>Rounding to an integer\<close>

text \<open>\<^verbatim>\<open>math.Round\<close>: halves away from zero. It is exact on doubles.\<close>

definition fround :: "f64 \<Rightarrow> int" where
  "fround x = (if x < 0 then - \<lfloor>1 / 2 - x\<rfloor> else \<lfloor>x + 1 / 2\<rfloor>)"

lemma fround_bounds: "\<bar>of_int (fround x) - x\<bar> \<le> 1 / 2"
proof -
  have f: "of_int \<lfloor>y\<rfloor> \<le> y" "y < of_int \<lfloor>y\<rfloor> + 1" for y :: rat using floor_correct [of y] by auto
  have "\<bar>- of_int \<lfloor>1 / 2 - x\<rfloor> - x\<bar> \<le> 1 / 2" "\<bar>of_int \<lfloor>x + 1 / 2\<rfloor> - x\<bar> \<le> 1 / 2"
    unfolding abs_le_iff using f [of "1 / 2 - x"] f [of "x + 1 / 2"] by linarith+
  then show ?thesis by (simp add: fround_def)
qed

lemma fround_of_int [simp]: "fround (of_int n) = n"
proof -
  have "\<lfloor>(1::rat) / 2 - of_int n\<rfloor> = - n" "\<lfloor>of_int n + (1::rat) / 2\<rfloor> = n" by linarith+
  then show ?thesis by (simp add: fround_def)
qed

end
