(* ===== verification/FintechFloor.thy ===== *)
theory FintechFloor
  imports Float64
begin

text \<open>
  The floor of the fintech office (\<^verbatim>\<open>internal/gamefintech/layout.go\<close>, the geometry of
  \<^verbatim>\<open>content.go\<close> and \<^verbatim>\<open>sim.go\<close>, and the navigation grid of
  \<^verbatim>\<open>navigate.go\<close>): rectangles on a 16 by 22 metre room, the distances the rules of a layout
  are stated in, the resolver that keeps a body out of the furniture, and the grid of cells the
  pursuers plan on. A number written in the source is exact; \<open>fl\<close> marks where it becomes a
  double.
\<close>

section \<open>Data\<close>

record vec2 =
  vx :: f64
  vy :: f64

record rect =
  rx :: f64
  ry :: f64
  rw :: f64
  rh :: f64

definition KindDesk :: string where "KindDesk = ''desk''"
definition KindFlower :: string where "KindFlower = ''flower''"
definition KindTree :: string where "KindTree = ''tree''"
definition Kinds :: "string list" where "Kinds = [KindDesk, KindFlower, KindTree]"

definition WallTop :: string where "WallTop = ''top''"
definition WallLeft :: string where "WallLeft = ''left''"
definition WallRight :: string where "WallRight = ''right''"
definition Walls :: "string list" where "Walls = [WallTop, WallLeft, WallRight]"

record solid =
  so_rect :: rect
  so_kind :: string

record window =
  wi_wall :: string
  wi_at :: f64
  wi_len :: f64

record layout =
  l_id :: string
  l_solids :: "solid list"
  l_windows :: "window list"

definition rects_of :: "layout \<Rightarrow> rect list" where
  "rects_of l = map so_rect (l_solids l)"

definition OfficeW :: rat where "OfficeW = 16"
definition OfficeH :: rat where "OfficeH = 22"
definition PlayerRadius :: rat where "PlayerRadius = 35 / 100"
definition BossRadius :: rat where "BossRadius = 40 / 100"
definition Clearance :: rat where "Clearance = BossRadius"
definition ResolverFloor :: rat where "ResolverFloor = 2 * Clearance"
definition MinGap :: rat where "MinGap = 15 / 10"
definition SpotClear :: rat where "SpotClear = PlayerRadius + 15 / 100"
definition MinSolidSide :: rat where "MinSolidSide = 6 / 10"
definition MaxSolidSide :: rat where "MaxSolidSide = 6"
definition MaxSolids :: nat where "MaxSolids = 40"
definition MaxWindows :: nat where "MaxWindows = 12"
definition WindowMin :: rat where "WindowMin = 12 / 10"
definition WindowEdge :: rat where "WindowEdge = 6 / 10"
definition WindowMullion :: rat where "WindowMullion = 6 / 10"

lemmas floor_constants = OfficeW_def OfficeH_def PlayerRadius_def BossRadius_def Clearance_def ResolverFloor_def
  MinGap_def SpotClear_def MinSolidSide_def MaxSolidSide_def WindowMin_def WindowEdge_def WindowMullion_def

definition wallLength :: "string \<Rightarrow> f64" where
  "wallLength w = (if w = WallTop then OfficeW else OfficeH)"

section \<open>Distances\<close>

definition sepAxis :: "rect \<Rightarrow> rect \<Rightarrow> f64" where
  "sepAxis a b =
     (let dx = max 0 (max (fsub (rx b) (fadd (rx a) (rw a))) (fsub (rx a) (fadd (rx b) (rw b))));
          dy = max 0 (max (fsub (ry b) (fadd (ry a) (rh a))) (fsub (ry a) (fadd (ry b) (rh b)))) in
      max dx dy)"

definition wallGap :: "rect \<Rightarrow> f64" where
  "wallGap r = min (min (rx r) (ry r))
     (min (fsub OfficeW (fadd (rx r) (rw r))) (fsub OfficeH (fadd (ry r) (rh r))))"

definition pointGap :: "rect \<Rightarrow> vec2 \<Rightarrow> f64" where
  "pointGap r p =
     (let dx = max 0 (max (fsub (rx r) (vx p)) (fsub (vx p) (fadd (rx r) (rw r))));
          dy = max 0 (max (fsub (ry r) (vy p)) (fsub (vy p) (fadd (ry r) (rh r)))) in
      hypot dx dy)"

section \<open>A disc and a rectangle\<close>

text \<open>The edges of a rectangle grown by \<open>r\<close>, as \<^verbatim>\<open>pushOut\<close> and \<^verbatim>\<open>segmentHitsRect\<close> compute them.\<close>

definition lo_x :: "rect \<Rightarrow> f64 \<Rightarrow> f64" where "lo_x d r = fsub (rx d) r"
definition lo_y :: "rect \<Rightarrow> f64 \<Rightarrow> f64" where "lo_y d r = fsub (ry d) r"
definition hi_x :: "rect \<Rightarrow> f64 \<Rightarrow> f64" where "hi_x d r = fadd (fadd (rx d) (rw d)) r"
definition hi_y :: "rect \<Rightarrow> f64 \<Rightarrow> f64" where "hi_y d r = fadd (fadd (ry d) (rh d)) r"

definition eps :: f64 where "eps = fl (1 / 1000000000)"

definition insideRect :: "rect \<Rightarrow> vec2 \<Rightarrow> f64 \<Rightarrow> bool" where
  "insideRect d p r \<longleftrightarrow>
     vx p > fadd (lo_x d r) eps \<and> vx p < fsub (hi_x d r) eps \<and>
     vy p > fadd (lo_y d r) eps \<and> vy p < fsub (hi_y d r) eps"

text \<open>
  \<^verbatim>\<open>segmentHitsRect\<close>: the loop over the four edges of Liang and Barsky's clip, each a pair
  \<open>(p, q)\<close>, with the interval \<open>[t0, t1]\<close> that is left.
\<close>

fun clip :: "(f64 \<times> f64) list \<Rightarrow> f64 \<Rightarrow> f64 \<Rightarrow> bool" where
  "clip [] t0 t1 = True"
| "clip ((p, q) # es) t0 t1 =
     (if p = 0 then (if q < 0 then False else clip es t0 t1)
      else let t = fdiv q p in
        if p < 0 then (if t > t1 then False else clip es (if t > t0 then t else t0) t1)
        else (if t < t0 then False else clip es t0 (if t < t1 then t else t1)))"

definition segmentHitsRect :: "vec2 \<Rightarrow> vec2 \<Rightarrow> rect \<Rightarrow> f64 \<Rightarrow> bool" where
  "segmentHitsRect a b d r =
     (let dx = fsub (vx b) (vx a); dy = fsub (vy b) (vy a) in
      clip [(- dx, fsub (vx a) (lo_x d r)), (dx, fsub (hi_x d r) (vx a)),
            (- dy, fsub (vy a) (lo_y d r)), (dy, fsub (hi_y d r) (vy a))] 0 1)"

fun clearLine :: "rect list \<Rightarrow> vec2 \<Rightarrow> vec2 \<Rightarrow> f64 \<Rightarrow> bool" where
  "clearLine [] a b r = True"
| "clearLine (d # ds) a b r = (if segmentHitsRect a b d r then False else clearLine ds a b r)"

definition clamp :: "f64 \<Rightarrow> f64 \<Rightarrow> f64 \<Rightarrow> f64" where
  "clamp v lo hi = max lo (min hi v)"

definition clampToFloor :: "vec2 \<Rightarrow> f64 \<Rightarrow> vec2" where
  "clampToFloor p r = \<lparr>vx = clamp (vx p) r (fsub OfficeW r), vy = clamp (vy p) r (fsub OfficeH r)\<rparr>"

definition pushOut :: "rect \<Rightarrow> vec2 \<Rightarrow> f64 \<Rightarrow> vec2" where
  "pushOut d p r =
     (if vx p \<le> lo_x d r \<or> vx p \<ge> hi_x d r \<or> vy p \<le> lo_y d r \<or> vy p \<ge> hi_y d r then p
      else let left = fsub (vx p) (lo_x d r); right = fsub (hi_x d r) (vx p);
               up = fsub (vy p) (lo_y d r); down = fsub (hi_y d r) (vy p);
               least = min (min left right) (min up down) in
        if least = left then p\<lparr>vx := lo_x d r\<rparr>
        else if least = right then p\<lparr>vx := hi_x d r\<rparr>
        else if least = up then p\<lparr>vy := lo_y d r\<rparr>
        else p\<lparr>vy := hi_y d r\<rparr>)"

text \<open>The resolver every body gets: the floor clamp, then one pass over the furniture in order.\<close>

definition resolve :: "rect list \<Rightarrow> f64 \<Rightarrow> vec2 \<Rightarrow> vec2" where
  "resolve rects r p = fold (\<lambda>d q. pushOut d q r) rects (clampToFloor p r)"

section \<open>The navigation grid\<close>

definition navCell :: f64 where "navCell = 1 / 2"
definition navCols :: int where "navCols = 32"
definition navRows :: int where "navRows = 44"

lemma nav_dims: "of_int navCols = OfficeW / navCell" "of_int navRows = OfficeH / navCell"
  by (simp_all add: navCols_def navRows_def floor_constants navCell_def)

definition navCentre :: "int \<Rightarrow> int \<Rightarrow> vec2" where
  "navCentre col row = \<lparr>vx = fmul (fadd (of_int col) (1 / 2)) navCell, vy = fmul (fadd (of_int row) (1 / 2)) navCell\<rparr>"

definition clampInt :: "int \<Rightarrow> int \<Rightarrow> int \<Rightarrow> int" where
  "clampInt v lo hi = (if v < lo then lo else if v > hi then hi else v)"

definition navCellOf :: "vec2 \<Rightarrow> int \<times> int" where
  "navCellOf p = (clampInt (ftrunc (fdiv (vx p) navCell)) 0 (navCols - 1),
                  clampInt (ftrunc (fdiv (vy p) navCell)) 0 (navRows - 1))"

definition cell_free :: "rect list \<Rightarrow> int \<Rightarrow> int \<Rightarrow> bool" where
  "cell_free rects c r =
     (let m = navCentre c r in
      vx m \<ge> fl BossRadius \<and> vx m \<le> fl (OfficeW - BossRadius) \<and>
      vy m \<ge> fl BossRadius \<and> vy m \<le> fl (OfficeH - BossRadius) \<and>
      \<not> list_ex (\<lambda>d. insideRect d m (fl BossRadius)) rects)"

definition navGridFor :: "rect list \<Rightarrow> bool list" where
  "navGridFor rects = map (\<lambda>n. cell_free rects (n mod navCols) (n div navCols)) [0 .. navCols * navRows - 1]"

record plan =
  p_layout :: layout
  p_rects :: "rect list"
  p_nav :: "bool list"

definition NewPlan :: "layout \<Rightarrow> plan" where
  "NewPlan l = (let rects = rects_of l in \<lparr>p_layout = l, p_rects = rects, p_nav = navGridFor rects\<rparr>)"

lemma length_navGridFor [simp]: "length (navGridFor rects) = 1408"
  by (simp add: navGridFor_def navCols_def navRows_def)

lemma navGridFor_nth:
  assumes "0 \<le> n" and "n < 1408" shows "navGridFor rects ! nat n = cell_free rects (n mod navCols) (n div navCols)"
  using assms nth_upto [of 0 "nat n" 1407] by (simp add: navGridFor_def navCols_def navRows_def)

text \<open>The middle of a cell is exact, and lies in that cell.\<close>

lemma navCentre_exact:
  assumes "\<bar>c\<bar> \<le> 2 ^ 50" and "\<bar>r\<bar> \<le> 2 ^ 50"
  shows "navCentre c r = \<lparr>vx = of_int (2 * c + 1) / 4, vy = of_int (2 * r + 1) / 4\<rparr>"
proof -
  have h: "fl (of_int i + 1 / 2) = of_int i + 1 / 2" "fl ((of_int i + 1 / 2) / 2) = of_int (2 * i + 1) / 4"
    if "\<bar>i\<bar> \<le> 2 ^ 50" for i :: int
  proof -
    have "\<bar>2 * i + 1\<bar> \<le> 2 ^ 53" using that by simp
    from fl_exact [OF this, of "- 1"] fl_exact [OF this, of "- 2"]
    show "fl (of_int i + 1 / 2) = of_int i + 1 / 2" "fl ((of_int i + 1 / 2) / 2) = of_int (2 * i + 1) / 4"
      by (simp_all add: power_int_minus field_simps)
  qed
  show ?thesis using h [OF assms(1)] h [OF assms(2)] by (simp add: navCentre_def fadd_def fmul_def navCell_def)
qed

section \<open>Numbers that are doubles\<close>

lemma fl_quarter: "\<bar>m\<bar> \<le> 2 ^ 53 \<Longrightarrow> fl (of_int m / 4) = of_int m / 4"
proof -
  assume "\<bar>m\<bar> \<le> 2 ^ 53"
  from fl_exact [OF this, of "- 2"] show ?thesis
    by (simp only: power_int_minus power_int_numeral divide_inverse power2_eq_square) simp
qed

lemma fl_numeral_quarter [simp]: "numeral n \<le> (2 ^ 53 :: int) \<Longrightarrow> fl (numeral n / 4) = numeral n / 4"
proof -
  assume "numeral n \<le> (2 ^ 53 :: int)"
  then have "\<bar>numeral n :: int\<bar> \<le> 2 ^ 53" by (simp only: abs_numeral)
  from fl_quarter [OF this] show ?thesis by (simp only: of_int_numeral)
qed

lemma fl_half_int: "\<bar>m\<bar> \<le> 2 ^ 53 \<Longrightarrow> fl (of_int m / 2) = of_int m / 2"
proof -
  assume "\<bar>m\<bar> \<le> 2 ^ 53"
  from fl_exact [OF this, of "- 1"] show ?thesis
    by (simp only: power_int_minus power_int_1_right divide_inverse)
qed

lemma fl_numeral_half [simp]: "numeral n \<le> (2 ^ 53 :: int) \<Longrightarrow> fl (numeral n / 2) = numeral n / 2"
proof -
  assume "numeral n \<le> (2 ^ 53 :: int)"
  then have "\<bar>numeral n :: int\<bar> \<le> 2 ^ 53" by (simp only: abs_numeral)
  from fl_half_int [OF this] show ?thesis by (simp only: of_int_numeral)
qed

lemma fl_numeral [simp]: "numeral n \<le> (2 ^ 53 :: int) \<Longrightarrow> fl (numeral n) = numeral n"
proof -
  assume "numeral n \<le> (2 ^ 53 :: int)"
  then have "\<bar>numeral n :: int\<bar> \<le> 2 ^ 53" by (simp only: abs_numeral)
  from fl_int [OF this] show ?thesis by (simp only: of_int_numeral)
qed

lemma fl_small [simp]: "fl (1 / 2) = 1 / 2" "fl (1 / 4) = 1 / 4"
  using fl_half_int [of 1] fl_quarter [of 1] by simp_all

lemma fl_one [simp]: "fl 1 = 1"
  using fl_int [of 1] by simp

lemma eps_pos: "0 < eps"
  unfolding eps_def by (rule fl_pos) simp

lemma radius_bounds: "1 / 4 \<le> fl BossRadius" "fl BossRadius \<le> 1 / 2" "1 / 4 \<le> fl PlayerRadius" "fl PlayerRadius \<le> 1 / 2"
  unfolding floor_constants by (rule le_fl fl_le; simp)+

lemma lo_hi_double [simp]: "fl (lo_x d r) = lo_x d r" "fl (lo_y d r) = lo_y d r" "fl (hi_x d r) = hi_x d r" "fl (hi_y d r) = hi_y d r"
  by (simp_all add: lo_x_def lo_y_def hi_x_def hi_y_def float_ops)

text \<open>Outside of the grown rectangle, a disc is not inside it.\<close>

lemma not_insideRect:
  assumes "vx p \<le> lo_x d r \<or> hi_x d r \<le> vx p \<or> vy p \<le> lo_y d r \<or> hi_y d r \<le> vy p"
  shows "\<not> insideRect d p r"
proof -
  have "x \<le> fadd x eps" if "fl x = x" for x unfolding fadd_def using that eps_pos by (intro le_fl) simp_all
  moreover have "fsub x eps \<le> x" if "fl x = x" for x unfolding fsub_def using that eps_pos by (intro fl_le) simp_all
  ultimately show ?thesis using assms lo_hi_double unfolding insideRect_def
    by (meson le_less_trans less_le_trans not_less order.strict_trans2)
qed

end
