(* ===== verification/FintechNav.thy ===== *)
theory FintechNav
  imports FintechFloor
begin

text \<open>
  Getting round a desk (\<^verbatim>\<open>internal/gamefintech/navigate.go\<close>): a breadth-first search over the
  free cells from the target, and one step downhill for the pursuer. A cell is its index in the
  slices of the code; the slice \<^verbatim>\<open>dist\<close> is a function from indices, with \<open>None\<close> for
  the \<open>-1\<close> of a cell nothing was written to. The search is proved to be one: what it writes are lengths of shortest paths, so the cell
  it sends a pursuer to is one step closer, and following it cell by cell arrives.
\<close>

section \<open>Cells and their neighbours\<close>

definition dirs :: "(int \<times> int) list" where
  "dirs = [(1, 0), (-1, 0), (0, 1), (0, -1)]"

text \<open>The four neighbours that are on the grid, in the order the loops try them.\<close>

definition nbrs :: "int \<Rightarrow> int \<Rightarrow> int list" where
  "nbrs cc cr = map (\<lambda>(dc, dr). (cr + dr) * navCols + (cc + dc))
     (filter (\<lambda>(dc, dr). \<not> (cc + dc < 0 \<or> cc + dc \<ge> navCols \<or> cr + dr < 0 \<or> cr + dr \<ge> navRows)) dirs)"

definition around :: "int \<Rightarrow> int list" where
  "around n = nbrs (n mod navCols) (n div navCols)"

definition is_free :: "bool list \<Rightarrow> int \<Rightarrow> bool" where
  "is_free free n = free ! nat n"

section \<open>The search\<close>

type_synonym field = "int \<Rightarrow> nat option"

text \<open>\<^verbatim>\<open>dist[cur] + 1\<close>.\<close>

fun next_level :: "nat option \<Rightarrow> nat" where
  "next_level None = 0"
| "next_level (Some d) = d + 1"

text \<open>The loop over the neighbours of one cell: each free one without a distance gets \<open>d\<close> and is queued.\<close>

fun visit :: "bool list \<Rightarrow> nat \<Rightarrow> int list \<Rightarrow> field \<Rightarrow> int list \<Rightarrow> field \<times> int list" where
  "visit free d [] dst queue = (dst, queue)"
| "visit free d (n # ns) dst queue =
     (if dst n \<noteq> None \<or> \<not> is_free free n then visit free d ns dst queue
      else visit free d ns (dst(n := Some d)) (queue @ [n]))"

definition unset :: "field \<Rightarrow> nat" where
  "unset dst = card {n \<in> {0 ..< navCols * navRows}. dst n = None}"

lemma nbrs_in_grid: "n \<in> set (nbrs c r) \<Longrightarrow> 0 \<le> n \<and> n < navCols * navRows"
  by (auto simp: nbrs_def dirs_def navCols_def navRows_def split: if_splits)

lemma unset_update:
  assumes "0 \<le> n" and "n < navCols * navRows" and "dst n = None"
  shows "unset dst = Suc (unset (dst(n := Some v)))"
proof -
  let ?S = "{m \<in> {0 ..< navCols * navRows}. dst m = None}"
  have "{m \<in> {0 ..< navCols * navRows}. (dst(n := Some v)) m = None} = ?S - {n}" by auto
  moreover have "finite ?S" by (rule finite_subset [of _ "{0 ..< navCols * navRows}"]) auto
  then have "card ?S = Suc (card (?S - {n}))" using assms by (intro card.remove) auto
  ultimately show ?thesis by (simp only: unset_def)
qed

lemma visit_measure:
  assumes "set ns \<subseteq> {0 ..< navCols * navRows}" and "visit free d ns dst queue = (dst', queue')"
  shows "length queue' + unset dst' = length queue + unset dst"
  using assms
proof (induction ns arbitrary: dst queue)
  case (Cons n ns)
  then show ?case using unset_update [of n dst d] by (auto split: if_splits)
qed simp

text \<open>
  The queue holds what \<^verbatim>\<open>head\<close> has not passed. A cell enters it when its distance is written,
  which is why the loop ends.
\<close>

function bfs :: "bool list \<Rightarrow> int \<Rightarrow> int list \<Rightarrow> field \<Rightarrow> field \<times> int list \<times> bool" where
  "bfs free goal [] dst = (dst, [], False)"
| "bfs free goal (cur # rest) dst =
     (if cur = goal then (dst, cur # rest, True)
      else case visit free (next_level (dst cur)) (around cur) dst rest of
        (dst', queue') \<Rightarrow> bfs free goal queue' dst')"
  by pat_completeness auto

termination
proof (relation "measure (\<lambda>(free, goal, queue, dst). length queue + unset dst)", goal_cases)
  case (2 free goal cur rest dst dst' queue')
  have "set (around cur) \<subseteq> {0 ..< navCols * navRows}" using nbrs_in_grid by (auto simp: around_def)
  from visit_measure [OF this 2(2) [symmetric]] show ?case by simp
qed simp

text \<open>The nearest free cell to a blocked one, in rings of growing radius.\<close>

definition ring :: "int \<Rightarrow> (int \<times> int) list" where
  "ring k = filter (\<lambda>(dc, dr). \<not> (\<bar>dr\<bar> \<noteq> k \<and> \<bar>dc\<bar> \<noteq> k)) (concat (map (\<lambda>dr. map (\<lambda>dc. (dc, dr)) [- k .. k]) [- k .. k]))"

definition navNearestFree :: "bool list \<Rightarrow> int \<Rightarrow> int \<Rightarrow> int option" where
  "navNearestFree free col row =
     List.find (is_free free)
       (map (\<lambda>(dc, dr). (row + dr) * navCols + (col + dc))
         (filter (\<lambda>(dc, dr). \<not> (col + dc < 0 \<or> col + dc \<ge> navCols \<or> row + dr < 0 \<or> row + dr \<ge> navRows))
           (concat (map ring [1 .. 4]))))"

section \<open>\<^verbatim>\<open>navAimAt\<close>\<close>

text \<open>The neighbour strictly closest to the target, the first of the best in the fixed order.\<close>

fun downhill :: "bool list \<Rightarrow> field \<Rightarrow> int list \<Rightarrow> int \<Rightarrow> nat \<Rightarrow> int" where
  "downhill free dst [] best bestD = best"
| "downhill free dst (n # ns) best bestD =
     (if \<not> is_free free n \<or> dst n = None then downhill free dst ns best bestD
      else if the (dst n) < bestD then downhill free dst ns n (the (dst n))
      else downhill free dst ns best bestD)"

definition navStart :: "bool list \<Rightarrow> int \<Rightarrow> int \<Rightarrow> int option" where
  "navStart free tc tr =
     (let start = tr * navCols + tc in if is_free free start then Some start else navNearestFree free tc tr)"

definition nextCell :: "bool list \<Rightarrow> int \<Rightarrow> int \<Rightarrow> int option" where
  "nextCell free start goal =
     (case bfs free goal [start] (Map.empty(start \<mapsto> 0)) of (dst, queue, found) \<Rightarrow>
        if \<not> found then None
        else let best = downhill free dst (around goal) (- 1) (the (dst goal)) in
          if best < 0 then None else Some best)"

definition navAimAt :: "plan \<Rightarrow> vec2 \<Rightarrow> vec2 \<Rightarrow> vec2" where
  "navAimAt p from to =
     (if clearLine (p_rects p) from to (fl BossRadius) then to
      else let free = p_nav p; (tc, tr) = navCellOf to; (fc, fr) = navCellOf from in
        if fc = tc \<and> fr = tr then to
        else case navStart free tc tr of
          None \<Rightarrow> to
        | Some start \<Rightarrow>
            (case nextCell free start (fr * navCols + fc) of
               None \<Rightarrow> to
             | Some best \<Rightarrow> navCentre (best mod navCols) (best div navCols)))"

section \<open>The search is breadth first\<close>

text \<open>A walk of \<open>k\<close> steps over free cells.\<close>

primrec path :: "bool list \<Rightarrow> nat \<Rightarrow> int \<Rightarrow> int \<Rightarrow> bool" where
  "path free 0 u v \<longleftrightarrow> v = u"
| "path free (Suc k) u v \<longleftrightarrow> (\<exists>w. path free k u w \<and> v \<in> set (around w) \<and> is_free free v)"

text \<open>The cells of the grid, and that neighbours come in pairs.\<close>

definition on_grid :: "int \<Rightarrow> bool" where
  "on_grid n \<longleftrightarrow> 0 \<le> n \<and> n < navCols * navRows"

lemma around_on_grid: "v \<in> set (around u) \<Longrightarrow> on_grid v"
  using nbrs_in_grid by (simp add: around_def on_grid_def)

lemma in_nbrs:
  "n \<in> set (nbrs c r) \<longleftrightarrow> (\<exists>c' r'. n = r' * 32 + c' \<and> 0 \<le> c' \<and> c' < 32 \<and> 0 \<le> r' \<and> r' < 44 \<and>
     (c' = c + 1 \<and> r' = r \<or> c' = c - 1 \<and> r' = r \<or> c' = c \<and> r' = r + 1 \<or> c' = c \<and> r' = r - 1))"
proof -
  have "n \<in> set (nbrs c r) \<longleftrightarrow> (\<exists>(dc, dr) \<in> set dirs. n = (r + dr) * 32 + (c + dc) \<and>
      0 \<le> c + dc \<and> c + dc < 32 \<and> 0 \<le> r + dr \<and> r + dr < 44)"
    unfolding nbrs_def set_map set_filter navCols_def navRows_def by fastforce
  also have "\<dots> \<longleftrightarrow> (\<exists>c' r'. (c' - c, r' - r) \<in> set dirs \<and> n = r' * 32 + c' \<and>
      0 \<le> c' \<and> c' < 32 \<and> 0 \<le> r' \<and> r' < 44)" (is "?L \<longleftrightarrow> ?R")
  proof
    assume ?L
    then obtain dc dr where "(dc, dr) \<in> set dirs" "n = (r + dr) * 32 + (c + dc)"
      "0 \<le> c + dc" "c + dc < 32" "0 \<le> r + dr" "r + dr < 44" by auto
    then show ?R by (intro exI [of _ "c + dc"] exI [of _ "r + dr"]) simp
  next
    assume ?R
    then obtain c' r' where "(c' - c, r' - r) \<in> set dirs" "n = r' * 32 + c'"
      "0 \<le> c'" "c' < 32" "0 \<le> r'" "r' < 44" by auto
    then show ?L by (intro bexI [of _ "(c' - c, r' - r)"]) simp_all
  qed
  also have "\<dots> \<longleftrightarrow> (\<exists>c' r'. n = r' * 32 + c' \<and> 0 \<le> c' \<and> c' < 32 \<and> 0 \<le> r' \<and> r' < 44 \<and>
     (c' = c + 1 \<and> r' = r \<or> c' = c - 1 \<and> r' = r \<or> c' = c \<and> r' = r + 1 \<or> c' = c \<and> r' = r - 1))"
    by (intro ex_cong1) (auto simp: dirs_def)
  finally show ?thesis .
qed

lemma around_sym:
  assumes "v \<in> set (around u)" and "on_grid u" shows "u \<in> set (around v)"
proof -
  define c r where "c = u mod 32" and "r = u div 32"
  have u: "u = r * 32 + c" "0 \<le> c" "c < 32" "0 \<le> r" "r < 44"
    using assms(2) by (auto simp: c_def r_def on_grid_def navCols_def navRows_def)
  have "v \<in> set (nbrs c r)" using assms(1) by (simp add: around_def navCols_def c_def r_def)
  then obtain c' r' where v: "v = r' * 32 + c'" "0 \<le> c'" "c' < 32" "0 \<le> r'" "r' < 44"
    and near: "c' = c + 1 \<and> r' = r \<or> c' = c - 1 \<and> r' = r \<or> c' = c \<and> r' = r + 1 \<or> c' = c \<and> r' = r - 1"
    unfolding in_nbrs by blast
  have m: "v mod 32 = c'" "v div 32 = r'" using v by auto
  have "c = c' + 1 \<and> r = r' \<or> c = c' - 1 \<and> r = r' \<or> c = c' \<and> r = r' + 1 \<or> c = c' \<and> r = r' - 1"
    using near by auto
  then show ?thesis unfolding around_def navCols_def m in_nbrs using u by blast
qed

lemma path_on_grid: "path free k u v \<Longrightarrow> on_grid u \<Longrightarrow> on_grid v"
  by (cases k) (auto dest: around_on_grid)

text \<open>What one call of the inner loop does.\<close>

lemma visit_spec:
  "visit free d ns dst queue = (dst', queue') \<Longrightarrow>
     \<exists>new. queue' = queue @ new \<and> set new = {n \<in> set ns. is_free free n \<and> dst n = None} \<and>
       dst' = (\<lambda>n. if n \<in> set new then Some d else dst n)"
proof (induction ns arbitrary: dst queue)
  case (Cons n ns)
  show ?case
  proof (cases "dst n \<noteq> None \<or> \<not> is_free free n")
    case True
    with Cons.prems have "visit free d ns dst queue = (dst', queue')" by auto
    from Cons.IH [OF this] show ?thesis using True by auto
  next
    case False
    with Cons.prems have "visit free d ns (dst(n \<mapsto> d)) (queue @ [n]) = (dst', queue')" by simp
    from Cons.IH [OF this] obtain new where
      new: "queue' = queue @ n # new" "set new = {m \<in> set ns. is_free free m \<and> (dst(n \<mapsto> d)) m = None}"
        "dst' = (\<lambda>m. if m \<in> set new then Some d else (dst(n \<mapsto> d)) m)" by auto
    have "queue' = queue @ (n # new)" using new(1) .
    moreover have "set (n # new) = {m \<in> set (n # ns). is_free free m \<and> dst m = None}"
      using new(2) False by (auto split: if_splits)
    moreover have "dst' = (\<lambda>m. if m \<in> set (n # new) then Some d else dst m)"
      using new(3) by (simp add: fun_eq_iff)
    ultimately show ?thesis by blast
  qed
qed simp

text \<open>
  The invariant of the search: distances are lengths of walks, the queue is ordered by distance and
  spans at most two values, and the neighbours of a cell that has left the queue are settled.
\<close>

definition level :: "field \<Rightarrow> int \<Rightarrow> nat" where
  "level dst n = the (dst n)"

definition search_ok :: "bool list \<Rightarrow> int \<Rightarrow> int list \<Rightarrow> field \<Rightarrow> bool" where
  "search_ok free start queue dst \<longleftrightarrow>
     (\<forall>n d. dst n = Some d \<longrightarrow> path free d start n) \<and>
     (\<forall>n \<in> set queue. dst n \<noteq> None) \<and>
     sorted (map (level dst) queue) \<and>
     (\<forall>n d. dst n = Some d \<longrightarrow> (\<forall>q \<in> set queue. d \<le> level dst q + 1)) \<and>
     (\<forall>n d. dst n = Some d \<longrightarrow> n \<notin> set queue \<longrightarrow>
        (\<forall>m \<in> set (around n). is_free free m \<longrightarrow> (\<exists>e \<le> d + 1. dst m = Some e))) \<and>
     dst start = Some 0"

lemma search_ok_start: "search_ok free start [start] (Map.empty(start \<mapsto> 0))"
  by (auto simp: search_ok_def level_def)

lemma search_ok_step:
  assumes ok: "search_ok free start (cur # rest) dst"
    and v: "visit free (next_level (dst cur)) (around cur) dst rest = (dst', queue')"
  shows "search_ok free start queue' dst'"
proof -
  obtain c where c: "dst cur = Some c" using ok by (auto simp: search_ok_def)
  have pc: "path free c start cur" using ok c by (auto simp: search_ok_def)
  from visit_spec [OF v] obtain new where q: "queue' = rest @ new"
    and new: "set new = {n \<in> set (around cur). is_free free n \<and> dst n = None}"
    and dst: "dst' = (\<lambda>n. if n \<in> set new then Some (c + 1) else dst n)" unfolding c next_level.simps by blast
  have old: "dst' n = dst n" if "dst n \<noteq> None" for n using that new by (simp add: dst)
  have rest: "level dst' n = level dst n" "c \<le> level dst n" "level dst n \<le> c + 1" "dst n \<noteq> None" if "n \<in> set rest" for n
  proof -
    show s: "dst n \<noteq> None" using ok that by (auto simp: search_ok_def)
    show "level dst' n = level dst n" using old [OF s] by (simp add: level_def)
    show "c \<le> level dst n" using ok that c by (auto simp: search_ok_def level_def)
    obtain d where "dst n = Some d" using s by blast
    then show "level dst n \<le> c + 1" using ok c by (fastforce simp: search_ok_def level_def)
  qed
  have lnew: "level dst' n = c + 1" if "n \<in> set new" for n using that by (simp add: dst level_def)
  have le: "d \<le> c + 1" if "dst n = Some d" for n d using ok c that by (fastforce simp: search_ok_def level_def)
  have "sorted (map (level dst) rest)" using ok by (simp add: search_ok_def)
  then have "sorted (map (level dst') rest)" using rest(1) by (simp cong: map_cong)
  moreover have "sorted (map (level dst') new)" using lnew by (simp cong: map_cong add: sorted_map)
  ultimately have 1: "sorted (map (level dst') queue')" unfolding q using rest lnew by (auto simp: sorted_append)
  have 2: "path free d start n" if "dst' n = Some d" for n d
    using that ok pc new unfolding dst by (auto simp: search_ok_def split: if_splits)
  have 3: "d \<le> level dst' m + 1" if "dst' n = Some d" "m \<in> set queue'" for n d m
  proof -
    have "d \<le> c + 1" using that(1) le unfolding dst by (auto split: if_splits)
    moreover have "c \<le> level dst' m" using that(2) rest lnew unfolding q by auto
    ultimately show ?thesis by simp
  qed
  have 4: "\<exists>e \<le> d + 1. dst' m = Some e"
    if "dst' n = Some d" "n \<notin> set queue'" "m \<in> set (around n)" "is_free free m" for n d m
  proof (cases "n = cur")
    case True
    note hyp = that
    show ?thesis
    proof (cases "dst m")
      case None
      then have "m \<in> set new" using that new True by simp
      then show ?thesis using that(1) True old c by (simp add: dst split: if_splits)
    next
      case (Some e)
      then show ?thesis using le [OF Some] old [of m] that(1) True c old [of cur] by simp
    qed
  next
    case False
    note hyp = that
    have d: "dst n = Some d" using that(1,2) unfolding dst q by (auto split: if_splits)
    have "n \<notin> set (cur # rest)" using that(2) False unfolding q by simp
    then obtain e where "e \<le> d + 1" "dst m = Some e" using ok d hyp(3,4) unfolding search_ok_def by blast
    then show ?thesis using old [of m] by auto
  qed
  have 5: "dst' start = Some 0" using old [of start] ok by (simp add: search_ok_def)
  have 6: "dst' n \<noteq> None" if "n \<in> set queue'" for n
    using that rest(4) [of n] old [of n] unfolding q by (auto simp: dst)
  show ?thesis unfolding search_ok_def using 1 2 3 4 5 6 by blast
qed

text \<open>A cell that a walk reaches has its distance, or the search still has something nearer to do.\<close>

lemma search_exact:
  assumes "search_ok free start queue dst" and "path free k start n"
  shows "(\<exists>d \<le> k. dst n = Some d) \<or> (\<exists>q \<in> set queue. level dst q < k)"
  using assms(2)
proof (induction k arbitrary: n)
  case 0
  then show ?case using assms(1) by (auto simp: search_ok_def)
next
  case (Suc k)
  then obtain w where w: "path free k start w" "n \<in> set (around w)" "is_free free n" by auto
  from Suc.IH [OF w(1)] show ?case
  proof (elim disjE exE conjE bexE)
    fix d assume d: "d \<le> k" "dst w = Some d"
    show ?thesis
    proof (cases "w \<in> set queue")
      case True
      then show ?thesis using d by (intro disjI2 bexI [of _ w]) (simp_all add: level_def)
    next
      case False
      then obtain e where "e \<le> d + 1" "dst n = Some e" using assms(1) d(2) w(2,3) unfolding search_ok_def by blast
      then show ?thesis using d(1) by (intro disjI1 exI [of _ e]) simp
    qed
  qed (auto intro: less_SucI)
qed

declare bfs.simps [simp del]

text \<open>The search ends at the goal with the invariant in force, or with an empty queue without having seen it.\<close>

lemma bfs_ok:
  assumes "search_ok free start queue dst" and "dst goal \<noteq> None \<longrightarrow> goal \<in> set queue"
    and "bfs free goal queue dst = (dst', queue', found)"
  shows "search_ok free start queue' dst' \<and>
    (if found then queue' \<noteq> [] \<and> hd queue' = goal else queue' = [] \<and> dst' goal = None)"
  using assms
proof (induction free goal queue dst rule: bfs.induct)
  case (1 free goal dst)
  then show ?case by (auto simp: bfs.simps)
next
  case (2 free goal cur rest dst)
  show ?case
  proof (cases "cur = goal")
    case True
    then show ?thesis using "2.prems" unfolding bfs.simps by auto
  next
    case False
    obtain dst1 q1 where v: "visit free (next_level (dst cur)) (around cur) dst rest = (dst1, q1)" by fastforce
    from visit_spec [OF v] obtain new where q1: "q1 = rest @ new"
      and d1: "dst1 = (\<lambda>n. if n \<in> set new then Some (next_level (dst cur)) else dst n)" by blast
    have "dst1 goal \<noteq> None \<longrightarrow> goal \<in> set q1" using "2.prems"(2) False unfolding q1 d1 by auto
    moreover have "bfs free goal q1 dst1 = (dst', queue', found)" using "2.prems"(3) False v by (simp add: bfs.simps)
    ultimately show ?thesis using "2.IH" [OF False v [symmetric]] search_ok_step [OF "2.prems"(1) v] by blast
  qed
qed

lemma bfs_run:
  assumes "bfs free goal [start] (Map.empty(start \<mapsto> 0)) = (dst, queue, found)"
  shows "search_ok free start queue dst"
    and "if found then queue \<noteq> [] \<and> hd queue = goal else queue = [] \<and> dst goal = None"
proof -
  have "(Map.empty(start \<mapsto> 0)) goal \<noteq> None \<longrightarrow> goal \<in> set [start]" by simp
  from bfs_ok [OF search_ok_start this assms] show "search_ok free start queue dst"
    and "if found then queue \<noteq> [] \<and> hd queue = goal else queue = [] \<and> dst goal = None" by simp_all
qed

text \<open>The number of steps of a shortest walk.\<close>

definition hops :: "bool list \<Rightarrow> int \<Rightarrow> int \<Rightarrow> nat" where
  "hops free u v = (LEAST k. path free k u v)"

definition reachable :: "bool list \<Rightarrow> int \<Rightarrow> int \<Rightarrow> bool" where
  "reachable free u v \<longleftrightarrow> (\<exists>k. path free k u v)"

lemma hops_path: "reachable free u v \<Longrightarrow> path free (hops free u v) u v"
  unfolding hops_def reachable_def by (rule LeastI_ex)

lemma hops_le: "path free k u v \<Longrightarrow> hops free u v \<le> k"
  unfolding hops_def by (rule Least_le)

lemma search_level:
  assumes ok: "search_ok free start queue dst" and n: "dst n = Some d"
  shows "d = hops free start n"
proof (rule antisym)
  have p: "path free d start n" using ok n by (auto simp: search_ok_def)
  then show "hops free start n \<le> d" by (rule hops_le)
  have "path free (hops free start n) start n" using p by (intro hops_path) (auto simp: reachable_def)
  from search_exact [OF ok this] show "d \<le> hops free start n"
  proof (elim disjE bexE exE conjE)
    fix q assume q: "q \<in> set queue" "level dst q < hops free start n"
    have "d \<le> level dst q + 1" using ok n q(1) by (auto simp: search_ok_def)
    then show ?thesis using q(2) by simp
  qed (use n in simp)
qed

lemma bfs_found_iff:
  assumes "bfs free goal [start] (Map.empty(start \<mapsto> 0)) = (dst, queue, found)"
  shows "found \<longleftrightarrow> reachable free start goal"
proof -
  note ok = bfs_run [OF assms]
  show ?thesis
  proof (cases found)
    case True
    then have "goal \<in> set queue" using ok by (auto dest: hd_in_set)
    then obtain d where "dst goal = Some d" using ok by (auto simp: search_ok_def)
    then show ?thesis using ok True by (auto simp: search_ok_def reachable_def)
  next
    case False
    then show ?thesis using ok search_exact [of free start "[]" dst _ goal] by (auto simp: reachable_def)
  qed
qed

text \<open>The neighbour \<open>downhill\<close> picks, if any is below the bound it starts from.\<close>

lemma downhill_spec:
  "downhill free dst ns best bestD = b \<Longrightarrow>
     b = best \<and> (\<forall>n \<in> set ns. is_free free n \<longrightarrow> dst n \<noteq> None \<longrightarrow> bestD \<le> level dst n) \<or>
     b \<in> set ns \<and> is_free free b \<and> dst b \<noteq> None \<and> level dst b < bestD \<and>
       (\<forall>n \<in> set ns. is_free free n \<longrightarrow> dst n \<noteq> None \<longrightarrow> level dst b \<le> level dst n)"
proof (induction ns arbitrary: best bestD)
  case (Cons n ns)
  show ?case
  proof (cases "is_free free n \<and> dst n \<noteq> None \<and> level dst n < bestD")
    case True
    then have "downhill free dst ns n (level dst n) = b" using Cons.prems by (auto simp: level_def)
    from Cons.IH [OF this] True show ?thesis by auto
  next
    case False
    then have "downhill free dst ns best bestD = b" using Cons.prems by (auto simp: level_def split: if_splits)
    from Cons.IH [OF this] False show ?thesis by auto
  qed
qed simp

theorem nextCell_descends:
  assumes grid: "on_grid start" and free: "is_free free start"
    and reach: "reachable free start goal" and far: "goal \<noteq> start"
  shows "\<exists>n. nextCell free start goal = Some n \<and> n \<in> set (around goal) \<and> is_free free n \<and>
    reachable free start n \<and> hops free start goal = Suc (hops free start n)"
proof -
  obtain dst queue found where b: "bfs free goal [start] (Map.empty(start \<mapsto> 0)) = (dst, queue, found)"
    by (metis prod_cases3)
  have f: "found" using bfs_found_iff [OF b] reach by simp
  have ok: "search_ok free start queue dst" and q: "queue \<noteq> []" "hd queue = goal"
    using bfs_run [OF b] f by auto
  have gq: "goal \<in> set queue" using q hd_in_set by blast
  then obtain g where g: "dst goal = Some g" using ok by (auto simp: search_ok_def)
  have gh: "g = hops free start goal" by (rule search_level [OF ok g])
  have low: "g \<le> level dst m" if "m \<in> set queue" for m
    using ok that q g by (cases queue) (auto simp: search_ok_def level_def)
  have pg: "path free g start goal" using hops_path [OF reach] gh by simp
  then obtain h where h: "g = Suc h" using far by (cases g) auto
  then obtain w where w: "path free h start w" "goal \<in> set (around w)" "is_free free goal" using pg by auto
  have wg: "on_grid w" by (rule path_on_grid [OF w(1) grid])
  have wf: "is_free free w" using w(1) free by (cases h) auto
  have wd: "\<exists>d \<le> h. dst w = Some d"
    using search_exact [OF ok w(1)] low h by (meson Suc_n_not_le_n le_trans less_imp_le_nat not_less_eq_eq)
  have wa: "w \<in> set (around goal)" by (rule around_sym [OF w(2) wg])
  define n where "n = downhill free dst (around goal) (- 1) g"
  have pick: "n \<in> set (around goal) \<and> is_free free n \<and> dst n \<noteq> None \<and> level dst n < g"
    using downhill_spec [OF n_def [symmetric]] wa wf wd h by (fastforce simp: level_def)
  then obtain d where d: "dst n = Some d" by blast
  have dn: "d = hops free start n" by (rule search_level [OF ok d])
  have pn: "path free d start n" using ok d by (auto simp: search_ok_def)
  have "n \<in> set (around goal)" using pick by simp
  then have "goal \<in> set (around n)" by (rule around_sym) (rule around_on_grid [OF w(2)])
  then have "path free (Suc d) start goal" using pn w(3) by auto
  then have "g \<le> Suc d" using gh hops_le by blast
  moreover have "d < g" using pick d by (simp add: level_def)
  ultimately have "g = Suc d" by simp
  moreover have "0 \<le> n" using pick around_on_grid by (auto simp: on_grid_def)
  then have "nextCell free start goal = Some n" unfolding nextCell_def b using f g by (simp add: n_def)
  moreover have "reachable free start n" using pn unfolding reachable_def by blast
  ultimately show ?thesis using pick dn gh by (intro exI [of _ n]) simp
qed

lemma nextCell_unreachable: "\<not> reachable free start goal \<Longrightarrow> nextCell free start goal = None"
proof -
  assume n: "\<not> reachable free start goal"
  obtain dst queue found where b: "bfs free goal [start] (Map.empty(start \<mapsto> 0)) = (dst, queue, found)"
    by (metis prod_cases3)
  show ?thesis using bfs_found_iff [OF b] n unfolding nextCell_def b by simp
qed

section \<open>Following the cells\<close>

lemma navStart_ok:
  assumes "navStart free tc tr = Some start" and "0 \<le> tc" "tc < navCols" "0 \<le> tr" "tr < navRows"
  shows "is_free free start" and "on_grid start"
proof -
  have g: "on_grid (r * navCols + c)" if "0 \<le> c" "c < navCols" "0 \<le> r" "r < navRows" for c r
    using that by (auto simp: on_grid_def navCols_def navRows_def)
  have "is_free free start \<and> on_grid start"
  proof (cases "is_free free (tr * navCols + tc)")
    case True
    then show ?thesis using assms g by (auto simp: navStart_def Let_def)
  next
    case False
    with assms(1) have "navNearestFree free tc tr = Some start" by (simp add: navStart_def Let_def)
    from find_SomeD [OF this [unfolded navNearestFree_def]] g show ?thesis by auto
  qed
  then show "is_free free start" and "on_grid start" by simp_all
qed

lemma navCellOf_range:
  assumes "navCellOf p = (c, r)" shows "0 \<le> c" "c < navCols" "0 \<le> r" "r < navRows"
  using assms by (auto simp: navCellOf_def clampInt_def navCols_def navRows_def)

lemma reachable_free: "reachable free u v \<Longrightarrow> is_free free u \<Longrightarrow> is_free free v"
  unfolding reachable_def by (metis path.simps(1) path.simps(2) old.nat.exhaust)

text \<open>The middle of a cell falls in that cell, so whoever stands there is in the cell he was sent to.\<close>

lemma navCellOf_navCentre:
  assumes "0 \<le> c" "c < navCols" "0 \<le> r" "r < navRows" shows "navCellOf (navCentre c r) = (c, r)"
proof -
  have e: "navCentre c r = \<lparr>vx = of_int (2 * c + 1) / 4, vy = of_int (2 * r + 1) / 4\<rparr>"
    by (rule navCentre_exact) (use assms in \<open>auto simp: navCols_def navRows_def\<close>)
  have f: "ftrunc (fdiv (of_int (2 * i + 1) / 4) navCell) = i" if "0 \<le> i" "i < 44" for i :: int
  proof -
    have "\<bar>2 * i + 1\<bar> \<le> 2 ^ 53" using that by simp
    have "of_int (2 * i + 1) / 4 / navCell = of_int (2 * i + 1) * (2::rat) powi (- 1)"
      by (simp add: navCell_def power_int_minus)
    then have "fdiv (of_int (2 * i + 1) / 4) navCell = of_int (2 * i + 1) * 2 powi (- 1)"
      using fl_exact [OF \<open>\<bar>2 * i + 1\<bar> \<le> 2 ^ 53\<close>, of "- 1"] unfolding fdiv_def by (simp only:)
    then have "fdiv (of_int (2 * i + 1) / 4) navCell = of_int (2 * i + 1) / 2" by (simp add: power_int_minus)
    then show ?thesis using that by (simp add: ftrunc_def floor_unique)
  qed
  show ?thesis using assms f [of c] f [of r] by (simp add: navCellOf_def e clampInt_def navCols_def navRows_def)
qed

text \<open>Cell by cell along \<^verbatim>\<open>nextCell\<close>.\<close>

primrec follow :: "bool list \<Rightarrow> int \<Rightarrow> nat \<Rightarrow> int \<Rightarrow> int option" where
  "follow free start 0 n = Some n"
| "follow free start (Suc k) n = (case nextCell free start n of None \<Rightarrow> None | Some m \<Rightarrow> follow free start k m)"

lemma hops_zero: "reachable free u v \<Longrightarrow> hops free u v = 0 \<Longrightarrow> v = u"
  using hops_path [of free u v] by simp

lemma follow_arrives:
  assumes "on_grid start" and "is_free free start" and "reachable free start n"
  shows "follow free start (hops free start n) n = Some start"
  using assms(3)
proof (induction "hops free start n" arbitrary: n)
  case 0
  then show ?case using hops_zero [OF 0(2)] by simp
next
  case (Suc k)
  have "n \<noteq> start"
  proof
    assume "n = start"
    then have "hops free start n \<le> 0" by (intro hops_le) simp
    then show False using Suc.hyps(2) by simp
  qed
  from nextCell_descends [OF assms(1,2) Suc.prems this] obtain m where
    m: "nextCell free start n = Some m" "reachable free start m" "hops free start n = Suc (hops free start m)" by blast
  then have "k = hops free start m" using Suc.hyps(2) by simp
  from Suc.hyps(1) [OF this m(2)] show ?case using m by simp
qed

text \<open>C18: Where the straight line is blocked and a way over free cells exists, the pursuer is sent to the
middle of a free neighbouring cell that is one step closer on a shortest way, and once there he
is in that cell; going on like this he stands in the target's cell (or the free cell nearest to it) after as
many steps as the shortest way has, so he never circles.\<close>

theorem pursuit_takes_a_shortest_way:
  assumes "\<not> clearLine (p_rects p) a b (fl BossRadius)"
    and "navCellOf a = (fc, fr)" and "navCellOf b = (tc, tr)" and "navStart (p_nav p) tc tr = Some start"
    and "reachable (p_nav p) start (fr * navCols + fc)" and "fr * navCols + fc \<noteq> start" and "(fc, fr) \<noteq> (tc, tr)"
  shows "(\<exists>n. navAimAt p a b = navCentre (n mod navCols) (n div navCols) \<and>
      n \<in> set (around (fr * navCols + fc)) \<and> is_free (p_nav p) n \<and>
      navCellOf (navAimAt p a b) = (n mod navCols, n div navCols) \<and>
      Suc (hops (p_nav p) start n) = hops (p_nav p) start (fr * navCols + fc)) \<and>
    follow (p_nav p) start (hops (p_nav p) start (fr * navCols + fc)) (fr * navCols + fc) = Some start"
proof -
  note st = navStart_ok [OF assms(4) navCellOf_range [OF assms(3)]]
  from nextCell_descends [OF st(2,1) assms(5,6)] obtain n where
    n: "nextCell (p_nav p) start (fr * navCols + fc) = Some n" "n \<in> set (around (fr * navCols + fc))" "is_free (p_nav p) n"
      "hops (p_nav p) start (fr * navCols + fc) = Suc (hops (p_nav p) start n)" by blast
  have "on_grid n" using n(2) by (rule around_on_grid)
  then have "0 \<le> n mod navCols" "n mod navCols < navCols" "0 \<le> n div navCols" "n div navCols < navRows"
    by (auto simp: on_grid_def navCols_def navRows_def)
  note c = navCellOf_navCentre [OF this]
  have "navAimAt p a b = navCentre (n mod navCols) (n div navCols)"
    using assms n(1) by (auto simp: navAimAt_def Let_def)
  with c n follow_arrives [OF st(2,1) assms(5)] show ?thesis by auto
qed

lemma is_free_grid:
  "0 \<le> n \<Longrightarrow> n < 1408 \<Longrightarrow>
     is_free (navGridFor rects) n \<longleftrightarrow> cell_free rects (n mod navCols) (n div navCols)"
  by (simp only: is_free_def navGridFor_nth)

lemma is_free_plan:
  "0 \<le> n \<Longrightarrow> n < 1408 \<Longrightarrow>
     is_free (p_nav (NewPlan l)) n \<longleftrightarrow> cell_free (rects_of l) (n mod navCols) (n div navCols)"
  by (simp only: NewPlan_def Let_def plan.select_convs is_free_grid)

text \<open>A floor with one desk in its corner, and the way round it.\<close>

definition one_desk :: layout where
  "one_desk = \<lparr>l_id = ''one'', l_solids = [\<lparr>so_rect = \<lparr>rx = 4, ry = 4, rw = 1, rh = 1\<rparr>, so_kind = KindDesk\<rparr>], l_windows = []\<rparr>"

lemma one_desk_free:
  "\<forall>n \<in> {198, 199, 200, 230, 262}. is_free (p_nav (NewPlan one_desk)) n"
proof -
  have b: "fl BossRadius \<le> 13 / 4" "15 \<le> fl (OfficeW - BossRadius)" "15 \<le> fl (OfficeH - BossRadius)"
    unfolding floor_constants by (rule le_fl fl_le; simp)+
  have "13 / 4 \<le> lo_x \<lparr>rx = 4, ry = 4, rw = 1, rh = 1\<rparr> (fl BossRadius)"
    "13 / 4 \<le> lo_y \<lparr>rx = 4, ry = 4, rw = 1, rh = 1\<rparr> (fl BossRadius)"
    unfolding lo_x_def lo_y_def fsub_def by (rule le_fl; use radius_bounds in simp)+
  note out = not_insideRect [OF disjI1 [OF order_trans [OF _ this(1)]]]
    not_insideRect [OF disjI2 [OF disjI2 [OF disjI1 [OF order_trans [OF _ this(2)]]]]]
  have "cell_free (rects_of one_desk) c r" if "6 \<le> c" "c < 28" "6 \<le> r" "r < 28" "c = 6 \<or> r = 6" for c r
    using that b out(1) [of "navCentre c r"] out(2) [of "navCentre c r"]
    by (auto simp: cell_free_def rects_of_def one_desk_def navCentre_exact)
  then show ?thesis by (auto simp: is_free_plan navCols_def)
qed

lemma one_desk_way: "reachable (p_nav (NewPlan one_desk)) 200 262"
proof -
  let ?f = "p_nav (NewPlan one_desk)"
  have a: "199 \<in> set (around 200)" "198 \<in> set (around 199)" "230 \<in> set (around 198)" "262 \<in> set (around 230)"
    by code_simp+
  have "path ?f (Suc (Suc (Suc (Suc 0)))) 200 262"
    unfolding path.simps using a one_desk_free by blast
  then show ?thesis unfolding reachable_def by blast
qed

theorem pursuit_takes_a_shortest_way_witness:
  "\<exists>n. navAimAt (NewPlan one_desk) \<lparr>vx = 13 / 4, vy = 17 / 4\<rparr> \<lparr>vx = 17 / 4, vy = 13 / 4\<rparr> = navCentre (n mod navCols) (n div navCols) \<and>
      n \<in> set (around 262) \<and> Suc (hops (p_nav (NewPlan one_desk)) 200 n) = hops (p_nav (NewPlan one_desk)) 200 262"
proof -
  have 1: "\<not> clearLine (p_rects (NewPlan one_desk)) \<lparr>vx = 13 / 4, vy = 17 / 4\<rparr> \<lparr>vx = 17 / 4, vy = 13 / 4\<rparr> (fl BossRadius)"
    by (simp only: NewPlan_def Let_def plan.select_convs) code_simp
  have 2: "navCellOf \<lparr>vx = 13 / 4, vy = 17 / 4\<rparr> = (6, 8)" "navCellOf \<lparr>vx = 17 / 4, vy = 13 / 4\<rparr> = (8, 6)"
    by code_simp+
  have 3: "navStart (p_nav (NewPlan one_desk)) 8 6 = Some 200"
    using one_desk_free by (simp add: navStart_def navCols_def)
  have 4: "8 * navCols + 6 = 262" by (simp add: navCols_def)
  from pursuit_takes_a_shortest_way [OF 1 2 3, unfolded 4, OF one_desk_way] show ?thesis by auto
qed

lemma navAimAt_unreachable:
  assumes "navCellOf a = (fc, fr)" and "navCellOf b = (tc, tr)"
    and "\<And>start. navStart (p_nav p) tc tr = Some start \<Longrightarrow> \<not> reachable (p_nav p) start (fr * navCols + fc)"
  shows "navAimAt p a b = b"
  using assms nextCell_unreachable by (auto simp: navAimAt_def Let_def split: option.splits)

lemma navAimAt_own_cell_blocked:
  assumes "navCellOf a = (fc, fr)" and "\<not> is_free (p_nav p) (fr * navCols + fc)"
  shows "navAimAt p a b = b"
proof -
  obtain tc tr where t: "navCellOf b = (tc, tr)" by fastforce
  show ?thesis
    by (rule navAimAt_unreachable [OF assms(1) t])
      (use assms(2) navStart_ok(1) [OF _ navCellOf_range [OF t]] reachable_free in blast)
qed

end
