(* ===== verification/FintechLayout.thy ===== *)
theory FintechLayout
  imports FintechNav
begin

text \<open>
  Is this office playable? (\<^verbatim>\<open>internal/gamefintech/validate.go\<close>, \<^verbatim>\<open>FixedPoints\<close>
  of \<^verbatim>\<open>layout.go\<close> and the points of \<^verbatim>\<open>content.go\<close>.) Every double of the model is
  finite, as is every number the JSON decoder or the generator makes, so \<^verbatim>\<open>finite\<close> is left
  out of the tests. The flood fill is related to the search of \<open>FintechNav\<close>, which gives it its
  meaning; and the gap rules are shown to be what the single pass of the resolver needs.
\<close>

section \<open>The fixed points\<close>

definition PlayerSpawn :: vec2 where "PlayerSpawn = \<lparr>vx = 8, vy = 4\<rparr>"
definition BossSpawn :: vec2 where "BossSpawn = \<lparr>vx = 8, vy = 205 / 10\<rparr>"
definition ChaserSpawn :: vec2 where "ChaserSpawn = \<lparr>vx = 2, vy = 20\<rparr>"
definition npc_spawns :: "vec2 list" where "npc_spawns = [\<lparr>vx = 3, vy = 2\<rparr>, \<lparr>vx = 13, vy = 2\<rparr>]"

definition BottleSpots :: "vec2 list" where
  "BottleSpots = [\<lparr>vx = fl (22 / 10), vy = 6\<rparr>, \<lparr>vx = fl (138 / 10), vy = 6\<rparr>, \<lparr>vx = 8, vy = 2\<rparr>,
     \<lparr>vx = fl (22 / 10), vy = 155 / 10\<rparr>, \<lparr>vx = fl (138 / 10), vy = 155 / 10\<rparr>, \<lparr>vx = 8, vy = 11\<rparr>]"

definition HookahSpots :: "vec2 list" where
  "HookahSpots = [\<lparr>vx = 8, vy = 6\<rparr>, \<lparr>vx = fl (9 / 10), vy = 105 / 10\<rparr>, \<lparr>vx = fl (151 / 10), vy = 105 / 10\<rparr>,
     \<lparr>vx = 8, vy = fl (136 / 10)\<rparr>]"

definition FixedPoints :: "vec2 list" where
  "FixedPoints = [PlayerSpawn, BossSpawn, ChaserSpawn] @ npc_spawns @ BottleSpots @ HookahSpots"

section \<open>One place\<close>

text \<open>The flood fill: \<^verbatim>\<open>seen\<close>, the count \<^verbatim>\<open>reached\<close> and the queue.\<close>

fun spread :: "bool list \<Rightarrow> int list \<Rightarrow> (int \<Rightarrow> bool) \<Rightarrow> nat \<Rightarrow> int list \<Rightarrow> (int \<Rightarrow> bool) \<times> nat \<times> int list" where
  "spread free [] seen reached queue = (seen, reached, queue)"
| "spread free (n # ns) seen reached queue =
     (if seen n \<or> \<not> is_free free n then spread free ns seen reached queue
      else spread free ns (seen(n := True)) (reached + 1) (queue @ [n]))"

lemma spread_visit:
  "visit free d ns dst queue = (dst', queue') \<Longrightarrow>
     spread free ns (\<lambda>n. dst n \<noteq> None) reached queue =
       ((\<lambda>n. dst' n \<noteq> None), reached + (length queue' - length queue), queue') \<and> length queue \<le> length queue'"
proof (induction ns arbitrary: dst queue reached)
  case (Cons n ns)
  show ?case
  proof (cases "dst n \<noteq> None \<or> \<not> is_free free n")
    case True
    then have "visit free d ns dst queue = (dst', queue')" using Cons.prems by auto
    from Cons.IH [OF this, of reached] show ?thesis using True by simp
  next
    case False
    then have v: "visit free d ns (dst(n \<mapsto> d)) (queue @ [n]) = (dst', queue')" using Cons.prems by simp
    have "(\<lambda>m. dst m \<noteq> None)(n := True) = (\<lambda>m. (dst(n \<mapsto> d)) m \<noteq> None)" by (simp add: fun_eq_iff)
    with Cons.IH [OF v, of "reached + 1"] False show ?thesis by simp arith
  qed
qed simp

definition unseen :: "(int \<Rightarrow> bool) \<Rightarrow> nat" where
  "unseen seen = card {n \<in> {0 ..< navCols * navRows}. \<not> seen n}"

lemma unset_unseen: "unset dst = unseen (\<lambda>n. dst n \<noteq> None)"
  by (simp add: unset_def unseen_def)

lemma spread_measure:
  assumes "spread free (around cur) seen reached rest = (seen', reached', queue')"
  shows "length queue' + unseen seen' = length rest + unseen seen"
proof -
  define dst where "dst = (\<lambda>n. if seen n then Some (0::nat) else None)"
  have s: "seen = (\<lambda>n. dst n \<noteq> None)" by (simp add: dst_def fun_eq_iff)
  obtain dst' q' where v: "visit free 0 (around cur) dst rest = (dst', q')" by fastforce
  have "set (around cur) \<subseteq> {0 ..< navCols * navRows}" using nbrs_in_grid by (auto simp: around_def)
  from visit_measure [OF this v] spread_visit [OF v, of reached] show ?thesis
    using assms unfolding s unset_unseen by auto
qed

function flood :: "bool list \<Rightarrow> int list \<Rightarrow> (int \<Rightarrow> bool) \<Rightarrow> nat \<Rightarrow> (int \<Rightarrow> bool) \<times> nat" where
  "flood free [] seen reached = (seen, reached)"
| "flood free (cur # rest) seen reached =
     (case spread free (around cur) seen reached rest of
        (seen', reached', queue') \<Rightarrow> flood free queue' seen' reached')"
  by pat_completeness auto

termination
  by (relation "measure (\<lambda>(free, queue, seen, reached). length queue + unseen seen)")
    (auto dest!: spread_measure [OF sym])

declare flood.simps [simp del]

definition floorIsOnePlace :: "rect list \<Rightarrow> bool" where
  "floorIsOnePlace rects =
     (let free = navGridFor rects; (c, r) = navCellOf BossSpawn in
      case navStart free c r of
        None \<Rightarrow> False
      | Some start \<Rightarrow> snd (flood free [start] ((\<lambda>_. False)(start := True)) 1) = length (filter (\<lambda>f. f) free))"

section \<open>The predicate\<close>

definition ProblemBadKind :: string where "ProblemBadKind = ''bad_kind''"
definition ProblemBadSize :: string where "ProblemBadSize = ''bad_size''"
definition ProblemOffFloor :: string where "ProblemOffFloor = ''off_floor''"
definition ProblemTooClose :: string where "ProblemTooClose = ''too_close''"
definition ProblemSpotBlocked :: string where "ProblemSpotBlocked = ''spot_blocked''"
definition ProblemSplitFloor :: string where "ProblemSplitFloor = ''split_floor''"
definition ProblemTooMany :: string where "ProblemTooMany = ''too_many''"
definition ProblemBadWindow :: string where "ProblemBadWindow = ''bad_window''"

type_synonym issue = "string \<times> int"

definition WholeLayout :: int where "WholeLayout = - 1"
definition maxIssues :: nat where "maxIssues = 12"

definition add :: "string \<Rightarrow> int \<Rightarrow> issue list \<Rightarrow> issue list" where
  "add p i out = (if length out < maxIssues then out @ [(p, i)] else out)"

definition validKind :: "string \<Rightarrow> bool" where "validKind k \<longleftrightarrow> list_ex (\<lambda>want. k = want) Kinds"
definition validWall :: "string \<Rightarrow> bool" where "validWall w \<longleftrightarrow> list_ex (\<lambda>want. w = want) Walls"

definition bad_size :: "rect \<Rightarrow> bool" where
  "bad_size s \<longleftrightarrow> rw s < fl MinSolidSide \<or> rh s < fl MinSolidSide \<or> rw s > MaxSolidSide \<or> rh s > MaxSolidSide"

text \<open>The first pass, one solid at a time, with the flag \<^verbatim>\<open>sane\<close>.\<close>

fun check_solids :: "int \<Rightarrow> solid list \<Rightarrow> issue list \<Rightarrow> bool \<Rightarrow> issue list \<times> bool" where
  "check_solids i [] out sane = (out, sane)"
| "check_solids i (s # ss) out sane =
     (if \<not> validKind (so_kind s) then check_solids (i + 1) ss (add ProblemBadKind i out) False
      else if bad_size (so_rect s) then check_solids (i + 1) ss (add ProblemBadSize i out) False
      else if wallGap (so_rect s) < MinGap then check_solids (i + 1) ss (add ProblemOffFloor i out) False
      else check_solids (i + 1) ss out sane)"

fun check_from :: "rect \<Rightarrow> int \<Rightarrow> solid list \<Rightarrow> issue list \<Rightarrow> issue list" where
  "check_from a j [] out = out"
| "check_from a j (s # ss) out =
     check_from a (j + 1) ss (if sepAxis a (so_rect s) < MinGap then add ProblemTooClose j out else out)"

fun check_pairs :: "int \<Rightarrow> solid list \<Rightarrow> issue list \<Rightarrow> issue list" where
  "check_pairs i [] out = out"
| "check_pairs i (s # ss) out = check_pairs (i + 1) ss (check_from (so_rect s) (i + 1) ss out)"

fun check_spot :: "vec2 \<Rightarrow> int \<Rightarrow> solid list \<Rightarrow> issue list \<Rightarrow> issue list" where
  "check_spot p i [] out = out"
| "check_spot p i (s # ss) out =
     check_spot p (i + 1) ss (if pointGap (so_rect s) p < fl SpotClear then add ProblemSpotBlocked i out else out)"

definition bad_window :: "window \<Rightarrow> bool" where
  "bad_window w \<longleftrightarrow> \<not> validWall (wi_wall w) \<or> wi_len w < fl WindowMin \<or> wi_at w < fl WindowEdge \<or>
     fadd (wi_at w) (wi_len w) > fsub (wallLength (wi_wall w)) (fl WindowEdge)"

definition panes_overlap :: "window \<Rightarrow> window \<Rightarrow> bool" where
  "panes_overlap w v \<longleftrightarrow> wi_at w < fadd (fadd (wi_at v) (wi_len v)) (fl WindowMullion) \<and>
     wi_at v < fadd (fadd (wi_at w) (wi_len w)) (fl WindowMullion)"

fun check_panes :: "window \<Rightarrow> int \<Rightarrow> window list \<Rightarrow> issue list \<Rightarrow> issue list" where
  "check_panes w j [] out = out"
| "check_panes w j (v # vs) out =
     check_panes w (j + 1) vs
       (if wi_wall v \<noteq> wi_wall w then out else if panes_overlap w v then add ProblemBadWindow j out else out)"

fun check_windows :: "int \<Rightarrow> window list \<Rightarrow> issue list \<Rightarrow> issue list" where
  "check_windows i [] out = out"
| "check_windows i (w # ws) out =
     check_windows (i + 1) ws
       (if bad_window w then add ProblemBadWindow i out else check_panes w (i + 1) ws out)"

definition ValidateLayout :: "layout \<Rightarrow> issue list" where
  "ValidateLayout l =
     (if length (l_solids l) > MaxSolids \<or> length (l_windows l) > MaxWindows then [(ProblemTooMany, WholeLayout)]
      else case check_solids 0 (l_solids l) [] True of (out, sane) \<Rightarrow>
        if \<not> sane then out
        else let out = check_pairs 0 (l_solids l) out;
                 out = fold (\<lambda>p out. check_spot p 0 (l_solids l) out) FixedPoints out;
                 out = (if \<not> floorIsOnePlace (rects_of l) then add ProblemSplitFloor WholeLayout out else out) in
          check_windows 0 (l_windows l) out)"

section \<open>What the flood fill decides\<close>

text \<open>The flood fill is the search for a cell that does not exist.\<close>

lemma flood_bfs:
  assumes "bfs free (- 1) queue dst = (dst', queue', found)" and "\<forall>n \<in> set queue. on_grid n"
  shows "\<exists>reached'. flood free queue (\<lambda>n. dst n \<noteq> None) reached = ((\<lambda>n. dst' n \<noteq> None), reached') \<and>
    reached' + unset dst' = reached + unset dst"
  using assms
proof (induction free "- 1 :: int" queue dst arbitrary: reached rule: bfs.induct)
  case (1 free dst)
  then show ?case by (auto simp: bfs.simps flood.simps)
next
  case (2 free cur rest dst)
  have c: "cur \<noteq> - 1" using "2.prems"(2) by (auto simp: on_grid_def)
  obtain dst1 q1 where v: "visit free (next_level (dst cur)) (around cur) dst rest = (dst1, q1)" by fastforce
  from visit_spec [OF v] obtain new where q1: "q1 = rest @ new" "set new \<subseteq> set (around cur)" by blast
  have "\<forall>n \<in> set q1. on_grid n" using q1 "2.prems"(2) around_on_grid by auto
  moreover have "bfs free (- 1) q1 dst1 = (dst', queue', found)" using "2.prems"(1) c v by (simp add: bfs.simps)
  ultimately obtain r where r: "flood free q1 (\<lambda>n. dst1 n \<noteq> None) (reached + (length q1 - length rest)) = ((\<lambda>n. dst' n \<noteq> None), r)"
    "r + unset dst' = reached + (length q1 - length rest) + unset dst1"
    using "2.hyps" [OF c v [symmetric]] by blast
  have "set (around cur) \<subseteq> {0 ..< navCols * navRows}" using nbrs_in_grid by (auto simp: around_def)
  note m = visit_measure [OF this v]
  have "flood free (cur # rest) (\<lambda>n. dst n \<noteq> None) reached = ((\<lambda>n. dst' n \<noteq> None), r)"
    using spread_visit [OF v, of reached] r(1) by (simp add: flood.simps)
  moreover have "r + unset dst' = reached + unset dst" using m r(2) spread_visit [OF v, of reached] by linarith
  ultimately show ?case by blast
qed

text \<open>The free cells, and their number as the validator counts it.\<close>

definition free_cells :: "bool list \<Rightarrow> int set" where
  "free_cells free = {n. on_grid n \<and> is_free free n}"

lemma count_free: "length free = 1408 \<Longrightarrow> length (filter (\<lambda>f. f) free) = card (free_cells free)"
proof -
  assume l: "length free = 1408"
  have "length (filter (\<lambda>f. f) free) = card {i. i < length free \<and> free ! i}" by (rule length_filter_conv_card)
  also have "\<dots> = card (int ` {i. i < length free \<and> free ! i})" by (simp add: card_image)
  also have "int ` {i. i < length free \<and> free ! i} = free_cells free"
    using l by (auto simp: free_cells_def on_grid_def is_free_def navCols_def navRows_def image_iff) (metis int_nat_eq nat_less_iff of_nat_numeral zle_int)
  finally show ?thesis .
qed

lemma finite_grid: "finite {n. on_grid n}"
  by (rule finite_subset [of _ "{0 ..< navCols * navRows}"]) (auto simp: on_grid_def)

lemma unset_reached:
  assumes "\<And>n. dst n \<noteq> None \<Longrightarrow> on_grid n"
  shows "card {n. dst n \<noteq> None} + unset dst = 1408"
proof -
  have "finite {n. dst n \<noteq> None}" by (rule finite_subset [OF _ finite_grid]) (use assms in auto)
  moreover have "finite {n \<in> {0 ..< navCols * navRows}. dst n = None}"
    by (rule finite_subset [OF _ finite_grid]) (auto simp: on_grid_def)
  ultimately have "card {n. dst n \<noteq> None} + unset dst
      = card ({n. dst n \<noteq> None} \<union> {n \<in> {0 ..< navCols * navRows}. dst n = None})"
    unfolding unset_def by (intro card_Un_disjoint [symmetric]) auto
  also have "{n. dst n \<noteq> None} \<union> {n \<in> {0 ..< navCols * navRows}. dst n = None} = {0 ..< 1408}"
    using assms by (auto simp: on_grid_def navCols_def navRows_def)
  finally show ?thesis by simp
qed

lemma flood_counts_reachable:
  assumes "on_grid start" and "is_free free start"
  shows "snd (flood free [start] ((\<lambda>_. False)(start := True)) 1) = card {n. reachable free start n}"
proof -
  obtain dst queue found where b: "bfs free (- 1) [start] (Map.empty(start \<mapsto> 0)) = (dst, queue, found)"
    by (metis prod_cases3)
  note run = bfs_run [OF b]
  have grid: "on_grid n" if "dst n \<noteq> None" for n
    using that run(1) path_on_grid assms(1) by (fastforce simp: search_ok_def)
  have "dst (- 1) = None" using grid [of "- 1"] by (cases "dst (- 1)") (auto simp: on_grid_def)
  then have q: "queue = []" using run by (cases queue) (auto simp: search_ok_def split: if_splits)
  have r: "reachable free start n \<longleftrightarrow> dst n \<noteq> None" for n
  proof
    assume "reachable free start n"
    then obtain k where "path free k start n" unfolding reachable_def by blast
    from search_exact [OF run(1) this] show "dst n \<noteq> None" unfolding q by auto
  next
    assume "dst n \<noteq> None"
    then obtain d where "dst n = Some d" by blast
    then have "path free d start n" using run(1) unfolding search_ok_def by blast
    then show "reachable free start n" unfolding reachable_def by blast
  qed
  have s: "(\<lambda>_. False)(start := True) = (\<lambda>n. (Map.empty(start \<mapsto> 0 :: nat)) n \<noteq> None)" by (simp add: fun_eq_iff)
  from flood_bfs [OF b, of 1] obtain reached' where f: "flood free [start] ((\<lambda>_. False)(start := True)) 1 = ((\<lambda>n. dst n \<noteq> None), reached')"
    "reached' + unset dst = 1 + unset (Map.empty(start \<mapsto> 0))" unfolding s using assms(1) by auto
  have "card {n. (Map.empty(start \<mapsto> 0 :: nat)) n \<noteq> None} + unset (Map.empty(start \<mapsto> 0)) = 1408"
    by (rule unset_reached) (use assms(1) in \<open>auto split: if_splits\<close>)
  moreover have "{n. (Map.empty(start \<mapsto> 0 :: nat)) n \<noteq> None} = {start}" by auto
  ultimately have "1 + unset (Map.empty(start \<mapsto> 0)) = 1408" by simp
  with f(2) unset_reached [of dst, OF grid] have "reached' = card {n. dst n \<noteq> None}" by simp
  then show ?thesis using f(1) r by simp
qed

theorem floorIsOnePlace_iff:
  "floorIsOnePlace rects \<longleftrightarrow>
     (\<exists>start. navStart (navGridFor rects) (fst (navCellOf BossSpawn)) (snd (navCellOf BossSpawn)) = Some start \<and>
        (\<forall>n. on_grid n \<longrightarrow> is_free (navGridFor rects) n \<longrightarrow> reachable (navGridFor rects) start n))"
proof -
  let ?f = "navGridFor rects"
  obtain c r where cr: "navCellOf BossSpawn = (c, r)" by fastforce
  show ?thesis
  proof (cases "navStart ?f c r")
    case None
    then show ?thesis by (simp add: floorIsOnePlace_def cr Let_def)
  next
    case (Some start)
    note st = navStart_ok [OF Some navCellOf_range [OF cr]]
    have sub: "{n. reachable ?f start n} \<subseteq> free_cells ?f"
      using st path_on_grid reachable_free by (fastforce simp: free_cells_def reachable_def)
    have "finite (free_cells ?f)" by (rule finite_subset [OF _ finite_grid]) (auto simp: free_cells_def)
    then have "card {n. reachable ?f start n} = card (free_cells ?f) \<longleftrightarrow> {n. reachable ?f start n} = free_cells ?f"
      using card_subset_eq [OF _ sub] by auto
    also have "\<dots> \<longleftrightarrow> (\<forall>n. on_grid n \<longrightarrow> is_free ?f n \<longrightarrow> reachable ?f start n)"
      using sub by (auto simp: free_cells_def)
    finally show ?thesis
      using Some flood_counts_reachable [OF st(2,1)] by (simp add: floorIsOnePlace_def cr Let_def count_free)
  qed
qed

section \<open>What no issue means\<close>

lemma add_nonempty [simp]: "add p i out \<noteq> []"
  by (cases out) (simp_all add: add_def maxIssues_def)

lemma length_add: "length out \<le> maxIssues \<Longrightarrow> length (add p i out) \<le> maxIssues"
  by (simp add: add_def)

definition solid_ok :: "solid \<Rightarrow> bool" where
  "solid_ok s \<longleftrightarrow> validKind (so_kind s) \<and> \<not> bad_size (so_rect s) \<and> MinGap \<le> wallGap (so_rect s)"

lemma check_solids_ok:
  "check_solids i ss out sane = (out', sane') \<Longrightarrow>
     (sane' \<longleftrightarrow> sane \<and> list_all solid_ok ss) \<and> (sane' \<longrightarrow> out' = out) \<and> (\<not> list_all solid_ok ss \<longrightarrow> out' \<noteq> []) \<and>
     (out \<noteq> [] \<longrightarrow> out' \<noteq> []) \<and> (length out \<le> maxIssues \<longrightarrow> length out' \<le> maxIssues)"
proof (induction ss arbitrary: i out sane)
  case (Cons s ss)
  show ?case
  proof (cases "solid_ok s")
    case True
    then have "check_solids (i + 1) ss out sane = (out', sane')" using Cons.prems by (auto simp: solid_ok_def)
    from Cons.IH [OF this] True show ?thesis by simp
  next
    case False
    then obtain p where "check_solids (i + 1) ss (add p i out) False = (out', sane')"
      using Cons.prems by (auto simp: solid_ok_def split: if_splits)
    from Cons.IH [OF this] False length_add [of out p i] show ?thesis by simp
  qed
qed simp

definition apart :: "rect \<Rightarrow> rect \<Rightarrow> bool" where
  "apart a b \<longleftrightarrow> MinGap \<le> sepAxis a b"

text \<open>
  A pass that only adds ends empty exactly when it began empty and found nothing (\<open>quiet\<close>), and stays
  within the bound.
\<close>

definition quiet :: "(issue list \<Rightarrow> issue list) \<Rightarrow> bool \<Rightarrow> bool" where
  "quiet f ok \<longleftrightarrow> (\<forall>out. f out = [] \<longleftrightarrow> out = [] \<and> ok) \<and> (\<forall>out. length out \<le> maxIssues \<longrightarrow> length (f out) \<le> maxIssues)"

lemma quiet_id: "quiet (\<lambda>out. out) True"
  by (simp add: quiet_def)

lemma quiet_add: "quiet (\<lambda>out. if bad then add p i out else out) (\<not> bad)"
  by (auto simp: quiet_def length_add)

lemma quiet_comp: "quiet f a \<Longrightarrow> quiet g b \<Longrightarrow> quiet (\<lambda>out. g (f out)) (a \<and> b)"
  by (auto simp: quiet_def)

lemma quiet_from: "quiet (check_from a j ss) (list_all (\<lambda>s. apart a (so_rect s)) ss)"
proof (induction ss arbitrary: j)
  case (Cons s ss)
  from quiet_comp [OF quiet_add [of "sepAxis a (so_rect s) < MinGap" ProblemTooClose j] Cons [of "j + 1"]]
  show ?case by (simp add: apart_def not_less)
qed (simp add: quiet_def)

fun pairwise_apart :: "solid list \<Rightarrow> bool" where
  "pairwise_apart [] = True"
| "pairwise_apart (s # ss) = (list_all (\<lambda>t. apart (so_rect s) (so_rect t)) ss \<and> pairwise_apart ss)"

lemma quiet_pairs: "quiet (check_pairs i ss) (pairwise_apart ss)"
proof (induction ss arbitrary: i)
  case (Cons s ss)
  from quiet_comp [OF quiet_from [of "so_rect s" "i + 1" ss] Cons [of "i + 1"]] show ?case by simp
qed (simp add: quiet_def)

definition spot_clear :: "vec2 \<Rightarrow> solid \<Rightarrow> bool" where
  "spot_clear p s \<longleftrightarrow> fl SpotClear \<le> pointGap (so_rect s) p"

lemma quiet_spot: "quiet (check_spot p i ss) (list_all (spot_clear p) ss)"
proof (induction ss arbitrary: i)
  case (Cons s ss)
  from quiet_comp [OF quiet_add [of "pointGap (so_rect s) p < fl SpotClear" ProblemSpotBlocked i] Cons [of "i + 1"]]
  show ?case by (simp add: spot_clear_def not_less)
qed (simp add: quiet_def)

lemma quiet_spots:
  "quiet (fold (\<lambda>p out. check_spot p 0 ss out) ps) (list_all (\<lambda>p. list_all (spot_clear p) ss) ps)"
proof (induction ps)
  case (Cons p ps)
  from quiet_comp [OF quiet_spot [of p 0 ss] Cons] show ?case by (simp add: comp_def)
qed (simp add: quiet_def)

definition panes_apart :: "window \<Rightarrow> window \<Rightarrow> bool" where
  "panes_apart w v \<longleftrightarrow> wi_wall v = wi_wall w \<longrightarrow> \<not> panes_overlap w v"

lemma quiet_panes: "quiet (check_panes w j vs) (list_all (panes_apart w) vs)"
proof (induction vs arbitrary: j)
  case (Cons v vs)
  from quiet_comp [OF quiet_add [of "wi_wall v = wi_wall w \<and> panes_overlap w v" ProblemBadWindow j] Cons [of "j + 1"]]
  have "quiet (\<lambda>out. check_panes w (j + 1) vs (if wi_wall v = wi_wall w \<and> panes_overlap w v then add ProblemBadWindow j out else out))
      (\<not> (wi_wall v = wi_wall w \<and> panes_overlap w v) \<and> list_all (panes_apart w) vs)" .
  moreover have "check_panes w j (v # vs) = (\<lambda>out. check_panes w (j + 1) vs
      (if wi_wall v = wi_wall w \<and> panes_overlap w v then add ProblemBadWindow j out else out))"
    by (auto simp: fun_eq_iff)
  moreover have "list_all (panes_apart w) (v # vs) \<longleftrightarrow>
      \<not> (wi_wall v = wi_wall w \<and> panes_overlap w v) \<and> list_all (panes_apart w) vs" by (auto simp: panes_apart_def)
  ultimately show ?case by (simp only:)
qed (simp add: quiet_def)

fun windows_ok :: "window list \<Rightarrow> bool" where
  "windows_ok [] = True"
| "windows_ok (w # ws) = (\<not> bad_window w \<and> list_all (panes_apart w) ws \<and> windows_ok ws)"

lemma quiet_windows: "quiet (check_windows i ws) (windows_ok ws)"
proof (induction ws arbitrary: i)
  case (Cons w ws)
  have "quiet (\<lambda>out. if bad_window w then add ProblemBadWindow i out else check_panes w (i + 1) ws out)
      (\<not> bad_window w \<and> list_all (panes_apart w) ws)"
    using quiet_panes [of w "i + 1" ws] by (auto simp: quiet_def length_add)
  from quiet_comp [OF this Cons [of "i + 1"]] show ?case by (simp add: conj_ac)
qed (simp add: quiet_def)

definition playable :: "layout \<Rightarrow> bool" where
  "playable l \<longleftrightarrow> length (l_solids l) \<le> MaxSolids \<and> length (l_windows l) \<le> MaxWindows \<and>
     list_all solid_ok (l_solids l) \<and> pairwise_apart (l_solids l) \<and>
     list_all (\<lambda>p. list_all (spot_clear p) (l_solids l)) FixedPoints \<and>
     floorIsOnePlace (rects_of l) \<and> windows_ok (l_windows l)"

theorem ValidateLayout_iff: "(ValidateLayout l = [] \<longleftrightarrow> playable l) \<and> length (ValidateLayout l) \<le> maxIssues"
proof -
  obtain out sane where c: "check_solids 0 (l_solids l) [] True = (out, sane)" by fastforce
  note first = check_solids_ok [OF c]
  have "quiet (\<lambda>out. check_windows 0 (l_windows l) (if \<not> floorIsOnePlace (rects_of l) then add ProblemSplitFloor WholeLayout
      (fold (\<lambda>p out. check_spot p 0 (l_solids l) out) FixedPoints (check_pairs 0 (l_solids l) out)) else
      (fold (\<lambda>p out. check_spot p 0 (l_solids l) out) FixedPoints (check_pairs 0 (l_solids l) out))))
    (((pairwise_apart (l_solids l) \<and> list_all (\<lambda>p. list_all (spot_clear p) (l_solids l)) FixedPoints) \<and>
      \<not> \<not> floorIsOnePlace (rects_of l)) \<and> windows_ok (l_windows l))"
    by (rule quiet_comp [OF quiet_comp [OF quiet_comp [OF quiet_pairs quiet_spots] quiet_add] quiet_windows])
  with first show ?thesis
    by (auto simp: ValidateLayout_def c playable_def quiet_def Let_def maxIssues_def)
qed

section \<open>Walks can be turned round\<close>

lemma path_front:
  "path free k w v \<Longrightarrow> w \<in> set (around u) \<Longrightarrow> is_free free w \<Longrightarrow> path free (Suc k) u v"
proof (induction k arbitrary: v)
  case (Suc k)
  then obtain x where "path free k w x" "v \<in> set (around x)" "is_free free v" by auto
  with Suc show ?case by (metis path.simps(2))
qed auto

lemma path_back: "path free k u v \<Longrightarrow> on_grid u \<Longrightarrow> is_free free u \<Longrightarrow> path free k v u"
proof (induction k arbitrary: v)
  case (Suc k)
  then obtain x where x: "path free k u x" "v \<in> set (around x)" by auto
  have "on_grid x" by (rule path_on_grid [OF x(1) Suc.prems(2)])
  then have "x \<in> set (around v)" by (rule around_sym [OF x(2)])
  moreover have "is_free free x" using x(1) Suc.prems(3) by (cases k) auto
  ultimately show ?case using Suc.IH [OF x(1) Suc.prems(2,3)] path_front by blast
qed auto

lemma path_trans: "path free j v w \<Longrightarrow> path free k u v \<Longrightarrow> path free (k + j) u w"
  by (induction j arbitrary: w) auto

lemma one_place_connected:
  assumes "floorIsOnePlace rects" and "on_grid m" "is_free (navGridFor rects) m" "on_grid n" "is_free (navGridFor rects) n"
  shows "reachable (navGridFor rects) m n"
proof -
  let ?f = "navGridFor rects"
  obtain c r where cr: "navCellOf BossSpawn = (c, r)" by fastforce
  from assms(1) obtain start where s: "navStart ?f c r = Some start" "\<forall>n. on_grid n \<longrightarrow> is_free ?f n \<longrightarrow> reachable ?f start n"
    unfolding floorIsOnePlace_iff cr by auto
  note st = navStart_ok [OF s(1) navCellOf_range [OF cr]]
  from s(2) assms obtain i j where "path ?f i start m" "path ?f j start n" unfolding reachable_def by blast
  then show ?thesis using path_back [OF _ st(2,1)] path_trans unfolding reachable_def by blast
qed

text \<open>C19: The validator answers with no issue exactly when every rule of a layout holds (bounds on the
number and size of objects, known kinds, the gap to every wall, to every other solid per axis and to every
fixed point, glazing inside its wall and disjoint, one connected floor), it never names more than twelve
issues, and on an accepted floor any two free cells are joined by a walk over free cells.\<close>

theorem validator_decides_playability:
  "(ValidateLayout l = [] \<longleftrightarrow> playable l) \<and> length (ValidateLayout l) \<le> maxIssues \<and>
     (ValidateLayout l = [] \<longrightarrow> (\<forall>m n. on_grid m \<longrightarrow> on_grid n \<longrightarrow>
        is_free (navGridFor (rects_of l)) m \<longrightarrow> is_free (navGridFor (rects_of l)) n \<longrightarrow>
        reachable (navGridFor (rects_of l)) m n))"
  using ValidateLayout_iff [of l] one_place_connected [of "rects_of l"] unfolding playable_def by blast

text \<open>The empty floor is one place: everything but the outermost ring of cells.\<close>

lemma empty_cell_free:
  assumes "0 \<le> c" "c < 32" "0 \<le> r" "r < 44"
  shows "cell_free [] c r \<longleftrightarrow> 1 \<le> c \<and> c \<le> 30 \<and> 1 \<le> r \<and> r \<le> 42"
proof -
  have e: "fl (of_int m * 2 powi (- 3)) = of_int m * 2 powi (- 3)" if "\<bar>m\<bar> \<le> 2 ^ 53" for m by (rule fl_exact [OF that])
  have b: "3 / 8 \<le> fl BossRadius" "fl BossRadius \<le> 1 / 2" "61 / 4 \<le> fl (OfficeW - BossRadius)" "fl (OfficeW - BossRadius) \<le> 125 / 8"
    "85 / 4 \<le> fl (OfficeH - BossRadius)" "fl (OfficeH - BossRadius) \<le> 173 / 8"
    unfolding floor_constants using e [of 3] e [of 125] e [of 173]
    by (auto simp: power_int_minus intro!: fl_le le_fl simp del: le_divide_eq_numeral1 divide_le_eq_numeral1)
  show ?thesis using assms b by (auto simp: cell_free_def navCentre_exact)
qed

lemma reachable_step: "reachable free u v \<Longrightarrow> w \<in> set (around v) \<Longrightarrow> is_free free w \<Longrightarrow> reachable free u w"
  unfolding reachable_def by (metis path.simps(2))

text \<open>A floor whose only blocked cells inside the outer ring form a block left of the middle column.\<close>

lemma block_walk:
  assumes free: "\<And>x y. 1 \<le> x \<Longrightarrow> x \<le> 30 \<Longrightarrow> 1 \<le> y \<Longrightarrow> y \<le> 42 \<Longrightarrow>
      is_free free (y * 32 + x) \<longleftrightarrow> \<not> (c0 \<le> x \<and> x \<le> c1 \<and> r0 \<le> y \<and> y \<le> r1)"
    and blk: "c1 < 16" "1 \<le> r0" "r1 < 41"
    and cell: "1 \<le> c" "c \<le> 30" "1 \<le> r" "r \<le> 42" "\<not> (c0 \<le> c \<and> c \<le> c1 \<and> r0 \<le> r \<and> r \<le> r1)"
  shows "reachable free (41 * 32 + 16) (r * 32 + c)"
proof -
  let ?s = "41 * 32 + 16"
  have step: "w * 32 + z \<in> set (around (y * 32 + x))"
    if "1 \<le> x" "x \<le> 30" "1 \<le> y" "y \<le> 42" "1 \<le> z" "z \<le> 30" "1 \<le> w" "w \<le> 42"
      and "(z = x + 1 \<and> w = y) \<or> (z = x - 1 \<and> w = y) \<or> (z = x \<and> w = y + 1) \<or> (z = x \<and> w = y - 1)" for x y z w
    unfolding around_def in_nbrs using that by (intro exI [of _ z] exI [of _ w]) (auto simp: navCols_def)
  have go: "reachable free ?s (w * 32 + z)"
    if "reachable free ?s (y * 32 + x)" "1 \<le> x" "x \<le> 30" "1 \<le> y" "y \<le> 42" "1 \<le> z" "z \<le> 30" "1 \<le> w" "w \<le> 42"
      and "(z = x + 1 \<and> w = y) \<or> (z = x - 1 \<and> w = y) \<or> (z = x \<and> w = y + 1) \<or> (z = x \<and> w = y - 1)"
      and "\<not> (c0 \<le> z \<and> z \<le> c1 \<and> r0 \<le> w \<and> w \<le> r1)" for x y z w
    using reachable_step [OF that(1) step] free [of z w] that by blast
  have up: "reachable free ?s (y * 32 + x)"
    if "reachable free ?s (k * 32 + x)" "1 \<le> x" "x \<le> 30" "k \<le> 42" "1 \<le> y" "y \<le> k"
      and "\<And>w. y \<le> w \<Longrightarrow> w \<le> k \<Longrightarrow> \<not> (c0 \<le> x \<and> x \<le> c1 \<and> r0 \<le> w \<and> w \<le> r1)" for k x y
    using that(6,5,7)
  proof (induction y rule: int_le_induct)
    case base
    then show ?case using that(1) by simp
  next
    case (step y)
    have "reachable free ?s (y * 32 + x)" using step by auto
    from go [OF this, of x "y - 1"] show ?case using that step by auto
  qed
  have right: "reachable free ?s (y * 32 + x)"
    if "16 \<le> x" "x \<le> 30" "reachable free ?s (y * 32 + 16)" "1 \<le> y" "y \<le> 42" for x y :: int
    using that(1,2)
  proof (induction x rule: int_ge_induct)
    case base
    then show ?case using that(3) by simp
  next
    case (step x)
    then show ?case using that go [of y x "x + 1" y] blk by simp
  qed
  have left: "reachable free ?s (y * 32 + x)"
    if "x \<le> 16" "1 \<le> x" "reachable free ?s (y * 32 + 16)" "1 \<le> y" "y \<le> 42" "y < r0 \<or> r1 < y \<or> c1 < x" for x y :: int
    using that(1,2,6)
  proof (induction x rule: int_le_induct)
    case base
    then show ?case using that(3) by simp
  next
    case (step x)
    have "reachable free ?s (y * 32 + x)" using step by auto
    from go [OF this, of "x - 1" y] show ?case using that step by auto
  qed
  have here: "reachable free ?s ?s" unfolding reachable_def by (metis path.simps(1))
  have low: "reachable free ?s (42 * 32 + 16)" using go [OF here, of 16 42] blk by simp
  have col: "reachable free ?s (y * 32 + 16)" if "1 \<le> y" "y \<le> 42" for y
    using that up [OF here, of y] low blk by (cases "y = 42") auto
  consider "16 \<le> c" | "c \<le> 16" "r < r0 \<or> r1 < r \<or> c1 < c" | "c < c0" "c \<le> 16" "r0 \<le> r" "r \<le> r1"
    using cell by linarith
  then show ?thesis
  proof cases
    case 1
    then show ?thesis using right [of c r] col [of r] cell by simp
  next
    case 2
    then show ?thesis using left [of c r] col [of r] cell by simp
  next
    case 3
    have "reachable free ?s ((r1 + 1) * 32 + c)" using left [of c "r1 + 1"] col [of "r1 + 1"] cell 3 blk by simp
    then show ?thesis using up [of "r1 + 1" c r] cell 3 blk by auto
  qed
qed

lemma block_one_place:
  assumes "\<And>x y. 0 \<le> x \<Longrightarrow> x < 32 \<Longrightarrow> 0 \<le> y \<Longrightarrow> y < 44 \<Longrightarrow>
      cell_free rects x y \<longleftrightarrow> 1 \<le> x \<and> x \<le> 30 \<and> 1 \<le> y \<and> y \<le> 42 \<and> \<not> (c0 \<le> x \<and> x \<le> c1 \<and> r0 \<le> y \<and> y \<le> r1)"
    and blk: "c1 < 16" "1 \<le> r0" "r1 < 41"
  shows "floorIsOnePlace rects"
proof -
  have b: "navCellOf BossSpawn = (16, 41)" by code_simp
  have fr: "is_free (navGridFor rects) n \<longleftrightarrow> cell_free rects (n mod 32) (n div 32)" if "0 \<le> n" "n < 1408" for n
    using is_free_grid [OF that] by (simp add: navCols_def)
  have "is_free (navGridFor rects) (41 * 32 + 16)" using blk assms(1) [of 16 41] by (simp add: fr)
  then have s: "navStart (navGridFor rects) 16 41 = Some (41 * 32 + 16)" by (simp add: navStart_def navCols_def)
  have "reachable (navGridFor rects) (41 * 32 + 16) n" if n: "on_grid n" "is_free (navGridFor rects) n" for n
  proof -
    have r: "0 \<le> n" "n < 1408" using n(1) by (auto simp: on_grid_def navCols_def navRows_def)
    have c: "cell_free rects (n mod 32) (n div 32)" using n(2) fr [OF r] by simp
    have "reachable (navGridFor rects) (41 * 32 + 16) (n div 32 * 32 + n mod 32)"
      by (rule block_walk [OF _ blk, of _ c0]) (use c r assms(1) [of "n mod 32" "n div 32"] in \<open>auto simp: fr assms(1)\<close>)
    then show ?thesis by simp
  qed
  with s show ?thesis unfolding floorIsOnePlace_iff b by auto
qed

lemma empty_floor_is_one_place: "floorIsOnePlace []"
  by (rule block_one_place [of _ 1 0 1 0]) (auto simp: empty_cell_free)

text \<open>The floor with one desk is accepted.\<close>

lemma one_desk_cells:
  assumes "0 \<le> x" "x < 32" "0 \<le> y" "y < 44"
  shows "cell_free (rects_of one_desk) x y \<longleftrightarrow>
    1 \<le> x \<and> x \<le> 30 \<and> 1 \<le> y \<and> y \<le> 42 \<and> \<not> (7 \<le> x \<and> x \<le> 10 \<and> 7 \<le> y \<and> y \<le> 10)"
proof -
  let ?d = "\<lparr>rx = 4, ry = 4, rw = 1, rh = 1\<rparr>" and ?r = "fl BossRadius"
  have e: "fl (of_int m * 2 powi (- 3)) = of_int m * 2 powi (- 3)" if "\<bar>m\<bar> \<le> 2 ^ 53" for m by (rule fl_exact [OF that])
  have "fl (1 / 16) = 1 / 16" using fl_exact [of 1 "- 4"] by (simp add: power_int_minus)
  then have eps: "eps \<le> 1 / 16" unfolding eps_def by (intro fl_le) simp_all
  have "fl (3 / 8) = 3 / 8" using e [of 3] by (simp add: power_int_minus)
  then have r: "3 / 8 \<le> ?r" unfolding BossRadius_def by (intro le_fl) simp_all
  note r = r radius_bounds(2)
  have "fl (29 / 8) = 29 / 8" "fl (43 / 8) = 43 / 8" using e [of 29] e [of 43] by (simp_all add: power_int_minus)
  moreover have "fl (7 / 2) \<le> fl (4 - ?r)" "fl (4 - ?r) \<le> fl (29 / 8)" "fl (43 / 8) \<le> fl (5 + ?r)" "fl (5 + ?r) \<le> fl (11 / 2)"
    by (rule fl_mono; use r in linarith)+
  ultimately have lo: "7 / 2 \<le> fl (4 - ?r)" "fl (4 - ?r) \<le> 29 / 8" and hi: "43 / 8 \<le> fl (5 + ?r)" "fl (5 + ?r) \<le> 11 / 2"
    by simp_all
  have lo': "7 / 2 \<le> fl (fl (4 - ?r) + eps)" "fl (fl (4 - ?r) + eps) < 15 / 4"
  proof -
    show "7 / 2 \<le> fl (fl (4 - ?r) + eps)" using lo eps_pos by (intro le_fl) auto
    have "fl (fl (4 - ?r) + eps) \<le> 59 / 16"
      using lo eps fl_exact [of 59 "- 4"] by (intro fl_le) (auto simp: power_int_minus)
    then show "fl (fl (4 - ?r) + eps) < 15 / 4" by linarith
  qed
  have hi': "21 / 4 < fl (fl (5 + ?r) - eps)" "fl (fl (5 + ?r) - eps) \<le> 11 / 2"
  proof -
    show "fl (fl (5 + ?r) - eps) \<le> 11 / 2" using hi eps_pos by (intro fl_le) auto
    have "85 / 16 \<le> fl (fl (5 + ?r) - eps)"
      using hi eps fl_exact [of 85 "- 4"] by (intro le_fl) (auto simp: power_int_minus)
    then show "21 / 4 < fl (fl (5 + ?r) - eps)" by linarith
  qed
  have c: "(of_int (2 * z + 1) / 4 > fl (fl (4 - ?r) + eps) \<and> of_int (2 * z + 1) / 4 < fl (fl (5 + ?r) - eps)) \<longleftrightarrow> 7 \<le> z \<and> z \<le> 10"
    for z :: int
  proof
    assume a: "of_int (2 * z + 1) / 4 > fl (fl (4 - ?r) + eps) \<and> of_int (2 * z + 1) / 4 < fl (fl (5 + ?r) - eps)"
    then have "(of_int (2 * z + 1) :: rat) / 4 > 7 / 2" "(of_int (2 * z + 1) :: rat) / 4 < 11 / 2" using lo' hi' by linarith+
    then show "7 \<le> z \<and> z \<le> 10" by simp
  next
    assume "7 \<le> z \<and> z \<le> 10"
    then have "(of_int (2 * z + 1) :: rat) / 4 \<ge> 15 / 4" "(of_int (2 * z + 1) :: rat) / 4 \<le> 21 / 4" by simp_all
    then show "of_int (2 * z + 1) / 4 > fl (fl (4 - ?r) + eps) \<and> of_int (2 * z + 1) / 4 < fl (fl (5 + ?r) - eps)"
      using lo' hi' by linarith
  qed
  have "insideRect ?d (navCentre x y) ?r \<longleftrightarrow> 7 \<le> x \<and> x \<le> 10 \<and> 7 \<le> y \<and> y \<le> 10"
    using c [of x] c [of y] assms
    by (simp add: insideRect_def lo_x_def lo_y_def hi_x_def hi_y_def float_ops navCentre_exact) blast
  then show ?thesis using empty_cell_free [OF assms]
    by (auto simp: cell_free_def rects_of_def one_desk_def Let_def)
qed

lemma one_desk_playable: "playable one_desk"
proof -
  let ?d = "\<lparr>rx = 4, ry = 4, rw = 1, rh = 1\<rparr>"
  have one: "floorIsOnePlace (rects_of one_desk)"
    by (rule block_one_place [of _ 7 10 7 10]) (auto simp: one_desk_cells)
  have size: "fl MinSolidSide \<le> 1" by (auto simp: MinSolidSide_def intro!: fl_le)
  have "solid_ok \<lparr>so_rect = ?d, so_kind = KindDesk\<rparr>"
    using size by (simp add: solid_ok_def validKind_def Kinds_def bad_size_def wallGap_def float_ops floor_constants)
  moreover have "spot_clear p \<lparr>so_rect = ?d, so_kind = KindDesk\<rparr>" if "p \<in> set FixedPoints" for p
  proof -
    have f: "fl (vx p) = vx p" "fl (vy p) = vy p" "vx p \<le> 7 / 2 \<or> 11 / 2 \<le> vx p \<or> vy p \<le> 7 / 2 \<or> 11 / 2 \<le> vy p"
      using that by (auto simp: FixedPoints_def PlayerSpawn_def BossSpawn_def ChaserSpawn_def npc_spawns_def BottleSpots_def HookahSpots_def)
    define dx dy where "dx = max 0 (max (fsub 4 (vx p)) (fsub (vx p) 5))" and "dy = max 0 (max (fsub 4 (vy p)) (fsub (vy p) 5))"
    have ff: "fl dx = dx" "fl dy = dy" by (auto simp: dx_def dy_def fsub_def max_def)
    have h: "1 / 2 \<le> fsub 4 z" if "z \<le> 7 / 2" for z unfolding fsub_def using that by (intro le_fl) simp_all
    have h': "1 / 2 \<le> fsub z 5" if "11 / 2 \<le> z" for z unfolding fsub_def using that by (intro le_fl) simp_all
    have "1 / 2 \<le> dx \<or> 1 / 2 \<le> dy" using f(3) h h' by (fastforce simp: dx_def dy_def)
    then have "1 / 2 \<le> hypot dx dy" using hypot_ge [OF ff] by linarith
    then show ?thesis by (simp add: spot_clear_def pointGap_def Let_def dx_def dy_def fadd_def SpotClear_def PlayerRadius_def)
  qed
  ultimately show ?thesis using one by (simp add: playable_def one_desk_def list_all_iff MaxSolids_def)
qed

lemma one_desk_valid: "ValidateLayout one_desk = []"
  using one_desk_playable ValidateLayout_iff by blast

theorem validator_decides_playability_witness:
  "reachable (navGridFor (rects_of one_desk)) (2 * 32 + 2) (40 * 32 + 30)"
proof -
  have g: "on_grid (2 * 32 + 2)" "on_grid (40 * 32 + 30)" by (simp_all add: on_grid_def navCols_def navRows_def)
  have f: "is_free (navGridFor (rects_of one_desk)) (2 * 32 + 2)" "is_free (navGridFor (rects_of one_desk)) (40 * 32 + 30)"
    by (simp_all add: is_free_grid one_desk_cells navCols_def)
  show ?thesis using validator_decides_playability [of one_desk] one_desk_valid g f by blast
qed

end
