(* ===== verification/FintechSim.thy ===== *)
theory FintechSim
  imports FintechLayout
begin

text \<open>
  One player, one command, one step (\<^verbatim>\<open>internal/gamefintech/sim.go\<close>, the constants of
  \<^verbatim>\<open>content.go\<close>). First what the layout rules buy: on a floor the validator accepts, the
  resolver's single pass leaves a body in the room and in no furniture. Then \<^verbatim>\<open>Step\<close>, with the
  rules of the money, the ramp and the dash as invariants.
\<close>

section \<open>One pass is enough\<close>

text \<open>A lower bound on a rounded number bounds the number, by any smaller double.\<close>

lemma fl_less_imp: "c < fl x \<Longrightarrow> fl c = c \<Longrightarrow> c < x"
  using fl_mono [of x c] by (cases "x \<le> c") auto

definition outside :: "rect \<Rightarrow> f64 \<Rightarrow> vec2 \<Rightarrow> bool" where
  "outside d r p \<longleftrightarrow> vx p \<le> lo_x d r \<or> vx p \<ge> hi_x d r \<or> vy p \<le> lo_y d r \<or> vy p \<ge> hi_y d r"

definition in_box :: "rect \<Rightarrow> f64 \<Rightarrow> vec2 \<Rightarrow> bool" where
  "in_box d r p \<longleftrightarrow> lo_x d r \<le> vx p \<and> vx p \<le> hi_x d r \<and> lo_y d r \<le> vy p \<and> vy p \<le> hi_y d r"

definition in_room :: "f64 \<Rightarrow> vec2 \<Rightarrow> bool" where
  "in_room r p \<longleftrightarrow> r \<le> vx p \<and> vx p \<le> fsub OfficeW r \<and> r \<le> vy p \<and> vy p \<le> fsub OfficeH r"

lemma pushOut_cases:
  "pushOut d p r = p \<and> outside d r p \<or> outside d r (pushOut d p r) \<and> in_box d r (pushOut d p r)"
  by (auto simp: pushOut_def outside_def in_box_def Let_def)

text \<open>The radii of the bodies.\<close>

definition body :: "f64 \<Rightarrow> bool" where
  "body r \<longleftrightarrow> 1 / 4 \<le> r \<and> r \<le> 1 / 2"

lemma body_radii: "body (fl PlayerRadius)" "body (fl BossRadius)"
  using radius_bounds by (simp_all add: body_def)

text \<open>Solids a metre and a half apart have disjoint grown rectangles, up to their edges.\<close>

definition disjoint_boxes :: "f64 \<Rightarrow> rect \<Rightarrow> rect \<Rightarrow> bool" where
  "disjoint_boxes r a b \<longleftrightarrow> hi_x a r \<le> lo_x b r \<or> hi_x b r \<le> lo_x a r \<or> hi_y a r \<le> lo_y b r \<or> hi_y b r \<le> lo_y a r"

lemma gap_boxes:
  assumes "body r" and "MinGap \<le> fsub y x" shows "fadd x r \<le> fsub y r"
proof -
  have "(5 / 4 :: rat) < fl (y - x)" using assms(2) by (simp add: fsub_def floor_constants)
  then have "5 / 4 < y - x" by (rule fl_less_imp) simp
  then show ?thesis using assms(1) unfolding fadd_def fsub_def body_def by (intro fl_mono) linarith
qed

lemma apart_boxes:
  assumes "body r" and "apart a b" shows "disjoint_boxes r a b"
proof -
  have "MinGap \<le> fsub (rx b) (fadd (rx a) (rw a)) \<or> MinGap \<le> fsub (rx a) (fadd (rx b) (rw b)) \<or>
      MinGap \<le> fsub (ry b) (fadd (ry a) (rh a)) \<or> MinGap \<le> fsub (ry a) (fadd (ry b) (rh b))"
    using assms(2) by (auto simp: apart_def sepAxis_def Let_def MinGap_def max_def split: if_splits)
  then show ?thesis using gap_boxes [OF assms(1)] by (auto simp: disjoint_boxes_def lo_x_def lo_y_def hi_x_def hi_y_def)
qed

lemma outside_neighbour: "disjoint_boxes r a b \<Longrightarrow> in_box a r p \<Longrightarrow> outside b r p"
  by (auto simp: disjoint_boxes_def in_box_def outside_def)

lemma disjoint_sym: "disjoint_boxes r a b \<Longrightarrow> disjoint_boxes r b a"
  by (auto simp: disjoint_boxes_def)

text \<open>A solid a metre and a half from every wall keeps what it pushes inside the room.\<close>

lemma wall_room:
  assumes "body r" and "fl r = r" and "MinGap \<le> wallGap d" and "in_box d r p"
  shows "in_room r p"
proof -
  have g: "3 / 2 \<le> rx d" "3 / 2 \<le> ry d" "3 / 2 \<le> fsub OfficeW (fadd (rx d) (rw d))" "3 / 2 \<le> fsub OfficeH (fadd (ry d) (rh d))"
    using assms(3) by (auto simp: wallGap_def MinGap_def)
  have lo: "r \<le> fsub x r" if "3 / 2 \<le> x" for x
    using that assms(1,2) unfolding fsub_def body_def by (intro le_fl) auto
  have hi: "fadd x r \<le> fsub w r" if "3 / 2 \<le> fsub w x" for w x
    by (rule gap_boxes [OF assms(1)]) (use that in \<open>simp add: MinGap_def\<close>)
  show ?thesis using assms(4) lo [OF g(1)] lo [OF g(2)] hi [OF g(3)] hi [OF g(4)]
    by (auto simp: in_box_def in_room_def lo_x_def lo_y_def hi_x_def hi_y_def)
qed

lemma clampToFloor_room:
  assumes "body r" shows "in_room r (clampToFloor p r)"
proof -
  have "r \<le> fsub w r" if "w = OfficeW \<or> w = OfficeH" for w
  proof -
    have "1 / 2 \<le> fsub w r" unfolding fsub_def using that assms by (intro le_fl) (auto simp: body_def floor_constants)
    then show ?thesis using assms by (simp add: body_def)
  qed
  then show ?thesis by (auto simp: in_room_def clampToFloor_def clamp_def)
qed

lemma pass_keeps:
  assumes "\<forall>d \<in> set ds. \<forall>p. in_box d r p \<longrightarrow> in_room r p" and "in_room r p"
  shows "in_room r (fold (\<lambda>d q. pushOut d q r) ds p)"
  using assms
proof (induction ds arbitrary: p)
  case (Cons d ds)
  then show ?case using pushOut_cases [of d p r] by auto
qed simp

lemma pass_clears:
  assumes "\<forall>d \<in> set seen. outside d r p" and "\<forall>a \<in> set seen. \<forall>b \<in> set ds. disjoint_boxes r a b"
    and "sorted_wrt (disjoint_boxes r) ds"
  shows "\<forall>d \<in> set (seen @ ds). outside d r (fold (\<lambda>d q. pushOut d q r) ds p)"
  using assms
proof (induction ds arbitrary: seen p)
  case (Cons d ds)
  have "outside a r (pushOut d p r)" if "a \<in> set (seen @ [d])" for a
    using that Cons.prems pushOut_cases [of d p r] outside_neighbour [of r d a] disjoint_sym by auto
  then show ?case using Cons.IH [of "seen @ [d]" "pushOut d p r"] Cons.prems by simp
qed simp

lemma pairwise_boxes:
  "body r \<Longrightarrow> pairwise_apart ss \<Longrightarrow> sorted_wrt (disjoint_boxes r) (map so_rect ss)"
  using apart_boxes by (induction ss) (auto simp: list_all_iff)

lemma one_pass_is_enough_lemma:
  assumes "ValidateLayout l = []" and "r \<in> {fl PlayerRadius, fl BossRadius}"
  shows "in_room r (resolve (rects_of l) r p) \<and> (\<forall>d \<in> set (rects_of l). outside d r (resolve (rects_of l) r p))"
proof -
  have ok: "playable l" using assms(1) ValidateLayout_iff by blast
  have r: "body r" "fl r = r" using assms(2) body_radii by auto
  have walls: "\<forall>d \<in> set (rects_of l). \<forall>p. in_box d r p \<longrightarrow> in_room r p"
    using ok wall_room [OF r] by (auto simp: playable_def list_all_iff solid_ok_def rects_of_def)
  have boxes: "sorted_wrt (disjoint_boxes r) (rects_of l)"
    using ok pairwise_boxes [OF r(1)] by (simp add: playable_def rects_of_def)
  show ?thesis unfolding resolve_def
    using pass_keeps [OF walls clampToFloor_room [OF r(1)]] pass_clears [OF _ _ boxes, of "[]"] by simp
qed

text \<open>C20: On every floor the validator accepts, the floor clamp followed by one pass over the furniture in
layout order leaves a body of either radius inside the room and outside every solid grown by that radius,
wherever it was before.\<close>

theorem one_pass_is_enough:
  assumes "ValidateLayout l = []" and "r \<in> {fl PlayerRadius, fl BossRadius}"
  shows "in_room r (resolve (rects_of l) r p) \<and> (\<forall>d \<in> set (rects_of l). outside d r (resolve (rects_of l) r p))"
  by (rule one_pass_is_enough_lemma [OF assms])

theorem one_pass_is_enough_witness:
  "in_room (fl BossRadius) (resolve (rects_of one_desk) (fl BossRadius) \<lparr>vx = 100, vy = - 3\<rparr>)"
  using one_pass_is_enough [OF one_desk_valid, of "fl BossRadius"] by simp

section \<open>\<^verbatim>\<open>Step\<close>\<close>

record command =
  c_seq :: int
  c_dt :: f64
  c_mx :: f64
  c_my :: f64
  c_dash :: bool

record player =
  p_pos :: vec2
  p_salary :: f64
  p_streak :: f64
  p_move_grace :: f64
  p_dash_left :: f64
  p_dash_cooldown :: f64
  p_dash_dx :: f64
  p_dash_dy :: f64
  p_slow_left :: f64
  p_alive :: bool

definition WalkSpeed :: rat where "WalkSpeed = 64 / 10"
definition DashSpeed :: rat where "DashSpeed = 20"
definition DashSeconds :: rat where "DashSeconds = 26 / 100"
definition DashCooldown :: rat where "DashCooldown = 22 / 10"
definition IdleThreshold :: rat where "IdleThreshold = 5 / 100"
definition BasePerSecond :: rat where "BasePerSecond = 120"
definition RampSeconds :: rat where "RampSeconds = 35 / 10"
definition MaxMultiplier :: rat where "MaxMultiplier = 3"
definition GraceSeconds :: rat where "GraceSeconds = 18 / 100"
definition SlowFactor :: rat where "SlowFactor = 8 / 10"
definition MaxStepSeconds :: rat where "MaxStepSeconds = 2 / 10"

lemmas sim_constants = WalkSpeed_def DashSpeed_def DashSeconds_def DashCooldown_def IdleThreshold_def
  BasePerSecond_def RampSeconds_def MaxMultiplier_def GraceSeconds_def SlowFactor_def MaxStepSeconds_def

definition NewPlayerAt :: "vec2 \<Rightarrow> player" where
  "NewPlayerAt pt = \<lparr>p_pos = pt, p_salary = 0, p_streak = 0, p_move_grace = 0, p_dash_left = 0, p_dash_cooldown = 0,
     p_dash_dx = 0, p_dash_dy = 0, p_slow_left = 0, p_alive = True\<rparr>"

text \<open>A frame carries finite numbers only (JSON has no others), so the test for NaN never fires.\<close>

definition clampFinite :: "f64 \<Rightarrow> f64 \<Rightarrow> f64 \<Rightarrow> f64" where
  "clampFinite v lo hi = max lo (min hi v)"

definition Sanitise :: "command \<Rightarrow> command" where
  "Sanitise c =
     (let c1 = c\<lparr>c_dt := clampFinite (c_dt c) 0 (fl MaxStepSeconds),
                 c_mx := clampFinite (c_mx c) (- 1) 1, c_my := clampFinite (c_my c) (- 1) 1\<rparr>;
          mag = hypot (c_mx c1) (c_my c1) in
      if mag > 1 then c1\<lparr>c_mx := fdiv (c_mx c1) mag, c_my := fdiv (c_my c1) mag\<rparr> else c1)"

definition Multiplier :: "f64 \<Rightarrow> f64" where
  "Multiplier streak = fadd 1 (fmul (fl (MaxMultiplier - 1)) (min (fdiv streak (fl RampSeconds)) 1))"

definition start_dash :: "player \<Rightarrow> command \<Rightarrow> player" where
  "start_dash p c =
     (if c_dash c \<and> p_dash_cooldown p \<le> 0 \<and> p_dash_left p \<le> 0 then
        let p1 = p\<lparr>p_dash_left := fl DashSeconds, p_dash_cooldown := fl DashCooldown\<rparr>;
            mag = hypot (c_mx c) (c_my c) in
        if mag > 0 then p1\<lparr>p_dash_dx := fdiv (c_mx c) mag, p_dash_dy := fdiv (c_my c) mag\<rparr>
        else p1\<lparr>p_dash_dx := 0, p_dash_dy := 0\<rparr>
      else p)"

definition run_timers :: "player \<Rightarrow> f64 \<Rightarrow> player" where
  "run_timers p dt = p\<lparr>p_dash_left := max 0 (fsub (p_dash_left p) dt),
     p_dash_cooldown := max 0 (fsub (p_dash_cooldown p) dt), p_slow_left := max 0 (fsub (p_slow_left p) dt)\<rparr>"

definition move_player :: "rect list \<Rightarrow> bool \<Rightarrow> player \<Rightarrow> command \<Rightarrow> player" where
  "move_player rects dashing p c =
     (let speed = (if dashing then fl DashSpeed
                   else if p_slow_left p > 0 then fmul (fl WalkSpeed) (fl SlowFactor) else fl WalkSpeed);
          mx = (if dashing then p_dash_dx p else c_mx c); my = (if dashing then p_dash_dy p else c_my c);
          pos = \<lparr>vx = fadd (vx (p_pos p)) (fmul (fmul mx speed) (c_dt c)),
                 vy = fadd (vy (p_pos p)) (fmul (fmul my speed) (c_dt c))\<rparr> in
      p\<lparr>p_pos := resolve rects (fl PlayerRadius) pos\<rparr>)"

definition moving :: "command \<Rightarrow> bool" where
  "moving c \<longleftrightarrow> hypot (c_mx c) (c_my c) > fl IdleThreshold"

definition step_streak :: "bool \<Rightarrow> player \<Rightarrow> command \<Rightarrow> player" where
  "step_streak dashing p c =
     (if dashing then p
      else if moving c then
        let p1 = p\<lparr>p_move_grace := fadd (p_move_grace p) (c_dt c)\<rparr> in
        if p_move_grace p1 > fl GraceSeconds then p1\<lparr>p_streak := 0, p_move_grace := fl GraceSeconds\<rparr> else p1
      else p\<lparr>p_move_grace := 0, p_streak := fadd (p_streak p) (c_dt c)\<rparr>)"

definition pay :: "bool \<Rightarrow> player \<Rightarrow> command \<Rightarrow> player" where
  "pay dashing p c =
     (if \<not> moving c \<and> \<not> dashing
      then p\<lparr>p_salary := fadd (p_salary p) (fmul (fmul BasePerSecond (Multiplier (p_streak p))) (c_dt c))\<rparr> else p)"

definition step_player :: "rect list \<Rightarrow> player \<Rightarrow> command \<Rightarrow> player" where
  "step_player rects p c =
     (let p = start_dash p c; dashing = p_dash_left p > 0; p = run_timers p (c_dt c);
          p = move_player rects dashing p c; p = step_streak dashing p c in
      pay dashing p c)"

lemmas step_parts = start_dash_def run_timers_def move_player_def step_streak_def pay_def

section \<open>What a command can carry\<close>

definition sanitised :: "command \<Rightarrow> bool" where
  "sanitised c \<longleftrightarrow> 0 \<le> c_dt c \<and> c_dt c \<le> fl MaxStepSeconds \<and>
     - 1 \<le> c_mx c \<and> c_mx c \<le> 1 \<and> - 1 \<le> c_my c \<and> c_my c \<le> 1"

lemma hypot_quotient:
  assumes "fl x = x" and "fl y = y" and "0 < hypot x y"
  shows "\<bar>fdiv x (hypot x y)\<bar> \<le> 1" and "\<bar>fdiv y (hypot x y)\<bar> \<le> 1"
proof -
  have q: "\<bar>fdiv z (hypot x y)\<bar> \<le> 1" if "\<bar>z\<bar> \<le> hypot x y" for z
  proof -
    have "- 1 \<le> z / hypot x y" "z / hypot x y \<le> 1" using that assms(3) by (auto simp: pos_le_divide_eq pos_divide_le_eq)
    then have "- 1 \<le> fl (z / hypot x y)" "fl (z / hypot x y) \<le> 1"
      using le_fl [of "- 1" "z / hypot x y"] fl_le [of "z / hypot x y" 1] by auto
    then show ?thesis by (simp add: fdiv_def abs_le_iff)
  qed
  show "\<bar>fdiv x (hypot x y)\<bar> \<le> 1" and "\<bar>fdiv y (hypot x y)\<bar> \<le> 1" using q hypot_ge [OF assms(1,2)] by auto
qed

lemma sanitise_sanitised:
  assumes "fl (c_mx c) = c_mx c" and "fl (c_my c) = c_my c" shows "sanitised (Sanitise c)"
proof -
  have dt: "0 \<le> clampFinite v 0 (fl MaxStepSeconds)" "clampFinite v 0 (fl MaxStepSeconds) \<le> fl MaxStepSeconds" for v
    using fl_nonneg [of MaxStepSeconds] by (auto simp: clampFinite_def sim_constants)
  have ax: "- 1 \<le> clampFinite v (- 1) 1" "clampFinite v (- 1) 1 \<le> 1" for v by (auto simp: clampFinite_def)
  have f: "fl (clampFinite v (- 1) 1) = clampFinite v (- 1) 1" if "fl v = v" for v
    using that by (auto simp: clampFinite_def max_def min_def)
  note q = hypot_quotient [OF f [OF assms(1)] f [OF assms(2)]]
  show ?thesis using dt [of "c_dt c"] ax [of "c_mx c"] ax [of "c_my c"] q
    by (auto simp: sanitised_def Sanitise_def Let_def abs_le_iff)
qed

section \<open>The rules of a step\<close>

definition dashes :: "player \<Rightarrow> command \<Rightarrow> bool" where
  "dashes p c \<longleftrightarrow> p_dash_left (start_dash p c) > 0"

lemma start_dash_fields [simp]:
  "p_pos (start_dash p c) = p_pos p" "p_salary (start_dash p c) = p_salary p" "p_streak (start_dash p c) = p_streak p"
  "p_move_grace (start_dash p c) = p_move_grace p" "p_slow_left (start_dash p c) = p_slow_left p" "p_alive (start_dash p c) = p_alive p"
  by (simp_all add: start_dash_def Let_def)

lemma move_player_fields [simp]:
  "p_salary (move_player rects b p c) = p_salary p" "p_streak (move_player rects b p c) = p_streak p"
  "p_move_grace (move_player rects b p c) = p_move_grace p" "p_slow_left (move_player rects b p c) = p_slow_left p"
  "p_dash_left (move_player rects b p c) = p_dash_left p" "p_dash_cooldown (move_player rects b p c) = p_dash_cooldown p"
  "p_dash_dx (move_player rects b p c) = p_dash_dx p" "p_dash_dy (move_player rects b p c) = p_dash_dy p"
  "p_alive (move_player rects b p c) = p_alive p"
  by (simp_all add: move_player_def Let_def)

lemma step_streak_fields [simp]:
  "p_pos (step_streak b p c) = p_pos p" "p_salary (step_streak b p c) = p_salary p"
  "p_slow_left (step_streak b p c) = p_slow_left p" "p_alive (step_streak b p c) = p_alive p"
  "p_dash_left (step_streak b p c) = p_dash_left p" "p_dash_cooldown (step_streak b p c) = p_dash_cooldown p"
  "p_dash_dx (step_streak b p c) = p_dash_dx p" "p_dash_dy (step_streak b p c) = p_dash_dy p"
  by (simp_all add: step_streak_def Let_def)

lemma pay_fields [simp]:
  "p_pos (pay b p c) = p_pos p" "p_streak (pay b p c) = p_streak p" "p_move_grace (pay b p c) = p_move_grace p"
  "p_slow_left (pay b p c) = p_slow_left p" "p_alive (pay b p c) = p_alive p"
  "p_dash_left (pay b p c) = p_dash_left p" "p_dash_cooldown (pay b p c) = p_dash_cooldown p"
  "p_dash_dx (pay b p c) = p_dash_dx p" "p_dash_dy (pay b p c) = p_dash_dy p"
  by (simp_all add: pay_def)

lemma step_player_fields:
  shows "p_pos (step_player rects p c) = p_pos (move_player rects (dashes p c) (run_timers (start_dash p c) (c_dt c)) c)"
    and "p_salary (step_player rects p c) =
      (if \<not> moving c \<and> \<not> dashes p c then fadd (p_salary p) (fmul (fmul BasePerSecond (Multiplier (fadd (p_streak p) (c_dt c)))) (c_dt c))
       else p_salary p)"
    and "p_streak (step_player rects p c) =
      (if dashes p c then p_streak p
       else if moving c then (if fadd (p_move_grace p) (c_dt c) > fl GraceSeconds then 0 else p_streak p)
       else fadd (p_streak p) (c_dt c))"
    and "p_move_grace (step_player rects p c) =
      (if dashes p c then p_move_grace p
       else if moving c then min (fl GraceSeconds) (fadd (p_move_grace p) (c_dt c)) else 0)"
    and "p_dash_left (step_player rects p c) = max 0 (fsub (p_dash_left (start_dash p c)) (c_dt c))"
    and "p_dash_cooldown (step_player rects p c) = max 0 (fsub (p_dash_cooldown (start_dash p c)) (c_dt c))"
    and "p_dash_dx (step_player rects p c) = p_dash_dx (start_dash p c)"
    and "p_dash_dy (step_player rects p c) = p_dash_dy (start_dash p c)"
    and "p_slow_left (step_player rects p c) = max 0 (fsub (p_slow_left p) (c_dt c))"
    and "p_alive (step_player rects p c) = p_alive p"
  by (simp_all add: step_player_def dashes_def Let_def run_timers_def)
    (simp_all add: pay_def step_streak_def Let_def)

lemma Multiplier_bounds:
  assumes "0 \<le> s" shows "1 \<le> Multiplier s" and "Multiplier s \<le> 3"
proof -
  let ?m = "min (fdiv s (fl RampSeconds)) 1"
  have m: "0 \<le> ?m" "?m \<le> 1"
    using assms fl_nonneg [of "s / fl RampSeconds"] fl_nonneg [of RampSeconds] by (auto simp: fdiv_def sim_constants)
  have "0 \<le> fmul 2 ?m" using m fl_nonneg [of "2 * ?m"] by (simp add: fmul_def)
  moreover have "fmul 2 ?m \<le> 2" unfolding fmul_def using m by (intro fl_le) auto
  ultimately have "1 \<le> fl (1 + fmul 2 ?m)" "fl (1 + fmul 2 ?m) \<le> 3" by (auto intro!: le_fl fl_le)
  then show "1 \<le> Multiplier s" and "Multiplier s \<le> 3" by (simp_all add: Multiplier_def fadd_def MaxMultiplier_def)
qed

lemma Multiplier_mono: "s \<le> t \<Longrightarrow> Multiplier s \<le> Multiplier t"
proof -
  assume le: "s \<le> t"
  have "0 \<le> fl RampSeconds" by (rule fl_nonneg) (simp add: sim_constants)
  then have "fdiv s (fl RampSeconds) \<le> fdiv t (fl RampSeconds)"
    unfolding fdiv_def using le by (intro fl_mono divide_right_mono)
  then have "min (fdiv s (fl RampSeconds)) 1 \<le> min (fdiv t (fl RampSeconds)) 1" by (rule min.mono) simp
  then have "fl (2 * min (fdiv s (fl RampSeconds)) 1) \<le> fl (2 * min (fdiv t (fl RampSeconds)) 1)" by (intro fl_mono) simp
  then show ?thesis unfolding Multiplier_def fadd_def fmul_def MaxMultiplier_def by (intro fl_mono) simp
qed

lemma Multiplier_top: "fl RampSeconds \<le> s \<Longrightarrow> Multiplier s = 3"
proof -
  assume le: "fl RampSeconds \<le> s"
  have "1 \<le> fdiv s (fl RampSeconds)" unfolding fdiv_def
    using le by (intro le_fl) (auto simp: RampSeconds_def)
  then show ?thesis by (simp add: Multiplier_def fadd_def fmul_def MaxMultiplier_def min_absorb2)
qed

lemma Multiplier_zero: "Multiplier 0 = 1"
  by (simp add: Multiplier_def fadd_def fmul_def fdiv_def)

lemma committed_dash:
  assumes "p_dash_left p > 0" and "c_dt c' = c_dt c"
  shows "p_pos (step_player rects p c') = p_pos (step_player rects p c)"
proof -
  have sd: "start_dash p k = p" for k using assms(1) by (simp add: start_dash_def)
  have "move_player rects True (run_timers p (c_dt c)) c' = move_player rects True (run_timers p (c_dt c)) c"
    using assms(2) by (simp add: move_player_def)
  then show ?thesis using assms by (simp add: step_player_fields(1) dashes_def sd)
qed

text \<open>C21: The salary changes only in a step spent standing still outside a dash, and then grows at the base rate
times a multiplier that runs from one at an empty ramp to three at a full one, never falls while the ramp
grows, and is the one the HUD shows after the step. A dash neither fills nor empties the ramp nor touches the
grace window, whatever the stick does, and goes where it committed; walking empties the ramp exactly when the
grace is used up.\<close>

theorem stillness_pays:
  assumes "0 \<le> p_streak p" and "0 \<le> p_salary p" and "0 \<le> c_dt c" and "fl (p_salary p) = p_salary p"
  shows "(dashes p c \<or> moving c \<longrightarrow> p_salary (step_player rects p c) = p_salary p) \<and>
    (\<not> dashes p c \<and> \<not> moving c \<longrightarrow>
       p_salary (step_player rects p c) =
         fadd (p_salary p) (fmul (fmul BasePerSecond (Multiplier (p_streak (step_player rects p c)))) (c_dt c)) \<and>
       p_salary p \<le> p_salary (step_player rects p c) \<and>
       Multiplier (p_streak (step_player rects p c)) \<in> {1..3} \<and>
       (fl RampSeconds \<le> p_streak (step_player rects p c) \<longrightarrow> Multiplier (p_streak (step_player rects p c)) = 3)) \<and>
    (dashes p c \<longrightarrow> p_streak (step_player rects p c) = p_streak p \<and>
       p_move_grace (step_player rects p c) = p_move_grace p) \<and>
    (p_dash_left p > 0 \<longrightarrow> (\<forall>c'. c_dt c' = c_dt c \<longrightarrow> p_pos (step_player rects p c') = p_pos (step_player rects p c))) \<and>
    (\<not> dashes p c \<and> moving c \<longrightarrow> p_streak (step_player rects p c) =
       (if fadd (p_move_grace p) (c_dt c) > fl GraceSeconds then 0 else p_streak p))"
proof -
  let ?s = "fadd (p_streak p) (c_dt c)"
  have s: "0 \<le> ?s" unfolding fadd_def using assms by (intro fl_nonneg) simp
  have m: "1 \<le> Multiplier ?s" "Multiplier ?s \<le> 3" using Multiplier_bounds [OF s] by auto
  have "0 \<le> fmul (fmul BasePerSecond (Multiplier ?s)) (c_dt c)" unfolding fmul_def BasePerSecond_def
    using m(1) assms(3) by (intro fl_nonneg mult_nonneg_nonneg) auto
  then have up: "p_salary p \<le> fadd (p_salary p) (fmul (fmul BasePerSecond (Multiplier ?s)) (c_dt c))"
    unfolding fadd_def using assms(4) by (intro le_fl) simp_all
  show ?thesis
  proof (intro conjI impI allI)
    fix c' :: command assume "p_dash_left p > 0" "c_dt c' = c_dt c"
    then show "p_pos (step_player rects p c') = p_pos (step_player rects p c)" by (rule committed_dash)
  qed (use m up Multiplier_top [of ?s] in \<open>auto simp: step_player_fields(2-4)\<close>)
qed

definition still_player :: player where
  "still_player = (NewPlayerAt PlayerSpawn)\<lparr>p_streak := 4\<rparr>"

definition no_input :: command where
  "no_input = \<lparr>c_seq = 1, c_dt = 1 / 8, c_mx = 0, c_my = 0, c_dash = False\<rparr>"

theorem stillness_pays_witness: "p_salary (step_player [] still_player no_input) = 45"
proof -
  have "\<not> dashes still_player no_input" by (simp add: dashes_def start_dash_def still_player_def NewPlayerAt_def no_input_def)
  moreover have "0 \<le> fl IdleThreshold" by (rule fl_nonneg) (simp add: sim_constants)
  then have "\<not> moving no_input" by (simp add: moving_def no_input_def hypot_def)
  moreover have "fl (4 + 1 / 8) = 4 + 1 / 8" using fl_exact [of 33 "- 3"] by (simp add: power_int_minus)
  then have "p_streak (step_player [] still_player no_input) = 4 + 1 / 8"
    using calculation by (simp add: step_player_fields(3) still_player_def NewPlayerAt_def no_input_def fadd_def)
  ultimately show ?thesis
    using stillness_pays [of still_player no_input "[]"]
    by (simp add: still_player_def NewPlayerAt_def no_input_def fadd_def fmul_def sim_constants)
qed

text \<open>What a player's record keeps to; a dash never outlasts its cooldown, so none starts inside another.\<close>

definition player_ok :: "player \<Rightarrow> bool" where
  "player_ok p \<longleftrightarrow> 0 \<le> p_salary p \<and> 0 \<le> p_streak p \<and> 0 \<le> p_move_grace p \<and> p_move_grace p \<le> fl GraceSeconds \<and>
     0 \<le> p_dash_left p \<and> p_dash_left p \<le> p_dash_cooldown p \<and> p_dash_left p \<le> fl DashSeconds \<and>
     p_dash_cooldown p \<le> fl DashCooldown \<and> \<bar>p_dash_dx p\<bar> \<le> 1 \<and> \<bar>p_dash_dy p\<bar> \<le> 1 \<and> 0 \<le> p_slow_left p \<and>
     fl (p_salary p) = p_salary p"

lemma start_dash_ok:
  assumes "player_ok p" and "fl (c_mx c) = c_mx c" and "fl (c_my c) = c_my c"
  shows "player_ok (start_dash p c)"
proof -
  have "0 \<le> fl DashSeconds" "fl DashSeconds \<le> fl DashCooldown"
    by (auto intro!: fl_nonneg fl_mono simp: sim_constants)
  then show ?thesis using assms(1) hypot_quotient [OF assms(2,3)]
    by (auto simp: start_dash_def player_ok_def Let_def)
qed

lemma timer_le: "0 \<le> dt \<Longrightarrow> x \<le> fl c \<Longrightarrow> 0 \<le> c \<Longrightarrow> max 0 (fsub x dt) \<le> fl c"
  unfolding fsub_def by (auto intro!: fl_nonneg fl_le)

lemma step_player_sound:
  assumes "player_ok p" and "0 \<le> c_dt c" and "fl (c_mx c) = c_mx c" and "fl (c_my c) = c_my c"
    and "ValidateLayout l = []"
  shows "player_ok (step_player (rects_of l) p c) \<and>
    in_room (fl PlayerRadius) (p_pos (step_player (rects_of l) p c)) \<and>
    (\<forall>d \<in> set (rects_of l). outside d (fl PlayerRadius) (p_pos (step_player (rects_of l) p c)))"
proof -
  have dt: "0 \<le> c_dt c" by (rule assms(2))
  note d = start_dash_ok [OF assms(1,3,4)]
  have c: "0 \<le> DashSeconds" "0 \<le> DashCooldown" "0 \<le> GraceSeconds" by (simp_all add: sim_constants)
  have g: "0 \<le> fl GraceSeconds" by (rule fl_nonneg) (rule c)
  have p: "0 \<le> p_salary p" "0 \<le> p_streak p" "fl (p_salary p) = p_salary p" using assms(1) by (auto simp: player_ok_def)
  have st: "0 \<le> fadd x (c_dt c)" if "0 \<le> x" for x unfolding fadd_def using that dt by (intro fl_nonneg) simp
  note m = Multiplier_bounds [OF st [OF p(2)]]
  have "0 \<le> fmul (fmul BasePerSecond (Multiplier (fadd (p_streak p) (c_dt c)))) (c_dt c)" unfolding fmul_def BasePerSecond_def
    using m(1) dt by (intro fl_nonneg mult_nonneg_nonneg) auto
  then have sal: "0 \<le> fadd (p_salary p) (fmul (fmul BasePerSecond (Multiplier (fadd (p_streak p) (c_dt c)))) (c_dt c))"
    unfolding fadd_def using p(1) by (intro fl_nonneg) simp
  have le: "max 0 (fsub (p_dash_left (start_dash p c)) (c_dt c)) \<le> max 0 (fsub (p_dash_cooldown (start_dash p c)) (c_dt c))"
    using d unfolding fsub_def by (intro max.mono fl_mono) (auto simp: player_ok_def)
  have "player_ok (step_player (rects_of l) p c)"
    using d p sal st dt g le timer_le [OF dt _ c(1)] timer_le [OF dt _ c(2)] assms(1)
    unfolding player_ok_def step_player_fields by (auto simp: fadd_def)
  then show ?thesis
    using one_pass_is_enough_lemma [OF assms(5), of "fl PlayerRadius"]
    by (simp add: step_player_fields(1) move_player_def Let_def)
qed

text \<open>C22: A step with a sanitised command keeps a player's record within its bounds (nothing earned is
negative, the grace window and the dash never exceed theirs, a dash ends before the next may start), and on
every accepted floor it leaves the player inside the room and outside the furniture.\<close>

theorem step_keeps_the_player_sound:
  assumes "player_ok p" and "sanitised c" and "fl (c_mx c) = c_mx c" and "fl (c_my c) = c_my c"
    and "ValidateLayout l = []"
  shows "player_ok (step_player (rects_of l) p c) \<and>
    in_room (fl PlayerRadius) (p_pos (step_player (rects_of l) p c)) \<and>
    (\<forall>d \<in> set (rects_of l). outside d (fl PlayerRadius) (p_pos (step_player (rects_of l) p c)))"
  using assms by (intro step_player_sound) (auto simp: sanitised_def)

theorem step_keeps_the_player_sound_witness:
  "in_room (fl PlayerRadius) (p_pos (step_player (rects_of one_desk) still_player no_input))"
proof -
  have "player_ok still_player"
    by (auto simp: player_ok_def still_player_def NewPlayerAt_def intro!: fl_nonneg) (simp_all add: sim_constants)
  moreover have "sanitised no_input" using fl_mono [of "1 / 8" MaxStepSeconds] fl_exact [of 1 "- 3"]
    by (auto simp: sanitised_def no_input_def MaxStepSeconds_def power_int_minus)
  ultimately show ?thesis
    using step_keeps_the_player_sound [of still_player no_input one_desk] one_desk_valid by (simp add: no_input_def)
qed

end
