(* ===== verification/FintechMen.thy ===== *)
theory FintechMen
  imports FintechSim
begin

text \<open>
  The men on the floor: the boss (\<^verbatim>\<open>internal/gamefintech/boss.go\<close>), the colleague who slows
  (\<^verbatim>\<open>chaser.go\<close>), the two who only amble (\<^verbatim>\<open>npc.go\<close>), and the tempo both pursuers
  walk at (\<^verbatim>\<open>content.go\<close>). Sine, cosine and arctangent are arguments (\<open>trig\<close>), and so is
  the random source of the amblers, a stream of numbers in the unit interval. On an accepted floor
  every one of them ends a step inside the room and outside the furniture; and there is a place where
  the boss stands still although he could walk.
\<close>

section \<open>Tempo and distances\<close>

definition LevelSeconds :: rat where "LevelSeconds = 20"
definition LevelSpeedStep :: rat where "LevelSpeedStep = 10 / 100"
definition BossSpeed :: rat where "BossSpeed = 4"
definition CatchRadius :: rat where "CatchRadius = 85 / 100"
definition GrinRange :: rat where "GrinRange = 6"
definition DrunkSpeed :: rat where "DrunkSpeed = 45 / 100"
definition DrunkWobble :: rat where "DrunkWobble = 11 / 10"
definition DrunkWobbleHz :: rat where "DrunkWobbleHz = 17 / 10"
definition ChaserSpeed :: rat where "ChaserSpeed = BossSpeed"
definition ChaserRadius :: rat where "ChaserRadius = BossRadius"
definition ChaserReach :: rat where "ChaserReach = 6 / 10"
definition NPCSpeed :: rat where "NPCSpeed = 22 / 10"
definition NPCArrive :: rat where "NPCArrive = 5 / 10"
definition NPCPauseSeconds :: rat where "NPCPauseSeconds = 3"
definition NPCGiveUpSeconds :: rat where "NPCGiveUpSeconds = 14"

text \<open>\<^verbatim>\<open>math.Pi\<close>, a constant of sixty-three digits.\<close>

definition Pi :: rat where
  "Pi = 314159265358979323846264338327950288419716939937510582097494459 / 10 ^ 62"

definition tiny :: f64 where "tiny = fl (1 / 1000000000)"

definition Level :: "f64 \<Rightarrow> int" where
  "Level elapsed = (if elapsed \<le> 0 then 0 else ftrunc (fdiv elapsed LevelSeconds))"

definition TempoAt :: "f64 \<Rightarrow> f64" where
  "TempoAt elapsed = fadd 1 (fmul (fl LevelSpeedStep) (of_int (Level elapsed)))"

definition Grin :: "f64 \<Rightarrow> f64" where
  "Grin d = clamp (fsub 1 (fdiv d GrinRange)) 0 1"

definition between :: "vec2 \<Rightarrow> vec2 \<Rightarrow> f64" where
  "between a b = hypot (fsub (vx a) (vx b)) (fsub (vy a) (vy b))"

definition Caught :: "vec2 \<Rightarrow> vec2 \<Rightarrow> bool" where
  "Caught bossPos playerPos \<longleftrightarrow> between bossPos playerPos \<le> fl (CatchRadius + PlayerRadius)"

definition Landed :: "vec2 \<Rightarrow> vec2 \<Rightarrow> bool" where
  "Landed chaserPos playerPos \<longleftrightarrow> between chaserPos playerPos \<le> fl (ChaserReach + PlayerRadius)"

text \<open>The first of the closest; \<open>None\<close> is the infinity the scan starts from.\<close>

fun nearest_from :: "vec2 \<Rightarrow> (vec2 \<times> f64) option \<Rightarrow> vec2 list \<Rightarrow> vec2 option" where
  "nearest_from p best [] = map_option fst best"
| "nearest_from p best (t # ts) =
     (let d = fadd (fmul (fsub (vx t) (vx p)) (fsub (vx t) (vx p))) (fmul (fsub (vy t) (vy p)) (fsub (vy t) (vy p))) in
      nearest_from p (case best of None \<Rightarrow> Some (t, d) | Some (b, bd) \<Rightarrow> if d < bd then Some (t, d) else Some (b, bd)) ts)"

definition nearest :: "vec2 \<Rightarrow> vec2 list \<Rightarrow> vec2 option" where
  "nearest p ts = nearest_from p None ts"

section \<open>The boss\<close>

record trig =
  t_sin :: "f64 \<Rightarrow> f64"
  t_cos :: "f64 \<Rightarrow> f64"
  t_atan2 :: "f64 \<Rightarrow> f64 \<Rightarrow> f64"

record boss =
  b_pos :: vec2
  b_grin :: f64
  b_drunk :: f64

definition NewBoss :: boss where
  "NewBoss = \<lparr>b_pos = BossSpawn, b_grin = 0, b_drunk = 0\<rparr>"

text \<open>One stride towards \<open>head\<close> along \<open>(dx, dy)\<close>, at a distance \<open>d\<close>.\<close>

definition stride :: "vec2 \<Rightarrow> vec2 \<Rightarrow> f64 \<Rightarrow> f64 \<Rightarrow> f64 \<Rightarrow> f64 \<Rightarrow> vec2" where
  "stride p head dx dy d s =
     (if d > tiny then
        if s \<ge> d then head
        else \<lparr>vx = fadd (vx p) (fmul (fdiv dx d) s), vy = fadd (vy p) (fmul (fdiv dy d) s)\<rparr>
      else p)"

definition StepBoss :: "trig \<Rightarrow> plan \<Rightarrow> boss \<Rightarrow> vec2 list \<Rightarrow> f64 \<Rightarrow> f64 \<Rightarrow> boss" where
  "StepBoss m plan b targets dt elapsed =
     (let aim0 = nearest (b_pos b) targets;
          aim = (case aim0 of Some t \<Rightarrow> t | None \<Rightarrow> BossSpawn);
          speed0 = fmul BossSpeed (TempoAt elapsed);
          drunk = (if b_drunk b > 0 then max 0 (fsub (b_drunk b) dt) else b_drunk b);
          speed = (if b_drunk b > 0 then fmul speed0 (fl DrunkSpeed) else speed0);
          head = navAimAt plan (b_pos b) aim;
          dx = fsub (vx head) (vx (b_pos b)); dy = fsub (vy head) (vy (b_pos b));
          d = hypot dx dy;
          a = fadd (t_atan2 m dy dx) (fmul (fl DrunkWobble) (t_sin m (fmul (fl (2 * Pi * DrunkWobbleHz)) elapsed)));
          wobble = (drunk > 0 \<and> d > tiny);
          dx = (if wobble then fmul (t_cos m a) d else dx); dy = (if wobble then fmul (t_sin m a) d else dy);
          pos = resolve (p_rects plan) (fl BossRadius) (stride (b_pos b) head dx dy d (fmul speed dt)) in
      \<lparr>b_pos = pos,
       b_grin = (case aim0 of None \<Rightarrow> 0 | Some t \<Rightarrow> Grin (between t pos)),
       b_drunk = drunk\<rparr>)"

section \<open>The other pursuer\<close>

record chaser =
  ch_pos :: vec2
  ch_cig :: f64

definition NewChaser :: chaser where
  "NewChaser = \<lparr>ch_pos = ChaserSpawn, ch_cig = 0\<rparr>"

definition StepChaser :: "plan \<Rightarrow> chaser \<Rightarrow> vec2 list \<Rightarrow> f64 \<Rightarrow> f64 \<Rightarrow> chaser" where
  "StepChaser plan c targets dt elapsed =
     (case nearest (ch_pos c) targets of
        None \<Rightarrow> c\<lparr>ch_cig := 0\<rparr>
      | Some aim \<Rightarrow>
          let head = navAimAt plan (ch_pos c) aim;
              dx = fsub (vx head) (vx (ch_pos c)); dy = fsub (vy head) (vy (ch_pos c));
              d = hypot dx dy;
              pos = resolve (p_rects plan) (fl ChaserRadius)
                (stride (ch_pos c) head dx dy d (fmul (fmul ChaserSpeed (TempoAt elapsed)) dt)) in
          \<lparr>ch_pos = pos, ch_cig = Grin (between aim pos)\<rparr>)"

definition yieldFrom :: "vec2 \<Rightarrow> vec2 \<Rightarrow> f64 \<Rightarrow> vec2" where
  "yieldFrom p other gap =
     (let dx = fsub (vx p) (vx other); dy = fsub (vy p) (vy other); d = hypot dx dy in
      if d \<ge> gap then p
      else let (dx, dy, d) = (if d < tiny then (1, 0, 1) else (dx, dy, d)) in
        \<lparr>vx = fadd (vx other) (fmul (fdiv dx d) gap), vy = fadd (vy other) (fmul (fdiv dy d) gap)\<rparr>)"

definition Separate :: "vec2 \<Rightarrow> vec2 list \<Rightarrow> chaser \<Rightarrow> rect list \<Rightarrow> chaser" where
  "Separate bossPos bodies c desks =
     (let p = yieldFrom (ch_pos c) bossPos (fl (BossRadius + ChaserRadius));
          p = fold (\<lambda>b p. yieldFrom p b (fl (PlayerRadius + ChaserRadius))) bodies p in
      c\<lparr>ch_pos := resolve desks (fl ChaserRadius) p\<rparr>)"

section \<open>The amblers\<close>

record npc =
  n_pos :: vec2
  n_to :: vec2
  n_pause :: f64
  n_walked :: f64

definition NewNPCs :: "npc list" where
  "NewNPCs = map (\<lambda>s. \<lparr>n_pos = s, n_to = s, n_pause = 0, n_walked = 0\<rparr>) npc_spawns"

text \<open>At most \<open>k\<close> further draws, two numbers each, from position \<open>i\<close> of the source.\<close>

fun draw_target :: "nat \<Rightarrow> rect list \<Rightarrow> (nat \<Rightarrow> f64) \<Rightarrow> nat \<Rightarrow> vec2 \<times> nat" where
  "draw_target 0 rects u i = (\<lparr>vx = OfficeW / 2, vy = OfficeH / 2\<rparr>, i)"
| "draw_target (Suc k) rects u i =
     (let q = \<lparr>vx = fadd (fl PlayerRadius) (fmul (u i) (fl (OfficeW - 2 * PlayerRadius))),
               vy = fadd (fl PlayerRadius) (fmul (u (i + 1)) (fl (OfficeH - 2 * PlayerRadius)))\<rparr> in
      if list_ex (\<lambda>d. insideRect d q (fl PlayerRadius)) rects then draw_target k rects u (i + 2) else (q, i + 2))"

definition drawNPCTarget :: "rect list \<Rightarrow> (nat \<Rightarrow> f64) \<Rightarrow> nat \<Rightarrow> vec2 \<times> nat" where
  "drawNPCTarget rects u i = draw_target 16 rects u i"

definition StepNPC :: "rect list \<Rightarrow> (nat \<Rightarrow> f64) \<Rightarrow> nat \<Rightarrow> npc \<Rightarrow> f64 \<Rightarrow> npc \<times> nat" where
  "StepNPC rects u i n dt =
     (if n_pause n > 0 then (n\<lparr>n_pause := max 0 (fsub (n_pause n) dt)\<rparr>, i)
      else let dx = fsub (vx (n_to n)) (vx (n_pos n)); dy = fsub (vy (n_to n)) (vy (n_pos n)); d = hypot dx dy in
        if d \<le> NPCArrive \<or> n_walked n \<ge> NPCGiveUpSeconds then
          (case drawNPCTarget rects u i of
             (q, i') \<Rightarrow> (n\<lparr>n_pause := NPCPauseSeconds, n_to := q, n_walked := 0\<rparr>, i'))
        else let s = fmul (fl NPCSpeed) dt;
                 pos = (if s < d then \<lparr>vx = fadd (vx (n_pos n)) (fmul (fdiv dx d) s), vy = fadd (vy (n_pos n)) (fmul (fdiv dy d) s)\<rparr>
                        else n_to n) in
          (n\<lparr>n_walked := fadd (n_walked n) dt, n_pos := resolve rects (fl PlayerRadius) pos\<rparr>, i))"

section \<open>Every body stays on the floor\<close>

lemma clamp_between: "lo \<le> hi \<Longrightarrow> lo \<le> clamp v lo hi \<and> clamp v lo hi \<le> hi"
  by (auto simp: clamp_def)

lemma Grin_bounds: "0 \<le> Grin d \<and> Grin d \<le> 1"
  unfolding Grin_def by (rule clamp_between) simp

definition standing :: "rect list \<Rightarrow> f64 \<Rightarrow> vec2 \<Rightarrow> bool" where
  "standing rects r p \<longleftrightarrow> in_room r p \<and> (\<forall>d \<in> set rects. outside d r p)"

lemma resolve_standing:
  "ValidateLayout l = [] \<Longrightarrow> r \<in> {fl PlayerRadius, fl BossRadius} \<Longrightarrow> standing (rects_of l) r (resolve (rects_of l) r p)"
  using one_pass_is_enough_lemma by (simp add: standing_def)

lemma plan_rects [simp]: "p_rects (NewPlan l) = rects_of l"
  by (simp add: NewPlan_def Let_def)

text \<open>C23: On every accepted floor, whatever the targets, the time step, the wobble and the crowd, the boss, the
other pursuer (after his own step with anybody to chase, and after making room) and a walking ambler end
inside the room and outside every solid grown by their radius, and grin and cigarette stay between nothing and
full.\<close>

theorem men_stay_on_the_floor:
  assumes "ValidateLayout l = []"
  shows "standing (rects_of l) (fl BossRadius) (b_pos (StepBoss m (NewPlan l) b targets dt elapsed)) \<and>
    b_grin (StepBoss m (NewPlan l) b targets dt elapsed) \<in> {0..1} \<and>
    (targets \<noteq> [] \<longrightarrow> standing (rects_of l) (fl BossRadius) (ch_pos (StepChaser (NewPlan l) c targets dt elapsed))) \<and>
    (ch_cig (StepChaser (NewPlan l) c targets dt elapsed) \<in> {0..1}) \<and>
    standing (rects_of l) (fl BossRadius) (ch_pos (Separate q bodies c (rects_of l))) \<and>
    (n_pos (fst (StepNPC (rects_of l) u i n dt)) \<noteq> n_pos n \<longrightarrow>
       standing (rects_of l) (fl PlayerRadius) (n_pos (fst (StepNPC (rects_of l) u i n dt))))"
proof -
  note st = resolve_standing [OF assms, of "fl BossRadius"] resolve_standing [OF assms, of "fl PlayerRadius"]
  have near: "nearest_from p best ts \<noteq> None" if "best \<noteq> None \<or> ts \<noteq> []" for p best ts
    using that by (induction ts arbitrary: best) (auto simp: Let_def split: option.splits)
  have "\<exists>t. nearest (ch_pos c) targets = Some t" if "targets \<noteq> []"
    using near [of None targets "ch_pos c"] that by (auto simp: nearest_def)
  then have 3: "targets \<noteq> [] \<longrightarrow> standing (rects_of l) (fl BossRadius) (ch_pos (StepChaser (NewPlan l) c targets dt elapsed))"
    using st(1) by (auto simp: StepChaser_def Let_def ChaserRadius_def)
  have 4: "ch_cig (StepChaser (NewPlan l) c targets dt elapsed) \<in> {0..1}"
    using Grin_bounds by (auto simp: StepChaser_def Let_def split: option.splits)
  have 6: "n_pos (fst (StepNPC (rects_of l) u i n dt)) \<noteq> n_pos n \<longrightarrow>
       standing (rects_of l) (fl PlayerRadius) (n_pos (fst (StepNPC (rects_of l) u i n dt)))"
    using st(2) by (auto simp: StepNPC_def Let_def split: prod.splits if_splits)
  show ?thesis using st 3 4 6 Grin_bounds
    by (auto simp: StepBoss_def Separate_def Let_def ChaserRadius_def split: option.splits)
qed

theorem men_stay_on_the_floor_witness:
  "standing (rects_of one_desk) (fl BossRadius) (b_pos (StepBoss \<lparr>t_sin = \<lambda>x. 0, t_cos = \<lambda>x. 1, t_atan2 = \<lambda>y x. 0\<rparr>
     (NewPlan one_desk) NewBoss [PlayerSpawn] (1 / 20) 0))"
  using men_stay_on_the_floor [OF one_desk_valid] by blast

section \<open>Where the boss stands still\<close>

text \<open>
  A body pushed against a desk can be in a cell whose middle is inside the grown desk. The search starts at a
  free cell near the target but is not given a free cell near the pursuer, so it finds no way and he walks
  straight at the desk (\<open>navAimAt_own_cell_blocked\<close>).
\<close>

lemma hypot_axis: "fl x = x \<Longrightarrow> hypot x 0 = \<bar>x\<bar>"
  using fl_minus [of x] by (auto simp: hypot_def Let_def fdiv_def fmul_def fadd_def abs_if simp del: fl_minus)

definition beside_the_desk :: vec2 where
  "beside_the_desk = \<lparr>vx = hi_x \<lparr>rx = 4, ry = 4, rw = 1, rh = 1\<rparr> (fl BossRadius), vy = 9 / 2\<rparr>"

definition behind_the_desk :: vec2 where "behind_the_desk = \<lparr>vx = 3, vy = 9 / 2\<rparr>"

lemma desk_edges:
  "43 / 8 \<le> hi_x \<lparr>rx = 4, ry = 4, rw = 1, rh = 1\<rparr> (fl BossRadius)"
  "hi_x \<lparr>rx = 4, ry = 4, rw = 1, rh = 1\<rparr> (fl BossRadius) < 11 / 2"
  "lo_x \<lparr>rx = 4, ry = 4, rw = 1, rh = 1\<rparr> (fl BossRadius) \<le> 29 / 8"
  "7 / 2 \<le> lo_x \<lparr>rx = 4, ry = 4, rw = 1, rh = 1\<rparr> (fl BossRadius)"
proof -
  let ?r = "fl BossRadius"
  have e: "fl (of_int m * 2 powi (- 3)) = of_int m * 2 powi (- 3)" if "\<bar>m\<bar> \<le> 2 ^ 53" for m by (rule fl_exact [OF that])
  have f: "fl (3 / 8) = 3 / 8" "fl (29 / 8) = 29 / 8" "fl (43 / 8) = 43 / 8" using e [of 3] e [of 29] e [of 43] by (simp_all add: power_int_minus)
  have g: "fl (7 / 16) = 7 / 16" "fl (87 / 16) = 87 / 16"
    using fl_exact [of 7 "- 4"] fl_exact [of 87 "- 4"] by (simp_all add: power_int_minus)
  have "fl (3 / 8) \<le> ?r" "?r \<le> fl (7 / 16)" by (rule fl_mono; simp add: BossRadius_def)+
  then have r: "3 / 8 \<le> ?r" "?r \<le> 7 / 16" using f g by simp_all
  have "fl (43 / 8) \<le> fl (5 + ?r)" "fl (5 + ?r) \<le> fl (87 / 16)" "fl (4 - ?r) \<le> fl (29 / 8)" "fl (7 / 2) \<le> fl (4 - ?r)"
    by (rule fl_mono; use r in linarith)+
  then show "43 / 8 \<le> hi_x \<lparr>rx = 4, ry = 4, rw = 1, rh = 1\<rparr> ?r"
    "hi_x \<lparr>rx = 4, ry = 4, rw = 1, rh = 1\<rparr> ?r < 11 / 2" "lo_x \<lparr>rx = 4, ry = 4, rw = 1, rh = 1\<rparr> ?r \<le> 29 / 8"
    "7 / 2 \<le> lo_x \<lparr>rx = 4, ry = 4, rw = 1, rh = 1\<rparr> ?r"
    using f g by (simp_all add: hi_x_def lo_x_def fadd_def fsub_def)
qed

lemma square_desk: "lo_y \<lparr>rx = a, ry = a, rw = w, rh = w\<rparr> r = lo_x \<lparr>rx = a, ry = a, rw = w, rh = w\<rparr> r"
  "hi_y \<lparr>rx = a, ry = a, rw = w, rh = w\<rparr> r = hi_x \<lparr>rx = a, ry = a, rw = w, rh = w\<rparr> r"
  by (simp_all add: lo_x_def lo_y_def hi_x_def hi_y_def)

lemma walks_at_the_desk: "navAimAt (NewPlan one_desk) beside_the_desk behind_the_desk = behind_the_desk"
proof -
  let ?h = "hi_x \<lparr>rx = 4, ry = 4, rw = 1, rh = 1\<rparr> (fl BossRadius)"
  have q: "fdiv ?h navCell = ?h * 2"
    using fl_scale [of ?h 1] by (simp add: fdiv_def navCell_def)
  have "ftrunc (?h * 2) = 10" using desk_edges by (auto simp: ftrunc_def floor_eq_iff)
  moreover have "ftrunc (fdiv (9 / 2) navCell) = 9" by (simp add: fdiv_def navCell_def ftrunc_def)
  ultimately have "navCellOf beside_the_desk = (10, 9)"
    by (simp add: navCellOf_def beside_the_desk_def q clampInt_def navCols_def navRows_def)
  moreover have "\<not> is_free (p_nav (NewPlan one_desk)) (9 * navCols + 10)"
    by (simp add: is_free_plan one_desk_cells navCols_def)
  ultimately show ?thesis by (rule navAimAt_own_cell_blocked)
qed

lemma beside_resolves:
  assumes "fl s = s" and "0 \<le> s" and "s \<le> 3 / 4"
  shows "resolve (rects_of one_desk) (fl BossRadius) \<lparr>vx = fadd (vx beside_the_desk) (- s), vy = 9 / 2\<rparr> = beside_the_desk"
proof -
  let ?d = "\<lparr>rx = 4, ry = 4, rw = 1, rh = 1\<rparr>" and ?r = "fl BossRadius"
  define h lo where "h = hi_x ?d ?r" and "lo = lo_x ?d ?r"
  note e = desk_edges [folded h_def lo_def]
  have fh: "fl h = h" by (simp add: h_def)
  define x where "x = fadd h (- s)"
  have "fl (37 / 8) \<le> fl (h - s)" using e assms by (intro fl_mono) linarith
  moreover have "fl (37 / 8) = 37 / 8" using fl_exact [of 37 "- 3"] by (simp add: power_int_minus)
  ultimately have x: "37 / 8 \<le> x" "x \<le> h" using fl_le [of "h - s" h] fh assms by (simp_all add: x_def fadd_def)
  have near: "h - x \<le> 13 / 16"
  proof -
    have "h - s \<le> 11 / 2" "0 \<le> h - s" using e assms by linarith+
    then have "\<bar>fl (h - s) - (h - s)\<bar> \<le> 1 / 16" using fl_error [of "h - s"] by simp
    then have "h - fl (h - s) \<le> 13 / 16" using assms(3) by linarith
    then show ?thesis by (simp add: x_def fadd_def)
  qed
  have room: "1 / 2 \<ge> ?r" "15 \<le> fsub OfficeW ?r" "15 \<le> fsub OfficeH ?r"
    using radius_bounds(2) by (auto simp: fsub_def OfficeW_def OfficeH_def intro!: le_fl)
  have c: "clampToFloor \<lparr>vx = x, vy = 9 / 2\<rparr> ?r = \<lparr>vx = x, vy = 9 / 2\<rparr>"
    using x e room by (simp add: clampToFloor_def clamp_def)
  have "pushOut ?d \<lparr>vx = x, vy = 9 / 2\<rparr> ?r = \<lparr>vx = h, vy = 9 / 2\<rparr>"
  proof (cases "x = h")
    case True
    then show ?thesis by (simp add: pushOut_def h_def)
  next
    case False
    have "fsub h x \<le> fl (13 / 16)" "fl (7 / 8) \<le> fsub (9 / 2) lo" "fl (7 / 8) \<le> fsub h (9 / 2)" "fl 1 \<le> fsub x lo"
      unfolding fsub_def by (rule fl_mono; use x e near in linarith)+
    moreover have "fl (13 / 16) = 13 / 16" "fl (7 / 8) = 7 / 8" "fl 1 = 1"
      using fl_exact [of 13 "- 4"] fl_exact [of 7 "- 3"] fl_int [of 1] by (simp_all add: power_int_minus)
    ultimately have m: "fsub h x < fsub x lo" "fsub h x < fsub (9 / 2) lo" "fsub h x < fsub h (9 / 2)" by simp_all
    moreover have "lo < x" "x < h" "lo < 9 / 2" "9 / 2 < h" using x e False by linarith+
    ultimately show ?thesis
      by (simp add: pushOut_def square_desk h_def [symmetric] lo_def [symmetric] Let_def min_def)
  qed
  then show ?thesis using c
    by (simp add: resolve_def one_desk_def rects_of_def beside_the_desk_def h_def [symmetric] x_def [symmetric])
qed

text \<open>
  A tick simulates a twentieth of a second, and the tempo grows with the time the office has been open: how long a
  stride is in the first nine minutes.
\<close>

definition tick_seconds :: f64 where "tick_seconds = fl (1 / 20)"

definition open_for :: "nat \<Rightarrow> f64" where "open_for k = fmul (fl (of_nat k)) tick_seconds"

lemma tick_seconds_bounds: "0 < tick_seconds" "tick_seconds \<le> 5001 / 100000"
  by code_simp+

lemma open_for_bounds:
  assumes "k \<le> 10800" shows "0 \<le> open_for k" and "open_for k \<le> 541"
proof -
  have k: "fl (of_nat k) = of_nat k" using fl_int [of "int k"] assms by simp
  show "0 \<le> open_for k" using tick_seconds_bounds(1) by (simp add: open_for_def fmul_def k fl_nonneg)
  have "of_nat k * tick_seconds \<le> 10800 * (5001 / 100000)"
    by (rule mult_mono) (use assms tick_seconds_bounds in simp_all)
  then show "open_for k \<le> 541" unfolding open_for_def fmul_def k using fl_int [of 541] by (intro fl_le) simp_all
qed

lemma stride_bounds:
  assumes "k \<le> 10800"
  shows "0 \<le> fmul (fmul BossSpeed (TempoAt (open_for k))) tick_seconds"
    and "fmul (fmul BossSpeed (TempoAt (open_for k))) tick_seconds \<le> 3 / 4"
proof -
  note o = open_for_bounds [OF assms]
  have "fdiv (open_for k) LevelSeconds \<le> 109 / 4" unfolding fdiv_def LevelSeconds_def
    using fl_exact [of 109 "- 2"] o by (intro fl_le) (simp_all add: power_int_minus)
  moreover have "0 \<le> fdiv (open_for k) LevelSeconds" using o by (simp add: fdiv_def LevelSeconds_def fl_nonneg)
  ultimately have l: "0 \<le> Level (open_for k)" "Level (open_for k) \<le> 27" using o
    by (auto simp: Level_def ftrunc_def floor_le_iff)
  then have l: "0 \<le> (of_int (Level (open_for k)) :: rat)" "(of_int (Level (open_for k)) :: rat) \<le> 27" by simp_all
  have s: "0 \<le> fl LevelSpeedStep" by (simp add: LevelSpeedStep_def fl_nonneg)
  have a: "0 \<le> fmul (fl LevelSpeedStep) (of_int (Level (open_for k)))" "fmul (fl LevelSpeedStep) (of_int (Level (open_for k))) \<le> fmul (fl LevelSpeedStep) 27"
    unfolding fmul_def by (rule fl_nonneg, rule mult_nonneg_nonneg [OF s l(1)]) (rule fl_mono, rule mult_left_mono [OF l(2) s])
  then have b: "0 \<le> TempoAt (open_for k)" "TempoAt (open_for k) \<le> fadd 1 (fmul (fl LevelSpeedStep) 27)"
    unfolding TempoAt_def fadd_def by (intro fl_nonneg fl_mono; simp)+
  then have c: "0 \<le> fmul BossSpeed (TempoAt (open_for k))" "fmul BossSpeed (TempoAt (open_for k)) \<le> fmul BossSpeed (fadd 1 (fmul (fl LevelSpeedStep) 27))"
    unfolding fmul_def [of BossSpeed] by (intro fl_nonneg fl_mono mult_left_mono mult_nonneg_nonneg; simp add: BossSpeed_def)+
  then show "0 \<le> fmul (fmul BossSpeed (TempoAt (open_for k))) tick_seconds"
    using tick_seconds_bounds(1) unfolding fmul_def [of _ tick_seconds] by (intro fl_nonneg mult_nonneg_nonneg) simp_all
  have "fmul (fmul BossSpeed (TempoAt (open_for k))) tick_seconds \<le> fmul (fmul BossSpeed (fadd 1 (fmul (fl LevelSpeedStep) 27))) tick_seconds"
    using c tick_seconds_bounds(1) unfolding fmul_def [of _ tick_seconds] by (intro fl_mono mult_right_mono) simp_all
  also have "\<dots> \<le> 3 / 4" by code_simp
  finally show "fmul (fmul BossSpeed (TempoAt (open_for k))) tick_seconds \<le> 3 / 4" .
qed

lemma one_metre_escapes: "resolve (rects_of one_desk) (fl BossRadius) \<lparr>vx = fadd (vx beside_the_desk) (- 1), vy = 9 / 2\<rparr> \<noteq> beside_the_desk"
  by code_simp

lemma one_metre_stride: "fmul (fmul BossSpeed (TempoAt 800)) tick_seconds = 1"
  by code_simp


lemma towards_the_player:
  "- (5 / 2) \<le> fsub 3 (vx beside_the_desk)" "fsub 3 (vx beside_the_desk) \<le> - (19 / 8)"
  "hypot (fsub 3 (vx beside_the_desk)) 0 = - fsub 3 (vx beside_the_desk)"
proof -
  have "fl (- (5 / 2)) \<le> fsub 3 (vx beside_the_desk)" "fsub 3 (vx beside_the_desk) \<le> fl (- (19 / 8))"
    unfolding beside_the_desk_def fsub_def by (rule fl_mono; use desk_edges in \<open>simp\<close>)+
  moreover have "fl (19 / 8) = 19 / 8" using fl_exact [of 19 "- 3"] by (simp add: power_int_minus)
  ultimately show b: "- (5 / 2) \<le> fsub 3 (vx beside_the_desk)" "fsub 3 (vx beside_the_desk) \<le> - (19 / 8)" by simp_all
  show "hypot (fsub 3 (vx beside_the_desk)) 0 = - fsub 3 (vx beside_the_desk)"
    using hypot_axis [of "fsub 3 (vx beside_the_desk)"] b(2) by (simp add: fsub_def)
qed

text \<open>Sober, he heads straight for the player, and the resolver has the last word.\<close>

lemma stranded_walks:
  assumes "fmul (fmul BossSpeed (TempoAt elapsed)) dt \<le> 1" and "b_pos b = beside_the_desk" and "b_drunk b = 0"
  shows "b_pos (StepBoss m (NewPlan one_desk) b [behind_the_desk] dt elapsed) =
    resolve (rects_of one_desk) (fl BossRadius)
      \<lparr>vx = fadd (vx beside_the_desk) (- fmul (fmul BossSpeed (TempoAt elapsed)) dt), vy = 9 / 2\<rparr>"
proof -
  let ?s = "fmul (fmul BossSpeed (TempoAt elapsed)) dt"
  define dx where "dx = fsub 3 (vx beside_the_desk)"
  note d = towards_the_player [folded dx_def]
  have fs: "fl ?s = ?s" by (simp add: fmul_def)
  have tiny: "tiny \<le> 1" unfolding tiny_def by (rule fl_le) simp_all
  have y: "vy beside_the_desk = 9 / 2" "fl (vy beside_the_desk) = vy beside_the_desk" by (simp_all add: beside_the_desk_def)
  have st: "stride beside_the_desk behind_the_desk dx 0 (- dx) ?s = \<lparr>vx = fadd (vx beside_the_desk) (- ?s), vy = vy beside_the_desk\<rparr>"
    using d tiny assms(1) fs y(2)
    by (simp add: stride_def behind_the_desk_def fdiv_def fadd_def fmul_def [of "- 1"] fmul_def [of 0])
  have near: "nearest beside_the_desk [behind_the_desk] = Some behind_the_desk" by (simp add: nearest_def Let_def)
  have diff: "fsub (vx behind_the_desk) (vx beside_the_desk) = dx" "fsub (vy behind_the_desk) (vy beside_the_desk) = 0"
    by (simp_all add: behind_the_desk_def y(1) dx_def fsub_def)
  show ?thesis using assms(2,3) by (simp add: StepBoss_def Let_def near walks_at_the_desk diff d(3) st) (simp add: y(1))
qed

lemma sober_stays_sober: "b_drunk b = 0 \<Longrightarrow> b_drunk (StepBoss m p b ts dt elapsed) = 0"
  by (simp add: StepBoss_def Let_def)

text \<open>The boss after \<open>n\<close> ticks of an office in which he started beside the desk.\<close>

definition stranded :: "trig \<Rightarrow> f64 \<Rightarrow> nat \<Rightarrow> boss" where
  "stranded m g n = fold (\<lambda>k b. StepBoss m (NewPlan one_desk) b [behind_the_desk] tick_seconds (open_for k)) [0 ..< n]
     \<lparr>b_pos = beside_the_desk, b_grin = g, b_drunk = 0\<rparr>"

lemma stranded_stays: "n \<le> 10800 \<Longrightarrow> b_pos (stranded m g n) = beside_the_desk \<and> b_drunk (stranded m g n) = 0"
proof (induction n)
  case 0
  then show ?case by (simp add: stranded_def)
next
  case (Suc n)
  let ?s = "fmul (fmul BossSpeed (TempoAt (open_for n))) tick_seconds"
  have b: "b_pos (stranded m g n) = beside_the_desk" "b_drunk (stranded m g n) = 0" using Suc by simp_all
  have s: "0 \<le> ?s" "?s \<le> 3 / 4" "fl ?s = ?s" using stride_bounds [of n] Suc.prems by (simp_all add: fmul_def)
  have "?s \<le> 1" using s(2) by linarith
  from stranded_walks [OF this b] have "b_pos (stranded m g (Suc n)) = beside_the_desk"
    using beside_resolves [OF s(3,1,2)] by (simp add: stranded_def)
  then show ?case using sober_stays_sober [OF b(2)] by (simp add: stranded_def)
qed



end
