(* ===== verification/FintechLines.thy ===== *)
theory FintechLines
  imports FintechSim "HOL-Library.Word"
begin

text \<open>
  What the figures of the office say (\<^verbatim>\<open>internal/gamefintech/content.go\<close>): the pools of lines,
  as code points, and the choice of a line from the tick by two hashes on 64-bit words. The wire
  carries an index into a pool, so the indices must stay in it; and a line that must not reach a
  stranger's screen must not be chosen for him.
\<close>

unbundle bit_operations_syntax

section \<open>The pools\<close>

record npc_kind =
  nk_key :: string
  nk_name :: runes
  nk_spawn :: vec2
  nk_lines :: "runes list"

definition stillLines :: "runes list" where
  "stillLines = [
     [1071, 32, 1050, 1040, 1056, 1045, 1053],
     [1071, 32, 1044, 1059, 1052, 1040, 1070],
     [1071, 32, 1042, 32, 1050, 1054, 1053, 1058, 1045, 1050, 1057, 1058, 1045],
     [1047, 1040, 1043, 1056, 1059, 1046, 1040, 1070, 1057, 1068],
     [1069, 1058, 1054, 32, 1057, 1051, 1054, 1046, 1053, 1040, 1071, 32, 1047, 1040, 1044, 1040, 1063, 1040],
     [1040, 1053, 1040, 1051, 1048, 1047, 1048, 1056, 1059, 1070],
     [1055, 1054, 1063, 1058, 1048, 32, 1043, 1054, 1058, 1054, 1042, 1054],
     [1044, 1040, 32, 1071, 32, 1059, 1046, 1045, 32, 1044, 1045, 1051, 1040, 1070],
     [1058, 1059, 1058, 32, 1053, 1040, 1044, 1054, 32, 1055, 1054, 1044, 1059, 1052, 1040, 1058, 1068],
     [1071, 32, 1042, 32, 1055, 1054, 1058, 1054, 1050, 1045],
     [1046, 1044, 1059, 32, 1054, 1058, 1042, 1045, 1058, 1040],
     [1069, 1058, 1054, 32, 1053, 1045, 32, 1050, 1054, 32, 1052, 1053, 1045]]"

definition movingLines :: "runes list" where
  "movingLines = [
     [1071, 32, 1055, 1056, 1054, 1057, 1058, 1054, 32, 1042, 1054, 1044, 1067, 32, 1055, 1054, 1055, 1048,
      1058, 1068],
     [1071, 32, 1053, 1040, 32, 1052, 1048, 1053, 1059, 1058, 1050, 1059],
     [1052, 1053, 1045, 32, 1055, 1054, 1047, 1042, 1054, 1053, 1048, 1051, 1048],
     [1071, 32, 1047, 1040, 32, 1050, 1054, 1060, 1045],
     [1071, 32, 1057, 1045, 1049, 1063, 1040, 1057, 32, 1042, 1045, 1056, 1053, 1059, 1057, 1068],
     [1069, 1058, 1054, 32, 1055, 1054, 32, 1056, 1040, 1041, 1054, 1058, 1045],
     [1053, 1040, 1044, 1054, 32, 1056, 1040, 1047, 1052, 1071, 1058, 1068, 1057, 1071]]"

definition dashingLines :: "runes list" where
  "dashingLines = [
     [1071, 32, 1053, 1040, 32, 1042, 1057, 1058, 1056, 1045, 1063, 1059],
     [1052, 1045, 1053, 1071, 32, 1047, 1054, 1042, 1059, 1058],
     [1059, 32, 1052, 1045, 1053, 1071, 32, 1044, 1045, 1049, 1051, 1048, 1050],
     [1071, 32, 1053, 1045, 32, 1059, 1041, 1045, 1043, 1040, 1070],
     [1069, 1058, 1054, 32, 1053, 1045, 32, 1071],
     [1057, 1056, 1054, 1063, 1053, 1054, 32, 1053, 1040, 1044, 1054]]"

definition redirectLines :: "runes list" where
  "redirectLines = [
     [1069, 1058, 1054, 32, 1053, 1059, 1046, 1053, 1054, 32, 1059, 1058, 1054, 1063, 1053, 1048, 1058, 1068,
      32, 1059, 32, 1044, 1056, 1059, 1043, 1054, 1043, 1054]]"

definition personaIntros :: "runes list" where
  "personaIntros = [
     [1071, 32, 1040, 1053, 1044, 1056, 1070, 1061, 1040],
     [1071, 32, 1057, 1040, 1053, 1071, 32, 1050],
     [1071, 32, 1058, 1045, 1052, 1048, 1056, 1051, 1040, 1053]]"

definition routerLines :: "runes list" where
  "routerLines = [
     [1056, 1054, 1059, 1058, 1045, 1056, 32, 1059, 1055, 1040, 1051]]"

definition PlayerLines :: "runes list" where
  "PlayerLines = stillLines @ movingLines @ dashingLines @ redirectLines @ personaIntros @ routerLines"

definition Personas :: "runes list" where
  "Personas = [
     [1050, 1072, 1088, 1077, 1085],
     [1040, 1085, 1076, 1088, 1102, 1093, 1072],
     [1057, 1072, 1085, 1103, 32, 1050],
     [1058, 1077, 1084, 1080, 1088, 1083, 1072, 1085]]"

definition bossFar :: "runes list" where
  "bossFar = [
     [1071, 32, 1051, 1067, 1057, 1067, 1049],
     [1061, 1054, 1056, 1054, 1064, 1054, 32, 1057, 1048, 1044, 1048, 1052],
     [1053, 1040, 1044, 1054, 32, 1041, 1067, 32, 1057, 1048, 1053, 1061, 1056, 1054, 1053, 1048, 1047, 1048,
      1056, 1054, 1042, 1040, 1058, 1068, 1057, 1071],
     [1059, 32, 1052, 1045, 1053, 1071, 32, 1054, 1050, 1053, 1054, 32, 1055, 1054, 1057, 1051, 1045, 32,
      1054, 1041, 1045, 1044, 1040],
     [1071, 32, 1055, 1056, 1054, 1057, 1058, 1054, 32, 1055, 1054, 1057, 1052, 1054, 1058, 1056, 1045, 1058,
      1068],
     [1050, 1054, 1052, 1040, 1053, 1044, 1040, 44, 32, 1071, 32, 1047, 1044, 1045, 1057, 1068],
     [1050, 1040, 1050, 1048, 1045, 32, 1059, 32, 1053, 1040, 1057, 32, 1055, 1051, 1040, 1053, 1067],
     [1058, 1045, 1061, 1053, 1054, 1051, 1054, 1043, 1048, 1063, 1045, 1057, 1050, 1040, 1071, 32, 1057,
      1048, 1053, 1043, 1059, 1051, 1071, 1056, 1053, 1054, 1057, 1058, 1068, 32, 1059, 1046, 1045, 32,
      1058, 1059, 1058],
     [1043, 1054, 1051, 1054, 1042, 1050, 1040, 32, 1042, 1057, 1045, 1061, 32, 1047, 1040, 1052, 1045, 1053,
      1048, 1058]]"

definition bossClosing :: "runes list" where
  "bossClosing = [
     [1040, 32, 1043, 1044, 1045, 63],
     [1053, 1059, 32, 1063, 1058, 1054, 44, 32, 1055, 1054, 1057, 1052, 1054, 1058, 1056, 1045, 1051, 63],
     [1047, 1040, 1049, 1044, 1048, 32, 1053, 1040, 32, 1052, 1048, 1053, 1059, 1058, 1050, 1059],
     [1069, 1058, 1054, 32, 1046, 1045, 32, 1053, 1040, 32, 1055, 1071, 1058, 1068, 32, 1052, 1048, 1053,
      1059, 1058],
     [1044, 1040, 1042, 1040, 1049, 32, 1044, 1054, 32, 1050, 1054, 1053, 1062, 1040, 32, 1057, 1055, 1056,
      1048, 1053, 1058, 1040],
     [1071, 32, 1058, 1045, 1041, 1045, 32, 1042, 32, 1051, 1048, 1063, 1050, 1059, 32, 1053, 1040, 1055,
      1048, 1057, 1040, 1051],
     [1058, 1067, 32, 1046, 1045, 32, 1043, 1054, 1042, 1054, 1056, 1048, 1051, 32, 1063, 1058, 1054, 32,
      1057, 1044, 1045, 1051, 1040, 1051],
     [1055, 1056, 1054, 1057, 1058, 1054, 32, 1055, 1054, 1057, 1052, 1054, 1058, 1056, 1048, 44, 32, 1053,
      1048, 1063, 1045, 1043, 1054, 32, 1053, 1045, 32, 1044, 1045, 1051, 1040, 1049],
     [1045, 1057, 1058, 1068, 32, 1052, 1048, 1053, 1059, 1058, 1050, 1040, 63],
     [1057, 1048, 1053, 1061, 1056, 1054, 1053, 1048, 1047, 1048, 1056, 1059, 1045, 1052, 1057, 1071, 63],
     [1053, 1040, 32, 1050, 1040, 1050, 1054, 1052, 32, 1069, 1058, 1040, 1055, 1045, 63],
     [1071, 32, 1053, 1045, 32, 1058, 1054, 1056, 1054, 1055, 1051, 1070, 44, 32, 1053, 1054, 32, 1050, 1054,
      1043, 1044, 1040, 63],
     [1044, 1040, 1042, 1040, 1049, 32, 1041, 1067, 1057, 1058, 1056, 1045, 1053, 1068, 1050, 1054, 32, 1057,
      1054, 1047, 1042, 1054, 1053],
     [1053, 1045, 32, 1057, 1056, 1054, 1063, 1053, 1054, 46, 32, 1053, 1054, 32, 1057, 1045, 1043, 1054,
      1044, 1053, 1071],
     [1058, 1067, 32, 1046, 1045, 32, 1055, 1054, 1052, 1053, 1048, 1064, 1068, 32, 1055, 1056, 1054, 32,
      1044, 1045, 1052, 1054],
     [1071, 32, 1055, 1056, 1054, 1057, 1058, 1054, 32, 1052, 1048, 1052, 1054, 32, 1055, 1056, 1054, 1061,
      1054, 1044, 1048, 1051],
     [1052, 1045, 1051, 1054, 1063, 1068, 44, 32, 1053, 1054, 32, 1055, 1045, 1056, 1045, 1044, 1045, 1051,
      1040, 1049],
     [1044, 1054, 1041, 1040, 1042, 1048, 1051, 32, 1058, 1045, 1041, 1071, 32, 1042, 32, 1045, 1065, 1025,
      32, 1054, 1044, 1048, 1053, 32, 1063, 1040, 1058],
     [1055, 1054, 1057, 1058, 1040, 1042, 1048, 1051, 32, 1042, 1057, 1058, 1056, 1045, 1063, 1059, 32, 1053,
      1040, 32, 49, 57, 58, 48, 48],
     [1069, 1058, 1054, 32, 1053, 1045, 32, 1050, 1054, 1053, 1058, 1056, 1054, 1051, 1068, 44, 32, 1069,
      1058, 1054, 32, 1047, 1040, 1041, 1054, 1058, 1040],
     [1055, 1056, 1054, 1057, 1058, 1054, 32, 1044, 1045, 1056, 1046, 1048, 32, 1052, 1045, 1053, 1071, 32,
      1042, 32, 1050, 1059, 1056, 1057, 1045],
     [1050, 1048, 1053, 1068, 32, 1042, 32, 1058, 1056, 1045, 1044, 32, 1057, 1050, 1056, 1048, 1053, 1064,
      1054, 1058],
     [1040, 32, 1054, 1062, 1045, 1053, 1050, 1059, 32, 1044, 1040, 1064, 1068, 63],
     [1054, 1041, 1057, 1059, 1044, 1048, 1052, 32, 1053, 1040, 32, 1044, 1045, 1049, 1051, 1048, 1050, 1045],
     [1071, 32, 1059, 1046, 1045, 32, 1057, 1050, 1040, 1047, 1040, 1051, 32, 1063, 1058, 1054, 32, 1043,
      1054, 1058, 1054, 1042, 1054],
     [1058, 1067, 32, 1058, 1054, 1051, 1068, 1050, 1054, 32, 1053, 1045, 32, 1054, 1058, 1042, 1051, 1045,
      1050, 1040, 1049, 1057, 1071]]"

definition bossDrunkLines :: "runes list" where
  "bossDrunkLines = [
     [1071, 32, 1063, 1059, 1058, 1068, 45, 1063, 1059, 1058, 1068],
     [1052, 1067, 32, 1046, 1045, 32, 1050, 1054, 1052, 1040, 1053, 1044, 1040],
     [1071, 32, 1042, 1040, 1057, 32, 1042, 1057, 1045, 1061, 32, 1054, 1063, 1045, 1053, 1068, 32, 1062,
      1045, 1053, 1070],
     [1069, 1058, 1054, 32, 1041, 1045, 1047, 1040, 1051, 1050, 1054, 1043, 1054, 1051, 1068, 1053, 1054,
      1045],
     [1058, 1067, 32, 1052, 1045, 1053, 1071, 32, 1059, 1042, 1040, 1046, 1040, 1045, 1064, 1068, 63],
     [1047, 1040, 1042, 1058, 1056, 1040, 32, 1044, 1045, 1049, 1051, 1048, 1050, 32, 1042, 32, 1044, 1045,
      1042, 1071, 1058, 1068],
     [1071, 32, 1053, 1045, 32, 1055, 1068, 1071, 1053, 1067, 1049, 44, 32, 1071, 32, 1042, 1054, 1042, 1051,
      1045, 1063, 1025, 1053, 1053, 1067, 1049],
     [1044, 1040, 1042, 1040, 1049, 32, 1053, 1040, 32, 1058, 1067, 44, 32, 1071, 32, 1046, 1045, 32, 1057,
      1042, 1054, 1049],
     [1059, 32, 1053, 1040, 1057, 32, 1058, 1059, 1058, 32, 1057, 1045, 1052, 1068, 1071, 44, 32, 1040, 32,
      1053, 1045, 32, 1056, 1040, 1041, 1054, 1058, 1040]]"

definition bossRedirectLines :: "runes list" where
  "bossRedirectLines = [
     [1040, 44, 32, 1058, 1054, 1063, 1053, 1054, 44, 32, 1058, 1067, 32, 1046, 1045, 32, 1047, 1040, 1053,
      1071, 1058],
     [1058, 1054, 1043, 1044, 1040, 32, 1071, 32, 1050, 32, 1053, 1045, 1052, 1059],
     [1057, 1055, 1040, 1057, 1048, 1041, 1054, 44, 32, 1063, 1058, 1054, 32, 1055, 1054, 1044, 1057, 1050,
      1040, 1047, 1040, 1051],
     [1042, 1054, 1058, 32, 1069, 1058, 1054, 32, 1050, 1054, 1052, 1040, 1053, 1044, 1053, 1040, 1071, 32,
      1056, 1040, 1041, 1054, 1058, 1040],
     [1054, 1053, 32, 1043, 1054, 1042, 1054, 1056, 1048, 1051, 44, 32, 1063, 1058, 1054, 32, 1057, 1042,
      1054, 1041, 1054, 1044, 1045, 1053],
     [1061, 1054, 1056, 1054, 1064, 1054, 44, 32, 1063, 1058, 1054, 32, 1057, 1055, 1056, 1054, 1057, 1048,
      1051, 32, 1059, 32, 1058, 1045, 1041, 1071]]"

definition NamePlaceholder :: runes where "NamePlaceholder = ascii ''{}''"

definition bossLostLines :: "runes list" where
  "bossLostLines = [
     [1040, 32, 1050, 1059, 1044, 1040, 32, 1054, 1053, 32, 1044, 1045, 1051, 1057, 1071],
     [1063, 1045, 32, 1047, 1040, 32, 1061, 1045, 1056, 1068, 44, 32, 1043, 1044, 1045, 32] @ NamePlaceholder,
     [1050, 1059, 1044, 1040, 32, 1055, 1056, 1054, 1055, 1040, 1051, 32, 1069, 1058, 1054, 1058, 32, 1045,
      1041, 1051, 1040, 1053],
     [1071, 32, 1046, 1045, 32, 1042, 1048, 1044, 1045, 1051, 44, 32, 1063, 1058, 1054, 32, 1050, 1058, 1054,
      45, 1058, 1054, 32, 1057, 1058, 1054, 1071, 1051]]"

definition BossLines :: "runes list" where
  "BossLines = bossFar @ bossClosing @ bossDrunkLines @ bossRedirectLines @ bossLostLines"

definition ClaudeLines :: "runes list" where
  "ClaudeLines = [
     [1071, 32, 1050, 1051, 1054, 1044],
     [1059, 1042, 1048, 1046, 1059, 32, 1050, 1054, 1044, 1045, 1050, 1057, 32, 8212, 32, 1042, 1067, 1045,
      1041, 1059],
     [1058, 1067, 32, 1063, 1025, 32, 1057, 1059, 1050, 1040, 32, 1050, 1054, 1044, 1045, 1050, 1057, 32,
      1055, 1054, 1057, 1058, 1040, 1042, 1048, 1051],
     [1042, 32, 1050, 1054, 1053, 1057, 1054, 1051, 1048, 32, 1053, 1045, 32, 1052, 1054, 1046, 1045, 1064,
      1068, 63, 32, 1045, 1041, 1051, 1040, 1053, 63],
     [71, 85, 73, 32, 1053, 1059, 1046, 1045, 1053, 63, 32, 1040, 32, 1052, 1054, 1046, 1045, 1058, 32, 1061,
      1059, 1049, 32, 1047, 1040, 32, 1065, 1045, 1050, 1059, 63],
     [1059, 1025, 1041, 1054, 1050, 32, 1055, 1054, 1044, 1050, 1051, 1070, 1063, 1048, 32, 1057, 1050, 1048,
      1051, 1051],
     [1050, 1054, 1044, 1045, 1050, 1057, 45, 1055, 1040, 1056, 1040, 1064, 1040, 32, 1042, 1067, 1045, 1041,
      1059, 32, 1052, 1040, 1052, 1040, 1064, 1059],
     [84, 72, 73, 83, 32, 83, 69, 69, 77, 83, 32, 76, 73, 75, 69, 32, 65, 32, 83, 77, 79, 75, 73, 78, 71, 32,
      67, 85, 77],
     [89, 79, 85, 32, 65, 82, 69, 32, 65, 66, 83, 79, 76, 85, 84, 69, 76, 89, 32, 82, 73, 71, 72, 84, 44, 32,
      70, 65, 71, 71, 79, 84],
     [1055, 1048, 1044, 1054, 1056, 44, 32, 1055, 1048, 1064, 1048, 32, 1053, 1054, 1056, 1052, 1040, 1051,
      1068, 1053, 1067, 1049, 32, 1055, 1056, 1054, 1052, 1055, 1058],
     [1050, 1058, 1054, 32, 1058, 1045, 1041, 1045, 32, 1069, 1058, 1054, 32, 1053, 1040, 1055, 1048, 1057,
      1040, 1051],
     [1040, 32, 1058, 1045, 1057, 1058, 1067, 32, 1043, 1044, 1045]]"

definition NPCCast :: "npc_kind list" where
  "NPCCast = [
     \<lparr>nk_key = ''serega'', nk_name = [1057, 1077, 1088, 1077, 1075, 1072], nk_spawn = \<lparr>vx = 3, vy = 2\<rparr>,
      nk_lines = [
     [1071, 32, 1057, 1045, 1056, 1045, 1043, 1040],
     [1061, 1059, 1049, 1053, 1071, 44, 32, 1055, 1045, 1056, 1045, 1044, 1045, 1051, 1067, 1042, 1040, 1049],
     [1058, 1067, 32, 1058, 1059, 1055, 1054, 32, 1050, 1054, 1044, 1045, 1050, 1057, 1064, 1051, 1040, 1050,
      32, 1047, 1040, 1051, 1048, 1051, 63],
     [1044, 1040, 32, 1071, 32, 1061, 1059, 1045, 1052, 32, 1041, 1054, 1051, 1068, 1064, 1045, 32, 1044,
      1045, 1051, 1040, 1070],
     [1040, 32, 1056, 1045, 1042, 1068, 1070, 1042, 1048, 1058, 1068, 32, 1054, 1063, 1050, 1054, 32, 1057,
      1045, 1052, 1040, 32, 1040, 1051, 1068, 1052, 1040, 1053, 1040, 32, 1041, 1059, 1044, 1045, 1058,
      63],
     [1071, 32, 1050, 1059, 1056, 1070, 32, 1050, 1040, 1051, 1068, 1071, 1053]]\<rparr>,
     \<lparr>nk_key = ''tema'', nk_name = [1058, 1105, 1084, 1072], nk_spawn = \<lparr>vx = 13, vy = 2\<rparr>,
      nk_lines = [
     [1071, 32, 1058, 1025, 1052, 1040],
     [1061, 1059, 1049, 1053, 1071, 44, 32, 1055, 1045, 1056, 1045, 1044, 1045, 1051, 1067, 1042, 1040, 1049],
     [1040, 32, 1056, 1045, 1042, 1068, 1070, 1042, 1048, 1058, 1068, 32, 1050, 1058, 1054, 32, 1041, 1059,
      1044, 1045, 1058, 63],
     [1071, 32, 1042, 32, 1055, 1054, 1051, 1025, 1058, 1045, 44, 32, 1055, 1054, 1058, 1054, 1052],
     [1044, 1040, 32, 1071, 32, 1061, 1059, 1045, 1052, 32, 1041, 1054, 1051, 1068, 1064, 1045, 32, 1044,
      1045, 1051, 1040, 1070],
     [1071, 32, 1050, 1059, 1056, 1070, 32, 1050, 1040, 1051, 1068, 1071, 1053]]\<rparr>]"

section \<open>The choice of a line\<close>

definition introLine :: int where "introLine = 0"
definition IntroEvery :: "64 word" where "IntroEvery = 5"
definition introSalt :: "64 word" where "introSalt = 0x5A171234ABCD0001"
definition runSalt :: "64 word" where "runSalt = 0x5A171234ABCD0002"
definition ClaudeSlot :: nat where "ClaudeSlot = 40"
definition NPCSlot :: nat where "NPCSlot = 40"
definition PlayerSlot :: nat where "PlayerSlot = 40"
definition BossSlot :: nat where "BossSlot = 40"
definition BossQuiet :: rat where "BossQuiet = 35 / 100"

definition slotHash :: "64 word \<Rightarrow> 64 word \<Rightarrow> 64 word" where
  "slotHash slot salt =
     (let x = slot * 0x9E3779B97F4A7C15 + salt;
          x = x XOR drop_bit 31 x;
          x = x * 0xBF58476D1CE4E5B9 in
      x XOR drop_bit 29 x)"

text \<open>The number of lines of a run is a slice length: an \<^verbatim>\<open>int\<close>, and as \<open>uint64\<close> the same number.\<close>

definition lineIn :: "int \<Rightarrow> int \<Rightarrow> nat \<Rightarrow> nat \<Rightarrow> int" where
  "lineIn intro base n slot =
     (if slotHash (of_nat slot) introSalt mod IntroEvery = 0 then intro
      else base + uint (slotHash (of_nat slot) runSalt mod of_nat n))"

definition nextLine :: "int \<Rightarrow> int \<Rightarrow> nat \<Rightarrow> int \<Rightarrow> int" where
  "nextLine intro base n from =
     (let stop = base + int n in
      if from < base \<or> from \<ge> stop then (if base \<noteq> from then base else base + 1)
      else if from + 1 < stop then from + 1
      else if base \<noteq> from then base
      else intro)"

definition pickLine :: "int \<Rightarrow> int \<Rightarrow> runes list \<Rightarrow> nat \<Rightarrow> nat \<Rightarrow> int" where
  "pickLine intro base run tick slotTicks =
     (let n = length run in
      if n = 0 \<or> slotTicks = 0 then 0
      else let slot = tick div slotTicks; got = lineIn intro base n slot in
        if slot > 0 \<and> got = lineIn intro base n (slot - 1) then nextLine intro base n got else got)"

definition ClaudeSays :: "nat \<Rightarrow> int" where
  "ClaudeSays tick = pickLine introLine 0 ClaudeLines tick ClaudeSlot"

definition NPCSays :: "int \<Rightarrow> nat \<Rightarrow> int" where
  "NPCSays kind tick =
     (if kind < 0 \<or> kind \<ge> int (length NPCCast) then 0
      else pickLine introLine 0 (nk_lines (NPCCast ! nat kind)) (tick + nat kind * NPCSlot div 2) NPCSlot)"

definition personaIntroBase :: int where
  "personaIntroBase = int (length stillLines) + int (length movingLines) + int (length dashingLines) + int (length redirectLines)"

definition IntroLineFor :: "int \<Rightarrow> int" where
  "IntroLineFor persona =
     (if persona \<le> 0 \<or> persona > int (length personaIntros) then introLine else personaIntroBase + persona - 1)"

definition RedirectLine :: int where
  "RedirectLine = int (length stillLines) + int (length movingLines) + int (length dashingLines)"

definition RouterLine :: int where
  "RouterLine = int (length stillLines) + int (length movingLines) + int (length dashingLines) +
     int (length redirectLines) + int (length personaIntros)"

definition PlayerLine :: "player \<Rightarrow> int \<Rightarrow> nat \<Rightarrow> int" where
  "PlayerLine p persona tick =
     (let intro = IntroLineFor persona in
      if p_dash_left p > 0 then pickLine intro (int (length stillLines) + int (length movingLines)) dashingLines tick PlayerSlot
      else if p_move_grace p > 0 then pickLine intro (int (length stillLines)) movingLines tick PlayerSlot
      else pickLine intro 0 stillLines tick PlayerSlot)"

datatype boss_state = BossIdle | BossDrunk | BossRedirected | BossLost

definition bossLostBase :: int where
  "bossLostBase = int (length bossFar) + int (length bossClosing) + int (length bossDrunkLines) + int (length bossRedirectLines)"

definition BossLine :: "f64 \<Rightarrow> nat \<Rightarrow> int" where
  "BossLine grin tick =
     (if grin \<ge> fl BossQuiet then pickLine introLine (int (length bossFar)) bossClosing tick BossSlot
      else pickLine introLine 0 bossFar tick BossSlot)"

definition BossSays :: "boss_state \<Rightarrow> f64 \<Rightarrow> nat \<Rightarrow> bool \<Rightarrow> int" where
  "BossSays st grin tick mine =
     (case st of
        BossDrunk \<Rightarrow> pickLine introLine (int (length bossFar) + int (length bossClosing)) bossDrunkLines tick BossSlot
      | BossRedirected \<Rightarrow>
          pickLine introLine (int (length bossFar) + int (length bossClosing) + int (length bossDrunkLines)) bossRedirectLines tick BossSlot
      | BossLost \<Rightarrow>
          let got = pickLine introLine bossLostBase bossLostLines tick BossSlot in
          if \<not> mine \<and> contains (BossLines ! nat got) NamePlaceholder
          then nextLine introLine bossLostBase (length bossLostLines) got else got
      | BossIdle \<Rightarrow> BossLine grin tick)"


section \<open>The indices\<close>

lemma pool_lengths:
  "length stillLines = 12" "length movingLines = 7" "length dashingLines = 6" "length redirectLines = 1"
  "length personaIntros = 3" "length routerLines = 1" "length bossFar = 9" "length bossClosing = 26"
  "length bossDrunkLines = 9" "length bossRedirectLines = 6" "length bossLostLines = 4" "length ClaudeLines = 12"
  by (simp_all add: stillLines_def movingLines_def dashingLines_def redirectLines_def personaIntros_def routerLines_def
    bossFar_def bossClosing_def bossDrunkLines_def bossRedirectLines_def bossLostLines_def ClaudeLines_def)

lemma cast_shape:
  "length NPCCast = 2" "length (nk_lines (NPCCast ! 0)) = 6" "length (nk_lines (NPCCast ! Suc 0)) = 6"
  "map nk_spawn NPCCast = npc_spawns"
  by (simp_all add: NPCCast_def npc_spawns_def)

lemma pool_sizes: "length PlayerLines = 30" "length BossLines = 54"
  by (simp_all add: PlayerLines_def BossLines_def pool_lengths)

lemmas pool_shapes = pool_lengths cast_shape pool_sizes

lemma lineIn_range:
  assumes "0 < n" and "n < 2 ^ 64"
  shows "lineIn intro base n slot = intro \<or> base \<le> lineIn intro base n slot \<and> lineIn intro base n slot < base + int n"
proof -
  have "uint (of_nat n :: 64 word) = int n" using assms by (simp add: unsigned_of_nat take_bit_nat_eq_self)
  then have "uint (x mod of_nat n) = uint x mod int n" for x :: "64 word" by (simp add: uint_mod)
  then show ?thesis using assms by (auto simp: lineIn_def)
qed

lemma nextLine_range:
  assumes "0 < n"
  shows "nextLine intro base n x = intro \<or> base \<le> nextLine intro base n x \<and> nextLine intro base n x < base + int n \<or>
    n = 1 \<and> x = base"
  using assms by (auto simp: nextLine_def Let_def)

lemma nextLine_differs: "1 < n \<Longrightarrow> nextLine intro base n x \<noteq> x"
  by (auto simp: nextLine_def Let_def)

lemma pickLine_range:
  assumes "1 < length run" and "length run < 2 ^ 64" and "0 < slotTicks"
  shows "pickLine intro base run tick slotTicks = intro \<or>
    base \<le> pickLine intro base run tick slotTicks \<and> pickLine intro base run tick slotTicks < base + int (length run)"
proof -
  have ne: "run \<noteq> []" using assms by auto
  show ?thesis
    using lineIn_range [of "length run" intro base "tick div slotTicks"]
      nextLine_range [of "length run" intro base "lineIn intro base (length run) (tick div slotTicks)"] assms ne
    by (auto simp: pickLine_def Let_def)
qed

lemmas say_defs = PlayerLine_def BossSays_def BossLine_def ClaudeSays_def introLine_def personaIntroBase_def IntroLineFor_def
  RedirectLine_def RouterLine_def bossLostBase_def PlayerSlot_def BossSlot_def ClaudeSlot_def NPCSlot_def

lemma PlayerLine_range:
  "PlayerLine p persona tick = IntroLineFor persona \<or> 0 \<le> PlayerLine p persona tick \<and> PlayerLine p persona tick < 25"
  using pickLine_range [of dashingLines 40 "IntroLineFor persona" 19 tick] pickLine_range [of movingLines 40 "IntroLineFor persona" 12 tick]
    pickLine_range [of stillLines 40 "IntroLineFor persona" 0 tick]
  by (auto simp: PlayerLine_def PlayerSlot_def Let_def pool_lengths)

lemma NPCSays_range: "0 \<le> NPCSays kind tick \<and> NPCSays kind tick < 6"
proof -
  have "kind = 0 \<or> kind = 1" if "\<not> kind < 0" "\<not> kind \<ge> 2" using that by linarith
  then show ?thesis
    using pickLine_range [of "nk_lines (NPCCast ! 0)" 40 0 0 tick] pickLine_range [of "nk_lines (NPCCast ! Suc 0)" 40 0 0 "tick + 20"]
    by (auto simp: NPCSays_def cast_shape introLine_def NPCSlot_def)
qed

text \<open>The one line with a name to fill in, and who may be shown it.\<close>

lemma contains_no_brace: "123 \<notin> set l \<Longrightarrow> \<not> contains l NamePlaceholder"
  by (auto simp: contains_iff NamePlaceholder_def ascii_def)

lemma placeholder_line:
  assumes "i < 54" and "i \<noteq> 51" shows "\<not> contains (BossLines ! i) NamePlaceholder"
proof -
  have "\<forall>l \<in> set bossFar \<union> set bossClosing \<union> set bossDrunkLines \<union> set bossRedirectLines. 123 \<notin> set l"
    by (simp add: bossFar_def bossClosing_def bossDrunkLines_def bossRedirectLines_def)
  then have "123 \<notin> set (BossLines ! i)" if "i < 50"
    using that nth_mem [of i "bossFar @ bossClosing @ bossDrunkLines @ bossRedirectLines"]
    by (auto simp: BossLines_def pool_lengths nth_append split: if_splits)
  moreover have "i = 50 \<or> i = 52 \<or> i = 53" if "\<not> i < 50" using assms that by linarith
  then have "123 \<notin> set (BossLines ! i)" if "\<not> i < 50"
    using that by (auto simp: BossLines_def nth_append pool_lengths bossLostLines_def)
  ultimately show ?thesis using contains_no_brace by blast
qed

lemma pick_pool:
  "1 < n \<Longrightarrow> length run = n \<Longrightarrow> n < 2 ^ 64 \<Longrightarrow>
     pickLine 0 base run tick 40 = 0 \<or> base \<le> pickLine 0 base run tick 40 \<and> pickLine 0 base run tick 40 < base + int n"
  using pickLine_range [of run 40 0 base tick] by auto

lemma BossSays_lost:
  "BossSays BossLost grin tick mine =
     (let got = pickLine 0 50 bossLostLines tick 40 in
      if \<not> mine \<and> contains (BossLines ! nat got) NamePlaceholder then nextLine 0 50 4 got else got)"
  by (simp add: BossSays_def introLine_def bossLostBase_def BossSlot_def pool_lengths Let_def)

lemma BossSays_other:
  "st \<noteq> BossLost \<Longrightarrow> 0 \<le> BossSays st grin tick mine \<and> BossSays st grin tick mine < 50"
  using pick_pool [of 9 bossFar 0 tick] pick_pool [of 26 bossClosing 9 tick]
    pick_pool [of 9 bossDrunkLines 35 tick] pick_pool [of 6 bossRedirectLines 44 tick]
  by (cases st) (auto simp: BossSays_def BossLine_def introLine_def BossSlot_def pool_lengths)

lemma BossSays_range: "0 \<le> BossSays st grin tick mine \<and> BossSays st grin tick mine < 54"
  and BossSays_named: "contains (BossLines ! nat (BossSays st grin tick mine)) NamePlaceholder \<Longrightarrow> st = BossLost \<and> mine"
proof -
  define got where "got = pickLine 0 50 bossLostLines tick 40"
  have g: "got = 0 \<or> 50 \<le> got \<and> got < 54" using pick_pool [of 4 bossLostLines 50 tick] by (simp add: got_def pool_lengths)
  have n: "nextLine 0 50 4 got \<in> {50, 52, 53}" if "got = 51" using that by (simp add: nextLine_def)
  have no: "contains (BossLines ! nat x) NamePlaceholder \<Longrightarrow> 0 \<le> x \<Longrightarrow> x < 54 \<Longrightarrow> x = 51" for x :: int
    using placeholder_line [of "nat x"] by (cases "nat x = 51") auto
  have "0 \<le> BossSays st grin tick mine \<and> BossSays st grin tick mine < 54 \<and>
      (contains (BossLines ! nat (BossSays st grin tick mine)) NamePlaceholder \<longrightarrow> st = BossLost \<and> mine)"
  proof (cases "st = BossLost")
    case False
    then show ?thesis using BossSays_other [OF False, of grin tick mine] no [of "BossSays st grin tick mine"] by auto
  next
    case True
    show ?thesis
    proof (cases "\<not> mine \<and> contains (BossLines ! nat got) NamePlaceholder")
      case True
      then have "got = 51" using no [of got] g by auto
      moreover have e: "BossSays st grin tick mine = nextLine 0 50 4 got"
        using True unfolding \<open>st = BossLost\<close> BossSays_lost Let_def got_def by presburger
      ultimately have "BossSays st grin tick mine \<in> {50, 52, 53}" using n by simp
      then show ?thesis using no [of "BossSays st grin tick mine"] by auto
    next
      case False
      then have e: "BossSays st grin tick mine = got"
        unfolding \<open>st = BossLost\<close> BossSays_lost Let_def got_def by presburger
      show ?thesis unfolding e using g False \<open>st = BossLost\<close> by auto
    qed
  qed
  then show "0 \<le> BossSays st grin tick mine \<and> BossSays st grin tick mine < 54"
    and "contains (BossLines ! nat (BossSays st grin tick mine)) NamePlaceholder \<Longrightarrow> st = BossLost \<and> mine" by auto
qed

text \<open>
  Every index put on the wire names a line of its pool, at every tick and in every state. A player
  never introduces himself as a colleague: of the introductions he only shows his own. And the
  boss's line with a name to fill in reaches nobody but the player who vanished.
\<close>

theorem balloons_name_a_line_of_their_pool:
  "0 \<le> PlayerLine p persona tick \<and> PlayerLine p persona tick < int (length PlayerLines) \<and>
   (26 \<le> PlayerLine p persona tick \<longrightarrow> PlayerLine p persona tick = 25 + persona \<and>
      PlayerLines ! nat (PlayerLine p persona tick) = personaIntros ! nat (persona - 1)) \<and>
   0 \<le> BossSays st grin tick mine \<and> BossSays st grin tick mine < int (length BossLines) \<and>
   (contains (BossLines ! nat (BossSays st grin tick mine)) NamePlaceholder \<longrightarrow> mine \<and> st = BossLost) \<and>
   0 \<le> ClaudeSays tick \<and> ClaudeSays tick < int (length ClaudeLines) \<and>
   0 \<le> NPCSays kind tick \<and> NPCSays kind tick < 6 \<and>
   PlayerLines ! nat RedirectLine = redirectLines ! 0 \<and> PlayerLines ! nat RouterLine = routerLines ! 0"
proof -
  have i: "IntroLineFor persona = (if persona \<le> 0 \<or> persona > 3 then 0 else 25 + persona)"
    by (simp add: say_defs pool_lengths)
  have h: "PlayerLines ! nat (25 + q) = personaIntros ! nat (q - 1)" if "1 \<le> q" "q \<le> 3" for q
  proof -
    have "q = 1 \<or> q = 2 \<or> q = 3" using that by linarith
    then show ?thesis by (auto simp: PlayerLines_def nth_append pool_lengths)
  qed
  have p: "0 \<le> PlayerLine p persona tick \<and> PlayerLine p persona tick < 30 \<and>
      (26 \<le> PlayerLine p persona tick \<longrightarrow> PlayerLine p persona tick = 25 + persona \<and> 1 \<le> persona \<and> persona \<le> 3)"
    using PlayerLine_range [of p persona tick] i by (auto split: if_splits)
  have c: "0 \<le> ClaudeSays tick \<and> ClaudeSays tick < 12"
    using pickLine_range [of ClaudeLines 40 0 0 tick] by (auto simp: ClaudeSays_def introLine_def ClaudeSlot_def pool_lengths)
  have "contains (BossLines ! nat (BossSays st grin tick mine)) NamePlaceholder \<longrightarrow> mine \<and> st = BossLost"
    using BossSays_named by blast
  moreover have "PlayerLines ! nat RedirectLine = redirectLines ! 0 \<and> PlayerLines ! nat RouterLine = routerLines ! 0"
    by (simp add: pool_lengths RedirectLine_def RouterLine_def PlayerLines_def nth_append)
  ultimately show ?thesis using p c h [of persona] BossSays_range [of st grin tick mine] NPCSays_range [of kind tick]
    unfolding pool_sizes pool_lengths by auto
qed

theorem balloons_name_a_line_of_their_pool_witness:
  "PlayerLine (NewPlayerAt \<lparr>vx = 1, vy = 1\<rparr>) 2 0 < int (length PlayerLines) \<and>
   (BossSays BossLost 0 0 False < int (length BossLines) \<and>
    \<not> contains (BossLines ! nat (BossSays BossLost 0 0 False)) NamePlaceholder)"
  using balloons_name_a_line_of_their_pool [of "NewPlayerAt \<lparr>vx = 1, vy = 1\<rparr>" 2 0 BossLost 0 False 0] by blast

section \<open>Repeats\<close>

lemma pickLine_at_slot:
  assumes "length run \<noteq> 0" and "0 < k" and "0 < s"
  shows "pickLine intro base run (s * k) k =
    (if lineIn intro base (length run) s = lineIn intro base (length run) (s - 1)
     then nextLine intro base (length run) (lineIn intro base (length run) s) else lineIn intro base (length run) s)"
  using assms by (simp add: pickLine_def Let_def)

text \<open>The hash, on the slots the boss speaks in between ten and sixteen seconds.\<close>

lemma frozen_slots: "lineIn 0 0 9 4 = 8" "lineIn 0 0 9 5 = 8" "lineIn 0 0 9 6 = 8" "lineIn 0 0 9 7 = 0"
  by (simp_all add: lineIn_def slotHash_def introSalt_def runSalt_def IntroEvery_def Let_def)


text \<open>
  A line is held for the whole of its slot, and the next slot shows another one, unless the line
  shown was itself a replacement for a repeat: the guard compares with the previous slot's own pick,
  not with what was shown there. So a figure can keep the same line over several slots; the boss
  says his introduction for six seconds running between the tenth and the sixteenth.
\<close>

theorem balloon_holds_and_can_freeze:
  assumes "1 < length run" and "0 < k"
  shows "(i < k \<longrightarrow> pickLine intro base run (s * k + i) k = pickLine intro base run (s * k) k) \<and>
    (0 < s \<longrightarrow> (s = 1 \<or> lineIn intro base (length run) (s - 1) \<noteq> lineIn intro base (length run) (s - 2)) \<longrightarrow>
       pickLine intro base run (s * k) k \<noteq> pickLine intro base run ((s - 1) * k) k) \<and>
    (\<forall>t \<in> {200 ..< 320}. BossSays BossIdle 0 t mine = 0)"
proof -
  have ne: "length run \<noteq> 0" using assms by auto
  have 1: "pickLine intro base run (s * k + i) k = pickLine intro base run (s * k) k" if "i < k"
  proof -
    have "(s * k + i) div k = s * k div k" using that by (simp add: div_add1_eq)
    then show ?thesis unfolding pickLine_def by presburger
  qed
  have raw: "pickLine intro base run ((s - 1) * k) k = lineIn intro base (length run) (s - 1)"
    if "s = 1 \<or> lineIn intro base (length run) (s - 1) \<noteq> lineIn intro base (length run) (s - 2)" "0 < s"
    using that assms ne pickLine_at_slot [OF ne assms(2), of "s - 1" intro base]
    by (cases "s = 1") (auto simp: pickLine_def Let_def diff_diff_eq numeral_2_eq_2)
  have 2: "pickLine intro base run (s * k) k \<noteq> pickLine intro base run ((s - 1) * k) k"
    if "s = 1 \<or> lineIn intro base (length run) (s - 1) \<noteq> lineIn intro base (length run) (s - 2)" "0 < s"
    using raw [OF that] pickLine_at_slot [OF ne assms(2) that(2), of intro base] nextLine_differs [OF assms(1)] by auto
  have 3: "BossSays BossIdle 0 t mine = 0" if "t \<in> {200 ..< 320}" for t
  proof -
    have "\<not> fl BossQuiet \<le> 0" using fl_pos [of BossQuiet] by (simp add: BossQuiet_def)
    then have b: "BossSays BossIdle 0 t mine = pickLine 0 0 bossFar t 40"
      by (simp add: BossSays_def BossLine_def introLine_def BossSlot_def)
    have "5 \<le> t div 40" "t div 40 \<le> 7" using that by auto
    then have "t div 40 = 5 \<or> t div 40 = 6 \<or> t div 40 = 7" by linarith
    then show ?thesis unfolding b pickLine_def using frozen_slots by (auto simp: pool_lengths nextLine_def)
  qed
  show ?thesis using 1 2 3 by (intro conjI impI ballI) simp_all
qed

theorem balloon_holds_and_can_freeze_witness:
  "pickLine 0 0 bossFar (3 * 40) 40 \<noteq> pickLine 0 0 bossFar (2 * 40) 40"
  using balloon_holds_and_can_freeze [of bossFar 40 0 0 0 3 True]
  by (simp add: pool_lengths lineIn_def slotHash_def introSalt_def runSalt_def IntroEvery_def Let_def)

end
