(* ===== verification/FintechOffice.thy ===== *)
theory FintechOffice
  imports FintechMen FintechLines "HOL-Library.AList" "HOL-Library.List_Lexorder" "HOL-Library.Char_ord"
    "HOL-Library.Signed_Division"
begin

text \<open>
  The office of \<^verbatim>\<open>internal/gamefintech/office.go\<close>: one shared world with a slot per account.
  The map of occupants is an association list; nothing in the code depends on the order of a Go map
  (a value is only ever built over the sorted keys), so the loops whose body touches one occupant
  alone are maps over it. Every operation runs under the office's mutex and is one function here.
  \<^verbatim>\<open>unitRand\<close> draws from \<^verbatim>\<open>crypto/rand\<close>: the numbers it yields are a stream \<open>u\<close> read from a
  position, and an operation that draws returns the position it got to. Instants are nanoseconds.
\<close>

section \<open>Constants\<close>

definition SimHz :: nat where "SimHz = 20"
definition SimStep :: int where "SimStep = 1000000000 div int SimHz"
definition SnapshotEvery :: nat where "SnapshotEvery = 1"
definition RenderDelayPeriods :: rat where "RenderDelayPeriods = 15 / 10"
definition RenderDelaySeconds :: rat where
  "RenderDelaySeconds = RenderDelayPeriods / of_nat (SimHz div SnapshotEvery)"
definition CatchRewindMax :: rat where "CatchRewindMax = 3 / 10"
definition MaxCommandsPerFrame :: nat where "MaxCommandsPerFrame = 4"
definition RedundantCommands :: nat where "RedundantCommands = 6"
definition MaxInboundCommands :: nat where "MaxInboundCommands = MaxCommandsPerFrame + RedundantCommands"
definition TimeBudgetCap :: rat where "TimeBudgetCap = 5 / 10"
definition MaxOccupants :: nat where "MaxOccupants = 3"
definition AbandonGrace :: int where "AbandonGrace = 90 * 1000000000"
definition MinShiftSeconds :: rat where "MinShiftSeconds = 3"

definition CausePromoted :: string where "CausePromoted = ''promoted''"
definition CauseLeft :: string where "CauseLeft = ''left''"
definition CauseRenovated :: string where "CauseRenovated = ''renovated''"
definition AllCauses :: "string list" where "AllCauses = [CausePromoted, CauseLeft, CauseRenovated]"

definition RedirectSeconds :: rat where "RedirectSeconds = 6"
definition RedirectCooldown :: rat where "RedirectCooldown = 8"
definition RedirectSaySeconds :: rat where "RedirectSaySeconds = 3"
definition PropsPerPlayer :: nat where "PropsPerPlayer = 1"
definition RouterSeconds :: rat where "RouterSeconds = 12"
definition RouterCooldown :: rat where "RouterCooldown = 30"
definition RouterSaySeconds :: rat where "RouterSaySeconds = 3"
definition BottleReach :: rat where "BottleReach = 9 / 10"
definition DrunkSeconds :: rat where "DrunkSeconds = 8"
definition BottleReturn :: rat where "BottleReturn = 10"
definition HookahReach :: rat where "HookahReach = 9 / 10"
definition InvincibleSeconds :: rat where "InvincibleSeconds = 10"
definition HookahReturn :: rat where "HookahReturn = 20"
definition SlowSeconds :: rat where "SlowSeconds = 4"

definition trailLen :: nat where "trailLen = nat \<lfloor>CatchRewindMax * of_nat SimHz\<rfloor> + 2"
definition maxPending :: nat where "maxPending = 4 * MaxInboundCommands"
definition spawnTries :: nat where "spawnTries = 64"
definition spawnFromEachOther :: rat where "spawnFromEachOther = 15 / 10"
definition spawnHeadStart :: rat where "spawnHeadStart = MinShiftSeconds + 5 / 10"
definition spawnFromBoss :: rat where "spawnFromBoss = spawnHeadStart * BossSpeed + CatchRadius + PlayerRadius"

lemmas office_numbers = SimHz_def SimStep_def SnapshotEvery_def RenderDelayPeriods_def RenderDelaySeconds_def
  CatchRewindMax_def MaxCommandsPerFrame_def RedundantCommands_def MaxInboundCommands_def TimeBudgetCap_def
  MaxOccupants_def AbandonGrace_def MinShiftSeconds_def RedirectSeconds_def RedirectCooldown_def
  RedirectSaySeconds_def PropsPerPlayer_def RouterSeconds_def RouterCooldown_def RouterSaySeconds_def
  BottleReach_def DrunkSeconds_def BottleReturn_def HookahReach_def InvincibleSeconds_def HookahReturn_def
  SlowSeconds_def trailLen_def maxPending_def spawnTries_def

text \<open>\<^verbatim>\<open>Duration.Seconds\<close>: whole seconds and the rest, divided as doubles and added.\<close>

definition duration_seconds :: "int \<Rightarrow> f64" where
  "duration_seconds d = fadd (fl (of_int (d sdiv 1000000000))) (fdiv (of_int (d smod 1000000000)) 1000000000)"

definition SimStepSeconds :: f64 where "SimStepSeconds = duration_seconds SimStep"

datatype office_error = ErrShiftInProgress | ErrNoShift | ErrNoLayout | ErrOfficeFull

section \<open>The state\<close>

record trail_point =
  tp_boss :: vec2
  tp_claude :: vec2

record occupant =
  oc_account :: string
  oc_shift :: string
  oc_pseudonym :: string
  oc_invincible :: f64
  oc_persona :: int
  oc_avatar :: string
  oc_state :: player
  oc_pending :: "command list"
  oc_last_seq :: int
  oc_high_seq :: int
  oc_rtt :: f64
  oc_budget :: f64
  oc_started :: int
  oc_seen :: int
  oc_line :: int
  oc_redirect_cool :: f64
  oc_announce :: f64
  oc_ended :: bool
  oc_cause :: string
  oc_start_tick :: nat

record office_prop =
  pr_spot :: int
  pr_gone :: f64

record office =
  of_occupants :: "(string \<times> occupant) list"
  of_boss :: boss
  of_tick :: nat
  of_plan :: plan
  of_redirect_to :: string
  of_redirect_left :: f64
  of_hookahs :: "office_prop list"
  of_claude :: chaser
  of_trail :: "trail_point list"
  of_npcs :: "npc list"
  of_lost_target :: bool
  of_router_away :: f64
  of_router_cool :: f64
  of_bottles :: "office_prop list"

record input =
  in_seen :: nat
  in_cmds :: "command list"

definition Elapsed :: "occupant \<Rightarrow> int \<Rightarrow> f64" where
  "Elapsed oc now = (let d = duration_seconds (now - oc_started oc) in if d < 0 then 0 else d)"

definition zero_vec :: vec2 where "zero_vec = \<lparr>vx = 0, vy = 0\<rparr>"

definition NewOffice :: "plan \<Rightarrow> office" where
  "NewOffice p =
     \<lparr>of_occupants = [], of_boss = NewBoss, of_tick = 0, of_plan = p, of_redirect_to = '''', of_redirect_left = 0,
      of_hookahs = [\<lparr>pr_spot = 0, pr_gone = 0\<rparr>], of_claude = NewChaser,
      of_trail = (replicate trailLen \<lparr>tp_boss = zero_vec, tp_claude = zero_vec\<rparr>)
        [0 := \<lparr>tp_boss = b_pos NewBoss, tp_claude = ch_pos NewChaser\<rparr>],
      of_npcs = NewNPCs, of_lost_target = False, of_router_away = 0, of_router_cool = 0,
      of_bottles = [\<lparr>pr_spot = 0, pr_gone = 0\<rparr>]\<rparr>"

definition lookup_occ :: "string \<Rightarrow> office \<Rightarrow> occupant option" where
  "lookup_occ k w = map_of (of_occupants w) k"

definition set_occ :: "string \<Rightarrow> occupant \<Rightarrow> office \<Rightarrow> office" where
  "set_occ k oc w = w\<lparr>of_occupants := AList.update k oc (of_occupants w)\<rparr>"

definition map_occ :: "(occupant \<Rightarrow> occupant) \<Rightarrow> office \<Rightarrow> office" where
  "map_occ f w = w\<lparr>of_occupants := map (\<lambda>(k, oc). (k, f oc)) (of_occupants w)\<rparr>"

definition keys :: "office \<Rightarrow> string list" where
  "keys w = sort (map fst (of_occupants w))"

definition in_order :: "office \<Rightarrow> (string \<times> occupant) list" where
  "in_order w = map (\<lambda>k. (k, the (lookup_occ k w))) (keys w)"

section \<open>Joining\<close>

text \<open>What \<^verbatim>\<open>rand.Int\<close> answers, \<open>None\<close> for its error, and the number made of it.\<close>

definition unitRand :: "int option \<Rightarrow> f64" where
  "unitRand r = (case r of None \<Rightarrow> 5 / 10 | Some n \<Rightarrow> fdiv (of_int n) 1000)"

definition draw_point :: "(nat \<Rightarrow> f64) \<Rightarrow> nat \<Rightarrow> vec2" where
  "draw_point u i =
     \<lparr>vx = fadd (fl PlayerRadius) (fmul (u i) (fl (OfficeW - 2 * PlayerRadius))),
      vy = fadd (fl PlayerRadius) (fmul (u (i + 1)) (fl (OfficeH - 2 * PlayerRadius)))\<rparr>"

definition spawn_free :: "office \<Rightarrow> vec2 \<Rightarrow> bool" where
  "spawn_free w q \<longleftrightarrow>
     \<not> list_ex (\<lambda>d. insideRect d q (fl PlayerRadius)) (p_rects (of_plan w)) \<and>
     \<not> list_ex (\<lambda>(k, oc). between (p_pos (oc_state oc)) q < spawnFromEachOther) (of_occupants w)"

fun spawn_draw :: "nat \<Rightarrow> office \<Rightarrow> (nat \<Rightarrow> f64) \<Rightarrow> nat \<Rightarrow> vec2 \<Rightarrow> f64 \<Rightarrow> vec2 \<times> nat" where
  "spawn_draw 0 w u i best bestGap = (if bestGap \<ge> 0 then best else PlayerSpawn, i)"
| "spawn_draw (Suc k) w u i best bestGap =
     (let q = draw_point u i in
      if \<not> spawn_free w q then spawn_draw k w u (i + 2) best bestGap
      else let gap = between (b_pos (of_boss w)) q in
        if gap \<ge> fl spawnFromBoss then (q, i + 2)
        else if gap > bestGap then spawn_draw k w u (i + 2) q gap
        else spawn_draw k w u (i + 2) best bestGap)"

definition spawnPoint :: "office \<Rightarrow> (nat \<Rightarrow> f64) \<Rightarrow> nat \<Rightarrow> vec2 \<times> nat" where
  "spawnPoint w u i = spawn_draw spawnTries w u i zero_vec (- 1)"

definition new_occupant :: "string \<Rightarrow> string \<Rightarrow> string \<Rightarrow> string \<Rightarrow> int \<Rightarrow> vec2 \<Rightarrow> int \<Rightarrow> nat \<Rightarrow> occupant" where
  "new_occupant acc shift pseudonym avatar persona p now tick =
     \<lparr>oc_account = acc, oc_shift = shift, oc_pseudonym = pseudonym, oc_invincible = 0, oc_persona = persona,
      oc_avatar = avatar, oc_state = NewPlayerAt p, oc_pending = [], oc_last_seq = 0, oc_high_seq = 0, oc_rtt = 0,
      oc_budget = 0, oc_started = now, oc_seen = now, oc_line = 0, oc_redirect_cool = 0, oc_announce = 0,
      oc_ended = False, oc_cause = '''', oc_start_tick = tick\<rparr>"

definition Join :: "string \<Rightarrow> string \<Rightarrow> string \<Rightarrow> string \<Rightarrow> int \<Rightarrow> int \<Rightarrow> (nat \<Rightarrow> f64) \<Rightarrow> nat \<Rightarrow> office
    \<Rightarrow> office_error + office \<times> nat" where
  "Join acc shift pseudonym avatar persona now u i w =
     (if lookup_occ acc w \<noteq> None then Inl ErrShiftInProgress
      else if length (of_occupants w) \<ge> MaxOccupants then Inl ErrOfficeFull
      else case spawnPoint w u i of (p, i') \<Rightarrow>
        Inr (set_occ acc (new_occupant acc shift pseudonym avatar persona p now (of_tick w)) w, i'))"

section \<open>Leaving\<close>

definition end_shift :: "string \<Rightarrow> occupant \<Rightarrow> occupant" where
  "end_shift cause oc = oc\<lparr>oc_ended := True, oc_cause := cause, oc_state := (oc_state oc)\<lparr>p_alive := False\<rparr>\<rparr>"

definition del_occ :: "string \<Rightarrow> office \<Rightarrow> office" where
  "del_occ k w = w\<lparr>of_occupants := AList.delete k (of_occupants w)\<rparr>"

definition Leave :: "string \<Rightarrow> office \<Rightarrow> occupant option \<times> office" where
  "Leave acc w =
     (case lookup_occ acc w of None \<Rightarrow> (None, w) | Some oc \<Rightarrow> (Some (end_shift CauseLeft oc), del_occ acc w))"

definition EvictAll :: "office \<Rightarrow> occupant list \<times> office" where
  "EvictAll w = (map (\<lambda>(k, oc). end_shift CauseRenovated oc) (in_order w), fold del_occ (keys w) w)"

definition Seen :: "string \<Rightarrow> int \<Rightarrow> office \<Rightarrow> office" where
  "Seen acc now w = (case lookup_occ acc w of None \<Rightarrow> w | Some oc \<Rightarrow> set_occ acc (oc\<lparr>oc_seen := now\<rparr>) w)"

section \<open>Input\<close>

definition note_rtt :: "nat \<Rightarrow> nat \<Rightarrow> occupant \<Rightarrow> occupant" where
  "note_rtt tick seen oc =
     (if 0 < seen \<and> seen \<le> tick then
        let sample = fmul (fl (of_nat (tick - seen))) SimStepSeconds;
            sample = (if sample > fl CatchRewindMax then fl CatchRewindMax else sample) in
        oc\<lparr>oc_rtt := (if oc_rtt oc = 0 then sample else fdiv (fadd (fmul (oc_rtt oc) 3) sample) 4)\<rparr>
      else oc)"

fun accept :: "command list \<Rightarrow> occupant \<Rightarrow> occupant" where
  "accept [] oc = oc"
| "accept (c # cs) oc =
     accept cs (if c_seq c \<le> oc_high_seq oc then oc
                else oc\<lparr>oc_high_seq := c_seq c, oc_pending := oc_pending oc @ [Sanitise c]\<rparr>)"

definition trim_pending :: "occupant \<Rightarrow> occupant" where
  "trim_pending oc =
     (if length (oc_pending oc) > maxPending
      then oc\<lparr>oc_pending := drop (length (oc_pending oc) - maxPending) (oc_pending oc)\<rparr> else oc)"

definition Enqueue :: "string \<Rightarrow> input \<Rightarrow> int \<Rightarrow> office \<Rightarrow> office" where
  "Enqueue acc inp now w =
     (case lookup_occ acc w of
        None \<Rightarrow> w
      | Some oc \<Rightarrow>
          if oc_ended oc then w
          else let oc = note_rtt (of_tick w) (in_seen inp) (oc\<lparr>oc_seen := now\<rparr>) in
            set_occ acc (if in_cmds inp = [] then oc else trim_pending (accept (in_cmds inp) oc)) w)"

end
