(* ===== verification/FintechTick.thy ===== *)
theory FintechTick
  imports FintechOffice
begin

text \<open>
  One tick of the office, \<^verbatim>\<open>Advance\<close> of \<^verbatim>\<open>internal/gamefintech/office.go\<close>, in the order the code
  has: everybody's commands within the time budget, the target list, the redirect, the timers, the
  router, the props, the two men, the two amblers, the trail, and who is slowed or ended. Then the
  verbs and the questions the service asks.
\<close>

section \<open>Commands and the time budget\<close>

fun drain :: "rect list \<Rightarrow> command list \<Rightarrow> occupant \<Rightarrow> f64 \<Rightarrow> occupant \<times> f64" where
  "drain rects [] oc spent = (oc\<lparr>oc_pending := []\<rparr>, spent)"
| "drain rects (c # cs) oc spent =
     (if c_dt c \<le> oc_budget oc
      then drain rects cs
        (oc\<lparr>oc_budget := fsub (oc_budget oc) (c_dt c), oc_state := step_player rects (oc_state oc) c,
            oc_last_seq := c_seq c\<rparr>) (fadd spent (c_dt c))
      else (oc\<lparr>oc_pending := c # cs\<rparr>, spent))"

definition idle_command :: "f64 \<Rightarrow> command" where
  "idle_command dt = \<lparr>c_seq = 0, c_dt = dt, c_mx = 0, c_my = 0, c_dash = False\<rparr>"

definition accrue :: "f64 \<Rightarrow> occupant \<Rightarrow> occupant" where
  "accrue dt oc = oc\<lparr>oc_budget := min (fadd (oc_budget oc) dt) (fl TimeBudgetCap)\<rparr>"

definition step_occupant :: "rect list \<Rightarrow> f64 \<Rightarrow> occupant \<Rightarrow> occupant" where
  "step_occupant rects dt oc =
     (case drain rects (oc_pending oc) (accrue dt oc) 0 of (oc, spent) \<Rightarrow>
        let idle = fsub dt spent in
        if idle > 0 \<and> spent = 0 \<and> oc_pending oc = []
        then oc\<lparr>oc_state := step_player rects (oc_state oc) (idle_command idle),
                oc_budget := max 0 (fsub (oc_budget oc) idle)\<rparr>
        else oc)"

section \<open>Whom the men walk at\<close>

definition on_feet :: "office \<Rightarrow> (string \<times> occupant) list" where
  "on_feet w = filter (\<lambda>(k, oc). p_alive (oc_state oc)) (in_order w)"

definition bodies_of :: "office \<Rightarrow> vec2 list" where
  "bodies_of w = map (\<lambda>(k, oc). p_pos (oc_state oc)) (on_feet w)"

definition targets_of :: "office \<Rightarrow> vec2 list" where
  "targets_of w = map (\<lambda>(k, oc). p_pos (oc_state oc)) (filter (\<lambda>(k, oc). \<not> oc_invincible oc > 0) (on_feet w))"

definition step_redirect :: "f64 \<Rightarrow> vec2 list \<Rightarrow> office \<Rightarrow> vec2 list \<times> office" where
  "step_redirect dt targets w =
     (if of_redirect_left w > 0 then
        let left = fsub (of_redirect_left w) dt;
            stop = (targets, w\<lparr>of_redirect_to := '''', of_redirect_left := 0\<rparr>) in
        case lookup_occ (of_redirect_to w) w of
          None \<Rightarrow> stop
        | Some oc \<Rightarrow>
            if p_alive (oc_state oc) \<and> left > 0 then ([p_pos (oc_state oc)], w\<lparr>of_redirect_left := left\<rparr>) else stop
      else (targets, w))"

section \<open>Timers\<close>

definition count_down :: "f64 \<Rightarrow> f64 \<Rightarrow> f64" where
  "count_down dt v = (if v > 0 then max 0 (fsub v dt) else v)"

definition step_timers :: "f64 \<Rightarrow> occupant \<Rightarrow> occupant" where
  "step_timers dt oc = oc\<lparr>oc_redirect_cool := count_down dt (oc_redirect_cool oc),
     oc_announce := count_down dt (oc_announce oc), oc_invincible := count_down dt (oc_invincible oc)\<rparr>"

definition step_router :: "f64 \<Rightarrow> office \<Rightarrow> office" where
  "step_router dt w =
     (let w = w\<lparr>of_router_cool := count_down dt (of_router_cool w)\<rparr> in
      if of_router_away w > 0 then
        let w = w\<lparr>of_router_away := max 0 (fsub (of_router_away w) dt)\<rparr> in
        if of_router_away w = 0 then w\<lparr>of_claude := NewChaser\<rparr> else w
      else w)"

section \<open>Bottles and kalyans\<close>

definition drawSpot :: "vec2 list \<Rightarrow> office_prop list \<Rightarrow> int \<Rightarrow> (nat \<Rightarrow> f64) \<Rightarrow> nat \<Rightarrow> int \<times> nat" where
  "drawSpot spots siblings avoid u i =
     (let n = int (length spots) in
      if n = 0 then (0, i)
      else let used = map pr_spot (filter (\<lambda>p. pr_spot p \<noteq> avoid) siblings);
               free = filter (\<lambda>j. j \<notin> set used \<and> j \<noteq> avoid) [0 .. n - 1];
               free = (if free = [] then filter (\<lambda>j. j \<notin> set used) [0 .. n - 1] else free) in
        if free = [] then (clampInt avoid 0 (n - 1), i)
        else (free ! nat (ftrunc (fmul (u i) (of_nat (length free))) mod int (length free)), i + 1))"

primrec grow_props :: "nat \<Rightarrow> vec2 list \<Rightarrow> (nat \<Rightarrow> f64) \<Rightarrow> office_prop list \<Rightarrow> nat \<Rightarrow> office_prop list \<times> nat" where
  "grow_props 0 spots u props i = (props, i)"
| "grow_props (Suc k) spots u props i =
     (case drawSpot spots props (- 1) u i of (s, i') \<Rightarrow> grow_props k spots u (props @ [\<lparr>pr_spot = s, pr_gone = 0\<rparr>]) i')"

fun drop_gone :: "office_prop list \<Rightarrow> office_prop list option" where
  "drop_gone [] = None"
| "drop_gone (p # ps) = (if pr_gone p > 0 then Some ps else map_option (Cons p) (drop_gone ps))"

primrec shrink_props :: "nat \<Rightarrow> office_prop list \<Rightarrow> office_prop list" where
  "shrink_props 0 props = props"
| "shrink_props (Suc k) props = (case drop_gone props of None \<Rightarrow> props | Some ps \<Rightarrow> shrink_props k ps)"

definition reconcileProps :: "vec2 list \<Rightarrow> nat \<Rightarrow> (nat \<Rightarrow> f64) \<Rightarrow> office_prop list \<Rightarrow> nat \<Rightarrow> office_prop list \<times> nat" where
  "reconcileProps spots want u props i =
     (let want = (if want > length spots then length spots else want) in
      case grow_props (want - length props) spots u props i of
        (props, i) \<Rightarrow> (shrink_props (length props - want) props, i))"

text \<open>\<^verbatim>\<open>stepProp\<close>: the prop, who took it, and the position in the draws.\<close>

definition stepProp :: "vec2 list \<Rightarrow> office_prop list \<Rightarrow> f64 \<Rightarrow> f64 \<Rightarrow> f64 \<Rightarrow> (string \<times> occupant) list \<Rightarrow> (nat \<Rightarrow> f64)
    \<Rightarrow> office_prop \<Rightarrow> nat \<Rightarrow> office_prop \<times> string option \<times> nat" where
  "stepProp spots siblings back reach dt feet u p i =
     (if pr_gone p > 0 then
        let p' = p\<lparr>pr_gone := max 0 (fsub (pr_gone p) dt)\<rparr> in
        if pr_gone p' = 0 then
          case drawSpot spots siblings (pr_spot p) u i of (s, i') \<Rightarrow> (p'\<lparr>pr_spot := s\<rparr>, None, i')
        else (p', None, i)
      else let spot = spots ! nat (clampInt (pr_spot p) 0 (int (length spots) - 1)) in
        case List.find (\<lambda>(k, oc). between (p_pos (oc_state oc)) spot \<le> fadd reach (fl PlayerRadius)) feet of
          None \<Rightarrow> (p, None, i)
        | Some (k, oc) \<Rightarrow> (p\<lparr>pr_gone := back\<rparr>, Some k, i))"

text \<open>
  The loop over the slots. A slot that comes back is drawn against its siblings as they stand: those
  before it have already been stepped, and it has already been counted down itself.
\<close>

fun step_props :: "nat list \<Rightarrow> vec2 list \<Rightarrow> f64 \<Rightarrow> f64 \<Rightarrow> f64 \<Rightarrow> (string \<times> occupant) list \<Rightarrow> (nat \<Rightarrow> f64)
    \<Rightarrow> office_prop list \<Rightarrow> nat \<Rightarrow> office_prop list \<times> string list \<times> nat" where
  "step_props [] spots back reach dt feet u props i = (props, [], i)"
| "step_props (j # js) spots back reach dt feet u props i =
     (case stepProp spots props back reach dt feet u (props ! j) i of (p, taker, i) \<Rightarrow>
        case step_props js spots back reach dt feet u (props[j := p]) i of (props, takers, i) \<Rightarrow>
          (props, (case taker of None \<Rightarrow> takers | Some k \<Rightarrow> k # takers), i))"

definition step_bottles :: "f64 \<Rightarrow> (nat \<Rightarrow> f64) \<Rightarrow> office \<Rightarrow> nat \<Rightarrow> office \<times> nat" where
  "step_bottles dt u w i =
     (case step_props [0 ..< length (of_bottles w)] BottleSpots BottleReturn (fl BottleReach) dt (on_feet w) u (of_bottles w) i of
        (props, takers, i) \<Rightarrow>
          (w\<lparr>of_bottles := props,
             of_boss := (if takers = [] then of_boss w else (of_boss w)\<lparr>b_drunk := DrunkSeconds\<rparr>)\<rparr>, i))"

definition smoke :: "string list \<Rightarrow> office \<Rightarrow> office" where
  "smoke takers w = w\<lparr>of_occupants :=
     map (\<lambda>(k, oc). (k, if k \<in> set takers then oc\<lparr>oc_invincible := InvincibleSeconds\<rparr> else oc)) (of_occupants w)\<rparr>"

definition step_hookahs :: "f64 \<Rightarrow> (nat \<Rightarrow> f64) \<Rightarrow> office \<Rightarrow> nat \<Rightarrow> office \<times> nat" where
  "step_hookahs dt u w i =
     (case step_props [0 ..< length (of_hookahs w)] HookahSpots HookahReturn (fl HookahReach) dt (on_feet w) u (of_hookahs w) i of
        (props, takers, i) \<Rightarrow> (smoke takers (w\<lparr>of_hookahs := props\<rparr>), i))"

definition step_office_props :: "f64 \<Rightarrow> (nat \<Rightarrow> f64) \<Rightarrow> office \<Rightarrow> nat \<Rightarrow> office \<times> nat" where
  "step_office_props dt u w i =
     (let want = length (on_feet w) * PropsPerPlayer; want = (if want < 1 then 1 else want) in
      case reconcileProps BottleSpots want u (of_bottles w) i of (bottles, i) \<Rightarrow>
      case reconcileProps HookahSpots want u (of_hookahs w) i of (hookahs, i) \<Rightarrow>
      case step_bottles dt u (w\<lparr>of_bottles := bottles, of_hookahs := hookahs\<rparr>) i of (w, i) \<Rightarrow>
        step_hookahs dt u w i)"

section \<open>The men\<close>

fun step_npcs :: "rect list \<Rightarrow> (nat \<Rightarrow> f64) \<Rightarrow> f64 \<Rightarrow> npc list \<Rightarrow> nat \<Rightarrow> npc list \<times> nat" where
  "step_npcs rects u dt [] i = ([], i)"
| "step_npcs rects u dt (n # ns) i =
     (case StepNPC rects u i n dt of (n', i) \<Rightarrow> case step_npcs rects u dt ns i of (ns', i) \<Rightarrow> (n' # ns', i))"

definition step_men :: "trig \<Rightarrow> (nat \<Rightarrow> f64) \<Rightarrow> vec2 list \<Rightarrow> vec2 list \<Rightarrow> f64 \<Rightarrow> office \<Rightarrow> nat \<Rightarrow> office \<times> nat" where
  "step_men m u targets bodies dt w i =
     (let elapsed = fmul (fl (of_nat (of_tick w))) SimStepSeconds;
          w = w\<lparr>of_boss := StepBoss m (of_plan w) (of_boss w) targets dt elapsed\<rparr>;
          w = (if of_router_away w \<le> 0
               then w\<lparr>of_claude := Separate (b_pos (of_boss w)) bodies
                        (StepChaser (of_plan w) (of_claude w) targets dt elapsed) (p_rects (of_plan w))\<rparr>
               else w) in
      case step_npcs (p_rects (of_plan w)) u dt (of_npcs w) i of (ns, i) \<Rightarrow> (w\<lparr>of_npcs := ns\<rparr>, i))"

definition record_trail :: "office \<Rightarrow> office" where
  "record_trail w = w\<lparr>of_trail := (of_trail w)
     [of_tick w mod trailLen := \<lparr>tp_boss = b_pos (of_boss w), tp_claude = ch_pos (of_claude w)\<rparr>]\<rparr>"

definition rewind_ticks :: "office \<Rightarrow> occupant \<Rightarrow> nat" where
  "rewind_ticks w oc =
     (let rewind = fadd (oc_rtt oc) (fl RenderDelaySeconds);
          rewind = (if rewind > fl CatchRewindMax then fl CatchRewindMax else rewind);
          back = nat (fround (fdiv rewind SimStepSeconds));
          back = (if back \<ge> trailLen then trailLen - 1 else back) in
      if back > of_tick w then of_tick w else back)"

definition seenBy :: "office \<Rightarrow> occupant \<Rightarrow> trail_point" where
  "seenBy w oc = of_trail w ! ((of_tick w - rewind_ticks w oc) mod trailLen)"

definition land :: "office \<Rightarrow> occupant \<Rightarrow> occupant" where
  "land w oc =
     (if \<not> p_alive (oc_state oc) \<or> oc_invincible oc > 0 then oc
      else if Landed (tp_claude (seenBy w oc)) (p_pos (oc_state oc))
      then oc\<lparr>oc_state := (oc_state oc)\<lparr>p_slow_left := SlowSeconds\<rparr>\<rparr> else oc)"

definition slow_down :: "office \<Rightarrow> office" where
  "slow_down w = (if of_router_away w \<le> 0 then map_occ (land w) w else w)"

definition outcome :: "int \<Rightarrow> office \<Rightarrow> occupant \<Rightarrow> string option" where
  "outcome now w oc =
     (if oc_invincible oc \<le> 0 \<and> Caught (tp_boss (seenBy w oc)) (p_pos (oc_state oc)) then Some CausePromoted
      else if now - oc_seen oc > AbandonGrace then Some CauseLeft
      else None)"

fun end_each :: "int \<Rightarrow> office \<Rightarrow> string list \<Rightarrow> occupant list \<times> office \<Rightarrow> occupant list \<times> office" where
  "end_each now w0 [] (ended, w) = (ended, w)"
| "end_each now w0 (k # ks) (ended, w) =
     end_each now w0 ks
       (case outcome now w0 (the (lookup_occ k w0)) of
          None \<Rightarrow> (ended, w)
        | Some cause \<Rightarrow> (ended @ [end_shift cause (the (lookup_occ k w0))], del_occ k w))"

section \<open>Advance\<close>

definition Advance :: "trig \<Rightarrow> f64 \<Rightarrow> int \<Rightarrow> (nat \<Rightarrow> f64) \<Rightarrow> nat \<Rightarrow> office \<Rightarrow> occupant list \<times> office \<times> nat" where
  "Advance m dt now u i w =
     (let w = w\<lparr>of_tick := of_tick w + 1\<rparr>;
          w = map_occ (step_occupant (p_rects (of_plan w)) dt) w;
          targets = targets_of w; bodies = bodies_of w;
          w = w\<lparr>of_lost_target := (length (on_feet w) > 0 \<and> targets = [])\<rparr> in
      case step_redirect dt targets w of (targets, w) \<Rightarrow>
      let w = step_router dt (map_occ (step_timers dt) w) in
      case step_office_props dt u w i of (w, i) \<Rightarrow>
      case step_men m u targets bodies dt w i of (w, i) \<Rightarrow>
      let w = slow_down (record_trail w) in
      case end_each now w (keys w) ([], w) of (ended, w) \<Rightarrow> (ended, w, i))"

section \<open>Verbs and questions\<close>

definition Redirect :: "string \<Rightarrow> string \<Rightarrow> office \<Rightarrow> bool \<times> office" where
  "Redirect acc handle w =
     (case lookup_occ acc w of
        None \<Rightarrow> (False, w)
      | Some caller \<Rightarrow>
          if \<not> p_alive (oc_state caller) \<or> oc_redirect_cool caller > 0 then (False, w)
          else case List.find (\<lambda>(k, oc). \<not> (oc_pseudonym oc \<noteq> handle \<or> k = acc \<or> \<not> p_alive (oc_state oc))) (in_order w) of
            None \<Rightarrow> (False, w)
          | Some (k, oc) \<Rightarrow>
              (True, set_occ acc (caller\<lparr>oc_redirect_cool := RedirectCooldown, oc_announce := RedirectSaySeconds,
                       oc_line := RedirectLine\<rparr>) (w\<lparr>of_redirect_to := k, of_redirect_left := RedirectSeconds\<rparr>)))"

definition RouterDown :: "string \<Rightarrow> office \<Rightarrow> bool \<times> office" where
  "RouterDown acc w =
     (case lookup_occ acc w of
        None \<Rightarrow> (False, w)
      | Some caller \<Rightarrow>
          if \<not> p_alive (oc_state caller) then (False, w)
          else if of_router_cool w > 0 \<or> of_router_away w > 0 then (False, w)
          else (True, set_occ acc (caller\<lparr>oc_announce := RouterSaySeconds, oc_line := RouterLine\<rparr>)
                 (w\<lparr>of_router_away := RouterSeconds, of_router_cool := RouterCooldown\<rparr>)))"

definition bossState :: "office \<Rightarrow> boss_state" where
  "bossState w =
     (if b_drunk (of_boss w) > 0 then BossDrunk
      else if of_lost_target w then BossLost
      else if of_redirect_left w > 0 then BossRedirected
      else BossIdle)"

definition propMask :: "office_prop list \<Rightarrow> int" where
  "propMask props = fold (\<lambda>p mask. if pr_gone p \<le> 0 then mask OR push_bit (nat (pr_spot p)) 1 else mask) props 0"

definition AvatarFor :: "string \<Rightarrow> office \<Rightarrow> string option" where
  "AvatarFor handle w =
     map_option (\<lambda>(k, oc). oc_avatar oc) (List.find (\<lambda>(k, oc). oc_pseudonym oc = handle \<and> oc_avatar oc \<noteq> '''') (in_order w))"

definition ShiftOf :: "string \<Rightarrow> office \<Rightarrow> (string \<times> int \<times> nat) option" where
  "ShiftOf acc w = map_option (\<lambda>oc. (oc_shift oc, oc_persona oc, oc_start_tick oc)) (lookup_occ acc w)"

definition Occupants :: "office \<Rightarrow> nat" where "Occupants w = length (of_occupants w)"

definition Empty :: "office \<Rightarrow> bool" where "Empty w \<longleftrightarrow> of_occupants w = []"

definition Tick :: "office \<Rightarrow> nat" where "Tick w = of_tick w"

definition lineFor :: "office \<Rightarrow> occupant \<Rightarrow> int" where
  "lineFor w oc = (if oc_announce oc > 0 then oc_line oc else PlayerLine (oc_state oc) (oc_persona oc) (of_tick w))"

end
