(* ===== verification/FintechOfficeInv.thy ===== *)
theory FintechOfficeInv
  imports FintechTick
begin

text \<open>
  What the office keeps to, whatever is done to it in whatever order: a step relation over all its
  operations, its reachable states and their invariant; the order and the amount of simulation a
  client can buy; who ends a tick and why; where a joiner is put.
\<close>

section \<open>Lookups\<close>

lemma lookup_set_occ: "lookup_occ j (set_occ k oc w) = (if j = k then Some oc else lookup_occ j w)"
  by (simp add: lookup_occ_def set_occ_def map_of_update_alist)

lemma lookup_del_occ: "lookup_occ j (del_occ k w) = (if j = k then None else lookup_occ j w)"
  by (simp add: lookup_occ_def del_occ_def map_of_delete_alist)

lemma lookup_map_occ: "lookup_occ j (map_occ f w) = map_option f (lookup_occ j w)"
  by (simp add: lookup_occ_def map_occ_def map_of_map)

lemmas lookups = lookup_set_occ lookup_del_occ lookup_map_occ

lemma set_keys [simp]: "set (keys w) = fst ` set (of_occupants w)"
  by (simp add: keys_def)

lemma in_order_set: "(k, oc) \<in> set (in_order w) \<longleftrightarrow> lookup_occ k w = Some oc"
proof -
  have "k \<in> set (keys w) \<longleftrightarrow> lookup_occ k w \<noteq> None" by (simp add: lookup_occ_def map_of_eq_None_iff)
  then show ?thesis by (auto simp: in_order_def image_iff)
qed

lemma office_fields [simp]:
  "of_plan (set_occ k oc w) = of_plan w" "of_tick (set_occ k oc w) = of_tick w" "of_trail (set_occ k oc w) = of_trail w"
  "of_plan (del_occ k w) = of_plan w" "of_tick (del_occ k w) = of_tick w" "of_trail (del_occ k w) = of_trail w"
  "of_plan (map_occ f w) = of_plan w" "of_tick (map_occ f w) = of_tick w" "of_trail (map_occ f w) = of_trail w"
  by (simp_all add: set_occ_def del_occ_def map_occ_def)

section \<open>One occupant\<close>

text \<open>Commands of a frame are decoded from JSON: their numbers are doubles.\<close>

definition doubles :: "command \<Rightarrow> bool" where
  "doubles c \<longleftrightarrow> fl (c_dt c) = c_dt c \<and> fl (c_mx c) = c_mx c \<and> fl (c_my c) = c_my c"

definition queue_ok :: "occupant \<Rightarrow> bool" where
  "queue_ok oc \<longleftrightarrow> 0 \<le> oc_last_seq oc \<and> oc_last_seq oc \<le> oc_high_seq oc \<and>
     sorted_wrt (<) (oc_last_seq oc # map c_seq (oc_pending oc)) \<and>
     (\<forall>c \<in> set (oc_pending oc). c_seq c \<le> oc_high_seq oc \<and> sanitised c \<and> doubles c) \<and>
     length (oc_pending oc) \<le> maxPending"

definition placed :: "rect list \<Rightarrow> vec2 \<Rightarrow> bool" where
  "placed rects p \<longleftrightarrow> in_room (fl PlayerRadius) p \<and> (p = PlayerSpawn \<or> (\<forall>d \<in> set rects. \<not> insideRect d p (fl PlayerRadius)))"

definition occ_ok :: "rect list \<Rightarrow> string \<Rightarrow> occupant \<Rightarrow> bool" where
  "occ_ok rects k oc \<longleftrightarrow> oc_account oc = k \<and> \<not> oc_ended oc \<and> p_alive (oc_state oc) \<and> player_ok (oc_state oc) \<and>
     placed rects (p_pos (oc_state oc)) \<and> queue_ok oc \<and> 0 \<le> oc_budget oc \<and> oc_budget oc \<le> 1 / 2 \<and>
     fl (oc_budget oc) = oc_budget oc \<and> 0 \<le> oc_rtt oc \<and> oc_rtt oc \<le> fl CatchRewindMax \<and>
     0 \<le> oc_invincible oc \<and> oc_invincible oc \<le> InvincibleSeconds \<and>
     0 \<le> oc_redirect_cool oc \<and> oc_redirect_cool oc \<le> RedirectCooldown \<and> 0 \<le> oc_announce oc"

lemma standing_placed: "standing rects (fl PlayerRadius) p \<Longrightarrow> placed rects p"
  using not_insideRect by (auto simp: standing_def placed_def outside_def)

lemma cap_half: "fl TimeBudgetCap = 1 / 2"
  by (simp add: TimeBudgetCap_def)

lemma alive_step [simp]: "p_alive (step_player rects p c) = p_alive p"
  by (simp add: step_player_def Let_def step_parts)

lemma step_ok:
  assumes "ValidateLayout l = []" and "player_ok p" and "0 \<le> c_dt c" and "fl (c_mx c) = c_mx c" and "fl (c_my c) = c_my c"
  shows "player_ok (step_player (rects_of l) p c) \<and> placed (rects_of l) (p_pos (step_player (rects_of l) p c))"
  using step_player_sound [OF assms(2-5,1)] standing_placed by (auto simp: standing_def)

text \<open>The drain takes a prefix of the queue: while the next command is affordable.\<close>

fun taken :: "command list \<Rightarrow> f64 \<Rightarrow> command list" where
  "taken [] b = []"
| "taken (c # cs) b = (if c_dt c \<le> b then c # taken cs (fsub b (c_dt c)) else [])"

definition spend :: "command list \<Rightarrow> f64 \<Rightarrow> f64" where
  "spend cs b = fold (\<lambda>c b. fsub b (c_dt c)) cs b"

definition play :: "rect list \<Rightarrow> command list \<Rightarrow> player \<Rightarrow> player" where
  "play rects cs p = fold (\<lambda>c p. step_player rects p c) cs p"

definition last_of :: "command list \<Rightarrow> int \<Rightarrow> int" where
  "last_of cs n = (if cs = [] then n else c_seq (last cs))"

lemma drain_eq:
  "drain rects cs oc s =
    (oc\<lparr>oc_pending := drop (length (taken cs (oc_budget oc))) cs,
        oc_state := play rects (taken cs (oc_budget oc)) (oc_state oc),
        oc_last_seq := last_of (taken cs (oc_budget oc)) (oc_last_seq oc),
        oc_budget := spend (taken cs (oc_budget oc)) (oc_budget oc)\<rparr>,
     fold (\<lambda>c s. fadd s (c_dt c)) (taken cs (oc_budget oc)) s)"
  by (induction cs arbitrary: oc s) (simp_all add: spend_def play_def last_of_def)

lemma taken_prefix: "\<exists>rest. cs = taken cs b @ rest"
  by (induction cs arbitrary: b) auto

lemma drop_taken: "cs = taken cs b @ drop (length (taken cs b)) cs"
  by (induction cs arbitrary: b) auto

text \<open>Simulated time is bought with the budget: what is spent is what it loses, up to one rounding a command.\<close>

lemma spend_bounds:
  assumes "0 \<le> b" and "b \<le> 1" and "fl b = b" and "\<forall>c \<in> set cs. 0 \<le> c_dt c"
  shows "0 \<le> spend (taken cs b) b \<and> spend (taken cs b) b \<le> b \<and> fl (spend (taken cs b) b) = spend (taken cs b) b \<and>
    sum_list (map c_dt (taken cs b)) \<le> b - spend (taken cs b) b + of_nat (length (taken cs b)) / 2 ^ 53"
  using assms
proof (induction cs arbitrary: b)
  case (Cons c cs)
  show ?case
  proof (cases "c_dt c \<le> b")
    case True
    let ?b = "fsub b (c_dt c)"
    have e: "0 \<le> ?b" unfolding fsub_def using True by (intro fl_nonneg) simp
    have le: "?b \<le> b" unfolding fsub_def using Cons.prems by (intro fl_le) auto
    have err: "\<bar>?b - (b - c_dt c)\<bar> \<le> 1 / 2 ^ 53"
    proof -
      have "\<bar>b - c_dt c\<bar> \<le> 1" using True Cons.prems by (auto simp: abs_le_iff)
      then have "\<bar>b - c_dt c\<bar> / 2 ^ 53 \<le> 1 / 2 ^ 53" by (intro divide_right_mono) simp_all
      with fl_error [of "b - c_dt c"] show ?thesis unfolding fsub_def by linarith
    qed
    from Cons.IH [OF e _ _ ] have ih: "0 \<le> spend (taken cs ?b) ?b \<and> spend (taken cs ?b) ?b \<le> ?b \<and>
        fl (spend (taken cs ?b) ?b) = spend (taken cs ?b) ?b \<and>
        sum_list (map c_dt (taken cs ?b)) \<le> ?b - spend (taken cs ?b) ?b + of_nat (length (taken cs ?b)) / 2 ^ 53"
      using le Cons.prems by (simp add: fsub_def)
    have s: "spend (c # taken cs ?b) b = spend (taken cs ?b) ?b" by (simp add: spend_def)
    have "c_dt c + sum_list (map c_dt (taken cs ?b)) \<le> b - spend (taken cs ?b) ?b + of_nat (Suc (length (taken cs ?b))) / 2 ^ 53"
      using ih err unfolding abs_le_iff of_nat_Suc add_divide_distrib by linarith
    then show ?thesis using ih le True by (simp add: s)
  qed (simp add: spend_def Cons.prems)
qed (simp add: spend_def)


lemma play_ok:
  assumes "ValidateLayout l = []" and "player_ok p" and "placed (rects_of l) (p_pos p)"
    and "\<forall>c \<in> set cs. sanitised c \<and> doubles c"
  shows "player_ok (play (rects_of l) cs p) \<and> placed (rects_of l) (p_pos (play (rects_of l) cs p)) \<and>
    p_alive (play (rects_of l) cs p) = p_alive p"
  using assms(2-4)
proof (induction cs arbitrary: p)
  case (Cons c cs)
  have "player_ok (step_player (rects_of l) p c) \<and> placed (rects_of l) (p_pos (step_player (rects_of l) p c))"
    using Cons.prems by (intro step_ok assms(1)) (auto simp: sanitised_def doubles_def)
  then show ?case using Cons.IH [of "step_player (rects_of l) p c"] Cons.prems by (simp add: play_def)
qed (simp add: play_def)

lemma queue_drop:
  assumes "queue_ok oc" and "oc_pending oc = run @ rest"
  shows "queue_ok (oc\<lparr>oc_pending := rest, oc_state := p, oc_last_seq := last_of run (oc_last_seq oc), oc_budget := b\<rparr>)"
proof (cases "run = []")
  case True
  then show ?thesis using assms by (simp add: queue_ok_def last_of_def)
next
  case False
  then obtain init c where r: "run = init @ [c]" by (metis append_butlast_last_id)
  then show ?thesis using assms by (auto simp: queue_ok_def last_of_def sorted_wrt_append)
qed

lemma accrue_ok:
  assumes "0 \<le> oc_budget oc" and "0 \<le> dt"
  shows "0 \<le> oc_budget (accrue dt oc) \<and> oc_budget (accrue dt oc) \<le> 1 / 2 \<and>
    fl (oc_budget (accrue dt oc)) = oc_budget (accrue dt oc)"
proof -
  have "0 \<le> fadd (oc_budget oc) dt" unfolding fadd_def using assms by (intro fl_nonneg) simp
  then show ?thesis by (auto simp: accrue_def cap_half min_def fadd_def)
qed

lemma step_occupant_ok:
  assumes "ValidateLayout l = []" and "occ_ok (rects_of l) k oc" and "0 \<le> dt"
  shows "occ_ok (rects_of l) k (step_occupant (rects_of l) dt oc)"
proof -
  let ?b = "oc_budget (accrue dt oc)"
  let ?run = "taken (oc_pending oc) ?b"
  let ?rest = "drop (length ?run) (oc_pending oc)"
  define oc' where "oc' = oc\<lparr>oc_pending := ?rest, oc_state := play (rects_of l) ?run (oc_state oc),
    oc_last_seq := last_of ?run (oc_last_seq oc), oc_budget := spend ?run ?b\<rparr>"
  define spent where "spent = fold (\<lambda>c s. fadd s (c_dt c)) ?run 0"
  have split: "oc_pending oc = ?run @ ?rest" by (rule drop_taken)
  have q: "queue_ok oc" "player_ok (oc_state oc)" "placed (rects_of l) (p_pos (oc_state oc))" "0 \<le> oc_budget oc"
    using assms(2) by (auto simp: occ_ok_def)
  have run: "\<forall>c \<in> set ?run. sanitised c \<and> doubles c"
    using q(1) split unfolding queue_ok_def by (metis Un_iff set_append)
  note b = accrue_ok [OF q(4) assms(3)]
  have "\<forall>c \<in> set (oc_pending oc). 0 \<le> c_dt c" using q(1) by (auto simp: queue_ok_def sanitised_def)
  from spend_bounds [OF _ _ _ this, of ?b] b
  have sp: "0 \<le> spend ?run ?b" "spend ?run ?b \<le> 1 / 2" "fl (spend ?run ?b) = spend ?run ?b" by auto
  have ok: "occ_ok (rects_of l) k oc'"
    using assms(2) play_ok [OF assms(1) q(2,3) run] queue_drop [OF q(1) split] sp by (simp add: occ_ok_def oc'_def)
  have e: "step_occupant (rects_of l) dt oc =
      (if fsub dt spent > 0 \<and> spent = 0 \<and> ?rest = []
       then oc'\<lparr>oc_state := step_player (rects_of l) (oc_state oc') (idle_command (fsub dt spent)),
                oc_budget := max 0 (fsub (oc_budget oc') (fsub dt spent))\<rparr> else oc')"
  proof -
    have "drain (rects_of l) (oc_pending oc) (accrue dt oc) 0 = (oc', spent)"
      by (simp add: drain_eq accrue_def oc'_def spent_def)
    moreover have "oc_pending oc' = ?rest" by (simp add: oc'_def)
    ultimately show ?thesis unfolding step_occupant_def by (simp only: prod.case Let_def)
  qed
  show ?thesis
  proof (cases "fsub dt spent > 0 \<and> spent = 0 \<and> ?rest = []")
    case False
    then show ?thesis using e ok by (simp only: if_False)
  next
    case True
    let ?idle = "fsub dt spent"
    have "player_ok (step_player (rects_of l) (oc_state oc') (idle_command ?idle)) \<and>
        placed (rects_of l) (p_pos (step_player (rects_of l) (oc_state oc') (idle_command ?idle)))"
      using ok True by (intro step_ok assms(1)) (auto simp: idle_command_def occ_ok_def)
    moreover have "fsub (oc_budget oc') ?idle \<le> 1 / 2" unfolding fsub_def [of "oc_budget oc'"]
      using ok True by (intro fl_le) (auto simp: occ_ok_def)
    moreover have "fl (max 0 (fsub (oc_budget oc') ?idle)) = max 0 (fsub (oc_budget oc') ?idle)"
      by (simp add: max_def fsub_def)
    ultimately show ?thesis unfolding e if_P [OF True] using ok by (simp add: occ_ok_def queue_ok_def)
  qed
qed


section \<open>Input\<close>

lemma sanitise_doubles:
  assumes "doubles c" shows "doubles (Sanitise c)"
proof -
  have f: "fl (clampFinite v lo hi) = clampFinite v lo hi" if "fl v = v" "fl lo = lo" "fl hi = hi" for v lo hi
    using that by (auto simp: clampFinite_def max_def min_def)
  have m: "fl (fl MaxStepSeconds) = fl MaxStepSeconds" by simp
  show ?thesis using assms f [OF _ _ m, of "c_dt c" 0] f [of "c_mx c" "- 1" 1] f [of "c_my c" "- 1" 1]
    by (auto simp: doubles_def Sanitise_def Let_def fdiv_def)
qed

lemma sanitise_ok: "doubles c \<Longrightarrow> sanitised (Sanitise c) \<and> doubles (Sanitise c)"
  using sanitise_sanitised sanitise_doubles by (auto simp: doubles_def)

lemma sanitise_seq [simp]: "c_seq (Sanitise c) = c_seq c"
  by (simp add: Sanitise_def Let_def)

text \<open>What a frame adds: the commands whose sequence number exceeds everything before them.\<close>

fun fresh :: "int \<Rightarrow> command list \<Rightarrow> command list" where
  "fresh n [] = []"
| "fresh n (c # cs) = (if c_seq c \<le> n then fresh n cs else c # fresh (c_seq c) cs)"

lemma accept_eq:
  "accept cs oc = oc\<lparr>oc_high_seq := last_of (fresh (oc_high_seq oc) cs) (oc_high_seq oc),
     oc_pending := oc_pending oc @ map Sanitise (fresh (oc_high_seq oc) cs)\<rparr>"
  by (induction cs arbitrary: oc) (simp_all add: last_of_def)

lemma fresh_sorted: "sorted_wrt (<) (n # map c_seq (fresh n cs))"
proof (induction cs arbitrary: n)
  case (Cons c cs)
  from Cons [of "c_seq c"] Cons [of n] show ?case by auto
qed simp

lemma set_fresh: "set (fresh n cs) \<subseteq> set cs"
proof (induction cs arbitrary: n)
  case (Cons c cs)
  from Cons [of n] Cons [of "c_seq c"] show ?case by auto
qed simp

lemma last_of_upper:
  assumes "sorted_wrt (<) (n # map c_seq cs)"
  shows "n \<le> last_of cs n \<and> (\<forall>c \<in> set cs. c_seq c \<le> last_of cs n)"
proof (cases cs rule: rev_cases)
  case (snoc xs x)
  then show ?thesis using assms by (auto simp: last_of_def sorted_wrt_append less_imp_le)
qed (simp add: last_of_def)

lemma fresh_again: "fresh (last_of (fresh n cs) n) cs = []"
proof -
  have "fresh m cs = []" if "\<forall>c \<in> set cs. c_seq c \<le> m" for m using that by (induction cs) auto
  moreover have "\<forall>c \<in> set cs. c_seq c \<le> last_of (fresh n cs) n"
  proof (induction cs arbitrary: n)
    case (Cons c cs)
    have up: "n \<le> last_of (fresh n cs) n" for n using last_of_upper [OF fresh_sorted] by blast
    have step: "last_of (c # fresh (c_seq c) cs) n = last_of (fresh (c_seq c) cs) (c_seq c)" by (simp add: last_of_def)
    show ?case
    proof (cases "c_seq c \<le> n")
      case True
      then show ?thesis using Cons [of n] up [of n] by auto
    next
      case False
      then show ?thesis using Cons [of "c_seq c"] up [of "c_seq c"] step by simp
    qed
  qed simp
  ultimately show ?thesis by blast
qed

lemma accept_ok:
  assumes "queue_ok oc" and "\<forall>c \<in> set cs. doubles c"
  shows "queue_ok (trim_pending (accept cs oc))"
proof -
  let ?f = "fresh (oc_high_seq oc) cs"
  let ?p = "oc_pending oc @ map Sanitise ?f"
  note s = fresh_sorted [of "oc_high_seq oc" cs]
  note up = last_of_upper [OF s]
  have seqs: "map c_seq (map Sanitise ?f) = map c_seq ?f" by simp
  have old: "sorted_wrt (<) (oc_last_seq oc # map c_seq (oc_pending oc))" "\<forall>c \<in> set (oc_pending oc). c_seq c \<le> oc_high_seq oc"
    "oc_last_seq oc \<le> oc_high_seq oc" "0 \<le> oc_last_seq oc"
    using assms(1) by (auto simp: queue_ok_def)
  have sorted: "sorted_wrt (<) (oc_last_seq oc # map c_seq ?p)"
  proof -
    have b: "\<forall>c \<in> set ?f. oc_high_seq oc < c_seq c" "sorted_wrt (<) (map c_seq ?f)" using s by auto
    have ab: "\<forall>x \<in> c_seq ` set (oc_pending oc). \<forall>y \<in> c_seq ` set ?f. x < y" using old(2) b(1) by (auto intro: le_less_trans)
    have lb: "\<forall>y \<in> c_seq ` set ?f. oc_last_seq oc < y" using old(3) b(1) by (auto intro: le_less_trans)
    show ?thesis using old(1) b(2) ab lb unfolding map_append seqs sorted_wrt.simps(2) sorted_wrt_append set_append set_map
      by blast
  qed
  have good: "\<forall>c \<in> set ?p. c_seq c \<le> last_of ?f (oc_high_seq oc) \<and> sanitised c \<and> doubles c"
  proof
    fix c assume "c \<in> set ?p"
    then consider "c \<in> set (oc_pending oc)" | d where "d \<in> set ?f" "c = Sanitise d" by auto
    then show "c_seq c \<le> last_of ?f (oc_high_seq oc) \<and> sanitised c \<and> doubles c"
    proof cases
      case 1
      then show ?thesis using old(2) up assms(1) unfolding queue_ok_def by (meson order_trans)
    next
      case 2
      then show ?thesis using up assms(2) set_fresh [of "oc_high_seq oc" cs] sanitise_ok [of d] by auto
    qed
  qed
  have all: "0 \<le> oc_last_seq oc \<and> oc_last_seq oc \<le> last_of ?f (oc_high_seq oc)" using old up by auto
  have "sorted_wrt (<) (oc_last_seq oc # map c_seq (drop n ?p)) \<and>
      (\<forall>c \<in> set (drop n ?p). c_seq c \<le> last_of ?f (oc_high_seq oc) \<and> sanitised c \<and> doubles c)" for n
  proof -
    define q where "q = ?p"
    have "set (drop n q) \<subseteq> set q" by (rule set_drop_subset)
    moreover have "sorted_wrt (<) (map c_seq (drop n q))"
      using sorted sorted_wrt_drop [of "(<)" "map c_seq q" n] unfolding q_def [symmetric] by (simp add: drop_map)
    ultimately show ?thesis using sorted good unfolding q_def [symmetric] by auto
  qed
  note cut = this
  define p h where "p = ?p" and "h = last_of ?f (oc_high_seq oc)"
  have "trim_pending (accept cs oc) = oc\<lparr>oc_high_seq := h, oc_pending := drop (length p - maxPending) p\<rparr>"
    unfolding trim_pending_def accept_eq p_def [symmetric] h_def [symmetric] by simp
  then show ?thesis using all cut [of "length p - maxPending"]
    unfolding p_def [symmetric] h_def [symmetric] by (simp add: queue_ok_def)
qed


lemma SimStepSeconds_fl: "SimStepSeconds = fl (1 / 20)"
  by (simp add: SimStepSeconds_def duration_seconds_def SimStep_def SimHz_def signed_divide_int_def signed_modulo_int_def fadd_def fdiv_def)

lemma SimStepSeconds_tick: "SimStepSeconds = tick_seconds"
  by (simp add: SimStepSeconds_fl tick_seconds_def)

lemma rtt_cap: "fdiv (fadd (fmul (fl CatchRewindMax) 3) (fl CatchRewindMax)) 4 \<le> fl CatchRewindMax"
  by code_simp

lemma smoothed_rtt:
  assumes "0 \<le> x" "x \<le> fl CatchRewindMax" "0 \<le> s" "s \<le> fl CatchRewindMax"
  shows "0 \<le> fdiv (fadd (fmul x 3) s) 4 \<and> fdiv (fadd (fmul x 3) s) 4 \<le> fl CatchRewindMax"
proof
  have 1: "0 \<le> fmul x 3" unfolding fmul_def using assms by (intro fl_nonneg) simp
  have 2: "0 \<le> fadd (fmul x 3) s" unfolding fadd_def using 1 assms by (intro fl_nonneg) simp
  show "0 \<le> fdiv (fadd (fmul x 3) s) 4" unfolding fdiv_def using 2 by (intro fl_nonneg) simp
  have "fmul x 3 \<le> fmul (fl CatchRewindMax) 3" unfolding fmul_def using assms by (intro fl_mono) simp
  then have "fadd (fmul x 3) s \<le> fadd (fmul (fl CatchRewindMax) 3) (fl CatchRewindMax)"
    unfolding fadd_def using assms by (intro fl_mono) simp
  then have "fdiv (fadd (fmul x 3) s) 4 \<le> fdiv (fadd (fmul (fl CatchRewindMax) 3) (fl CatchRewindMax)) 4"
    unfolding fdiv_def by (intro fl_mono divide_right_mono) simp_all
  then show "fdiv (fadd (fmul x 3) s) 4 \<le> fl CatchRewindMax" using rtt_cap by (rule order_trans)
qed

lemma note_rtt_ok:
  assumes "0 \<le> oc_rtt oc" and "oc_rtt oc \<le> fl CatchRewindMax"
  shows "\<exists>x. note_rtt tick seen oc = oc\<lparr>oc_rtt := x\<rparr> \<and> 0 \<le> x \<and> x \<le> fl CatchRewindMax"
proof (cases "0 < seen \<and> seen \<le> tick")
  case False
  then show ?thesis using assms by (intro exI [of _ "oc_rtt oc"]) (auto simp: note_rtt_def)
next
  case True
  define raw where "raw = fmul (fl (of_nat (tick - seen))) SimStepSeconds"
  define s where "s = (if raw > fl CatchRewindMax then fl CatchRewindMax else raw)"
  have "0 \<le> raw" unfolding raw_def fmul_def SimStepSeconds_fl by (intro fl_nonneg mult_nonneg_nonneg) simp_all
  moreover have "0 \<le> fl CatchRewindMax" by (rule fl_nonneg) (simp add: CatchRewindMax_def)
  ultimately have s: "0 \<le> s" "s \<le> fl CatchRewindMax" by (auto simp: s_def)
  have "note_rtt tick seen oc = oc\<lparr>oc_rtt := (if oc_rtt oc = 0 then s else fdiv (fadd (fmul (oc_rtt oc) 3) s) 4)\<rparr>"
    using True by (simp add: note_rtt_def s_def raw_def Let_def)
  then show ?thesis using s smoothed_rtt [OF assms s] by (cases "oc_rtt oc = 0") auto
qed

lemma enqueue_ok:
  assumes "occ_ok rects k oc" and "\<forall>c \<in> set cs. doubles c"
  shows "occ_ok rects k (note_rtt tick seen (oc\<lparr>oc_seen := now\<rparr>))"
    and "occ_ok rects k (trim_pending (accept cs (note_rtt tick seen (oc\<lparr>oc_seen := now\<rparr>))))"
proof -
  from note_rtt_ok [of "oc\<lparr>oc_seen := now\<rparr>" tick seen] assms(1) obtain x where
    x: "note_rtt tick seen (oc\<lparr>oc_seen := now\<rparr>) = oc\<lparr>oc_seen := now, oc_rtt := x\<rparr>" "0 \<le> x" "x \<le> fl CatchRewindMax"
    by (auto simp: occ_ok_def)
  show 1: "occ_ok rects k (note_rtt tick seen (oc\<lparr>oc_seen := now\<rparr>))"
    using assms(1) x by (simp add: occ_ok_def queue_ok_def)
  then have "queue_ok (trim_pending (accept cs (note_rtt tick seen (oc\<lparr>oc_seen := now\<rparr>))))"
    using assms(2) by (intro accept_ok) (auto simp: occ_ok_def)
  then show "occ_ok rects k (trim_pending (accept cs (note_rtt tick seen (oc\<lparr>oc_seen := now\<rparr>))))"
    using 1 by (auto simp: occ_ok_def trim_pending_def accept_eq)
qed

lemma count_down_ok: "0 \<le> v \<Longrightarrow> v \<le> c \<Longrightarrow> 0 \<le> dt \<Longrightarrow> fl c = c \<Longrightarrow> 0 \<le> count_down dt v \<and> count_down dt v \<le> c"
  by (auto simp: count_down_def fsub_def intro!: fl_le)

lemma count_down_nonneg: "0 \<le> v \<Longrightarrow> 0 \<le> count_down dt v"
  by (auto simp: count_down_def)

lemma timers_ok: "occ_ok rects k oc \<Longrightarrow> 0 \<le> dt \<Longrightarrow> occ_ok rects k (step_timers dt oc)"
  using count_down_ok [of "oc_invincible oc" InvincibleSeconds dt] count_down_ok [of "oc_redirect_cool oc" RedirectCooldown dt]
    count_down_nonneg [of "oc_announce oc" dt]
  by (simp add: occ_ok_def step_timers_def queue_ok_def InvincibleSeconds_def RedirectCooldown_def)

lemma land_ok: "occ_ok rects k oc \<Longrightarrow> occ_ok rects k (land w oc)"
  by (simp add: occ_ok_def land_def queue_ok_def player_ok_def SlowSeconds_def)

lemma smoke_ok: "occ_ok rects k oc \<Longrightarrow> occ_ok rects k (oc\<lparr>oc_invincible := InvincibleSeconds\<rparr>)"
  by (simp add: occ_ok_def queue_ok_def InvincibleSeconds_def)

end
