(* ===== verification/FintechProps.thy ===== *)
theory FintechProps
  imports FintechOfficeInv
begin

text \<open>
  The bottles and the kalyans: however they are grown, shrunk, taken and brought back, they stand on
  spots of their catalogue, no two on one, and one that comes back is not where it was. And the
  step relation of the office, its reachable states and their invariant.
\<close>

section \<open>Props\<close>

definition props_ok :: "vec2 list \<Rightarrow> office_prop list \<Rightarrow> bool" where
  "props_ok spots ps \<longleftrightarrow> 1 \<le> length ps \<and> length ps \<le> 3 \<and> distinct (map pr_spot ps) \<and>
     (\<forall>p \<in> set ps. 0 \<le> pr_spot p \<and> pr_spot p < int (length spots) \<and> 0 \<le> pr_gone p)"

lemma nat_mod_less: "0 < n \<Longrightarrow> nat (x mod int n) < n"
  by (simp add: nat_less_iff)

lemma drawSpot_free:
  assumes "drawSpot spots siblings avoid u i = (s, i')"
    and "length siblings \<le> 3" and "avoid \<in> pr_spot ` set siblings \<or> length siblings \<le> 2 \<and> avoid < 0"
    and "4 \<le> length spots"
  shows "0 \<le> s \<and> s < int (length spots) \<and> s \<noteq> avoid \<and> (\<forall>p \<in> set siblings. s \<noteq> pr_spot p)"
proof -
  let ?n = "int (length spots)"
  let ?used = "map pr_spot (filter (\<lambda>p. pr_spot p \<noteq> avoid) siblings)"
  let ?free = "filter (\<lambda>j. j \<notin> set ?used \<and> j \<noteq> avoid) [0 .. ?n - 1]"
  have set_free: "set ?free = {0 ..< ?n} - (set ?used \<union> {avoid})" by auto
  have "card ({0 ..< ?n} \<inter> (set ?used \<union> {avoid})) \<le> 3"
  proof (cases "avoid \<in> pr_spot ` set siblings")
    case True
    then have "set ?used \<union> {avoid} = pr_spot ` set siblings" by auto
    moreover have "card (pr_spot ` set siblings) \<le> length siblings" by (metis card_image_le card_length finite_set le_trans)
    ultimately show ?thesis using assms(2) by (metis Int_lower2 card_mono finite_imageI finite_set le_trans)
  next
    case False
    then have "length siblings \<le> 2" "avoid < 0" using assms(3) by auto
    then have "{0 ..< ?n} \<inter> (set ?used \<union> {avoid}) \<subseteq> set ?used" by auto
    then have "card ({0 ..< ?n} \<inter> (set ?used \<union> {avoid})) \<le> card (set ?used)" by (intro card_mono) auto
    also have "\<dots> \<le> length ?used" by (rule card_length)
    also have "\<dots> \<le> length siblings" by simp
    finally show ?thesis using \<open>length siblings \<le> 2\<close> by linarith
  qed
  moreover have "card ({0 ..< ?n} \<inter> (set ?used \<union> {avoid})) = length spots" if "{0 ..< ?n} - (set ?used \<union> {avoid}) = {}"
    using that by (simp add: Int_absorb2 Diff_eq_empty_iff)
  ultimately have "{0 ..< ?n} - (set ?used \<union> {avoid}) \<noteq> {}" using assms(4) by auto
  then have "set ?free \<noteq> {}" unfolding set_free .
  then have ne: "?free \<noteq> []" unfolding set_empty .
  let ?j = "nat (ftrunc (fmul (u i) (of_nat (length ?free))) mod int (length ?free))"
  have "0 < length ?free" using ne unfolding length_greater_0_conv .
  then have "?j < length ?free" by (rule nat_mod_less)
  then have "?free ! ?j \<in> set ?free" by (rule nth_mem)
  moreover have "s = ?free ! ?j"
  proof -
    have n: "\<not> ?n = 0" using assms(4) by auto
    show ?thesis using assms(1) ne n unfolding drawSpot_def Let_def by (simp only: if_False prod.inject)
  qed
  ultimately have "s \<in> set ?free" by simp
  then show ?thesis unfolding set_free by auto
qed


lemma grow_ok:
  assumes "props_ok spots ps \<or> ps = []" and "length ps + k \<le> 3" and "4 \<le> length spots" and "1 \<le> length ps + k"
  shows "props_ok spots (fst (grow_props k spots u ps i)) \<and> length (fst (grow_props k spots u ps i)) = length ps + k"
  using assms
proof (induction k arbitrary: ps i)
  case 0
  then show ?case by (auto simp: props_ok_def)
next
  case (Suc k)
  obtain s i' where d: "drawSpot spots ps (- 1) u i = (s, i')" by fastforce
  have "0 \<le> s \<and> s < int (length spots) \<and> (\<forall>p \<in> set ps. s \<noteq> pr_spot p)"
    using drawSpot_free [OF d] Suc.prems by auto
  then have "props_ok spots (ps @ [\<lparr>pr_spot = s, pr_gone = 0\<rparr>])" using Suc.prems by (auto simp: props_ok_def)
  from Suc.IH [of "ps @ [\<lparr>pr_spot = s, pr_gone = 0\<rparr>]" i'] this Suc.prems show ?case by (simp add: d)
qed

lemma drop_gone_sub:
  "drop_gone ps = Some qs \<Longrightarrow> length ps = Suc (length qs) \<and> set qs \<subseteq> set ps \<and> (distinct (map pr_spot ps) \<longrightarrow> distinct (map pr_spot qs))"
  by (induction ps arbitrary: qs) (auto split: if_splits, (metis imageI subsetD)+)

lemma drop_gone_standing: "drop_gone ps = Some qs \<Longrightarrow> filter (\<lambda>p. \<not> pr_gone p > 0) qs = filter (\<lambda>p. \<not> pr_gone p > 0) ps"
  by (induction ps arbitrary: qs) (auto split: if_splits)

lemma shrink_ok:
  assumes "props_ok spots ps" and "k < length ps"
  shows "props_ok spots (shrink_props k ps) \<and> length (shrink_props k ps) \<le> length ps \<and>
    filter (\<lambda>p. \<not> pr_gone p > 0) (shrink_props k ps) = filter (\<lambda>p. \<not> pr_gone p > 0) ps"
  using assms
proof (induction k arbitrary: ps)
  case (Suc k)
  show ?case
  proof (cases "drop_gone ps")
    case (Some qs)
    note q = drop_gone_sub [OF Some] drop_gone_standing [OF Some]
    have "props_ok spots qs" using Suc.prems q(1) by (auto simp: props_ok_def)
    from Suc.IH [OF this] Suc.prems q show ?thesis by (auto simp: Some)
  qed (use Suc.prems in simp)
qed simp

lemma reconcile_ok:
  assumes "props_ok spots ps" and "4 \<le> length spots" and "1 \<le> want" and "want \<le> 3"
  shows "props_ok spots (fst (reconcileProps spots want u ps i)) \<and> want \<le> length (fst (reconcileProps spots want u ps i))"
proof -
  obtain qs i' where g: "grow_props (want - length ps) spots u ps i = (qs, i')" by fastforce
  have len: "1 \<le> length ps" "length ps \<le> 3" using assms(1) by (auto simp: props_ok_def)
  have q: "props_ok spots qs" "length qs = length ps + (want - length ps)"
    using grow_ok [of spots ps "want - length ps" u i] assms len by (auto simp: g)
  have w: "\<not> want > length spots" using assms by auto
  have e: "fst (reconcileProps spots want u ps i) = shrink_props (length qs - want) qs"
    using w by (simp add: reconcileProps_def g)
  have k: "length qs - want < length qs" using q(2) len assms(3) by linarith
  have sh: "want \<le> length (shrink_props (length qs - want) qs)" if "want \<le> length qs" for qs :: "office_prop list"
  proof -
    have "n - j \<le> length (shrink_props j rs)" if "length rs = n" for n j and rs :: "office_prop list"
      using that
    proof (induction j arbitrary: rs n)
      case (Suc j)
      then show ?case
      proof (cases "drop_gone rs")
        case (Some ts)
        then show ?thesis using Suc.IH [of ts "n - 1"] drop_gone_sub [OF Some] Suc.prems by auto
      qed simp
    qed simp
    from this [of qs "length qs" "length qs - want"] that show ?thesis by auto
  qed
  have "want \<le> length qs" using q(2) by linarith
  from sh [OF this] show ?thesis unfolding e using shrink_ok [OF q(1) k] by blast
qed

lemma stepProp_ok:
  assumes "stepProp spots siblings back reach dt feet u p i = (p', t, i')"
    and "p \<in> set siblings" and "props_ok spots siblings" and "4 \<le> length spots" and "0 \<le> back"
  shows "0 \<le> pr_spot p' \<and> pr_spot p' < int (length spots) \<and> 0 \<le> pr_gone p' \<and>
    (pr_spot p' = pr_spot p \<or> (\<forall>q \<in> set siblings. pr_spot p' \<noteq> pr_spot q))"
proof -
  have p: "0 \<le> pr_spot p" "pr_spot p < int (length spots)" "0 \<le> pr_gone p" using assms(2,3) by (auto simp: props_ok_def)
  obtain s j where d: "drawSpot spots siblings (pr_spot p) u i = (s, j)" by fastforce
  have s: "0 \<le> s \<and> s < int (length spots) \<and> (\<forall>q \<in> set siblings. s \<noteq> pr_spot q)"
    using drawSpot_free [OF d] assms(2-4) by (auto simp: props_ok_def)
  show ?thesis using assms(1,5) p s d by (auto simp: stepProp_def Let_def split: if_splits option.splits)
qed

lemma step_props_ok:
  assumes "step_props js spots back reach dt feet u ps i = (qs, ts, i')" and "props_ok spots ps"
    and "4 \<le> length spots" and "0 \<le> back" and "\<forall>j \<in> set js. j < length ps"
  shows "props_ok spots qs \<and> length qs = length ps"
  using assms
proof (induction js arbitrary: ps i qs ts i')
  case (Cons j js)
  obtain p t i1 where a: "stepProp spots ps back reach dt feet u (ps ! j) i = (p, t, i1)" by (metis prod.exhaust)
  obtain qs' ts' i2 where b: "step_props js spots back reach dt feet u (ps[j := p]) i1 = (qs', ts', i2)" by (metis prod.exhaust)
  have j: "j < length ps" using Cons.prems by simp
  note s = stepProp_ok [OF a nth_mem [OF j] Cons.prems(2,3,4)]
  have "distinct (map pr_spot (ps[j := p]))"
  proof (cases "pr_spot p = pr_spot (ps ! j)")
    case True
    have "map pr_spot (ps[j := p]) = map pr_spot ps" using True by (simp add: map_update j list_update_same_conv)
    then show ?thesis using Cons.prems(2) by (simp add: props_ok_def)
  next
    case False
    then have "pr_spot p \<notin> set (map pr_spot ps)" using s by auto
    then show ?thesis using Cons.prems(2) by (simp add: map_update props_ok_def distinct_list_update)
  qed
  moreover have "set (ps[j := p]) \<subseteq> insert p (set ps)" by (rule set_update_subset_insert)
  ultimately have "props_ok spots (ps[j := p])" using s Cons.prems(2) by (auto simp: props_ok_def)
  from Cons.IH [OF b this Cons.prems(3,4)] Cons.prems(1,5) show ?case by (auto simp: a b)
qed simp

end
