(* ===== verification/FintechReach.thy ===== *)
theory FintechReach
  imports FintechProps
begin

text \<open>
  The office as a state machine: its operations as one step relation, the states it can reach from a
  fresh office on an accepted floor, and the invariant all of them keep.
\<close>

section \<open>Draws\<close>

definition draws :: "(nat \<Rightarrow> int option) \<Rightarrow> nat \<Rightarrow> f64" where
  "draws raw i = unitRand (raw i)"

definition in_range :: "(nat \<Rightarrow> int option) \<Rightarrow> bool" where
  "in_range raw \<longleftrightarrow> (\<forall>i n. raw i = Some n \<longrightarrow> 0 \<le> n \<and> n < 1000)"

lemma draws_range:
  assumes "in_range raw" shows "0 \<le> draws raw i \<and> draws raw i \<le> 1023 / 1024"
proof (cases "raw i")
  case None
  then show ?thesis by (simp add: draws_def unitRand_def)
next
  case (Some n)
  then have n: "0 \<le> n" "n < 1000" using assms by (auto simp: in_range_def)
  have "fl (1023 / 1024) = 1023 / 1024" using fl_exact [of 1023 "- 10"] by (simp add: power_int_minus)
  then have "fl (of_int n / 1000) \<le> 1023 / 1024" using n by (intro fl_le) (simp_all add: field_simps)
  moreover have "0 \<le> fl (of_int n / 1000)" using n by (intro fl_nonneg) simp
  ultimately show ?thesis using Some by (simp add: draws_def unitRand_def fdiv_def)
qed

lemma draw_in_span:
  assumes "0 \<le> x" and "x \<le> 1023 / 1024" and "w = 16 \<or> w = 22"
  shows "fl PlayerRadius \<le> fadd (fl PlayerRadius) (fmul x (fl (w - 2 * PlayerRadius))) \<and>
    fadd (fl PlayerRadius) (fmul x (fl (w - 2 * PlayerRadius))) \<le> fsub w (fl PlayerRadius)"
proof -
  have e: "fl (of_int m * 2 powi (- 12)) = of_int m * 2 powi (- 12)" if "\<bar>m\<bar> \<le> 2 ^ 53" for m by (rule fl_exact [OF that])
  have r: "fl PlayerRadius \<le> 1435 / 4096"
    using e [of 1435] by (intro fl_le) (simp_all add: power_int_minus PlayerRadius_def)
  have c: "fl (w - 2 * PlayerRadius) \<le> (w - 7 / 10) + 1 / 1024"
  proof -
    have "fl (3917 / 256) = 3917 / 256" "fl (5453 / 256) = 5453 / 256"
      using e [of "3917 * 16"] e [of "5453 * 16"] by (simp_all add: power_int_minus)
    note h = this
    have "fl (153 / 10) \<le> 3917 / 256" by (rule fl_le [OF _ h(1)]) simp
    moreover have "fl (213 / 10) \<le> 5453 / 256" by (rule fl_le [OF _ h(2)]) simp
    ultimately have "fl (16 - 7 / 10) \<le> 3917 / 256" "fl (22 - 7 / 10) \<le> 5453 / 256" by simp_all
    then show ?thesis using assms(3) by (auto simp: PlayerRadius_def)
  qed
  have c0: "0 \<le> fl (w - 2 * PlayerRadius)" using assms(3) by (intro fl_nonneg) (auto simp: PlayerRadius_def)
  have p0: "0 \<le> fmul x (fl (w - 2 * PlayerRadius))" unfolding fmul_def using assms(1) c0 by (intro fl_nonneg) simp
  have "x * fl (w - 2 * PlayerRadius) \<le> 1023 / 1024 * ((w - 7 / 10) + 1 / 1024)"
    using assms(2) c c0 by (intro mult_mono) simp_all
  also have "\<dots> \<le> w - 7 / 10 - 7 / 512" using assms(3) by auto
  finally have "fmul x (fl (w - 2 * PlayerRadius)) \<le> w - 91 / 128"
  proof -
    assume h: "x * fl (w - 2 * PlayerRadius) \<le> w - 7 / 10 - 7 / 512"
    have "fl (w - 91 / 128) = w - 91 / 128" using e [of "1957 * 32"] e [of "2725 * 32"] assms(3) by (auto simp: power_int_minus)
    then show ?thesis unfolding fmul_def by (intro fl_le) (use h in linarith)+
  qed
  then have up: "fl PlayerRadius + fmul x (fl (w - 2 * PlayerRadius)) \<le> w - fl PlayerRadius" using r by linarith
  show ?thesis
  proof
    show "fl PlayerRadius \<le> fadd (fl PlayerRadius) (fmul x (fl (w - 2 * PlayerRadius)))"
      unfolding fadd_def using p0 by (intro le_fl) simp_all
    show "fadd (fl PlayerRadius) (fmul x (fl (w - 2 * PlayerRadius))) \<le> fsub w (fl PlayerRadius)"
      unfolding fadd_def fsub_def using up by (rule fl_mono)
  qed
qed

lemma draw_in_room:
  assumes "in_range raw" shows "in_room (fl PlayerRadius) (draw_point (draws raw) i)"
  using draw_in_span [of "draws raw i" 16] draw_in_span [of "draws raw (i + 1)" 22]
    draws_range [OF assms, of i] draws_range [OF assms, of "i + 1"]
  by (simp add: in_room_def draw_point_def OfficeW_def OfficeH_def)

lemma spawn_in_room: "in_room (fl PlayerRadius) PlayerSpawn"
proof -
  have "fl PlayerRadius \<le> 1" by (rule fl_le) (simp_all add: PlayerRadius_def)
  moreover have "8 \<le> fsub 16 (fl PlayerRadius)" "4 \<le> fsub 22 (fl PlayerRadius)" unfolding fsub_def
    using calculation by (intro le_fl; simp)+
  ultimately show ?thesis by (simp add: in_room_def PlayerSpawn_def OfficeW_def OfficeH_def)
qed

section \<open>Where a joiner stands\<close>

lemma spawn_draw_placed:
  assumes "in_range raw" and "bestGap \<ge> 0 \<longrightarrow> placed (p_rects (of_plan w)) best"
  shows "placed (p_rects (of_plan w)) (fst (spawn_draw k w (draws raw) i best bestGap))"
  using assms(2)
proof (induction k arbitrary: i best bestGap)
  case 0
  then show ?case using spawn_in_room by (simp add: placed_def)
next
  case (Suc k)
  let ?q = "draw_point (draws raw) i"
  have q: "placed (p_rects (of_plan w)) ?q" if "spawn_free w ?q"
    using that draw_in_room [OF assms(1)] by (auto simp: placed_def spawn_free_def list_ex_iff)
  show ?case using Suc q by (auto simp: Let_def)
qed

lemma spawn_placed: "in_range raw \<Longrightarrow> spawnPoint w (draws raw) i = (p, j) \<Longrightarrow> placed (p_rects (of_plan w)) p"
  using spawn_draw_placed [of raw "- 1" w zero_vec spawnTries i] by (simp add: spawnPoint_def)


section \<open>The invariant\<close>

definition men_ok :: "layout \<Rightarrow> office \<Rightarrow> bool" where
  "men_ok l w \<longleftrightarrow>
     (b_pos (of_boss w) = BossSpawn \<or> standing (rects_of l) (fl BossRadius) (b_pos (of_boss w))) \<and>
     (ch_pos (of_claude w) = ChaserSpawn \<or> standing (rects_of l) (fl BossRadius) (ch_pos (of_claude w))) \<and>
     0 \<le> b_drunk (of_boss w) \<and> b_drunk (of_boss w) \<le> DrunkSeconds \<and>
     length (of_npcs w) = 2 \<and> length (of_trail w) = trailLen"

definition verbs_ok :: "office \<Rightarrow> bool" where
  "verbs_ok w \<longleftrightarrow> 0 \<le> of_router_away w \<and> of_router_away w \<le> RouterSeconds \<and>
     0 \<le> of_router_cool w \<and> of_router_cool w \<le> RouterCooldown \<and>
     0 \<le> of_redirect_left w \<and> of_redirect_left w \<le> RedirectSeconds"

definition people_ok :: "layout \<Rightarrow> office \<Rightarrow> bool" where
  "people_ok l w \<longleftrightarrow> distinct (map fst (of_occupants w)) \<and> length (of_occupants w) \<le> MaxOccupants \<and>
     (\<forall>k oc. lookup_occ k w = Some oc \<longrightarrow> occ_ok (rects_of l) k oc)"

definition office_ok :: "layout \<Rightarrow> office \<Rightarrow> bool" where
  "office_ok l w \<longleftrightarrow> of_plan w = NewPlan l \<and> people_ok l w \<and> men_ok l w \<and> verbs_ok w \<and>
     props_ok BottleSpots (of_bottles w) \<and> props_ok HookahSpots (of_hookahs w)"

lemmas office_ok_defs = office_ok_def men_ok_def verbs_ok_def

lemma people_same: "of_occupants w' = of_occupants w \<Longrightarrow> people_ok l w' = people_ok l w"
  by (simp add: people_ok_def lookup_occ_def)

lemma people_map_occ:
  assumes "people_ok l w" and "\<And>k oc. lookup_occ k w = Some oc \<Longrightarrow> occ_ok (rects_of l) k oc \<Longrightarrow> occ_ok (rects_of l) k (f oc)"
  shows "people_ok l (map_occ f w)"
proof -
  have "map fst (of_occupants (map_occ f w)) = map fst (of_occupants w)" by (simp add: map_occ_def comp_def case_prod_beta)
  moreover from this have "length (of_occupants (map_occ f w)) = length (of_occupants w)" by (metis length_map)
  ultimately show ?thesis using assms unfolding people_ok_def by (auto simp: lookup_map_occ)
qed

lemma people_set_occ:
  assumes "people_ok l w" and "occ_ok (rects_of l) k oc" and "lookup_occ k w \<noteq> None \<or> length (of_occupants w) < MaxOccupants"
  shows "people_ok l (set_occ k oc w)"
proof -
  have d: "distinct (map fst (of_occupants w))" using assms(1) by (simp add: people_ok_def)
  have "length (AList.update k oc m) \<le> (if map_of m k = None then Suc (length m) else length m)" for m :: "(string \<times> occupant) list"
    by (induction m) auto
  from this [of "of_occupants w"] have "length (of_occupants (set_occ k oc w)) \<le> MaxOccupants"
    using assms(1,3) by (auto simp: people_ok_def set_occ_def lookup_occ_def split: if_splits)
  moreover have "distinct (map fst (of_occupants (set_occ k oc w)))" using d by (simp add: set_occ_def distinct_update)
  moreover have "\<forall>j oc'. lookup_occ j (set_occ k oc w) = Some oc' \<longrightarrow> occ_ok (rects_of l) j oc'"
    using assms by (auto simp: people_ok_def lookup_set_occ)
  ultimately show ?thesis unfolding people_ok_def by blast
qed

lemma length_del_occ: "length (of_occupants (del_occ k w)) \<le> length (of_occupants w)"
  by (simp add: del_occ_def length_delete_le)

lemma people_del_occ: "people_ok l w \<Longrightarrow> people_ok l (del_occ k w)"
  using length_del_occ [of k w]
  by (auto simp: people_ok_def lookup_del_occ) (simp add: del_occ_def distinct_delete)

lemma people_fold_del: "people_ok l w \<Longrightarrow> people_ok l (fold del_occ ks w)"
  by (induction ks arbitrary: w) (auto intro: people_del_occ)

lemma occ_ok_of: "office_ok l w \<Longrightarrow> lookup_occ k w = Some oc \<Longrightarrow> occ_ok (rects_of l) k oc"
  by (auto simp: office_ok_def people_ok_def)

lemma new_occupant_ok:
  assumes "placed rects p" shows "occ_ok rects k (new_occupant k shift ps av persona p now tick)"
proof -
  have "0 \<le> fl GraceSeconds" "0 \<le> fl DashSeconds" "0 \<le> fl DashCooldown" "0 \<le> fl CatchRewindMax"
    by (auto intro!: fl_nonneg simp: sim_constants CatchRewindMax_def)
  then show ?thesis using assms
    by (simp add: occ_ok_def new_occupant_def NewPlayerAt_def player_ok_def queue_ok_def InvincibleSeconds_def RedirectCooldown_def)
qed

lemma join_ok:
  assumes "office_ok l w" and "in_range raw" and "Join acc shift ps av persona now (draws raw) i w = Inr (w', j)"
  shows "office_ok l w'"
proof -
  obtain p i' where p: "spawnPoint w (draws raw) i = (p, i')" by fastforce
  have "occ_ok (rects_of l) acc (new_occupant acc shift ps av persona p now (of_tick w))"
    using spawn_placed [OF assms(2) p] assms(1) by (intro new_occupant_ok) (simp add: office_ok_def)
  then show ?thesis using assms(1,3) people_set_occ [of l w acc "new_occupant acc shift ps av persona p now (of_tick w)"]
    by (auto simp: Join_def p office_ok_defs set_occ_def split: if_splits)
qed

lemma fold_del_fields [simp]:
  "of_plan (fold del_occ ks w) = of_plan w" "of_boss (fold del_occ ks w) = of_boss w" "of_claude (fold del_occ ks w) = of_claude w"
  "of_npcs (fold del_occ ks w) = of_npcs w" "of_trail (fold del_occ ks w) = of_trail w" "of_tick (fold del_occ ks w) = of_tick w"
  "of_router_away (fold del_occ ks w) = of_router_away w" "of_router_cool (fold del_occ ks w) = of_router_cool w"
  "of_redirect_left (fold del_occ ks w) = of_redirect_left w" "of_bottles (fold del_occ ks w) = of_bottles w"
  "of_hookahs (fold del_occ ks w) = of_hookahs w"
  by (induction ks arbitrary: w) (simp_all add: del_occ_def)

lemma leave_ok: "office_ok l w \<Longrightarrow> office_ok l (snd (Leave acc w))"
  using people_del_occ by (auto simp: Leave_def office_ok_defs del_occ_def split: option.split)

lemma evict_ok: "office_ok l w \<Longrightarrow> office_ok l (snd (EvictAll w))"
  using people_fold_del by (simp add: EvictAll_def office_ok_defs)

lemma set_occ_office:
  "office_ok l w \<Longrightarrow> lookup_occ k w \<noteq> None \<Longrightarrow> occ_ok (rects_of l) k oc \<Longrightarrow> office_ok l (set_occ k oc w)"
  using people_set_occ by (simp add: office_ok_defs set_occ_def)

lemma seen_ok: "office_ok l w \<Longrightarrow> office_ok l (Seen acc now w)"
  using occ_ok_of [of l w acc]
  by (auto simp: Seen_def occ_ok_def queue_ok_def split: option.split intro!: set_occ_office)

lemma enqueue_office_ok:
  assumes "office_ok l w" and "\<forall>c \<in> set (in_cmds inp). doubles c" shows "office_ok l (Enqueue acc inp now w)"
proof (cases "lookup_occ acc w")
  case (Some oc)
  note enqueue_ok [OF occ_ok_of [OF assms(1) Some] assms(2), of "of_tick w" "in_seen inp" now]
  then show ?thesis using Some assms(1) by (simp add: Enqueue_def Let_def set_occ_office)
qed (simp add: Enqueue_def assms)

lemma redirect_ok:
  assumes "office_ok l w" shows "office_ok l (snd (Redirect acc handle w))"
proof (cases "lookup_occ acc w")
  case (Some oc)
  have "occ_ok (rects_of l) acc (oc\<lparr>oc_redirect_cool := RedirectCooldown, oc_announce := RedirectSaySeconds, oc_line := RedirectLine\<rparr>)"
    using occ_ok_of [OF assms Some]
    by (simp add: occ_ok_def queue_ok_def RedirectCooldown_def RedirectSaySeconds_def)
  moreover have "office_ok l (w\<lparr>of_redirect_to := k, of_redirect_left := RedirectSeconds\<rparr>)" for k
    using assms people_same [of "w\<lparr>of_redirect_to := k, of_redirect_left := RedirectSeconds\<rparr>" w l]
    by (simp add: office_ok_defs RedirectSeconds_def)
  ultimately show ?thesis using Some assms
    by (auto simp: Redirect_def lookup_occ_def split: option.split intro!: set_occ_office)
qed (simp add: Redirect_def assms)

lemma router_ok:
  assumes "office_ok l w" shows "office_ok l (snd (RouterDown acc w))"
proof (cases "lookup_occ acc w")
  case (Some oc)
  have "occ_ok (rects_of l) acc (oc\<lparr>oc_announce := RouterSaySeconds, oc_line := RouterLine\<rparr>)"
    using occ_ok_of [OF assms Some] by (simp add: occ_ok_def queue_ok_def RouterSaySeconds_def)
  moreover have "office_ok l (w\<lparr>of_router_away := RouterSeconds, of_router_cool := RouterCooldown\<rparr>)"
    using assms people_same [of "w\<lparr>of_router_away := RouterSeconds, of_router_cool := RouterCooldown\<rparr>" w l]
    by (simp add: office_ok_defs RouterSeconds_def RouterCooldown_def)
  ultimately show ?thesis using Some assms
    by (auto simp: RouterDown_def lookup_occ_def intro!: set_occ_office)
qed (simp add: RouterDown_def assms)


section \<open>A tick keeps it\<close>

lemma end_each_eq:
  "end_each now w0 ks (es, w) =
    (es @ map (\<lambda>k. end_shift (the (outcome now w0 (the (lookup_occ k w0)))) (the (lookup_occ k w0)))
        (filter (\<lambda>k. outcome now w0 (the (lookup_occ k w0)) \<noteq> None) ks),
     fold del_occ (filter (\<lambda>k. outcome now w0 (the (lookup_occ k w0)) \<noteq> None) ks) w)"
  by (induction ks arbitrary: es w) (auto split: option.split)

lemma length_in_order: "length (in_order w) = length (of_occupants w)"
  by (simp add: in_order_def keys_def)

lemma on_feet_le: "people_ok l w \<Longrightarrow> length (on_feet w) \<le> 3"
  using length_filter_le [of "\<lambda>(k, oc). p_alive (oc_state oc)" "in_order w"]
  by (simp add: on_feet_def people_ok_def MaxOccupants_def length_in_order)

lemma map_occ_office:
  assumes "office_ok l w" and "\<And>k oc. occ_ok (rects_of l) k oc \<Longrightarrow> occ_ok (rects_of l) k (f oc)"
  shows "office_ok l (map_occ f w)"
  using assms people_map_occ [of l w f] by (simp add: office_ok_defs map_occ_def)

lemma redirect_step_ok:
  assumes "office_ok l w" and "0 \<le> dt" and "step_redirect dt ts w = (ts', w')" shows "office_ok l w'"
proof -
  define left where "left = fsub (of_redirect_left w) dt"
  have "left \<le> RedirectSeconds" unfolding left_def fsub_def using assms(1,2)
    by (intro fl_le) (auto simp: office_ok_defs RedirectSeconds_def)
  moreover have "w' = w \<or> w' = w\<lparr>of_redirect_to := '''', of_redirect_left := 0\<rparr> \<or> left > 0 \<and> w' = w\<lparr>of_redirect_left := left\<rparr>"
    using assms(3) by (auto simp: step_redirect_def left_def Let_def split: if_splits option.splits)
  moreover have "people_ok l (w\<lparr>of_redirect_to := x, of_redirect_left := y\<rparr>)" "people_ok l (w\<lparr>of_redirect_left := y\<rparr>)" for x y
    using assms(1) people_same [of "w\<lparr>of_redirect_to := x, of_redirect_left := y\<rparr>" w l]
      people_same [of "w\<lparr>of_redirect_left := y\<rparr>" w l] by (auto simp: office_ok_def)
  ultimately show ?thesis using assms(1) by (auto simp: office_ok_defs RedirectSeconds_def)
qed

lemma router_step_ok:
  assumes "office_ok l w" and "0 \<le> dt" shows "office_ok l (step_router dt w)"
proof -
  define cool where "cool = count_down dt (of_router_cool w)"
  define away where "away = max 0 (fsub (of_router_away w) dt)"
  have c: "0 \<le> cool" "cool \<le> RouterCooldown" unfolding cool_def
    using count_down_ok [of "of_router_cool w" RouterCooldown dt] assms by (auto simp: office_ok_defs RouterCooldown_def)
  have "fsub (of_router_away w) dt \<le> RouterSeconds" unfolding fsub_def using assms
    by (intro fl_le) (auto simp: office_ok_defs RouterSeconds_def)
  then have a: "0 \<le> away" "away \<le> RouterSeconds" by (auto simp: away_def RouterSeconds_def)
  have "step_router dt w = (let v = w\<lparr>of_router_cool := cool\<rparr> in
      if of_router_away w > 0 then if away = 0 then v\<lparr>of_router_away := away, of_claude := NewChaser\<rparr> else v\<lparr>of_router_away := away\<rparr> else v)"
    by (simp add: step_router_def cool_def away_def Let_def)
  moreover have "people_ok l (w\<lparr>of_router_cool := x\<rparr>)" "people_ok l (w\<lparr>of_router_cool := x, of_router_away := y\<rparr>)"
    "people_ok l (w\<lparr>of_router_cool := x, of_router_away := y, of_claude := z\<rparr>)" for x y z
    using assms(1) by (auto simp: office_ok_def people_ok_def lookup_occ_def)
  ultimately show ?thesis using assms(1) c a by (auto simp: office_ok_defs NewChaser_def Let_def)
qed

lemma spot_counts: "4 \<le> length BottleSpots" "4 \<le> length HookahSpots"
  by (simp_all add: BottleSpots_def HookahSpots_def)

lemma smoke_people: "people_ok l w \<Longrightarrow> people_ok l (smoke ts w)"
proof -
  assume p: "people_ok l w"
  have l: "lookup_occ k (smoke ts w) =
      map_option (\<lambda>oc. if k \<in> set ts then oc\<lparr>oc_invincible := InvincibleSeconds\<rparr> else oc) (lookup_occ k w)" for k
  proof -
    have "map_of (map (\<lambda>(k, oc). (k, f k oc)) m) k = map_option (f k) (map_of m k)" for f :: "string \<Rightarrow> occupant \<Rightarrow> occupant" and m
      by (induction m) auto
    then show ?thesis by (simp add: lookup_occ_def smoke_def)
  qed
  have "map fst (of_occupants (smoke ts w)) = map fst (of_occupants w)" by (simp add: smoke_def comp_def case_prod_beta)
  moreover from this have "length (of_occupants (smoke ts w)) = length (of_occupants w)" by (metis length_map)
  ultimately show ?thesis using p smoke_ok unfolding people_ok_def by (auto simp: l)
qed

lemma props_step_ok:
  assumes "office_ok l w" and "step_office_props dt u w i = (w', j)" shows "office_ok l w'"
proof -
  let ?want = "if length (on_feet w) * PropsPerPlayer < 1 then 1 else length (on_feet w) * PropsPerPlayer"
  have want: "1 \<le> ?want" "?want \<le> 3" using on_feet_le [of l w] assms(1) by (auto simp: office_ok_def PropsPerPlayer_def Suc_le_eq)
  have ok: "props_ok BottleSpots (of_bottles w)" "props_ok HookahSpots (of_hookahs w)" using assms(1) by (auto simp: office_ok_def)
  obtain bs i1 where b: "reconcileProps BottleSpots ?want u (of_bottles w) i = (bs, i1)" by fastforce
  obtain hs i2 where h: "reconcileProps HookahSpots ?want u (of_hookahs w) i1 = (hs, i2)" by fastforce
  have bh: "props_ok BottleSpots bs" "props_ok HookahSpots hs"
    using reconcile_ok [OF ok(1) spot_counts(1) want, of u i] reconcile_ok [OF ok(2) spot_counts(2) want, of u i1] b h by simp_all
  define v where "v = w\<lparr>of_bottles := bs, of_hookahs := hs\<rparr>"
  obtain qs ts i3 where s1: "step_props [0 ..< length bs] BottleSpots BottleReturn (fl BottleReach) dt (on_feet v) u bs i2 = (qs, ts, i3)"
    by (metis prod.exhaust)
  define x where "x = v\<lparr>of_bottles := qs, of_boss := (if ts = [] then of_boss v else (of_boss v)\<lparr>b_drunk := DrunkSeconds\<rparr>)\<rparr>"
  obtain rs us i4 where s2: "step_props [0 ..< length hs] HookahSpots HookahReturn (fl HookahReach) dt (on_feet x) u hs i3 = (rs, us, i4)"
    by (metis prod.exhaust)
  have f: "of_bottles v = bs" "of_hookahs x = hs" by (simp_all add: v_def x_def)
  have b2: "step_bottles dt u v i2 = (x, i3)" by (simp add: step_bottles_def f s1 x_def)
  have h2: "step_hookahs dt u x i3 = (smoke us (x\<lparr>of_hookahs := rs\<rparr>), i4)" by (simp add: step_hookahs_def f s2)
  have "step_office_props dt u w i = (smoke us (x\<lparr>of_hookahs := rs\<rparr>), i4)"
    unfolding step_office_props_def Let_def b prod.case h v_def [symmetric] b2 h2 ..
  then have w': "w' = smoke us (x\<lparr>of_hookahs := rs\<rparr>)" using assms(2) by simp
  have q: "props_ok BottleSpots qs" using step_props_ok [OF s1 bh(1) spot_counts(1)] by (simp add: BottleReturn_def)
  have r: "props_ok HookahSpots rs" using step_props_ok [OF s2 bh(2) spot_counts(2)] by (simp add: HookahReturn_def)
  have occ: "of_occupants (x\<lparr>of_hookahs := rs\<rparr>) = of_occupants w" by (simp add: x_def v_def)
  have "people_ok l (smoke us (x\<lparr>of_hookahs := rs\<rparr>))"
    using assms(1) people_same [OF occ, of l] by (intro smoke_people) (simp add: office_ok_def)
  then show ?thesis unfolding w' using assms(1) q r
    by (auto simp: office_ok_defs smoke_def x_def v_def DrunkSeconds_def)
qed


lemma boss_standing: "ValidateLayout l = [] \<Longrightarrow> standing (rects_of l) (fl BossRadius) (b_pos (StepBoss m (NewPlan l) b ts dt e))"
  using resolve_standing by (simp add: StepBoss_def Let_def)

lemma boss_drunk:
  "0 \<le> b_drunk b \<Longrightarrow> b_drunk b \<le> DrunkSeconds \<Longrightarrow> 0 \<le> dt \<Longrightarrow>
     0 \<le> b_drunk (StepBoss m p b ts dt e) \<and> b_drunk (StepBoss m p b ts dt e) \<le> DrunkSeconds"
  by (auto simp: StepBoss_def Let_def DrunkSeconds_def fsub_def intro!: fl_le)

lemma separate_standing: "ValidateLayout l = [] \<Longrightarrow> standing (rects_of l) (fl BossRadius) (ch_pos (Separate q bs c (rects_of l)))"
  using resolve_standing by (simp add: Separate_def Let_def ChaserRadius_def)

lemma length_step_npcs: "length (fst (step_npcs rects u dt ns i)) = length ns"
proof (induction ns arbitrary: i)
  case (Cons n ns)
  obtain n' j where "StepNPC rects u i n dt = (n', j)" by fastforce
  then show ?case using Cons [of j] by (cases "step_npcs rects u dt ns j") simp
qed simp

lemma men_step_ok:
  assumes "ValidateLayout l = []" and "office_ok l w" and "0 \<le> dt" and "step_men m u ts bs dt w i = (w', j)"
  shows "office_ok l w' \<and> standing (rects_of l) (fl BossRadius) (b_pos (of_boss w')) \<and>
    (of_router_away w' \<le> 0 \<longrightarrow> standing (rects_of l) (fl BossRadius) (ch_pos (of_claude w')))"
proof -
  let ?e = "fmul (fl (of_nat (of_tick w))) SimStepSeconds"
  have plan: "of_plan w = NewPlan l" using assms(2) by (simp add: office_ok_def)
  define b where "b = StepBoss m (NewPlan l) (of_boss w) ts dt ?e"
  define c where "c = (if of_router_away w \<le> 0
    then Separate (b_pos b) bs (StepChaser (NewPlan l) (of_claude w) ts dt ?e) (rects_of l) else of_claude w)"
  obtain ns k where n: "step_npcs (rects_of l) u dt (of_npcs w) i = (ns, k)" by fastforce
  have w': "w' = w\<lparr>of_boss := b, of_claude := c, of_npcs := ns\<rparr>"
    using assms(4) by (simp add: step_men_def Let_def plan n b_def c_def split: if_splits)
  have "length ns = 2" using length_step_npcs [of "rects_of l" u dt "of_npcs w" i] n assms(2) by (simp add: office_ok_defs)
  moreover have "standing (rects_of l) (fl BossRadius) (b_pos b)" unfolding b_def by (rule boss_standing [OF assms(1)])
  moreover have "0 \<le> b_drunk b \<and> b_drunk b \<le> DrunkSeconds" unfolding b_def using assms(2,3)
    by (intro boss_drunk) (auto simp: office_ok_defs)
  moreover have "of_router_away w \<le> 0 \<longrightarrow> standing (rects_of l) (fl BossRadius) (ch_pos c)"
    using separate_standing [OF assms(1)] by (simp add: c_def)
  moreover have "people_ok l w'" using assms(2) people_same [of w' w l] by (simp add: w' office_ok_def)
  ultimately show ?thesis using assms(2) unfolding w' by (auto simp: office_ok_defs c_def)
qed

lemma Advance_steps:
  assumes "Advance m dt now u i w = (ended, w', j)"
  obtains v1 v2 v3 v4 ts ts' i1 where
    "v1 = map_occ (step_occupant (p_rects (of_plan w)) dt) (w\<lparr>of_tick := of_tick w + 1\<rparr>)"
    and "step_redirect dt ts (v1\<lparr>of_lost_target := (length (on_feet v1) > 0 \<and> targets_of v1 = [])\<rparr>) = (ts', v2)" and "ts = targets_of v1"
    and "step_office_props dt u (step_router dt (map_occ (step_timers dt) v2)) i = (v3, i1)"
    and "step_men m u ts' (bodies_of v1) dt v3 i1 = (v4, j)"
    and "end_each now (slow_down (record_trail v4)) (keys (slow_down (record_trail v4))) ([], slow_down (record_trail v4)) = (ended, w')"
proof -
  define v1 where "v1 = map_occ (step_occupant (p_rects (of_plan w)) dt) (w\<lparr>of_tick := of_tick w + 1\<rparr>)"
  define z where "z = v1\<lparr>of_lost_target := (length (on_feet v1) > 0 \<and> targets_of v1 = [])\<rparr>"
  obtain ts' v2 where r: "step_redirect dt (targets_of v1) z = (ts', v2)" by fastforce
  obtain v3 i1 where p: "step_office_props dt u (step_router dt (map_occ (step_timers dt) v2)) i = (v3, i1)" by fastforce
  obtain v4 i2 where s: "step_men m u ts' (bodies_of v1) dt v3 i1 = (v4, i2)" by fastforce
  obtain es x where e: "end_each now (slow_down (record_trail v4)) (keys (slow_down (record_trail v4))) ([], slow_down (record_trail v4)) = (es, x)"
    by fastforce
  have "Advance m dt now u i w = (es, x, i2)"
    unfolding Advance_def Let_def office.simps
    using r p s e unfolding z_def v1_def by simp
  with assms that [OF v1_def r [unfolded z_def] refl p] s e show ?thesis by simp
qed

lemma advance_ok:
  assumes "ValidateLayout l = []" and "office_ok l w" and "0 \<le> dt" and "Advance m dt now u i w = (ended, w', j)"
  shows "office_ok l w'"
proof -
  from assms(4) obtain v1 v2 v3 v4 ts ts' i1 where
    v1: "v1 = map_occ (step_occupant (p_rects (of_plan w)) dt) (w\<lparr>of_tick := of_tick w + 1\<rparr>)"
    and v2: "step_redirect dt ts (v1\<lparr>of_lost_target := (length (on_feet v1) > 0 \<and> targets_of v1 = [])\<rparr>) = (ts', v2)"
    and v3: "step_office_props dt u (step_router dt (map_occ (step_timers dt) v2)) i = (v3, i1)"
    and v4: "step_men m u ts' (bodies_of v1) dt v3 i1 = (v4, j)"
    and v5: "end_each now (slow_down (record_trail v4)) (keys (slow_down (record_trail v4))) ([], slow_down (record_trail v4)) = (ended, w')"
    by (elim Advance_steps)
  have plan: "p_rects (of_plan w) = rects_of l" using assms(2) by (simp add: office_ok_def)
  have "office_ok l (w\<lparr>of_tick := of_tick w + 1\<rparr>)"
    using assms(2) people_same [of "w\<lparr>of_tick := of_tick w + 1\<rparr>" w l] by (simp add: office_ok_defs)
  then have "office_ok l v1" unfolding v1 plan by (rule map_occ_office) (rule step_occupant_ok [OF assms(1) _ assms(3)])
  then have "office_ok l (v1\<lparr>of_lost_target := x\<rparr>)" for x
    using people_same [of "v1\<lparr>of_lost_target := x\<rparr>" v1 l] by (simp add: office_ok_defs)
  from redirect_step_ok [OF this assms(3) v2] have "office_ok l v2" .
  then have "office_ok l (map_occ (step_timers dt) v2)" by (rule map_occ_office) (rule timers_ok [OF _ assms(3)])
  then have "office_ok l (step_router dt (map_occ (step_timers dt) v2))" by (rule router_step_ok [OF _ assms(3)])
  from props_step_ok [OF this v3] have "office_ok l v3" .
  from men_step_ok [OF assms(1) this assms(3) v4] have "office_ok l v4" by blast
  then have "office_ok l (record_trail v4)"
    using people_same [of "record_trail v4" v4 l] by (simp add: office_ok_defs record_trail_def)
  then have s: "office_ok l (slow_down (record_trail v4))"
    unfolding slow_down_def by (auto intro: map_occ_office land_ok)
  then have "people_ok l (slow_down (record_trail v4))" by (simp add: office_ok_def)
  from people_fold_del [OF this] s show ?thesis using v5 unfolding end_each_eq by (auto simp: office_ok_defs)
qed

end
