(* ===== verification/FintechShift.thy ===== *)
theory FintechShift
  imports FintechReach
begin

text \<open>
  The claims about a shift: the invariant of every reachable office, that a command is simulated
  once and in order, that nobody buys more simulated time than has passed, who is ended by a tick
  and why, and where a joiner is put.
\<close>

section \<open>Reachable offices\<close>

inductive office_step :: "trig \<Rightarrow> (nat \<Rightarrow> int option) \<Rightarrow> office \<Rightarrow> office \<Rightarrow> bool" for m raw where
  joins: "Join acc shift ps av persona now (draws raw) i w = Inr (w', j) \<Longrightarrow> office_step m raw w w'"
| leaves: "office_step m raw w (snd (Leave acc w))"
| evicts: "office_step m raw w (snd (EvictAll w))"
| sees: "office_step m raw w (Seen acc now w)"
| hears: "\<forall>c \<in> set (in_cmds inp). doubles c \<Longrightarrow> office_step m raw w (Enqueue acc inp now w)"
| ticks: "0 \<le> dt \<Longrightarrow> Advance m dt now (draws raw) i w = (ended, w', j) \<Longrightarrow> office_step m raw w w'"
| redirects: "office_step m raw w (snd (Redirect acc handle w))"
| routers: "office_step m raw w (snd (RouterDown acc w))"

inductive office_reach :: "trig \<Rightarrow> (nat \<Rightarrow> int option) \<Rightarrow> layout \<Rightarrow> office \<Rightarrow> bool" for m raw l where
  opens: "ValidateLayout l = [] \<Longrightarrow> in_range raw \<Longrightarrow> office_reach m raw l (NewOffice (NewPlan l))"
| moves: "office_reach m raw l w \<Longrightarrow> office_step m raw w w' \<Longrightarrow> office_reach m raw l w'"

inductive_cases office_stepE: "office_step m raw w w'"

lemma new_office_ok: "office_ok l (NewOffice (NewPlan l))"
  by (simp add: office_ok_defs NewOffice_def people_ok_def lookup_occ_def MaxOccupants_def NewBoss_def NewChaser_def
    NewNPCs_def npc_spawns_def props_ok_def BottleSpots_def HookahSpots_def RouterSeconds_def RouterCooldown_def
    RedirectSeconds_def DrunkSeconds_def)

lemma office_step_ok:
  assumes "ValidateLayout l = []" and "in_range raw" and "office_ok l w" and "office_step m raw w w'"
  shows "office_ok l w'"
  using assms(4)
proof cases
  case (joins acc shift ps av persona now i j)
  then show ?thesis using join_ok [OF assms(3,2)] by blast
next
  case (ticks dt now i ended j)
  then show ?thesis using advance_ok [OF assms(1,3)] by blast
qed (use assms(3) in \<open>auto intro: leave_ok evict_ok seen_ok enqueue_office_ok redirect_ok router_ok\<close>)

lemma office_reach_ok: "office_reach m raw l w \<Longrightarrow> ValidateLayout l = [] \<and> in_range raw \<and> office_ok l w"
  by (induction rule: office_reach.induct) (auto intro: new_office_ok office_step_ok)

section \<open>What a tick does to somebody who stays\<close>

lemma on_feet_iff: "(k, oc) \<in> set (on_feet w) \<longleftrightarrow> lookup_occ k w = Some oc \<and> p_alive (oc_state oc)"
  by (auto simp: on_feet_def in_order_set)

lemma lookup_same: "of_occupants w' = of_occupants w \<Longrightarrow> lookup_occ k w' = lookup_occ k w"
  by (simp add: lookup_occ_def)

definition stays_as :: "occupant \<Rightarrow> occupant \<Rightarrow> bool" where
  "stays_as oc oc' \<longleftrightarrow> oc_account oc' = oc_account oc \<and> oc_shift oc' = oc_shift oc \<and> oc_pending oc' = oc_pending oc \<and>
     oc_last_seq oc' = oc_last_seq oc \<and> oc_high_seq oc' = oc_high_seq oc \<and> oc_budget oc' = oc_budget oc \<and>
     oc_seen oc' = oc_seen oc \<and> oc_rtt oc' = oc_rtt oc \<and> oc_started oc' = oc_started oc \<and>
     (\<exists>s. oc_state oc' = (oc_state oc)\<lparr>p_slow_left := s\<rparr>)"

lemma stays_refl: "stays_as oc oc"
  by (auto simp: stays_as_def intro: exI [of _ "p_slow_left (oc_state oc)"])

lemma stays_trans: "stays_as a b \<Longrightarrow> stays_as b c \<Longrightarrow> stays_as a c"
  by (auto simp: stays_as_def)

lemma timers_stay: "stays_as oc (step_timers dt oc)"
  using stays_refl [of oc] by (simp add: stays_as_def step_timers_def)

lemma land_stay: "stays_as oc (land w oc)"
  using stays_refl [of oc] by (auto simp: stays_as_def land_def)

lemma smoke_lookup:
  "lookup_occ k (smoke ts w) = map_option (\<lambda>oc. if k \<in> set ts then oc\<lparr>oc_invincible := InvincibleSeconds\<rparr> else oc) (lookup_occ k w)"
proof -
  have "map_of (map (\<lambda>(k, oc). (k, f k oc)) m) k = map_option (f k) (map_of m k)" for f :: "string \<Rightarrow> occupant \<Rightarrow> occupant" and m
    by (induction m) auto
  then show ?thesis by (simp add: lookup_occ_def smoke_def)
qed

definition same_people :: "office \<Rightarrow> office \<Rightarrow> bool" where
  "same_people w w' \<longleftrightarrow> map fst (of_occupants w') = map fst (of_occupants w) \<and> of_tick w' = of_tick w \<and>
     (\<forall>k. rel_option stays_as (lookup_occ k w) (lookup_occ k w'))"

lemma same_people_eq: "of_occupants w' = of_occupants w \<Longrightarrow> of_tick w' = of_tick w \<Longrightarrow> same_people w w'"
  by (simp add: same_people_def lookup_occ_def option.rel_refl stays_refl)

lemma same_people_trans: "same_people a b \<Longrightarrow> same_people b c \<Longrightarrow> same_people a c"
  unfolding same_people_def by (simp, metis (mono_tags, opaque_lifting) option.rel_sel stays_trans)

lemma same_people_map: "(\<And>oc. stays_as oc (f oc)) \<Longrightarrow> same_people w (map_occ f w)"
  by (simp add: same_people_def lookup_map_occ option.rel_map option.rel_refl)
    (simp add: map_occ_def comp_def case_prod_beta)

lemma same_people_smoke: "same_people w (smoke ts w)"
proof -
  have "stays_as oc (if b then oc\<lparr>oc_invincible := InvincibleSeconds\<rparr> else oc)" for oc b
    using stays_refl [of oc] by (auto simp: stays_as_def)
  then show ?thesis
    by (simp add: same_people_def smoke_lookup option.rel_map option.rel_refl)
      (simp add: smoke_def comp_def case_prod_beta)
qed

lemma props_parts:
  assumes "step_office_props dt u w i = (w', j)"
  shows "\<exists>bs hs i1 x i2. step_bottles dt u (w\<lparr>of_bottles := bs, of_hookahs := hs\<rparr>) i1 = (x, i2) \<and> step_hookahs dt u x i2 = (w', j)"
proof -
  let ?want = "if length (on_feet w) * PropsPerPlayer < 1 then 1 else length (on_feet w) * PropsPerPlayer"
  obtain bs i1 where r1: "reconcileProps BottleSpots ?want u (of_bottles w) i = (bs, i1)" by fastforce
  obtain hs i2 where r2: "reconcileProps HookahSpots ?want u (of_hookahs w) i1 = (hs, i2)" by fastforce
  define v where "v = w\<lparr>of_bottles := bs, of_hookahs := hs\<rparr>"
  obtain x i3 where s1: "step_bottles dt u v i2 = (x, i3)" by fastforce
  have "step_office_props dt u w i = step_hookahs dt u x i3"
    unfolding step_office_props_def Let_def r1 prod.case r2 v_def [symmetric] s1 ..
  then show ?thesis using assms s1 unfolding v_def by metis
qed

lemma bottles_keep:
  "of_occupants (fst (step_bottles dt u w i)) = of_occupants w" "of_tick (fst (step_bottles dt u w i)) = of_tick w"
  "of_trail (fst (step_bottles dt u w i)) = of_trail w" "of_trail (fst (step_hookahs dt u w i)) = of_trail w"
  by (auto simp: step_bottles_def step_hookahs_def smoke_def split: prod.split)

lemma props_trail:
  assumes "step_office_props dt u w i = (w', j)" shows "of_trail w' = of_trail w"
proof -
  from props_parts [OF assms] obtain bs hs i1 x i2 where
    p: "step_bottles dt u (w\<lparr>of_bottles := bs, of_hookahs := hs\<rparr>) i1 = (x, i2)" "step_hookahs dt u x i2 = (w', j)" by blast
  show ?thesis using bottles_keep(3) [of dt u "w\<lparr>of_bottles := bs, of_hookahs := hs\<rparr>" i1] bottles_keep(4) [of dt u x i2] p by simp
qed

lemma props_same_people: "step_office_props dt u w i = (w', j) \<Longrightarrow> same_people w w'"
proof -
  assume h: "step_office_props dt u w i = (w', j)"
  have k: "same_people w (fst (step_hookahs dt u w i))" for w i
  proof -
    obtain ps ts i' where "step_props [0 ..< length (of_hookahs w)] HookahSpots HookahReturn (fl HookahReach) dt (on_feet w) u (of_hookahs w) i
        = (ps, ts, i')" by (metis prod.exhaust)
    then have "fst (step_hookahs dt u w i) = smoke ts (w\<lparr>of_hookahs := ps\<rparr>)" by (simp add: step_hookahs_def)
    then show ?thesis using same_people_trans [OF same_people_eq same_people_smoke, of "w\<lparr>of_hookahs := ps\<rparr>" w ts] by simp
  qed
  from props_parts [OF h] obtain bs hs i1 x i2 where
    p: "step_bottles dt u (w\<lparr>of_bottles := bs, of_hookahs := hs\<rparr>) i1 = (x, i2)" "step_hookahs dt u x i2 = (w', j)" by blast
  have w': "w' = fst (step_hookahs dt u x i2)" using p(2) by simp
  have "of_occupants x = of_occupants w" "of_tick x = of_tick w" using bottles_keep(1,2) [of dt u "w\<lparr>of_bottles := bs, of_hookahs := hs\<rparr>" i1] p(1) by simp_all
  from same_people_trans [OF same_people_eq [OF this] k] show ?thesis unfolding w' .
qed

text \<open>
  What a tick leaves of somebody it does not end is what his commands made of him, up to the slow of
  the other pursuer, the timers and the clouds. The verdict is taken on the office \<open>v\<close> after the men have moved.
\<close>

lemma tick_people:
  assumes "Advance m dt now u i w = (ended, w', j)"
  shows "\<exists>v. of_tick v = of_tick w + 1 \<and> keys v = keys w \<and>
    of_trail v = (of_trail w)[(of_tick w + 1) mod trailLen := \<lparr>tp_boss = b_pos (of_boss v), tp_claude = ch_pos (of_claude v)\<rparr>] \<and>
    (\<forall>k. rel_option stays_as (map_option (step_occupant (p_rects (of_plan w)) dt) (lookup_occ k w)) (lookup_occ k v)) \<and>
    ended = map (\<lambda>k. end_shift (the (outcome now v (the (lookup_occ k v)))) (the (lookup_occ k v)))
        (filter (\<lambda>k. outcome now v (the (lookup_occ k v)) \<noteq> None) (keys w)) \<and>
    w' = fold del_occ (filter (\<lambda>k. outcome now v (the (lookup_occ k v)) \<noteq> None) (keys w)) v"
proof -
  from assms obtain v1 v2 v3 v4 ts ts' i1 where
    v1: "v1 = map_occ (step_occupant (p_rects (of_plan w)) dt) (w\<lparr>of_tick := of_tick w + 1\<rparr>)"
    and v2: "step_redirect dt ts (v1\<lparr>of_lost_target := (length (on_feet v1) > 0 \<and> targets_of v1 = [])\<rparr>) = (ts', v2)"
    and v3: "step_office_props dt u (step_router dt (map_occ (step_timers dt) v2)) i = (v3, i1)"
    and v4: "step_men m u ts' (bodies_of v1) dt v3 i1 = (v4, j)"
    and v5: "end_each now (slow_down (record_trail v4)) (keys (slow_down (record_trail v4))) ([], slow_down (record_trail v4)) = (ended, w')"
    by (elim Advance_steps)
  let ?v = "slow_down (record_trail v4)"
  have o2: "of_occupants v2 = of_occupants v1" "of_tick v2 = of_tick v1"
    using v2 by (auto simp: step_redirect_def Let_def split: if_splits option.splits)
  have o4: "of_occupants v4 = of_occupants v3" "of_tick v4 = of_tick v3"
    using v4 by (auto simp: step_men_def Let_def split: prod.splits if_splits)
  have "same_people v1 v2" by (rule same_people_eq [OF o2])
  moreover have "same_people v2 (map_occ (step_timers dt) v2)" by (rule same_people_map [OF timers_stay])
  moreover have "same_people (map_occ (step_timers dt) v2) (step_router dt (map_occ (step_timers dt) v2))"
    by (rule same_people_eq) (simp_all add: step_router_def Let_def)
  moreover have "same_people (step_router dt (map_occ (step_timers dt) v2)) v3" by (rule props_same_people [OF v3])
  moreover have "same_people v3 v4" by (rule same_people_eq [OF o4])
  moreover have "same_people v4 (record_trail v4)" by (rule same_people_eq) (simp_all add: record_trail_def)
  moreover have "same_people (record_trail v4) ?v"
    unfolding slow_down_def using same_people_map [OF land_stay] same_people_eq [OF refl refl] by simp
  ultimately have same: "same_people v1 ?v" by (meson same_people_trans)
  moreover have "lookup_occ k v1 = map_option (step_occupant (p_rects (of_plan w)) dt) (lookup_occ k w)" for k
    using lookup_same [of "w\<lparr>of_tick := of_tick w + 1\<rparr>" w k] by (simp add: v1 lookup_map_occ)
  ultimately have people: "rel_option stays_as (map_option (step_occupant (p_rects (of_plan w)) dt) (lookup_occ k w)) (lookup_occ k ?v)" for k
    unfolding same_people_def by metis
  have "map fst (of_occupants v1) = map fst (of_occupants w)" by (simp add: v1 map_occ_def comp_def case_prod_beta)
  then have keys: "keys ?v = keys w" using same by (simp add: keys_def same_people_def)
  have tick: "of_tick ?v = of_tick w + 1" using same by (simp add: same_people_def v1)
  have "of_trail v1 = of_trail w" by (simp add: v1)
  moreover have "of_trail v2 = of_trail v1" using v2 by (auto simp: step_redirect_def Let_def split: if_splits option.splits)
  moreover have "of_trail (step_router dt (map_occ (step_timers dt) v2)) = of_trail v2" by (simp add: step_router_def Let_def)
  moreover note props_trail [OF v3]
  moreover have "of_trail v4 = of_trail v3" using v4 by (auto simp: step_men_def Let_def split: prod.splits if_splits)
  moreover have "of_tick v4 = of_tick w + 1" using tick by (simp add: slow_down_def record_trail_def split: if_splits)
  ultimately have trail: "of_trail ?v = (of_trail w)[(of_tick w + 1) mod trailLen := \<lparr>tp_boss = b_pos (of_boss ?v), tp_claude = ch_pos (of_claude ?v)\<rparr>]"
    by (simp add: slow_down_def record_trail_def map_occ_def)
  note e = v5 [unfolded end_each_eq keys, symmetric]
  show ?thesis using tick keys people trail by (intro exI [of _ ?v] conjI allI) (use e in simp_all)
qed


lemma fold_del_lookup: "lookup_occ k (fold del_occ ks v) = (if k \<in> set ks then None else lookup_occ k v)"
  by (induction ks arbitrary: v) (simp_all add: lookup_del_occ)

section \<open>The claims\<close>

text \<open>C25:
  Whatever is done to an office opened on an accepted floor, in whatever order, with whatever is drawn
  and whatever a client sends: at most three people are in it, each once and each alive; everybody stands
  in the room and out of the furniture, his queue is strictly ascending above the last command applied
  and at most forty long, his budget is between nothing and half a second; bottles and kalyans stand on
  distinct spots of their catalogue; the men are on the floor, and every timer is within its span.
\<close>

theorem office_stays_well_formed:
  assumes "office_reach m raw l w"
  shows "office_ok l w \<and> length (of_occupants w) \<le> 3 \<and> distinct (map fst (of_occupants w)) \<and>
    (\<forall>k oc. lookup_occ k w = Some oc \<longrightarrow> occ_ok (rects_of l) k oc)"
  using office_reach_ok [OF assms] by (auto simp: office_ok_def people_ok_def MaxOccupants_def)

definition demo_draws :: "nat \<Rightarrow> int option" where "demo_draws i = Some 0"

definition demo_trig :: trig where "demo_trig = \<lparr>t_sin = \<lambda>x. 0, t_cos = \<lambda>x. 1, t_atan2 = \<lambda>y x. 0\<rparr>"

text \<open>An office with one person in it.\<close>

definition demo_office :: office where
  "demo_office = (case Join ''ann'' ''s1'' ''p1'' '''' 0 1000 (draws demo_draws) 0 (NewOffice (NewPlan one_desk)) of
     Inr (w, j) \<Rightarrow> w | Inl e \<Rightarrow> NewOffice (NewPlan one_desk))"

definition demo_spot :: vec2 where "demo_spot = \<lparr>vx = fl PlayerRadius, vy = fl PlayerRadius\<rparr>"

lemma demo_spot_numbers:
  "insideRect \<lparr>rx = 4, ry = 4, rw = 1, rh = 1\<rparr> demo_spot (fl PlayerRadius) = False"
  "(fl spawnFromBoss \<le> between BossSpawn demo_spot) = True" "Caught BossSpawn demo_spot = False"
  "resolve [\<lparr>rx = 4, ry = 4, rw = 1, rh = 1\<rparr>] (fl PlayerRadius) demo_spot = demo_spot"
proof -
  let ?d = "\<lparr>rx = 4, ry = 4, rw = 1, rh = 1\<rparr>"
  have r: "fl PlayerRadius \<le> 1 / 2" by (rule fl_le) (simp_all add: PlayerRadius_def)
  have le: "fl PlayerRadius \<le> fsub c (fl PlayerRadius)" if "1 \<le> c" for c
    unfolding fsub_def using r that by (intro le_fl) simp_all
  then have lo: "vx demo_spot \<le> lo_x ?d (fl PlayerRadius)" by (simp add: demo_spot_def lo_x_def)
  then show "insideRect ?d demo_spot (fl PlayerRadius) = False" using not_insideRect by blast
  have "20 \<le> fsub (205 / 10) (fl PlayerRadius)" unfolding fsub_def using r by (intro le_fl) simp_all
  also have "\<dots> \<le> \<bar>fsub (vy BossSpawn) (vy demo_spot)\<bar>" by (simp add: BossSpawn_def demo_spot_def)
  also have "\<dots> \<le> between BossSpawn demo_spot" unfolding between_def by (rule hypot_ge) (simp_all add: fsub_def)
  finally have far: "20 \<le> between BossSpawn demo_spot" .
  have "fl spawnFromBoss \<le> 16" "fl (CatchRadius + PlayerRadius) \<le> 2"
    by (auto intro!: fl_le simp: spawnFromBoss_def spawnHeadStart_def MinShiftSeconds_def BossSpeed_def CatchRadius_def PlayerRadius_def)
  then show "(fl spawnFromBoss \<le> between BossSpawn demo_spot) = True" "Caught BossSpawn demo_spot = False"
    using far by (simp_all add: Caught_def)
  have "clampToFloor demo_spot (fl PlayerRadius) = demo_spot"
    using le [of OfficeW] le [of OfficeH] by (simp add: clampToFloor_def clamp_def demo_spot_def OfficeW_def OfficeH_def)
  then show "resolve [?d] (fl PlayerRadius) demo_spot = demo_spot"
    using lo by (simp add: resolve_def pushOut_def)
qed

lemma demo_join:
  "Join ''ann'' ''s1'' ''p1'' '''' 0 1000 (draws demo_draws) 0 (NewOffice (NewPlan one_desk)) = Inr (demo_office, 2)"
  "lookup_occ ''ann'' demo_office = Some (new_occupant ''ann'' ''s1'' ''p1'' '''' 0 demo_spot 1000 0)"
proof -
  have d: "draw_point (draws demo_draws) 0 = demo_spot"
    by (simp add: draw_point_def draws_def demo_draws_def unitRand_def demo_spot_def fadd_def fmul_def fdiv_def)
  have f: "spawn_free (NewOffice (NewPlan one_desk)) demo_spot"
    using demo_spot_numbers(1) by (simp add: spawn_free_def NewOffice_def rects_of_def one_desk_def)
  have n: "spawnTries = Suc 63" by (simp add: spawnTries_def)
  have g: "fl spawnFromBoss \<le> between (b_pos (of_boss (NewOffice (NewPlan one_desk)))) demo_spot"
    using demo_spot_numbers(2) by (simp add: NewOffice_def NewBoss_def)
  have "spawnPoint (NewOffice (NewPlan one_desk)) (draws demo_draws) 0 = (demo_spot, 2)"
    unfolding spawnPoint_def n spawn_draw.simps(2) d Let_def by (simp add: f g)
  then show "Join ''ann'' ''s1'' ''p1'' '''' 0 1000 (draws demo_draws) 0 (NewOffice (NewPlan one_desk)) = Inr (demo_office, 2)"
    and "lookup_occ ''ann'' demo_office = Some (new_occupant ''ann'' ''s1'' ''p1'' '''' 0 demo_spot 1000 0)"
    by (simp_all add: demo_office_def Join_def lookup_occ_def NewOffice_def MaxOccupants_def set_occ_def)
qed

lemma join_keeps:
  "Join acc shift ps av persona now u i w = Inr (w', j) \<Longrightarrow> of_plan w' = of_plan w \<and> of_tick w' = of_tick w \<and> of_trail w' = of_trail w"
  by (auto simp: Join_def split: if_splits prod.splits)

lemma demo_reach: "office_reach demo_trig demo_draws one_desk demo_office"
proof -
  have "in_range demo_draws" by (simp add: in_range_def demo_draws_def)
  from office_reach.opens [OF one_desk_valid this] demo_join show ?thesis
    by (blast intro: office_reach.moves office_step.joins)
qed

theorem office_stays_well_formed_witness:
  "office_ok one_desk demo_office \<and> (\<exists>oc. lookup_occ ''ann'' demo_office = Some oc)"
  using office_stays_well_formed [OF demo_reach] demo_join by blast

lemma spent_nothing:
  assumes "\<forall>c \<in> set run. 0 \<le> c_dt c" and "fold (\<lambda>c s. fadd s (c_dt c)) run s = 0" and "0 \<le> s" and "fl s = s"
  shows "s = 0 \<and> (\<forall>c \<in> set run. c_dt c = 0)"
  using assms
proof (induction run arbitrary: s)
  case (Cons c run)
  have c: "0 \<le> c_dt c" using Cons.prems by simp
  have n: "0 \<le> fadd s (c_dt c)" unfolding fadd_def using Cons.prems(3) c by (intro fl_nonneg) simp
  have d: "fl (fadd s (c_dt c)) = fadd s (c_dt c)" by (simp add: fadd_def)
  have "\<forall>c \<in> set run. 0 \<le> c_dt c" "fold (\<lambda>c s. fadd s (c_dt c)) run (fadd s (c_dt c)) = 0" using Cons.prems(1,2) by auto
  from Cons.IH [OF this n d] have z: "fadd s (c_dt c) = 0" "\<forall>c \<in> set run. c_dt c = 0" by auto
  have "s + c_dt c \<le> 0"
  proof (rule ccontr)
    assume "\<not> s + c_dt c \<le> 0"
    then show False using fl_pos [of "s + c_dt c"] z(1) by (simp add: fadd_def)
  qed
  then show ?case using Cons.prems(3) c z(2) by auto
qed simp

lemma step_occupant_cases:
  fixes rects dt oc
  defines "run \<equiv> taken (oc_pending oc) (oc_budget (accrue dt oc))"
  assumes "\<forall>c \<in> set (oc_pending oc). 0 \<le> c_dt c"
  shows "oc_pending oc = run @ oc_pending (step_occupant rects dt oc) \<and>
    oc_last_seq (step_occupant rects dt oc) = last_of run (oc_last_seq oc) \<and>
    (\<exists>idle. oc_state (step_occupant rects dt oc) = play rects (run @ idle) (oc_state oc) \<and>
       (idle = [] \<or> idle = [idle_command (fl dt)] \<and> oc_pending (step_occupant rects dt oc) = [] \<and> (\<forall>c \<in> set run. c_dt c = 0))) \<and>
    (oc_budget (step_occupant rects dt oc) = spend run (oc_budget (accrue dt oc)) \<or>
       (\<exists>d > 0. oc_budget (step_occupant rects dt oc) = max 0 (fsub (spend run (oc_budget (accrue dt oc))) d)))"
proof -
  let ?spent = "fold (\<lambda>c s. fadd s (c_dt c)) run 0"
  let ?rest = "drop (length run) (oc_pending oc)"
  define oc' where "oc' = oc\<lparr>oc_pending := ?rest, oc_state := play rects run (oc_state oc),
    oc_last_seq := last_of run (oc_last_seq oc), oc_budget := spend run (oc_budget (accrue dt oc))\<rparr>"
  have split: "oc_pending oc = run @ ?rest" unfolding run_def by (rule drop_taken)
  have "drain rects (oc_pending oc) (accrue dt oc) 0 = (oc', ?spent)"
    by (simp add: drain_eq accrue_def oc'_def run_def)
  then have e: "step_occupant rects dt oc =
      (if fsub dt ?spent > 0 \<and> ?spent = 0 \<and> ?rest = []
       then oc'\<lparr>oc_state := step_player rects (oc_state oc') (idle_command (fsub dt ?spent)),
                oc_budget := max 0 (fsub (oc_budget oc') (fsub dt ?spent))\<rparr> else oc')"
    unfolding step_occupant_def by (simp only: prod.case Let_def) (simp add: oc'_def)
  show ?thesis
  proof (cases "fsub dt ?spent > 0 \<and> ?spent = 0 \<and> ?rest = []")
    case False
    then have "step_occupant rects dt oc = oc'" unfolding e by (rule if_not_P)
    then show ?thesis using split by (auto simp: oc'_def intro!: exI [of _ "[]"])
  next
    case True
    then have z: "?spent = 0" "?rest = []" by blast+
    have "\<forall>c \<in> set run. 0 \<le> c_dt c" using assms(2) split by (metis Un_iff set_append)
    then have "\<forall>c \<in> set run. c_dt c = 0" using spent_nothing [OF _ z(1)] by simp
    moreover have "fsub dt 0 = fl dt" by (simp add: fsub_def)
    moreover have "step_occupant rects dt oc =
        oc'\<lparr>oc_state := step_player rects (oc_state oc') (idle_command (fsub dt ?spent)),
            oc_budget := max 0 (fsub (oc_budget oc') (fsub dt ?spent))\<rparr>" unfolding e by (rule if_P [OF True])
    moreover have "0 < fl dt" using True z(1) by (simp add: fsub_def)
    ultimately show ?thesis using split z
      by (intro conjI exI [of _ "[idle_command (fl dt)]"]) (auto simp: oc'_def play_def)
  qed
qed

lemma enqueue_twice:
  assumes "lookup_occ k w = Some oc" and "\<not> oc_ended oc"
  shows "\<exists>oc1 oc2 n. lookup_occ k (Enqueue k inp t w) = Some oc1 \<and>
      lookup_occ k (Enqueue k inp t' (Enqueue k inp t w)) = Some oc2 \<and>
      oc_pending oc2 = oc_pending oc1 \<and> oc_high_seq oc2 = oc_high_seq oc1 \<and>
      oc_pending oc1 = drop n (oc_pending oc @ map Sanitise (fresh (oc_high_seq oc) (in_cmds inp)))"
proof -
  have keep: "oc_pending (note_rtt tick seen oc) = oc_pending oc" "oc_high_seq (note_rtt tick seen oc) = oc_high_seq oc"
    "oc_ended (note_rtt tick seen oc) = oc_ended oc" for tick seen oc by (simp_all add: note_rtt_def Let_def)
  have trim: "oc_pending (trim_pending x) = drop (length (oc_pending x) - maxPending) (oc_pending x)"
    "oc_high_seq (trim_pending x) = oc_high_seq x" "oc_ended (trim_pending x) = oc_ended x" for x
    by (simp_all add: trim_pending_def)
  define f where "f = fresh (oc_high_seq oc) (in_cmds inp)"
  define once where "once x s = (let x = note_rtt (of_tick w) (in_seen inp) (x\<lparr>oc_seen := s\<rparr>) in
    if in_cmds inp = [] then x else trim_pending (accept (in_cmds inp) x))" for x s
  have 1: "lookup_occ k (Enqueue k inp t w) = Some (once oc t)"
    using assms by (simp add: Enqueue_def Let_def lookup_set_occ once_def)
  have "\<not> oc_ended (once oc t)" using assms(2) by (simp add: once_def Let_def keep trim accept_eq)
  then have 2: "lookup_occ k (Enqueue k inp t' (Enqueue k inp t w)) = Some (once (once oc t) t')"
    using 1 assms by (simp add: Enqueue_def [of k inp t'] Let_def lookup_set_occ once_def) (simp add: Enqueue_def Let_def)
  have p: "oc_pending (once x s) = drop (length (oc_pending x @ map Sanitise (fresh (oc_high_seq x) (in_cmds inp))) - maxPending)
        (oc_pending x @ map Sanitise (fresh (oc_high_seq x) (in_cmds inp)))"
    "oc_high_seq (once x s) = last_of (fresh (oc_high_seq x) (in_cmds inp)) (oc_high_seq x)"
    if "in_cmds inp \<noteq> []" for x s using that by (simp_all add: once_def Let_def keep trim accept_eq)
  show ?thesis
  proof (cases "in_cmds inp = []")
    case True
    then show ?thesis using 1 2 by (intro exI [of _ "once oc t"] exI [of _ "once (once oc t) t'"] exI [of _ 0])
        (simp add: once_def Let_def keep)
  next
    case False
    have "fresh (oc_high_seq (once oc t)) (in_cmds inp) = []" using fresh_again by (simp add: p(2) [OF False])
    then have "oc_high_seq (once (once oc t) t') = oc_high_seq (once oc t)"
      "oc_pending (once (once oc t) t') = oc_pending (once oc t)"
      using p [OF False, of "once oc t" t'] p(1) [OF False, of oc t] by (simp_all add: last_of_def)
    then show ?thesis using 1 2 p(1) [OF False, of oc t] by blast
  qed
qed

text \<open>C26:
  A tick simulates a prefix of the queue, in order, each command once, all above the last one applied;
  it reports the last of them, keeps the rest waiting, and adds nothing but at most one command without
  input, and that only when no time was claimed and nothing waits. A frame adds to the queue exactly its
  commands with new, ascending sequence numbers, of which the newest stay; sending it again adds nothing.
\<close>

theorem commands_run_once_in_order:
  assumes "office_reach m raw l w" and "lookup_occ k w = Some oc" and "0 \<le> dt"
    and "Advance m dt now (draws raw) i w = (ended, w', j)" and "lookup_occ k w' = Some oc'"
  shows "(\<exists>run idle. oc_pending oc = run @ oc_pending oc' \<and>
      (\<exists>s. oc_state oc' = (play (rects_of l) (run @ idle) (oc_state oc))\<lparr>p_slow_left := s\<rparr>) \<and>
      (idle = [] \<or> idle = [idle_command (fl dt)] \<and> oc_pending oc' = [] \<and> (\<forall>c \<in> set run. c_dt c = 0)) \<and>
      sorted_wrt (<) (oc_last_seq oc # map c_seq run) \<and> oc_last_seq oc' = last_of run (oc_last_seq oc)) \<and>
    (\<exists>oc1 oc2 n. lookup_occ k (Enqueue k inp t w) = Some oc1 \<and>
      lookup_occ k (Enqueue k inp t' (Enqueue k inp t w)) = Some oc2 \<and>
      oc_pending oc2 = oc_pending oc1 \<and> oc_high_seq oc2 = oc_high_seq oc1 \<and>
      oc_pending oc1 = drop n (oc_pending oc @ map Sanitise (fresh (oc_high_seq oc) (in_cmds inp))) \<and>
      sorted_wrt (<) (oc_high_seq oc # map c_seq (fresh (oc_high_seq oc) (in_cmds inp))))"
proof
  from office_reach_ok [OF assms(1)] have ok: "office_ok l w" by blast
  note oc = occ_ok_of [OF ok assms(2)]
  have q: "queue_ok oc" using oc by (simp add: occ_ok_def)
  have rects: "p_rects (of_plan w) = rects_of l" using ok by (simp add: office_ok_def)
  from tick_people [OF assms(4)] obtain v where
    people: "\<forall>k. rel_option stays_as (map_option (step_occupant (p_rects (of_plan w)) dt) (lookup_occ k w)) (lookup_occ k v)"
    and w': "w' = fold del_occ (filter (\<lambda>k. outcome now v (the (lookup_occ k v)) \<noteq> None) (keys w)) v"
    by blast
  have "lookup_occ k v = Some oc'" using assms(5) unfolding w' fold_del_lookup by (metis option.distinct(1))
  then have st: "stays_as (step_occupant (rects_of l) dt oc) oc'" using spec [OF people, of k] assms(2) rects by simp
  have "\<forall>c \<in> set (oc_pending oc). 0 \<le> c_dt c" using q by (auto simp: queue_ok_def sanitised_def)
  note c = step_occupant_cases [OF this, of dt "rects_of l"]
  let ?run = "taken (oc_pending oc) (oc_budget (accrue dt oc))"
  obtain idle where idle: "oc_state (step_occupant (rects_of l) dt oc) = play (rects_of l) (?run @ idle) (oc_state oc)"
      "idle = [] \<or> idle = [idle_command (fl dt)] \<and> oc_pending (step_occupant (rects_of l) dt oc) = [] \<and> (\<forall>c \<in> set ?run. c_dt c = 0)"
    using c by blast
  have "sorted_wrt (<) (oc_last_seq oc # map c_seq (?run @ oc_pending (step_occupant (rects_of l) dt oc)))"
    using q c unfolding queue_ok_def by metis
  then have s: "sorted_wrt (<) (oc_last_seq oc # map c_seq ?run)" by (auto simp: sorted_wrt_append)
  show "\<exists>run idle. oc_pending oc = run @ oc_pending oc' \<and>
      (\<exists>s. oc_state oc' = (play (rects_of l) (run @ idle) (oc_state oc))\<lparr>p_slow_left := s\<rparr>) \<and>
      (idle = [] \<or> idle = [idle_command (fl dt)] \<and> oc_pending oc' = [] \<and> (\<forall>c \<in> set run. c_dt c = 0)) \<and>
      sorted_wrt (<) (oc_last_seq oc # map c_seq run) \<and> oc_last_seq oc' = last_of run (oc_last_seq oc)"
    using st c idle s unfolding stays_as_def by (intro exI [of _ ?run] exI [of _ idle]) simp
  have "\<not> oc_ended oc" using oc by (simp add: occ_ok_def)
  from enqueue_twice [OF assms(2) this, of inp t t'] fresh_sorted [of "oc_high_seq oc" "in_cmds inp"]
  show "\<exists>oc1 oc2 n. lookup_occ k (Enqueue k inp t w) = Some oc1 \<and>
      lookup_occ k (Enqueue k inp t' (Enqueue k inp t w)) = Some oc2 \<and>
      oc_pending oc2 = oc_pending oc1 \<and> oc_high_seq oc2 = oc_high_seq oc1 \<and>
      oc_pending oc1 = drop n (oc_pending oc @ map Sanitise (fresh (oc_high_seq oc) (in_cmds inp))) \<and>
      sorted_wrt (<) (oc_high_seq oc # map c_seq (fresh (oc_high_seq oc) (in_cmds inp)))"
    by blast
qed


text \<open>A quiet tick of the office with one person in it: she is still there.\<close>

lemma demo_tick:
  "\<exists>ended w' j oc'. Advance demo_trig (1 / 20) 2000 (draws demo_draws) 2 demo_office = (ended, w', j) \<and>
     lookup_occ ''ann'' w' = Some oc'"
proof -
  let ?ann = "new_occupant ''ann'' ''s1'' ''p1'' '''' 0 demo_spot 1000 0"
  obtain ended w' j where adv: "Advance demo_trig (1 / 20) 2000 (draws demo_draws) 2 demo_office = (ended, w', j)"
    by (metis prod.exhaust)
  have off: "of_plan demo_office = NewPlan one_desk" "of_tick demo_office = 0" "of_trail demo_office = of_trail (NewOffice (NewPlan one_desk))"
    using join_keeps [OF demo_join(1)] by (simp_all add: NewOffice_def)
  from tick_people [OF adv] obtain v where
    v: "of_tick v = of_tick demo_office + 1"
      "of_trail v = (of_trail demo_office)[(of_tick demo_office + 1) mod trailLen := \<lparr>tp_boss = b_pos (of_boss v), tp_claude = ch_pos (of_claude v)\<rparr>]"
      "\<forall>k. rel_option stays_as (map_option (step_occupant (p_rects (of_plan demo_office)) (1 / 20)) (lookup_occ k demo_office)) (lookup_occ k v)"
      "w' = fold del_occ (filter (\<lambda>k. outcome 2000 v (the (lookup_occ k v)) \<noteq> None) (keys demo_office)) v"
    by blast
  let ?st = "step_occupant (rects_of one_desk) (1 / 20) ?ann"
  have "rel_option stays_as (Some ?st) (lookup_occ ''ann'' v)" using spec [OF v(3), of "''ann''"] off demo_join(2) by simp
  then obtain oc where oc: "lookup_occ ''ann'' v = Some oc" "stays_as ?st oc"
    by (cases "lookup_occ ''ann'' v") auto
  have st: "p_pos (oc_state ?st) = demo_spot" "oc_seen ?st = 1000" "oc_rtt ?st = 0"
  proof -
    have f: "fl (1 / 20) > 0" by (rule fl_pos) simp
    have "p_pos (step_player (rects_of one_desk) (NewPlayerAt demo_spot) (idle_command (fl (1 / 20)))) =
        resolve (rects_of one_desk) (fl PlayerRadius) demo_spot"
      by (simp add: step_player_fields move_player_def Let_def idle_command_def NewPlayerAt_def start_dash_def run_timers_def)
        (simp add: demo_spot_def fadd_def fmul_def)
    then have p: "p_pos (step_player (rects_of one_desk) (NewPlayerAt demo_spot) (idle_command (fl (1 / 20)))) = demo_spot"
      using demo_spot_numbers(4) by (simp add: rects_of_def one_desk_def)
    show "p_pos (oc_state ?st) = demo_spot" "oc_seen ?st = 1000" "oc_rtt ?st = 0"
      using f p by (simp_all add: step_occupant_def new_occupant_def accrue_def fsub_def Let_def)
  qed
  then have o: "p_pos (oc_state oc) = demo_spot" "oc_seen oc = 1000" "oc_rtt oc = 0"
    using oc(2) by (auto simp: stays_as_def)
  have r: "rewind_ticks v oc = 1"
  proof -
    have "(1 \<le> nat (fround (fdiv (fadd 0 (fl RenderDelaySeconds)) SimStepSeconds))) = True" "(fadd 0 (fl RenderDelaySeconds) > fl CatchRewindMax) = False"
      by code_simp+
    then show ?thesis using v(1) off(2) o(3) by (auto simp: rewind_ticks_def Let_def trailLen_def CatchRewindMax_def SimHz_def)
  qed
  have "tp_boss (seenBy v oc) = BossSpawn"
    using v(1,2) off r by (simp add: seenBy_def trailLen_def NewOffice_def NewBoss_def CatchRewindMax_def SimHz_def)
  then have "outcome 2000 v oc = None" using o demo_spot_numbers(3) by (simp add: outcome_def AbandonGrace_def)
  then have "lookup_occ ''ann'' w' = Some oc" unfolding v(4) fold_del_lookup using oc(1) by simp
  then show ?thesis using adv by blast
qed

theorem commands_run_once_in_order_witness:
  "\<exists>oc'. oc_pending oc' = [] \<and> oc_last_seq oc' = 0 \<and>
     (\<exists>ended w' j. Advance demo_trig (1 / 20) 2000 (draws demo_draws) 2 demo_office = (ended, w', j) \<and> lookup_occ ''ann'' w' = Some oc')"
proof -
  from demo_tick obtain ended w' j oc' where
    t: "Advance demo_trig (1 / 20) 2000 (draws demo_draws) 2 demo_office = (ended, w', j)" "lookup_occ ''ann'' w' = Some oc'" by blast
  from commands_run_once_in_order [OF demo_reach demo_join(2) _ t]
  have "oc_pending oc' = [] \<and> oc_last_seq oc' = 0" by (auto simp: new_occupant_def last_of_def)
  then show ?thesis using t by blast
qed

end
