(* ===== verification/FintechVerdict.thy ===== *)
theory FintechVerdict
  imports FintechShift
begin

text \<open>
  How much simulated time a client can buy, who is ended by a tick and why, and where a joiner is
  put relative to the boss.
\<close>

section \<open>The time budget\<close>

definition claimed :: "f64 \<Rightarrow> occupant \<Rightarrow> rat" where
  "claimed dt oc = sum_list (map c_dt (taken (oc_pending oc) (oc_budget (accrue dt oc))))"

lemma claimed_bound:
  assumes "occ_ok rects k oc" and "0 \<le> dt" and "dt \<le> 1 / 2"
  shows "claimed dt oc \<le> 1 / 2 + 40 / 2 ^ 53 \<and>
    claimed dt oc + oc_budget (step_occupant rects dt oc) \<le> oc_budget oc + dt + 41 / 2 ^ 53"
proof -
  let ?b = "oc_budget (accrue dt oc)"
  let ?run = "taken (oc_pending oc) ?b"
  have q: "queue_ok oc" "0 \<le> oc_budget oc" "oc_budget oc \<le> 1 / 2" using assms(1) by (auto simp: occ_ok_def)
  note b = accrue_ok [OF q(2) assms(2)]
  have pos: "\<forall>c \<in> set (oc_pending oc). 0 \<le> c_dt c" using q(1) by (auto simp: queue_ok_def sanitised_def)
  from spend_bounds [OF _ _ _ this, of ?b] b
  have s: "0 \<le> spend ?run ?b" "fl (spend ?run ?b) = spend ?run ?b"
    "claimed dt oc \<le> ?b - spend ?run ?b + of_nat (length ?run) / 2 ^ 53" by (auto simp: claimed_def)
  have "length ?run \<le> length (oc_pending oc)" using drop_taken [of "oc_pending oc" ?b] by (metis length_append le_add1)
  then have "length ?run \<le> 40" using q(1) by (simp add: queue_ok_def maxPending_def MaxInboundCommands_def MaxCommandsPerFrame_def RedundantCommands_def)
  then have n: "of_nat (length ?run) / 2 ^ 53 \<le> (40 / 2 ^ 53 :: rat)" by (intro divide_right_mono) simp_all
  have acc: "?b \<le> oc_budget oc + dt + 1 / 2 ^ 53"
  proof -
    have "\<bar>oc_budget oc + dt\<bar> / 2 ^ 53 \<le> 1 / 2 ^ 53" using q assms by (intro divide_right_mono) auto
    with fl_error [of "oc_budget oc + dt"] have "fadd (oc_budget oc) dt \<le> oc_budget oc + dt + 1 / 2 ^ 53"
      unfolding fadd_def by linarith
    then show ?thesis by (simp add: accrue_def)
  qed
  have "fsub (spend ?run ?b) d \<le> spend ?run ?b" if "0 < d" for d
    unfolding fsub_def using that s(2) by (intro fl_le) simp_all
  then have after: "oc_budget (step_occupant rects dt oc) \<le> spend ?run ?b"
    using step_occupant_cases [OF pos, of dt rects] s(1) by auto
  have "(41 :: rat) / 2 ^ 53 = 40 / 2 ^ 53 + 1 / 2 ^ 53" by (simp add: add_divide_distrib [symmetric])
  then show ?thesis using s n acc after b by (intro conjI; linarith)
qed

text \<open>C27:
  The speed-hack guard. However a client fills its queue between ticks, the time its commands claim in one
  tick is at most half a second, and over any number of ticks it is at most the time that passed plus the
  budget it started with, up to 41 roundings of double arithmetic a tick (less than a second in three
  hundred thousand years).
\<close>

theorem nobody_outruns_the_clock:
  assumes "\<forall>i < n. occ_ok rects k (h i)" and "0 \<le> dt" and "dt \<le> 1 / 2" and "oc_budget (h 0) \<le> 1 / 2"
    and "\<forall>i < n. oc_budget (h (Suc i)) = oc_budget (step_occupant rects dt (h i))"
  shows "(\<forall>i < n. claimed dt (h i) \<le> 1 / 2 + 40 / 2 ^ 53) \<and>
    (\<Sum>i < n. claimed dt (h i)) \<le> of_nat n * dt + (oc_budget (h 0) - oc_budget (h n)) + of_nat n * (41 / 2 ^ 53)"
proof
  show "\<forall>i < n. claimed dt (h i) \<le> 1 / 2 + 40 / 2 ^ 53" using claimed_bound assms(1-3) by blast
  have "(\<Sum>i < j. claimed dt (h i)) \<le> of_nat j * dt + (oc_budget (h 0) - oc_budget (h j)) + of_nat j * (41 / 2 ^ 53)" if "j \<le> n" for j
    using that
  proof (induction j)
    case (Suc j)
    then have ih: "(\<Sum>i < j. claimed dt (h i)) \<le> of_nat j * dt + (oc_budget (h 0) - oc_budget (h j)) + of_nat j * (41 / 2 ^ 53)" by simp
    have "claimed dt (h j) + oc_budget (h (Suc j)) \<le> oc_budget (h j) + dt + 41 / 2 ^ 53"
      using claimed_bound [of rects k "h j" dt] assms Suc.prems by simp
    moreover have "of_nat (Suc j) * dt = of_nat j * dt + dt" "of_nat (Suc j) * (41 / 2 ^ 53) = of_nat j * (41 / 2 ^ 53) + (41 / 2 ^ 53 :: rat)"
      by (simp_all add: distrib_right)
    ultimately show ?case using ih unfolding sum.lessThan_Suc by linarith
  qed simp
  then show "(\<Sum>i < n. claimed dt (h i)) \<le> of_nat n * dt + (oc_budget (h 0) - oc_budget (h n)) + of_nat n * (41 / 2 ^ 53)" by simp
qed

theorem nobody_outruns_the_clock_witness:
  "\<exists>oc. lookup_occ ''ann'' demo_office = Some oc \<and> claimed (1 / 20) oc \<le> 1 / 20 + 41 / 2 ^ 53"
proof -
  let ?ann = "new_occupant ''ann'' ''s1'' ''p1'' '''' 0 demo_spot 1000 0"
  let ?h = "\<lambda>i. if i = 0 then ?ann else step_occupant (rects_of one_desk) (1 / 20) ?ann"
  have ok: "occ_ok (rects_of one_desk) ''ann'' ?ann"
    using occ_ok_of office_reach_ok [OF demo_reach] demo_join(2) by blast
  have "0 \<le> oc_budget (step_occupant (rects_of one_desk) (1 / 20) ?ann)"
    using step_occupant_ok [OF one_desk_valid ok, of "1 / 20"] by (simp add: occ_ok_def)
  moreover have "claimed (1 / 20) ?ann \<le> 1 / 20 + (oc_budget ?ann - oc_budget (step_occupant (rects_of one_desk) (1 / 20) ?ann)) + 41 / 2 ^ 53"
    using nobody_outruns_the_clock [of 1 "rects_of one_desk" "''ann''" ?h "1 / 20"] ok by (simp add: occ_ok_def)
  ultimately have "claimed (1 / 20) ?ann \<le> 1 / 20 + 41 / 2 ^ 53" by (simp add: new_occupant_def)
  then show ?thesis using demo_join(2) by blast
qed

section \<open>The verdict\<close>

lemma fround_mono: "x \<le> y \<Longrightarrow> fround x \<le> fround y"
proof -
  assume le: "x \<le> y"
  have f: "of_int \<lfloor>z\<rfloor> \<le> z" "z < of_int \<lfloor>z\<rfloor> + 1" for z :: rat using floor_correct [of z] by auto
  show "fround x \<le> fround y"
  proof (cases "x < 0"; cases "y < 0")
    assume "x < 0" "y < 0"
    then show ?thesis using le floor_mono [of "1 / 2 - y" "1 / 2 - x"] by (simp add: fround_def)
  next
    assume "x < 0" "\<not> y < 0"
    then have "0 \<le> \<lfloor>1 / 2 - x\<rfloor>" "0 \<le> \<lfloor>y + 1 / 2\<rfloor>" by auto
    then have "fround x \<le> 0" "0 \<le> fround y" using \<open>x < 0\<close> \<open>\<not> y < 0\<close> unfolding fround_def by auto
    then show ?thesis by (rule order_trans)
  next
    assume "\<not> x < 0" "y < 0"
    then show ?thesis using le by simp
  next
    assume "\<not> x < 0" "\<not> y < 0"
    then show ?thesis using le floor_mono [of "x + 1 / 2" "y + 1 / 2"] by (simp add: fround_def)
  qed
qed

text \<open>The rewind is capped at six ticks, well within the ring.\<close>

lemma rewind_cap: "rewind_ticks w oc \<le> 6"
proof -
  define x where "x = fadd (oc_rtt oc) (fl RenderDelaySeconds)"
  define y where "y = (if x > fl CatchRewindMax then fl CatchRewindMax else x)"
  have "y \<le> fl CatchRewindMax" by (simp add: y_def)
  moreover have "0 < SimStepSeconds" unfolding SimStepSeconds_fl by (rule fl_pos) simp
  ultimately have "fdiv y SimStepSeconds \<le> fdiv (fl CatchRewindMax) SimStepSeconds"
    unfolding fdiv_def by (intro fl_mono divide_right_mono) simp_all
  moreover have "(fround (fdiv (fl CatchRewindMax) SimStepSeconds)) = 6" by code_simp
  ultimately have "fround (fdiv y SimStepSeconds) \<le> 6" using fround_mono by metis
  then show ?thesis by (auto simp: rewind_ticks_def Let_def x_def [symmetric] y_def [symmetric])
qed


lemma end_shift_fields [simp]:
  "oc_account (end_shift c oc) = oc_account oc" "oc_ended (end_shift c oc)" "oc_cause (end_shift c oc) = c"
  "\<not> p_alive (oc_state (end_shift c oc))" "p_pos (oc_state (end_shift c oc)) = p_pos (oc_state oc)"
  "oc_invincible (end_shift c oc) = oc_invincible oc" "oc_seen (end_shift c oc) = oc_seen oc" "oc_rtt (end_shift c oc) = oc_rtt oc"
  by (simp_all add: end_shift_def)

lemma seenBy_same: "of_tick w = of_tick v \<Longrightarrow> of_trail w = of_trail v \<Longrightarrow> oc_rtt oc = oc_rtt oc' \<Longrightarrow> seenBy w oc = seenBy v oc'"
  by (simp add: seenBy_def rewind_ticks_def Let_def)

text \<open>C28:
  A tick removes exactly those it reports, each once, ended and with a cause: promoted, which takes no
  cloud and a boss within reach where he was on the victim's screen, at most six ticks back; or left,
  which takes more than ninety seconds without a connection, cloud or not. Nobody who stays qualifies
  for either.
\<close>

theorem tick_ends_exactly_the_caught_and_the_gone:
  assumes "office_reach m raw l w" and "0 \<le> dt" and "Advance m dt now (draws raw) i w = (ended, w', j)"
  shows "distinct (map oc_account ended) \<and> set (keys w) = set (keys w') \<union> oc_account ` set ended \<and>
    set (keys w') \<inter> oc_account ` set ended = {} \<and>
    (\<forall>oc \<in> set ended. oc_ended oc \<and> \<not> p_alive (oc_state oc) \<and>
       (oc_cause oc = CausePromoted \<and> oc_invincible oc \<le> 0 \<and> Caught (tp_boss (seenBy w' oc)) (p_pos (oc_state oc)) \<or>
        oc_cause oc = CauseLeft \<and> now - oc_seen oc > AbandonGrace)) \<and>
    (\<forall>k oc. lookup_occ k w' = Some oc \<longrightarrow>
       (oc_invincible oc > 0 \<or> \<not> Caught (tp_boss (seenBy w' oc)) (p_pos (oc_state oc))) \<and> now - oc_seen oc \<le> AbandonGrace) \<and>
    (\<forall>oc. rewind_ticks w' oc \<le> 6)"
proof -
  from office_reach_ok [OF assms(1)] have ok: "office_ok l w" by blast
  from tick_people [OF assms(3)] obtain v where
    kv: "keys v = keys w" and
    people: "\<forall>k. rel_option stays_as (map_option (step_occupant (p_rects (of_plan w)) dt) (lookup_occ k w)) (lookup_occ k v)" and
    e: "ended = map (\<lambda>k. end_shift (the (outcome now v (the (lookup_occ k v)))) (the (lookup_occ k v)))
        (filter (\<lambda>k. outcome now v (the (lookup_occ k v)) \<noteq> None) (keys w))" and
    w': "w' = fold del_occ (filter (\<lambda>k. outcome now v (the (lookup_occ k v)) \<noteq> None) (keys w)) v"
    by blast
  let ?out = "filter (\<lambda>k. outcome now v (the (lookup_occ k v)) \<noteq> None) (keys w)"
  have acc: "oc_account oc = k" if "lookup_occ k v = Some oc" for k oc
  proof -
    obtain o0 where o0: "lookup_occ k w = Some o0" "stays_as (step_occupant (p_rects (of_plan w)) dt o0) oc"
    proof -
      note hyp = that
      have "rel_option stays_as (map_option (step_occupant (p_rects (of_plan w)) dt) (lookup_occ k w)) (Some oc)"
        using spec [OF people, of k] \<open>lookup_occ k v = Some oc\<close> by simp
      then show ?thesis using hyp by (cases "lookup_occ k w") auto
    qed
    have "oc_account o0 = k" using occ_ok_of [OF ok o0(1)] by (simp add: occ_ok_def)
    then show ?thesis using o0(2) by (auto simp: stays_as_def step_occupant_def drain_eq accrue_def Let_def split: if_splits)
  qed
  have inv: "\<exists>oc. lookup_occ k v = Some oc" if "k \<in> set (keys w)" for k
    using that kv by (metis not_None_eq lookup_occ_def map_of_eq_None_iff set_keys)
  have accs: "map oc_account ended = ?out"
    unfolding e map_map by (rule map_idI) (use acc inv in \<open>auto simp: comp_def\<close>)
  have s: "seenBy w' oc = seenBy v oc'" if "oc_rtt oc = oc_rtt oc'" for oc oc'
    using that unfolding w' by (intro seenBy_same) simp_all
  have kw': "set (keys w') = set (keys w) - set ?out"
  proof -
    have a: "k \<in> set (keys u) \<longleftrightarrow> lookup_occ k u \<noteq> None" for k u by (simp add: lookup_occ_def map_of_eq_None_iff)
    have b: "k \<in> set (keys w) \<longleftrightarrow> lookup_occ k v \<noteq> None" for k using a [of k v] kv by simp
    show ?thesis
    proof (rule set_eqI)
      fix k
      have "k \<in> set (keys w') \<longleftrightarrow> lookup_occ k v \<noteq> None \<and> k \<notin> set ?out" unfolding a w' fold_del_lookup by simp
      then show "k \<in> set (keys w') \<longleftrightarrow> k \<in> set (keys w) - set ?out" unfolding b [symmetric] by blast
    qed
  qed
  have d: "distinct (map oc_account ended)" unfolding accs
    using ok by (intro distinct_filter) (simp add: keys_def office_ok_def people_ok_def)
  have set_e: "oc_account ` set ended = set ?out" using accs by (metis set_map)
  have causes: "oc_ended oc \<and> \<not> p_alive (oc_state oc) \<and>
       (oc_cause oc = CausePromoted \<and> oc_invincible oc \<le> 0 \<and> Caught (tp_boss (seenBy w' oc)) (p_pos (oc_state oc)) \<or>
        oc_cause oc = CauseLeft \<and> now - oc_seen oc > AbandonGrace)" if "oc \<in> set ended" for oc
  proof -
    from that obtain k c where k: "outcome now v (the (lookup_occ k v)) = Some c" "oc = end_shift c (the (lookup_occ k v))"
      unfolding e by auto
    have "seenBy w' oc = seenBy v (the (lookup_occ k v))" using k(2) by (intro s) simp
    then show ?thesis using k by (auto simp: outcome_def split: if_splits)
  qed
  have stay: "(oc_invincible oc > 0 \<or> \<not> Caught (tp_boss (seenBy w' oc)) (p_pos (oc_state oc))) \<and> now - oc_seen oc \<le> AbandonGrace"
    if "lookup_occ k w' = Some oc" for k oc
  proof -
    have l: "lookup_occ k v = Some oc" "k \<notin> set ?out" using that unfolding w' fold_del_lookup by (auto split: if_splits)
    have "k \<in> set (keys w)" unfolding kv [symmetric] using l(1) by (metis lookup_occ_def map_of_eq_None_iff option.distinct(1) set_keys)
    then have "outcome now v oc = None" using l by auto
    then show ?thesis using s [of oc oc] by (auto simp: outcome_def split: if_splits)
  qed
  show ?thesis using d set_e kw' causes stay rewind_cap by auto
qed

theorem tick_ends_exactly_the_caught_and_the_gone_witness:
  "\<exists>ended w' j oc. Advance demo_trig (1 / 20) 2000 (draws demo_draws) 2 demo_office = (ended, w', j) \<and>
     lookup_occ ''ann'' w' = Some oc \<and> ''ann'' \<notin> oc_account ` set ended"
proof -
  from demo_tick obtain ended w' j oc where
    t: "Advance demo_trig (1 / 20) 2000 (draws demo_draws) 2 demo_office = (ended, w', j)" "lookup_occ ''ann'' w' = Some oc" by blast
  have "''ann'' \<in> set (keys w')" using t(2) by (metis lookup_occ_def map_of_eq_None_iff option.distinct(1) set_keys)
  then show ?thesis using tick_ends_exactly_the_caught_and_the_gone [OF demo_reach _ t(1)] t by auto
qed

section \<open>The head start\<close>

definition far :: "office \<Rightarrow> vec2 \<Rightarrow> bool" where
  "far w q \<longleftrightarrow> spawn_free w q \<and> fl spawnFromBoss \<le> between (b_pos (of_boss w)) q"

definition gap :: "office \<Rightarrow> vec2 \<Rightarrow> f64" where "gap w q = between (b_pos (of_boss w)) q"

primrec drawn :: "nat \<Rightarrow> (nat \<Rightarrow> f64) \<Rightarrow> nat \<Rightarrow> vec2 list" where
  "drawn 0 u i = []"
| "drawn (Suc k) u i = draw_point u i # drawn k u (i + 2)"

lemma spawn_draw_rule:
  assumes "spawn_draw k w u i best bestGap = (p, j)"
  shows "List.find (far w) (drawn k u i) = Some p \<or>
    List.find (far w) (drawn k u i) = None \<and>
      (p \<in> set (drawn k u i) \<and> spawn_free w p \<and> bestGap < gap w p \<and>
         (\<forall>q \<in> set (drawn k u i). spawn_free w q \<longrightarrow> gap w q \<le> gap w p) \<or>
       (\<forall>q \<in> set (drawn k u i). spawn_free w q \<longrightarrow> gap w q \<le> bestGap) \<and> p = (if bestGap \<ge> 0 then best else PlayerSpawn))"
  using assms
proof (induction k arbitrary: i best bestGap)
  case (Suc k)
  let ?q = "draw_point u i"
  consider (taken) "far w ?q" | (blocked) "\<not> spawn_free w ?q" | (better) "spawn_free w ?q" "\<not> far w ?q" "bestGap < gap w ?q"
    | (worse) "spawn_free w ?q" "\<not> far w ?q" "\<not> bestGap < gap w ?q" by blast
  then show ?case
  proof cases
    case taken
    then show ?thesis using Suc.prems by (simp add: far_def Let_def)
  next
    case blocked
    then have "spawn_draw k w u (i + 2) best bestGap = (p, j)" "\<not> far w ?q" using Suc.prems by (simp_all add: far_def)
    from Suc.IH [OF this(1)] this(2) blocked show ?thesis by auto
  next
    case better
    then have "spawn_draw k w u (i + 2) ?q (gap w ?q) = (p, j)" using Suc.prems by (simp add: far_def Let_def gap_def)
    moreover have "0 \<le> gap w ?q" by (simp add: gap_def between_def hypot_nonneg fsub_def)
    ultimately show ?thesis using Suc.IH [of "i + 2" ?q "gap w ?q"] better by auto
  next
    case worse
    then have "spawn_draw k w u (i + 2) best bestGap = (p, j)" using Suc.prems by (simp add: far_def Let_def gap_def)
    from Suc.IH [OF this] worse show ?thesis by auto
  qed
qed simp

lemma TempoAt_ge:
  assumes "40 \<le> elapsed" shows "19 / 16 \<le> TempoAt elapsed"
proof -
  have "fl 2 \<le> fl (elapsed / 20)" using assms by (intro fl_mono) simp
  then have "2 \<le> Level elapsed" using assms by (auto simp: Level_def LevelSeconds_def fdiv_def ftrunc_def le_floor_iff)
  then have l: "(2 :: rat) \<le> of_int (Level elapsed)" by simp
  have e: "fl (of_int m * 2 powi (- 10)) = of_int m * 2 powi (- 10)" if "\<bar>m\<bar> \<le> 2 ^ 53" for m by (rule fl_exact [OF that])
  have s: "102 / 1024 \<le> fl LevelSpeedStep" using e [of 102] by (intro le_fl) (simp_all add: LevelSpeedStep_def power_int_minus)
  have "102 / 1024 * 2 \<le> fl LevelSpeedStep * of_int (Level elapsed)" using s l by (intro mult_mono) simp_all
  then have "204 / 1024 \<le> fmul (fl LevelSpeedStep) (of_int (Level elapsed))"
    unfolding fmul_def using e [of 204] by (intro le_fl) (simp_all add: power_int_minus)
  then show ?thesis unfolding TempoAt_def fadd_def using e [of 1216] by (intro le_fl) (simp_all add: power_int_minus)
qed

text \<open>
  A joiner is put on the first of sixty-four draws that is free and at least \<^verbatim>\<open>spawnFromBoss\<close> from the
  boss; if there is none, on the farthest free one; if none is free, on the catalogue's spawn. The head
  start is derived from the boss's speed at the start of a shift, but his tempo grows with the age of the
  office: from its fortieth second on he walks the guaranteed distance in less than \<^verbatim>\<open>MinShiftSeconds\<close>.
\<close>

theorem joiner_gets_a_head_start_that_the_tempo_eats:
  assumes "spawnPoint w u i = (p, j)" and "40 \<le> elapsed"
  shows "(List.find (far w) (drawn 64 u i) = Some p \<or>
      List.find (far w) (drawn 64 u i) = None \<and>
        (p \<in> set (drawn 64 u i) \<and> spawn_free w p \<and> (\<forall>q \<in> set (drawn 64 u i). spawn_free w q \<longrightarrow> gap w q \<le> gap w p) \<or>
         (\<forall>q \<in> set (drawn 64 u i). \<not> spawn_free w q) \<and> p = PlayerSpawn)) \<and>
    spawnFromBoss - (CatchRadius + PlayerRadius) < MinShiftSeconds * (BossSpeed * TempoAt elapsed)"
proof -
  have n: "0 \<le> gap w q" for q by (simp add: gap_def between_def hypot_nonneg fsub_def)
  have "spawnFromBoss - (CatchRadius + PlayerRadius) < MinShiftSeconds * (BossSpeed * TempoAt elapsed)"
    using TempoAt_ge [OF assms(2)] by (simp add: spawnFromBoss_def spawnHeadStart_def MinShiftSeconds_def BossSpeed_def)
  moreover have "\<not> gap w q \<le> - 1" for q using n [of q] by linarith
  moreover have "spawn_draw 64 w u i zero_vec (- 1) = (p, j)" using assms(1) unfolding spawnPoint_def spawnTries_def .
  note spawn_draw_rule [OF this]
  ultimately show ?thesis by simp blast
qed

theorem joiner_gets_a_head_start_that_the_tempo_eats_witness:
  "\<exists>p j. spawnPoint (NewOffice (NewPlan one_desk)) (draws demo_draws) 0 = (p, j) \<and>
     spawnFromBoss - (CatchRadius + PlayerRadius) < MinShiftSeconds * (BossSpeed * TempoAt 40)"
proof -
  obtain p j where "spawnPoint (NewOffice (NewPlan one_desk)) (draws demo_draws) 0 = (p, j)" by (rule prod.exhaust)
  then show ?thesis using joiner_gets_a_head_start_that_the_tempo_eats [of _ _ _ p j 40] by simp
qed

end
