(* ===== verification/FintechOpen.thy ===== *)
theory FintechOpen
  imports FintechSim
begin

text \<open>
  The flood fill of the validator (\<^verbatim>\<open>floorIsOnePlace\<close>) against the gap rules that run before it.
  Furniture that keeps a metre and a half from every wall and, along one axis, from every other piece
  leaves a free ring of cells around each piece, so a walk towards the top wall can go round whatever
  is in its way.
\<close>

section \<open>Walks on the inner cells\<close>

definition inner :: "int \<Rightarrow> int \<Rightarrow> bool" where
  "inner x y \<longleftrightarrow> 1 \<le> x \<and> x \<le> 30 \<and> 1 \<le> y \<and> y \<le> 42"

lemma walk_step:
  assumes "reachable free s (y * 32 + x)" and "inner x y" and "inner x' y'" and "is_free free (y' * 32 + x')"
    and "(x' = x + 1 \<or> x' = x - 1) \<and> y' = y \<or> x' = x \<and> (y' = y + 1 \<or> y' = y - 1)"
  shows "reachable free s (y' * 32 + x')"
proof -
  have "y' * 32 + x' \<in> set (around (y * 32 + x))"
    unfolding around_def in_nbrs using assms(2,3,5)
    by (intro exI [of _ x'] exI [of _ y']) (auto simp: navCols_def inner_def)
  then show ?thesis by (rule reachable_step [OF assms(1) _ assms(4)])
qed

lemma walk_down:
  assumes "reachable free s (y0 * 32 + x)" and "y0 \<le> y1" and "inner x y0" and "inner x y1"
    and "\<And>y. y0 < y \<Longrightarrow> y \<le> y1 \<Longrightarrow> is_free free (y * 32 + x)"
  shows "reachable free s (y1 * 32 + x)"
  using assms(2,4,5)
proof (induction y1 rule: int_ge_induct)
  case base
  then show ?case using assms(1) by simp
next
  case (step y)
  have i: "inner x y" using step assms(3) by (auto simp: inner_def)
  have r: "reachable free s (y * 32 + x)" using step i by auto
  have "is_free free ((y + 1) * 32 + x)" using step.hyps by (intro step.prems(2)) auto
  from walk_step [OF r i step.prems(1) this] show ?case by simp
qed

lemma walk_right:
  assumes "reachable free s (y * 32 + x0)" and "x0 \<le> x1" and "inner x0 y" and "inner x1 y"
    and "\<And>x. x0 < x \<Longrightarrow> x \<le> x1 \<Longrightarrow> is_free free (y * 32 + x)"
  shows "reachable free s (y * 32 + x1)"
  using assms(2,4,5)
proof (induction x1 rule: int_ge_induct)
  case base
  then show ?case using assms(1) by simp
next
  case (step x)
  have i: "inner x y" using step assms(3) by (auto simp: inner_def)
  have r: "reachable free s (y * 32 + x)" using step i by auto
  have "is_free free (y * 32 + (x + 1))" using step.hyps by (intro step.prems(2)) auto
  from walk_step [OF r i step.prems(1) this] show ?case by simp
qed

text \<open>The last number before \<open>c\<close> outside of \<open>P\<close>.\<close>

lemma last_outside:
  assumes "P c" and "\<not> P 1" and "1 \<le> c"
  shows "\<exists>c0. 1 \<le> c0 \<and> c0 < c \<and> \<not> P c0 \<and> (\<forall>x. c0 < x \<longrightarrow> x \<le> c \<longrightarrow> P (x :: int))"
proof -
  let ?S = "{x. 1 \<le> x \<and> x \<le> c \<and> \<not> P x}"
  have f: "finite ?S" by (rule finite_subset [of _ "{1 .. c}"]) auto
  moreover have "1 \<in> ?S" using assms by simp
  ultimately have m: "Max ?S \<in> ?S" by (intro Max_in) auto
  then have "Max ?S < c" using assms(1) by (metis (mono_tags, lifting) mem_Collect_eq order_le_less)
  moreover have "P x" if "Max ?S < x" "x \<le> c" for x
  proof (rule ccontr)
    assume "\<not> P x"
    moreover have "1 \<le> x" using m that by auto
    ultimately have "x \<in> ?S" using that by simp
    then show False using Max_ge [OF f] that by force
  qed
  ultimately show ?thesis using m by blast
qed

lemma free_ways:
  assumes sep: "\<And>a b. a \<in> D \<Longrightarrow> b \<in> D \<Longrightarrow> a \<noteq> b \<Longrightarrow>
      (\<forall>x x'. C a x \<longrightarrow> \<bar>x - x'\<bar> \<le> 1 \<longrightarrow> \<not> C b x') \<or> (\<forall>y y'. R a y \<longrightarrow> \<bar>y - y'\<bar> \<le> 1 \<longrightarrow> \<not> R b y')"
    and walls: "\<And>a x. a \<in> D \<Longrightarrow> C a x \<Longrightarrow> 2 \<le> x \<and> x \<le> 29" "\<And>a y. a \<in> D \<Longrightarrow> R a y \<Longrightarrow> 2 \<le> y \<and> y \<le> 41"
    and free: "\<And>x y. inner x y \<Longrightarrow> is_free free (y * 32 + x) \<longleftrightarrow> (\<forall>d \<in> D. \<not> (C d x \<and> R d y))"
    and cell: "inner c r" "is_free free (r * 32 + c)"
  shows "reachable free (32 + 1) (r * 32 + c)"
  using cell
proof (induction "nat r" arbitrary: c r rule: less_induct)
  case less
  have top: "is_free free (32 + x)" if "1 \<le> x" "x \<le> 30" for x
    using free [of x 1] walls(2) [of _ 1] that by (fastforce simp: inner_def)
  show ?case
  proof (cases "r = 1")
    case True
    have "reachable free (32 + 1) (1 * 32 + 1)" unfolding reachable_def by (metis mult_1 path.simps(1))
    then have "reachable free (32 + 1) (1 * 32 + c)"
      using less.prems(1) top by (rule_tac walk_right [of free _ 1 1]) (auto simp: inner_def)
    then show ?thesis using True by simp
  next
    case False
    then have r: "1 \<le> r - 1" "inner c (r - 1)" using less.prems(1) by (auto simp: inner_def)
    show ?thesis
    proof (cases "is_free free ((r - 1) * 32 + c)")
      case True
      have "nat (r - 1) < nat r" using r(1) by simp
      from less.hyps [OF this r(2) True] show ?thesis
        by (rule walk_step) (use r less.prems in auto)
    next
      case False
      then obtain d where d: "d \<in> D" "C d c" "R d (r - 1)" using free [OF r(2)] by blast
      have nr: "\<not> R d r" using free [OF less.prems(1)] less.prems(2) d by blast
      from last_outside [of "C d" c] d walls(1) [OF d(1)] obtain c0 where
        c0: "1 \<le> c0" "c0 < c" "\<not> C d c0" "\<forall>x. c0 < x \<longrightarrow> x \<le> c \<longrightarrow> C d x" by fastforce
      from last_outside [of "R d" "r - 1"] d walls(2) [OF d(1)] obtain r0 where
        r0: "1 \<le> r0" "r0 < r - 1" "\<not> R d r0" "\<forall>y. r0 < y \<longrightarrow> y \<le> r - 1 \<longrightarrow> R d y" by fastforce
      have side: "inner c0 y" if "r0 \<le> y" "y \<le> r" for y using that c0 r0 less.prems(1) by (auto simp: inner_def)
      have other: "\<not> (C b x \<and> R b y)" if "b \<in> D" "c0 \<le> x" "x \<le> c" "r0 \<le> y" "y \<le> r" "x = c0 \<or> y = r" for b x y
      proof (cases "b = d")
        case True
        then show ?thesis using that(6) c0(3) nr by auto
      next
        case False
        have x: "\<exists>x'. C d x' \<and> \<bar>x' - x\<bar> \<le> 1"
          using c0 that by (cases "x = c0") (auto intro: exI [of _ "c0 + 1"] exI [of _ x])
        have y: "\<exists>y'. R d y' \<and> \<bar>y' - y\<bar> \<le> 1"
          using r0 d(3) that by (cases "y = r0"; cases "y = r") (auto intro: exI [of _ "r0 + 1"] exI [of _ y] exI [of _ "r - 1"])
        show ?thesis using sep [OF d(1) that(1)] False x y by blast
      qed
      have fr: "is_free free (y * 32 + x)" if "c0 \<le> x" "x \<le> c" "r0 \<le> y" "y \<le> r" "x = c0 \<or> y = r" for x y
      proof -
        have "inner x y" using that c0 r0 less.prems(1) by (auto simp: inner_def)
        then show ?thesis using free other that by blast
      qed
      have "nat r0 < nat r" using r0 by simp
      then have "reachable free (32 + 1) (r0 * 32 + c0)"
        by (rule less.hyps) (use r0 c0 side fr [of c0 r0] in auto)
      then have "reachable free (32 + 1) (r * 32 + c0)"
        by (rule walk_down) (use r0 c0 side fr [of c0] in auto)
      then show ?thesis
        by (rule walk_right) (use r0 c0 side less.prems(1) fr [of _ r] in auto)
    qed
  qed
qed

section \<open>Grown furniture on the grid\<close>

definition in_cols :: "rect \<Rightarrow> int \<Rightarrow> bool" where
  "in_cols d x \<longleftrightarrow> of_int (2 * x + 1) / 4 > fadd (lo_x d (fl BossRadius)) eps \<and> of_int (2 * x + 1) / 4 < fsub (hi_x d (fl BossRadius)) eps"

definition in_rows :: "rect \<Rightarrow> int \<Rightarrow> bool" where
  "in_rows d y \<longleftrightarrow> of_int (2 * y + 1) / 4 > fadd (lo_y d (fl BossRadius)) eps \<and> of_int (2 * y + 1) / 4 < fsub (hi_y d (fl BossRadius)) eps"

lemma cell_free_blocks:
  assumes "0 \<le> x" "x < 32" "0 \<le> y" "y < 44"
  shows "cell_free rects x y \<longleftrightarrow> inner x y \<and> (\<forall>d \<in> set rects. \<not> (in_cols d x \<and> in_rows d y))"
proof -
  have "insideRect d (navCentre x y) (fl BossRadius) \<longleftrightarrow> in_cols d x \<and> in_rows d y" for d
    using assms by (auto simp: insideRect_def in_cols_def in_rows_def navCentre_exact)
  moreover have "cell_free rects x y \<longleftrightarrow> cell_free [] x y \<and> \<not> list_ex (\<lambda>d. insideRect d (navCentre x y) (fl BossRadius)) rects"
    by (auto simp: cell_free_def Let_def)
  ultimately show ?thesis unfolding empty_cell_free [OF assms] by (auto simp: inner_def list_ex_iff)
qed

lemma boss_width: "3 / 8 \<le> fl BossRadius" "fl BossRadius \<le> 13 / 32"
proof -
  have e: "fl (of_int m * 2 powi (- 5)) = of_int m * 2 powi (- 5)" if "\<bar>m\<bar> \<le> 2 ^ 53" for m by (rule fl_exact [OF that])
  have q: "fl (3 / 8) = 3 / 8" "fl (13 / 32) = 13 / 32" using e [of 12] e [of 13] by (simp_all add: power_int_minus)
  show "3 / 8 \<le> fl BossRadius" by (rule le_fl [OF _ q(1)]) (simp add: BossRadius_def)
  show "fl BossRadius \<le> 13 / 32" by (rule fl_le [OF _ q(2)]) (simp add: BossRadius_def)
qed

lemma centre: "(of_int (2 * x + 1) / 4 :: rat) = of_int x / 2 + 1 / 4"
  by (simp add: add_divide_distrib)

text \<open>What a gap of a metre and a half, measured in doubles, leaves between two grown edges.\<close>

lemma gap_exact: "3 / 2 \<le> fsub b a \<Longrightarrow> 23 / 16 \<le> b - a"
proof (rule ccontr)
  assume g: "3 / 2 \<le> fsub b a" and "\<not> 23 / 16 \<le> b - a"
  moreover have "fl (23 / 16) = 23 / 16" using fl_exact [of 23 "- 4"] by (simp add: power_int_minus)
  ultimately have "fsub b a \<le> 23 / 16" unfolding fsub_def by (intro fl_le) auto
  then show False using g by simp
qed

lemma edges_apart:
  assumes "3 / 2 \<le> fsub b s" and "\<bar>b\<bar> \<le> 64" and "\<bar>s\<bar> \<le> 64"
  shows "fsub (fadd s (fl BossRadius)) eps + 1 / 2 \<le> fadd (fsub b (fl BossRadius)) eps"
proof -
  have tiny: "\<bar>fl v - v\<bar> \<le> 1 / 64" if "\<bar>v\<bar> \<le> 65" for v
  proof -
    have "\<bar>v\<bar> / 2 ^ 53 \<le> 65 / 2 ^ 53" using that by (intro divide_right_mono) auto
    then have "\<bar>v\<bar> / 2 ^ 53 \<le> 1 / 64" by (rule order_trans) simp
    with fl_error [of v] show ?thesis by linarith
  qed
  have up: "fsub v eps \<le> v" "v \<le> fadd v eps" if "fl v = v" for v
    unfolding fsub_def fadd_def using that eps_pos by (auto intro!: fl_le le_fl)
  have "\<bar>b - fl BossRadius\<bar> \<le> 65" "\<bar>s + fl BossRadius\<bar> \<le> 65" using assms boss_width by auto
  from tiny [OF this(1)] tiny [OF this(2)] have "fsub b (fl BossRadius) \<ge> b - fl BossRadius - 1 / 64"
    "fadd s (fl BossRadius) \<le> s + fl BossRadius + 1 / 64" unfolding fsub_def fadd_def by linarith+
  moreover have "fsub (fadd s (fl BossRadius)) eps \<le> fadd s (fl BossRadius)" "fsub b (fl BossRadius) \<le> fadd (fsub b (fl BossRadius)) eps"
    by (rule up; simp add: fadd_def fsub_def)+
  ultimately show ?thesis using gap_exact [OF assms(1)] boss_width by linarith
qed

lemma far_lines:
  assumes "hi + 1 / 2 \<le> lo'" and "of_int (2 * x + 1) / 4 < (hi :: rat)" and "\<bar>x - x'\<bar> \<le> 1"
  shows "\<not> of_int (2 * x' + 1) / 4 > lo'"
proof -
  have "of_int x' \<le> (of_int (x + 1) :: rat)" using assms(3) by (simp only: of_int_le_iff)
  then show ?thesis using assms(1,2) unfolding centre by simp
qed

lemma far_lines':
  assumes "hi' + 1 / 2 \<le> lo" and "of_int (2 * x + 1) / 4 > (lo :: rat)" and "\<bar>x - x'\<bar> \<le> 1"
  shows "\<not> of_int (2 * x' + 1) / 4 < hi'"
proof -
  have "(of_int (x - 1) :: rat) \<le> of_int x'" using assms(3) by (simp only: of_int_le_iff)
  then show ?thesis using assms(1,2) unfolding centre by simp
qed

definition roomy :: "rect \<Rightarrow> bool" where
  "roomy d \<longleftrightarrow> MinGap \<le> wallGap d \<and> 0 \<le> rw d \<and> 0 \<le> rh d"

lemma roomy_bounds:
  assumes "roomy d"
  shows "3 / 2 \<le> rx d" "3 / 2 \<le> ry d" "3 / 2 \<le> fsub 16 (fadd (rx d) (rw d))" "3 / 2 \<le> fsub 22 (fadd (ry d) (rh d))"
    "\<bar>rx d\<bar> \<le> 64" "\<bar>ry d\<bar> \<le> 64" "\<bar>fadd (rx d) (rw d)\<bar> \<le> 64" "\<bar>fadd (ry d) (rh d)\<bar> \<le> 64"
proof -
  show b: "3 / 2 \<le> rx d" "3 / 2 \<le> ry d" "3 / 2 \<le> fsub 16 (fadd (rx d) (rw d))" "3 / 2 \<le> fsub 22 (fadd (ry d) (rh d))"
    using assms by (auto simp: roomy_def wallGap_def MinGap_def OfficeW_def OfficeH_def)
  have nn: "0 \<le> rw d" "0 \<le> rh d" using assms by (auto simp: roomy_def)
  have up: "fadd (rx d) (rw d) \<le> 16" "fadd (ry d) (rh d) \<le> 22" using gap_exact [OF b(3)] gap_exact [OF b(4)] by auto
  have lo: "0 \<le> fadd (rx d) (rw d)" "0 \<le> fadd (ry d) (rh d)" unfolding fadd_def using b nn by (auto intro!: fl_nonneg)
  show "\<bar>fadd (rx d) (rw d)\<bar> \<le> 64" "\<bar>fadd (ry d) (rh d)\<bar> \<le> 64" using up lo by auto
  have "x \<le> 64" if "fadd x y \<le> 22" "0 \<le> y" for x y
  proof (rule ccontr)
    assume "\<not> x \<le> 64"
    then have "64 \<le> fadd x y" unfolding fadd_def using that by (intro le_fl) auto
    then show False using that by simp
  qed
  from this [of "rx d" "rw d"] this [of "ry d" "rh d"] up nn have "rx d \<le> 64" "ry d \<le> 64" by linarith+
  then show "\<bar>rx d\<bar> \<le> 64" "\<bar>ry d\<bar> \<le> 64" using b by auto
qed

lemma roomy_walls:
  assumes "roomy d"
  shows "in_cols d x \<Longrightarrow> 2 \<le> x \<and> x \<le> 29" and "in_rows d y \<Longrightarrow> 2 \<le> y \<and> y \<le> 41"
proof -
  note b = roomy_bounds [OF assms]
  have lo: "3 / 4 < fadd (fsub v (fl BossRadius)) eps" if "3 / 2 \<le> v" for v
  proof -
    have "1 \<le> fsub v (fl BossRadius)" unfolding fsub_def using that boss_width by (intro le_fl) auto
    then have "1 \<le> fadd (fsub v (fl BossRadius)) eps" unfolding fadd_def using eps_pos by (intro le_fl) auto
    then show ?thesis by simp
  qed
  have hi: "fsub (fadd s (fl BossRadius)) eps + 1 / 2 \<le> fadd (fsub e (fl BossRadius)) eps" if "3 / 2 \<le> fsub e s" "\<bar>s\<bar> \<le> 64" "e = 16 \<or> e = 22" for e s
    by (rule edges_apart) (use that in auto)
  have eps1: "eps \<le> 1 / 16"
    unfolding eps_def using fl_exact [of 1 "- 4"] by (intro fl_le) (auto simp: power_int_minus)
  have wall: "fadd (fsub e (fl BossRadius)) eps \<le> e - 1 / 4" if "e = 16 \<or> e = 22" for e
  proof -
    have q: "fl (e - 5 / 16) = e - 5 / 16" "fl (e - 1 / 4) = e - 1 / 4"
      using that fl_exact [of 251 "- 4"] fl_exact [of 347 "- 4"] fl_exact [of 63 "- 2"] fl_exact [of 87 "- 2"] by (auto simp: power_int_minus)
    have "fsub e (fl BossRadius) \<le> e - 5 / 16" unfolding fsub_def using boss_width q by (intro fl_le) auto
    then show ?thesis unfolding fadd_def using eps1 q by (intro fl_le) auto
  qed
  show "in_cols d x \<Longrightarrow> 2 \<le> x \<and> x \<le> 29"
  proof -
    assume "in_cols d x"
    then have "3 / 4 < (of_int (2 * x + 1) / 4 :: rat)" "of_int (2 * x + 1) / 4 < (61 / 4 :: rat)"
      using lo [OF b(1)] hi [OF b(3,7)] wall [of 16] by (auto simp: in_cols_def lo_x_def hi_x_def)
    then show ?thesis by auto
  qed
  show "in_rows d y \<Longrightarrow> 2 \<le> y \<and> y \<le> 41"
  proof -
    assume "in_rows d y"
    then have "3 / 4 < (of_int (2 * y + 1) / 4 :: rat)" "of_int (2 * y + 1) / 4 < (85 / 4 :: rat)"
      using lo [OF b(2)] hi [OF b(4,8)] wall [of 22] by (auto simp: in_rows_def lo_y_def hi_y_def)
    then show ?thesis by auto
  qed
qed

lemma apart_lines:
  assumes "apart a b" and "roomy a" and "roomy b"
  shows "(\<forall>x x'. in_cols a x \<longrightarrow> \<bar>x - x'\<bar> \<le> 1 \<longrightarrow> \<not> in_cols b x') \<or> (\<forall>y y'. in_rows a y \<longrightarrow> \<bar>y - y'\<bar> \<le> 1 \<longrightarrow> \<not> in_rows b y')"
proof -
  note ba = roomy_bounds [OF assms(2)] and bb = roomy_bounds [OF assms(3)]
  have "3 / 2 \<le> fsub (rx b) (fadd (rx a) (rw a)) \<or> 3 / 2 \<le> fsub (rx a) (fadd (rx b) (rw b)) \<or>
    3 / 2 \<le> fsub (ry b) (fadd (ry a) (rh a)) \<or> 3 / 2 \<le> fsub (ry a) (fadd (ry b) (rh b))"
    using assms(1) by (auto simp: apart_def sepAxis_def MinGap_def Let_def le_max_iff_disj)
  then consider "3 / 2 \<le> fsub (rx b) (fadd (rx a) (rw a))" | "3 / 2 \<le> fsub (rx a) (fadd (rx b) (rw b))"
    | "3 / 2 \<le> fsub (ry b) (fadd (ry a) (rh a))" | "3 / 2 \<le> fsub (ry a) (fadd (ry b) (rh b))" by blast
  then show ?thesis
  proof cases
    case 1
    from far_lines [OF edges_apart [OF this bb(5) ba(7)]] show ?thesis unfolding in_cols_def lo_x_def hi_x_def by blast
  next
    case 2
    from far_lines' [OF edges_apart [OF this ba(5) bb(7)]] show ?thesis unfolding in_cols_def lo_x_def hi_x_def by blast
  next
    case 3
    from far_lines [OF edges_apart [OF this bb(6) ba(8)]] show ?thesis unfolding in_rows_def lo_y_def hi_y_def by blast
  next
    case 4
    from far_lines' [OF edges_apart [OF this ba(6) bb(8)]] show ?thesis unfolding in_rows_def lo_y_def hi_y_def by blast
  qed
qed

section \<open>One place\<close>

lemma solid_roomy: "solid_ok s \<Longrightarrow> roomy (so_rect s)"
proof -
  assume s: "solid_ok s"
  have "0 \<le> fl MinSolidSide" by (rule fl_nonneg) (simp add: MinSolidSide_def)
  then show ?thesis using s by (auto simp: solid_ok_def bad_size_def roomy_def)
qed

lemma pairwise_apart_set:
  assumes "pairwise_apart ss" and "a \<in> set ss" and "b \<in> set ss" and "so_rect a \<noteq> so_rect b"
  shows "apart (so_rect a) (so_rect b) \<or> apart (so_rect b) (so_rect a)"
  using assms by (induction ss) (auto simp: list_all_iff)

lemma gaps_leave_one_place:
  assumes "list_all solid_ok ss" and "pairwise_apart ss"
  shows "floorIsOnePlace (map so_rect ss)"
proof -
  let ?rects = "map so_rect ss"
  let ?free = "navGridFor ?rects"
  have room: "roomy d" if "d \<in> set ?rects" for d using that assms(1) solid_roomy by (auto simp: list_all_iff)
  have sep: "(\<forall>x x'. in_cols a x \<longrightarrow> \<bar>x - x'\<bar> \<le> 1 \<longrightarrow> \<not> in_cols b x') \<or> (\<forall>y y'. in_rows a y \<longrightarrow> \<bar>y - y'\<bar> \<le> 1 \<longrightarrow> \<not> in_rows b y')"
    if ab: "a \<in> set ?rects" "b \<in> set ?rects" "a \<noteq> b" for a b
  proof -
    from ab obtain s t where st: "s \<in> set ss" "t \<in> set ss" "a = so_rect s" "b = so_rect t" by auto
    from pairwise_apart_set [OF assms(2) st(1,2)] ab(3) st consider "apart a b" | "apart b a" by blast
    then show ?thesis
    proof cases
      case 1
      from apart_lines [OF this room [OF ab(1)] room [OF ab(2)]] show ?thesis .
    next
      case 2
      from apart_lines [OF this room [OF ab(2)] room [OF ab(1)]] show ?thesis by (metis abs_minus_commute)
    qed
  qed
  have fr: "is_free ?free (y * 32 + x) \<longleftrightarrow> inner x y \<and> (\<forall>d \<in> set ?rects. \<not> (in_cols d x \<and> in_rows d y))"
    if "0 \<le> x" "x < 32" "0 \<le> y" "y < 44" for x y
    using is_free_grid [of "y * 32 + x" ?rects] cell_free_blocks [OF that, of ?rects] that by (simp add: navCols_def)
  have free: "is_free ?free (y * 32 + x) \<longleftrightarrow> (\<forall>d \<in> set ?rects. \<not> (in_cols d x \<and> in_rows d y))" if "inner x y" for x y
    using fr [of x y] that by (auto simp: inner_def)
  have wx: "2 \<le> x \<and> x \<le> 29" if "d \<in> set ?rects" "in_cols d x" for d x by (rule roomy_walls(1) [OF room]) fact+
  have wy: "2 \<le> y \<and> y \<le> 41" if "d \<in> set ?rects" "in_rows d y" for d y by (rule roomy_walls(2) [OF room]) fact+
  have all: "reachable ?free (32 + 1) n" if n: "on_grid n" "is_free ?free n" for n
  proof -
    have c: "0 \<le> n mod 32" "n mod 32 < 32" "0 \<le> n div 32" "n div 32 < 44" using n(1) by (auto simp: on_grid_def navCols_def navRows_def)
    have e: "n div 32 * 32 + n mod 32 = n" by simp
    have i: "inner (n mod 32) (n div 32)" using fr [OF c] n(2) e by simp
    have f: "is_free ?free (n div 32 * 32 + n mod 32)" using n(2) e by simp
    have "reachable ?free (32 + 1) (n div 32 * 32 + n mod 32)"
      by (rule free_ways [of "set ?rects" in_cols in_rows]) (fact sep wx wy free i f)+
    then show ?thesis by simp
  qed
  have corner: "on_grid (32 + 1)" "is_free ?free (32 + 1)"
    using fr [of 1 1] roomy_walls(1) [OF room, of _ 1] by (auto simp: on_grid_def navCols_def navRows_def inner_def)
  have b: "navCellOf BossSpawn = (16, 41)" by code_simp
  have below: "is_free ?free (42 * 32 + 16)"
    using fr [of 16 42] roomy_walls(2) [OF room, of _ 42] by (auto simp: inner_def)
  have "\<exists>start. navStart ?free 16 41 = Some start"
  proof (cases "is_free ?free (41 * navCols + 16)")
    case True
    then show ?thesis by (simp add: navStart_def)
  next
    case False
    let ?near = "map (\<lambda>(dc, dr). (41 + dr) * navCols + (16 + dc))
        (filter (\<lambda>(dc, dr). \<not> (16 + dc < 0 \<or> 16 + dc \<ge> navCols \<or> 41 + dr < 0 \<or> 41 + dr \<ge> navRows)) (concat (map ring [1 .. 4])))"
    have "(0, 1) \<in> set (ring 1)" by (auto simp: ring_def intro!: bexI [of _ 1])
    then have "(0, 1) \<in> set (concat (map ring [1 .. 4]))" by auto
    then have "42 * 32 + 16 \<in> set ?near" by (force simp: navCols_def navRows_def)
    then have "List.find (is_free ?free) ?near \<noteq> None" using below unfolding find_None_iff by blast
    then show ?thesis using False by (auto simp: navStart_def navNearestFree_def)
  qed
  then obtain start where st: "navStart ?free 16 41 = Some start" by blast
  have sf: "is_free ?free start" "on_grid start"
    using navStart_ok [OF st] by (simp_all add: navCols_def navRows_def)
  have "reachable ?free start n" if "on_grid n" "is_free ?free n" for n
  proof -
    from all [OF sf(2,1)] all [OF that] obtain i j where "path ?free i (32 + 1) start" "path ?free j (32 + 1) n"
      unfolding reachable_def by blast
    then show ?thesis using path_back [OF _ corner] path_trans unfolding reachable_def by blast
  qed
  then show ?thesis unfolding floorIsOnePlace_iff b using st by auto
qed

lemma validate_rules:
  "ValidateLayout l = [] \<longleftrightarrow> length (l_solids l) \<le> MaxSolids \<and> length (l_windows l) \<le> MaxWindows \<and>
     list_all solid_ok (l_solids l) \<and> pairwise_apart (l_solids l) \<and>
     list_all (\<lambda>p. list_all (spot_clear p) (l_solids l)) FixedPoints \<and> windows_ok (l_windows l)"
proof -
  have one: "floorIsOnePlace (rects_of l)" if "list_all solid_ok (l_solids l)" "pairwise_apart (l_solids l)"
    using gaps_leave_one_place [OF that] by (simp add: rects_of_def)
  have "ValidateLayout l = [] \<longleftrightarrow> playable l" using ValidateLayout_iff by blast
  then show ?thesis using one by (auto simp: playable_def)
qed

text \<open>C37:
  The connectivity rule is implied by the gap rules: on a floor whose pieces have legal sizes, keep the gap to
  the walls and keep the gap to each other, the flood fill always finds one place. So the validator
  accepts exactly the floors that pass the other rules.
\<close>

theorem flood_fill_never_refuses:
  "(list_all solid_ok (l_solids l) \<longrightarrow> pairwise_apart (l_solids l) \<longrightarrow> floorIsOnePlace (rects_of l)) \<and>
   (ValidateLayout l = [] \<longleftrightarrow> length (l_solids l) \<le> MaxSolids \<and> length (l_windows l) \<le> MaxWindows \<and>
      list_all solid_ok (l_solids l) \<and> pairwise_apart (l_solids l) \<and>
      list_all (\<lambda>p. list_all (spot_clear p) (l_solids l)) FixedPoints \<and> windows_ok (l_windows l))"
  using validate_rules [of l] gaps_leave_one_place [of "l_solids l"] by (simp add: rects_of_def)

theorem flood_fill_never_refuses_witness: "floorIsOnePlace (rects_of one_desk) \<and> list_all solid_ok (l_solids one_desk)"
  using flood_fill_never_refuses [of one_desk] one_desk_valid by blast

end
