(* ===== verification/FintechGen.thy ===== *)
theory FintechGen
  imports FintechOpen "HOL-Library.Word" "HOL-Library.Signed_Division"
begin

text \<open>
  Where an office comes from: the generator (\<^verbatim>\<open>generate.go\<close>). The pseudo-random source of
  \<^verbatim>\<open>math/rand\<close> is a parameter: what its i-th call answers, \<^verbatim>\<open>Intn\<close> below its argument and
  \<^verbatim>\<open>Float64\<close> a double in [0, 1). So is the content hash that \<^verbatim>\<open>WithID\<close> stamps on a layout.
\<close>

section \<open>The source of draws\<close>

record rng =
  rg_intn :: "nat \<Rightarrow> nat \<Rightarrow> nat"
  rg_float :: "nat \<Rightarrow> f64"

definition rng_ok :: "rng \<Rightarrow> bool" where
  "rng_ok g \<longleftrightarrow> (\<forall>i n. 0 < n \<longrightarrow> rg_intn g i n < n) \<and>
     (\<forall>i. 0 \<le> rg_float g i \<and> rg_float g i < 1 \<and> fl (rg_float g i) = rg_float g i)"

section \<open>Constants\<close>

definition placeStep :: rat where "placeStep = 25 / 100"
definition placeTries :: nat where "placeTries = 24"
definition minSolids :: nat where "minSolids = 8"
definition tailMin :: nat where "tailMin = 9"
definition tailMax :: nat where "tailMax = 15"
definition aisleMax :: rat where "aisleMax = 1"
definition slideFraction :: rat where "slideFraction = 4 / 10"
definition adjacentShare :: rat where "adjacentShare = 6 / 10"
definition windowInset :: rat where "windowInset = 75 / 100"
definition windowGap :: rat where "windowGap = 75 / 100"
definition paneMin :: rat where "paneMin = 15 / 10"
definition paneMax :: rat where "paneMax = 4"
definition panesMin :: nat where "panesMin = 2"
definition panesMax :: nat where "panesMax = 4"

lemmas gen_numbers = placeStep_def aisleMax_def slideFraction_def windowInset_def windowGap_def paneMin_def paneMax_def
  panesMin_def panesMax_def MinGap_def OfficeW_def OfficeH_def

datatype gen_class = classRun | classDesk | classFlower | classTree

fun class_kind :: "gen_class \<Rightarrow> string" where
  "class_kind classRun = KindDesk" | "class_kind classDesk = KindDesk"
| "class_kind classFlower = KindFlower" | "class_kind classTree = KindTree"

fun class_long :: "gen_class \<Rightarrow> f64 \<times> f64" where
  "class_long classRun = (4, 6)" | "class_long classDesk = (15 / 10, 3)"
| "class_long classFlower = (75 / 100, 1)" | "class_long classTree = (125 / 100, 175 / 100)"

fun class_short :: "gen_class \<Rightarrow> (f64 \<times> f64) option" where
  "class_short classRun = Some (75 / 100, 1)" | "class_short classDesk = Some (75 / 100, 1)"
| "class_short classFlower = None" | "class_short classTree = None"

definition tailPool :: "gen_class list" where
  "tailPool = [classRun, classRun, classDesk, classDesk, classDesk, classDesk, classFlower, classTree]"

datatype lie = lieDrawn | lieAcross | lieDown

record wanted =
  wn_class :: gen_class
  wn_lie :: lie

datatype gen_error = ErrThinFloor

section \<open>One object\<close>

definition snapDown :: "f64 \<Rightarrow> f64" where
  "snapDown v = fmul (of_int \<lfloor>fdiv v placeStep\<rfloor>) placeStep"

definition drawSide :: "rng \<Rightarrow> f64 \<times> f64 \<Rightarrow> nat \<Rightarrow> f64 \<times> nat" where
  "drawSide g sp i = (fadd (fst sp) (snapDown (fmul (rg_float g i) (fsub (snd sp) (fst sp)))), i + 1)"

definition onFloor :: "f64 \<Rightarrow> f64 \<Rightarrow> f64 \<Rightarrow> f64" where
  "onFloor v sz extent = min (max v MinGap) (fsub (fsub extent MinGap) sz)"

definition slide :: "rng \<Rightarrow> nat \<Rightarrow> f64 \<Rightarrow> f64" where
  "slide g i sp = snapDown (fmul (fmul (fsub (fmul (rg_float g i) 2) 1) sp) (fl slideFraction))"

definition beside :: "rng \<Rightarrow> rect \<Rightarrow> f64 \<Rightarrow> f64 \<Rightarrow> nat \<Rightarrow> (f64 \<times> f64) \<times> nat" where
  "beside g host w h i =
     (let aisle = fadd MinGap (snapDown (fmul (rg_float g i) aisleMax)); side = rg_intn g (i + 1) 4 in
      (if side = 0 then (fadd (fadd (rx host) (rw host)) aisle, fadd (ry host) (slide g (i + 2) (rh host)))
       else if side = 1 then (fsub (fsub (rx host) aisle) w, fadd (ry host) (slide g (i + 2) (rh host)))
       else if side = 2 then (fadd (rx host) (slide g (i + 2) (rw host)), fadd (fadd (ry host) (rh host)) aisle)
       else (fadd (rx host) (slide g (i + 2) (rw host)), fsub (fsub (ry host) aisle) h), i + 3))"

definition anywhere :: "rng \<Rightarrow> f64 \<Rightarrow> f64 \<Rightarrow> nat \<Rightarrow> (f64 \<times> f64) \<times> nat" where
  "anywhere g w h i =
     ((fadd MinGap (snapDown (fmul (rg_float g i) (fsub (OfficeW - 2 * MinGap) w))),
       fadd MinGap (snapDown (fmul (rg_float g (i + 1)) (fsub (OfficeH - 2 * MinGap) h)))), i + 2)"

definition draw_size :: "rng \<Rightarrow> wanted \<Rightarrow> nat \<Rightarrow> (f64 \<times> f64) \<times> nat" where
  "draw_size g w i =
     (case drawSide g (class_long (wn_class w)) i of (long, i) \<Rightarrow>
      case (case class_short (wn_class w) of None \<Rightarrow> (long, i) | Some sp \<Rightarrow> drawSide g sp i) of (short, i) \<Rightarrow>
        (case wn_lie w of
           lieDown \<Rightarrow> ((short, long), i)
         | lieAcross \<Rightarrow> ((long, short), i)
         | lieDrawn \<Rightarrow> (if rg_intn g i 2 = 0 then (short, long) else (long, short), i + 1)))"

definition draw_spot :: "rng \<Rightarrow> solid list \<Rightarrow> f64 \<Rightarrow> f64 \<Rightarrow> nat \<Rightarrow> (f64 \<times> f64) \<times> nat" where
  "draw_spot g placed w h i =
     (if placed = [] then anywhere g w h i
      else if rg_float g i < fl adjacentShare
      then beside g (so_rect (placed ! rg_intn g (i + 1) (length placed))) w h (i + 2)
      else anywhere g w h (i + 1))"

definition drawSolid :: "rng \<Rightarrow> wanted \<Rightarrow> solid list \<Rightarrow> nat \<Rightarrow> solid \<times> nat" where
  "drawSolid g w placed i =
     (case draw_size g w i of ((width, height), i) \<Rightarrow>
      case draw_spot g placed width height i of ((x, y), i) \<Rightarrow>
        (\<lparr>so_rect = \<lparr>rx = onFloor x width OfficeW, ry = onFloor y height OfficeH, rw = width, rh = height\<rparr>,
          so_kind = class_kind (wn_class w)\<rparr>, i))"

definition roomFor :: "solid list \<Rightarrow> vec2 list \<Rightarrow> rect \<Rightarrow> bool" where
  "roomFor placed spots cand \<longleftrightarrow>
     (if wallGap cand < MinGap then False
      else if list_ex (\<lambda>s. sepAxis (so_rect s) cand < MinGap) placed then False
      else if list_ex (\<lambda>p. pointGap cand p < fl SpotClear) spots then False
      else True)"

section \<open>The whole floor\<close>

fun draw_tail :: "nat \<Rightarrow> rng \<Rightarrow> nat \<Rightarrow> wanted list \<times> nat" where
  "draw_tail 0 g i = ([], i)"
| "draw_tail (Suc n) g i =
     (case draw_tail n g (i + 1) of (ws, j) \<Rightarrow>
        (\<lparr>wn_class = tailPool ! rg_intn g i (length tailPool), wn_lie = lieDrawn\<rparr> # ws, j))"

definition wishList :: "rng \<Rightarrow> nat \<Rightarrow> wanted list \<times> nat" where
  "wishList g i =
     (case draw_tail (tailMin + rg_intn g i (tailMax - tailMin + 1)) g (i + 1) of (tail, j) \<Rightarrow>
        ([\<lparr>wn_class = classRun, wn_lie = lieAcross\<rparr>, \<lparr>wn_class = classRun, wn_lie = lieDown\<rparr>,
          \<lparr>wn_class = classTree, wn_lie = lieDrawn\<rparr>, \<lparr>wn_class = classFlower, wn_lie = lieDrawn\<rparr>] @ tail, j))"

definition panes :: "string \<Rightarrow> nat \<Rightarrow> f64 \<Rightarrow> f64 \<Rightarrow> window list" where
  "panes wall n pos pane =
     map (\<lambda>i. \<lparr>wi_wall = wall, wi_at = fadd pos (fmul (of_nat i) (fadd pane windowGap)), wi_len = pane\<rparr>) [0 ..< n]"

definition glaze_wall :: "rng \<Rightarrow> string \<Rightarrow> nat \<Rightarrow> window list \<times> nat" where
  "glaze_wall g wall i =
     (let usable = fsub (wallLength wall) (2 * windowInset);
          n = panesMin + rg_intn g i (panesMax - panesMin + 1);
          widest = snapDown (fdiv (fsub usable (fmul (of_nat (n - 1)) windowGap)) (of_nat n)) in
      case drawSide g (paneMin, paneMax) (i + 1) of (side, j) \<Rightarrow>
      let pane = min side widest;
          run = fadd (fmul (of_nat n) pane) (fmul (of_nat (n - 1)) windowGap);
          pos = fadd windowInset (snapDown (fdiv (fsub usable run) 2)) in
        (panes wall n pos pane, j))"

fun glaze :: "rng \<Rightarrow> string list \<Rightarrow> nat \<Rightarrow> window list \<times> nat" where
  "glaze g [] i = ([], i)"
| "glaze g (wall # ws) i =
     (case glaze_wall g wall i of (a, i) \<Rightarrow> case glaze g ws i of (b, i) \<Rightarrow> (a @ b, i))"

definition glazing :: "rng \<Rightarrow> nat \<Rightarrow> window list \<times> nat" where "glazing g i = glaze g Walls i"

fun try_place :: "nat \<Rightarrow> rng \<Rightarrow> wanted \<Rightarrow> layout \<Rightarrow> nat \<Rightarrow> layout \<times> nat" where
  "try_place 0 g w l i = (l, i)"
| "try_place (Suc k) g w l i =
     (case drawSolid g w (l_solids l) i of (cand, i) \<Rightarrow>
        if \<not> roomFor (l_solids l) FixedPoints (so_rect cand) then try_place k g w l i
        else let l' = l\<lparr>l_solids := l_solids l @ [cand]\<rparr> in
          if ValidateLayout l' \<noteq> [] then try_place k g w l i else (l', i))"

fun place_all :: "rng \<Rightarrow> wanted list \<Rightarrow> layout \<Rightarrow> nat \<Rightarrow> layout \<times> nat" where
  "place_all g [] l i = (l, i)"
| "place_all g (w # ws) l i = (case try_place placeTries g w l i of (l, i) \<Rightarrow> place_all g ws l i)"

definition WithID :: "(solid list \<Rightarrow> window list \<Rightarrow> string) \<Rightarrow> layout \<Rightarrow> layout" where
  "WithID hash l = l\<lparr>l_id := hash (l_solids l) (l_windows l)\<rparr>"

definition Generate :: "(solid list \<Rightarrow> window list \<Rightarrow> string) \<Rightarrow> (int \<Rightarrow> rng) \<Rightarrow> int \<Rightarrow> gen_error + layout" where
  "Generate hash rand seed =
     (let g = rand seed in
      case glazing g 0 of (ws, i) \<Rightarrow>
      case wishList g i of (wish, i) \<Rightarrow>
      case place_all g wish \<lparr>l_id = '''', l_solids = [], l_windows = ws\<rparr> i of (l, i) \<Rightarrow>
        if length (l_solids l) < minSolids then Inl ErrThinFloor else Inr (WithID hash l))"

section \<open>The lattice\<close>

definition quarter :: "rat \<Rightarrow> bool" where "quarter x \<longleftrightarrow> (\<exists>k :: int. x = of_int k / 4)"

lemma quarterI [intro]: "x = of_int k / 4 \<Longrightarrow> quarter x"
  by (auto simp: quarter_def)

lemma quarter_int: "quarter (of_int n)"
  by (rule quarterI [of _ "4 * n"]) simp

lemma quarter_numbers [simp]: "quarter 0" "quarter 1" "quarter (3 / 2)" "quarter (3 / 4)" "quarter (numeral m)"
  using quarterI [of 0 0] quarterI [of 1 4] quarterI [of "3 / 2" 6] quarterI [of "3 / 4" 3] quarter_int [of "numeral m"] by simp_all

lemma quarter_add: "quarter x \<Longrightarrow> quarter y \<Longrightarrow> quarter (x + y)"
  unfolding quarter_def by (metis add_divide_distrib of_int_add)

lemma quarter_minus: "quarter x \<Longrightarrow> quarter (- x)"
  unfolding quarter_def by (metis minus_divide_left of_int_minus)

lemma quarter_diff: "quarter x \<Longrightarrow> quarter y \<Longrightarrow> quarter (x - y)"
  using quarter_add [of x "- y"] quarter_minus by simp

lemma quarter_times: "quarter x \<Longrightarrow> quarter (of_int n * x)"
  unfolding quarter_def by (metis of_int_mult times_divide_eq_right)

lemma quarter_exact: "quarter x \<Longrightarrow> \<bar>x\<bar> \<le> 2 ^ 40 \<Longrightarrow> fl x = x"
proof -
  assume "quarter x" and b: "\<bar>x\<bar> \<le> 2 ^ 40"
  then obtain k where k: "x = of_int k / 4" by (auto simp: quarter_def)
  then have "of_int \<bar>k\<bar> \<le> (of_int (2 ^ 42) :: rat)" using b by simp
  then have "\<bar>k\<bar> \<le> 2 ^ 42" unfolding of_int_le_iff .
  then have "\<bar>k\<bar> \<le> 2 ^ 53" by simp
  from fl_exact [OF this, of "- 2"] have "fl (of_int k / 4) = of_int k / 4" by (simp add: power_int_minus)
  then show ?thesis unfolding k .
qed

lemma quarter_fadd: "quarter x \<Longrightarrow> quarter y \<Longrightarrow> \<bar>x\<bar> \<le> 1000 \<Longrightarrow> \<bar>y\<bar> \<le> 1000 \<Longrightarrow> fadd x y = x + y"
  unfolding fadd_def by (intro quarter_exact quarter_add) auto

lemma quarter_fsub: "quarter x \<Longrightarrow> quarter y \<Longrightarrow> \<bar>x\<bar> \<le> 1000 \<Longrightarrow> \<bar>y\<bar> \<le> 1000 \<Longrightarrow> fsub x y = x - y"
  unfolding fsub_def by (intro quarter_exact quarter_diff) auto

lemma snapDown_eq:
  assumes "fl v = v" and "\<bar>v\<bar> \<le> 2 ^ 20"
  shows "snapDown v = of_int \<lfloor>4 * v\<rfloor> / 4"
proof -
  have "fdiv v placeStep = fl (v * 2 powi 2)" by (simp add: fdiv_def placeStep_def power_int_def mult.commute)
  then have d: "fdiv v placeStep = 4 * v" unfolding fl_scale assms(1) by simp
  have "\<bar>of_int \<lfloor>4 * v\<rfloor> / 4 :: rat\<bar> \<le> 2 ^ 40"
  proof -
    have "of_int \<lfloor>4 * v\<rfloor> \<le> 4 * v" "4 * v < of_int \<lfloor>4 * v\<rfloor> + 1" using floor_correct [of "4 * v"] by auto
    then show ?thesis using assms(2) by (auto simp: abs_le_iff)
  qed
  from quarter_exact [OF _ this] have "fl (of_int \<lfloor>4 * v\<rfloor> / 4) = of_int \<lfloor>4 * v\<rfloor> / 4" by auto
  then show ?thesis unfolding snapDown_def d by (simp add: fmul_def placeStep_def)
qed

lemma snapDown_lattice:
  assumes "fl v = v" and "lo \<le> v" and "v \<le> hi" and "\<bar>lo\<bar> \<le> 1000" and "\<bar>hi\<bar> \<le> 1000"
  shows "quarter (snapDown v) \<and> snapDown v \<le> v \<and> v < snapDown v + 1 / 4"
proof -
  have b: "\<bar>v\<bar> \<le> 2 ^ 20" using assms by (auto simp: abs_le_iff)
  have "of_int \<lfloor>4 * v\<rfloor> / 4 \<le> v" "v < of_int \<lfloor>4 * v\<rfloor> / 4 + 1 / 4" using floor_correct [of "4 * v"] by linarith+
  then show ?thesis unfolding snapDown_eq [OF assms(1) b] by blast
qed

lemma snapDown_ge: "fl v = v \<Longrightarrow> quarter q \<Longrightarrow> q \<le> v \<Longrightarrow> 0 \<le> q \<Longrightarrow> v \<le> 1000 \<Longrightarrow> q \<le> snapDown v"
proof -
  assume a: "fl v = v" "quarter q" "q \<le> v" "0 \<le> q" "v \<le> 1000"
  then obtain k where k: "q = of_int k / 4" by (auto simp: quarter_def)
  then have "of_int k \<le> 4 * v" using a(3) by simp
  then have "k \<le> \<lfloor>4 * v\<rfloor>" by (simp add: le_floor_iff)
  moreover have "snapDown v = of_int \<lfloor>4 * v\<rfloor> / 4" using a by (intro snapDown_eq) auto
  ultimately show ?thesis using k by simp
qed

section \<open>What a draw looks like\<close>

lemma draw_scaled:
  assumes "0 \<le> r" and "r < 1" and "0 \<le> b" and "b \<le> 1000" and "fl b = b"
  shows "0 \<le> fmul r b \<and> fmul r b \<le> b \<and> quarter (snapDown (fmul r b)) \<and> 0 \<le> snapDown (fmul r b) \<and> snapDown (fmul r b) \<le> b"
proof -
  have "0 \<le> fmul r b" unfolding fmul_def using assms by (intro fl_nonneg) simp
  moreover have "fmul r b \<le> b" unfolding fmul_def using assms by (intro fl_le) (auto simp: mult_left_le_one_le)
  moreover have "fl (fmul r b) = fmul r b" by (simp add: fmul_def)
  ultimately show ?thesis using snapDown_lattice [of "fmul r b" 0 1000] snapDown_ge [of "fmul r b" 0] assms(4) by auto
qed

definition side_in :: "f64 \<times> f64 \<Rightarrow> f64 \<Rightarrow> bool" where
  "side_in sp x \<longleftrightarrow> quarter x \<and> fst sp \<le> x \<and> x \<le> snd sp"

lemma drawSide_in:
  assumes "rng_ok g" and "quarter lo" and "quarter hi" and "0 \<le> lo" and "lo \<le> hi" and "hi \<le> 1000"
  shows "side_in (lo, hi) (fst (drawSide g (lo, hi) i))"
proof -
  have f: "fsub hi lo = hi - lo" using assms by (intro quarter_fsub) auto
  have r: "0 \<le> rg_float g i" "rg_float g i < 1" using assms(1) by (auto simp: rng_ok_def)
  have "fl (hi - lo) = hi - lo" using f by (simp add: fsub_def)
  from draw_scaled [OF r _ _ this] assms have s: "quarter (snapDown (fmul (rg_float g i) (hi - lo)))"
    "0 \<le> snapDown (fmul (rg_float g i) (hi - lo))" "snapDown (fmul (rg_float g i) (hi - lo)) \<le> hi - lo" by auto
  then have "fadd lo (snapDown (fmul (rg_float g i) (hi - lo))) = lo + snapDown (fmul (rg_float g i) (hi - lo))"
    using assms by (intro quarter_fadd) auto
  then show ?thesis using s assms(2) by (auto simp: side_in_def drawSide_def f intro: quarter_add)
qed

definition sized :: "rat \<Rightarrow> bool" where "sized x \<longleftrightarrow> quarter x \<and> 3 / 4 \<le> x \<and> x \<le> 6"

lemma class_sides:
  assumes "rng_ok g"
  shows "sized (fst (drawSide g (class_long c) i))" and "class_short c = Some sp \<Longrightarrow> sized (fst (drawSide g sp i))"
proof -
  have q: "quarter (5 / 4)" "quarter (7 / 4)" using quarterI [of "5 / 4" 5] quarterI [of "7 / 4" 7] by simp_all
  show "sized (fst (drawSide g (class_long c) i))"
    using drawSide_in [OF assms, of 4 6 i] drawSide_in [OF assms, of "3 / 2" 3 i] drawSide_in [OF assms, of "3 / 4" 1 i]
      drawSide_in [OF assms, of "5 / 4" "7 / 4" i] q by (cases c) (auto simp: side_in_def sized_def)
  show "class_short c = Some sp \<Longrightarrow> sized (fst (drawSide g sp i))"
    using drawSide_in [OF assms, of "3 / 4" 1 i] by (cases c) (auto simp: side_in_def sized_def)
qed

lemma draw_size_ok: "rng_ok g \<Longrightarrow> draw_size g w i = ((a, b), j) \<Longrightarrow> sized a \<and> sized b"
  using class_sides [of g "wn_class w"]
  by (auto simp: draw_size_def split: prod.splits option.splits lie.splits if_splits) (metis fst_conv)+

text \<open>A coordinate on the lattice, of a size that sums of it stay exact.\<close>

definition coord :: "rat \<Rightarrow> bool" where "coord x \<longleftrightarrow> quarter x \<and> \<bar>x\<bar> \<le> 100"

lemma slide_ok:
  assumes "rng_ok g" and "sized sp"
  shows "quarter (slide g i sp) \<and> \<bar>slide g i sp\<bar> \<le> 20"
proof -
  have r: "0 \<le> rg_float g i" "rg_float g i < 1" "fl (rg_float g i) = rg_float g i" using assms(1) by (auto simp: rng_ok_def)
  have s: "0 \<le> sp" "sp \<le> 6" "fl sp = sp" using assms(2) quarter_exact [of sp] by (auto simp: sized_def)
  define a where "a = fsub (fmul (rg_float g i) 2) 1"
  have "0 \<le> fmul (rg_float g i) 2" "fmul (rg_float g i) 2 \<le> 2" unfolding fmul_def using r fl_int [of 2]
    by (auto intro!: fl_nonneg fl_le)
  then have a: "- 1 \<le> a" "a \<le> 1" unfolding a_def fsub_def using fl_int [of "- 1"] fl_int [of 1] by (auto intro!: le_fl fl_le)
  define b where "b = fmul a sp"
  have m: "- 6 \<le> a * sp" "a * sp \<le> 6"
  proof -
    have "\<bar>a * sp\<bar> \<le> 1 * 6" unfolding abs_mult using a s by (intro mult_mono) auto
    then show "- 6 \<le> a * sp" "a * sp \<le> 6" by (auto simp: abs_le_iff)
  qed
  have b: "- 6 \<le> b" "b \<le> 6" unfolding b_def fmul_def using m fl_int [of "- 6"] fl_int [of 6] by (auto intro!: le_fl fl_le)
  have f: "0 \<le> fl slideFraction" "fl slideFraction \<le> 1" using fl_int [of 1] by (auto simp: slideFraction_def intro!: fl_nonneg fl_le)
  define c where "c = fmul b (fl slideFraction)"
  have "\<bar>b * fl slideFraction\<bar> \<le> 6 * 1" unfolding abs_mult using b f by (intro mult_mono) auto
  then have "- 6 \<le> c" "c \<le> 6" unfolding c_def fmul_def using fl_int [of "- 6"] fl_int [of 6] by (auto simp: abs_le_iff intro!: le_fl fl_le)
  moreover have "fl c = c" by (simp add: c_def fmul_def)
  ultimately have "quarter (snapDown c) \<and> snapDown c \<le> c \<and> c < snapDown c + 1 / 4" using snapDown_lattice [of c "- 6" 6] by simp
  then show ?thesis using \<open>- 6 \<le> c\<close> \<open>c \<le> 6\<close> unfolding slide_def a_def [symmetric] b_def [symmetric] c_def [symmetric] by auto
qed

definition boxed :: "rect \<Rightarrow> bool" where
  "boxed d \<longleftrightarrow> quarter (rx d) \<and> quarter (ry d) \<and> \<bar>rx d\<bar> \<le> 22 \<and> \<bar>ry d\<bar> \<le> 22 \<and> sized (rw d) \<and> sized (rh d)"

lemma beside_ok:
  assumes "rng_ok g" and "boxed host" and "sized w" and "sized h" and "beside g host w h i = ((x, y), j)"
  shows "coord x \<and> coord y"
proof -
  define al where "al = fadd MinGap (snapDown (fmul (rg_float g i) aisleMax))"
  have r: "0 \<le> rg_float g i" "rg_float g i < 1" using assms(1) by (auto simp: rng_ok_def)
  from draw_scaled [OF r, of 1] have s: "quarter (snapDown (fmul (rg_float g i) aisleMax))"
    "0 \<le> snapDown (fmul (rg_float g i) aisleMax)" "snapDown (fmul (rg_float g i) aisleMax) \<le> 1"
    using fl_int [of 1] by (auto simp: aisleMax_def)
  then have "al = 3 / 2 + snapDown (fmul (rg_float g i) aisleMax)" unfolding al_def MinGap_def using quarter_fadd by simp
  then have al: "quarter al" "3 / 2 \<le> al" "al \<le> 5 / 2" using s by (auto intro: quarter_add)
  have hq: "quarter (rx host)" "quarter (ry host)" "\<bar>rx host\<bar> \<le> 22" "\<bar>ry host\<bar> \<le> 22"
    "quarter (rw host)" "quarter (rh host)" "\<bar>rw host\<bar> \<le> 6" "\<bar>rh host\<bar> \<le> 6" "quarter w" "quarter h" "\<bar>w\<bar> \<le> 6" "\<bar>h\<bar> \<le> 6"
    using assms(2-4) by (auto simp: boxed_def sized_def)
  have sl: "quarter (slide g (i + 2) (rw host))" "\<bar>slide g (i + 2) (rw host)\<bar> \<le> 20" "quarter (slide g (i + 2) (rh host))" "\<bar>slide g (i + 2) (rh host)\<bar> \<le> 20"
    using slide_ok [OF assms(1)] assms(2) by (auto simp: boxed_def)
  have add: "fadd p q = p + q \<and> quarter (p + q) \<and> \<bar>p + q\<bar> \<le> m + n" if "quarter p" "quarter q" "\<bar>p\<bar> \<le> m" "\<bar>q\<bar> \<le> n" "m \<le> 50" "n \<le> 50" for p q m n
    using that by (auto intro!: quarter_fadd quarter_add)
  have sub: "fsub p q = p - q \<and> quarter (p - q) \<and> \<bar>p - q\<bar> \<le> m + n" if "quarter p" "quarter q" "\<bar>p\<bar> \<le> m" "\<bar>q\<bar> \<le> n" "m \<le> 50" "n \<le> 50" for p q m n
    using that by (auto intro!: quarter_fsub quarter_diff)
  have al': "\<bar>al\<bar> \<le> 3" using al by auto
  have far: "coord (fadd (fadd p q) al)" if "quarter p" "\<bar>p\<bar> \<le> 22" "quarter q" "\<bar>q\<bar> \<le> 6" for p q
    using add [OF that(1,3,2,4)] add [of "p + q" al 28 3] al al' by (auto simp: coord_def)
  have near: "coord (fsub (fsub p al) q)" if "quarter p" "\<bar>p\<bar> \<le> 22" "quarter q" "\<bar>q\<bar> \<le> 6" for p q
    using sub [OF that(1) al(1) that(2) al'] sub [of "p - al" q 25 6] that by (auto simp: coord_def)
  have along: "coord (fadd p q)" if "quarter p" "\<bar>p\<bar> \<le> 22" "quarter q" "\<bar>q\<bar> \<le> 20" for p q
    using add [OF that(1,3,2,4)] by (auto simp: coord_def)
  let ?sx = "slide g (i + 2) (rw host)" and ?sy = "slide g (i + 2) (rh host)"
  have xy: "(x, y) \<in> {(fadd (fadd (rx host) (rw host)) al, fadd (ry host) ?sy), (fsub (fsub (rx host) al) w, fadd (ry host) ?sy),
      (fadd (rx host) ?sx, fadd (fadd (ry host) (rh host)) al), (fadd (rx host) ?sx, fsub (fsub (ry host) al) h)}"
    using assms(5) unfolding beside_def Let_def al_def [symmetric] by (simp split: if_splits)
  have "coord (fadd (fadd (rx host) (rw host)) al)" "coord (fadd (fadd (ry host) (rh host)) al)"
    "coord (fsub (fsub (rx host) al) w)" "coord (fsub (fsub (ry host) al) h)" "coord (fadd (rx host) ?sx)" "coord (fadd (ry host) ?sy)"
    using far [OF hq(1,3,5,7)] far [OF hq(2,4,6,8)] near [OF hq(1,3,9,11)] near [OF hq(2,4,10,12)]
      along [OF hq(1,3) sl(1,2)] along [OF hq(2,4) sl(3,4)] .
  then show ?thesis using xy by (simp only: insert_iff empty_iff prod.inject) blast
qed

lemma anywhere_ok:
  assumes "rng_ok g" and "sized w" and "sized h" and "anywhere g w h i = ((x, y), j)"
  shows "coord x \<and> coord y"
proof -
  have c: "coord (fadd MinGap (snapDown (fmul (rg_float g k) (fsub e s))))" if "sized s" "quarter e" "6 \<le> e" "e \<le> 20" for k e s
  proof -
    have f: "fsub e s = e - s" using that by (intro quarter_fsub) (auto simp: sized_def)
    have r: "0 \<le> rg_float g k" "rg_float g k < 1" using assms(1) by (auto simp: rng_ok_def)
    have "fl (e - s) = e - s" using f by (simp add: fsub_def)
    from draw_scaled [OF r _ _ this] that have "quarter (snapDown (fmul (rg_float g k) (e - s)))"
      "0 \<le> snapDown (fmul (rg_float g k) (e - s))" "snapDown (fmul (rg_float g k) (e - s)) \<le> e - s" by (auto simp: sized_def)
    then show ?thesis unfolding f using quarter_fadd [of "3 / 2" "snapDown (fmul (rg_float g k) (e - s))"] that
      by (auto simp: MinGap_def coord_def sized_def intro: quarter_add)
  qed
  then show ?thesis using assms(4) c [OF assms(2), of 13] c [OF assms(3), of 19] by (auto simp: anywhere_def gen_numbers)
qed

lemma onFloor_ok:
  assumes "coord v" and "sized s" and "e = 16 \<or> e = 22"
  shows "quarter (onFloor v s e) \<and> \<bar>onFloor v s e\<bar> \<le> 22 \<and> 3 / 2 \<le> onFloor v s e \<and> onFloor v s e + s \<le> e - 3 / 2"
proof -
  have a: "fsub e MinGap = e - 3 / 2" unfolding MinGap_def using assms(3) quarter_fsub [of e "3 / 2"] by auto
  have "quarter (e - 3 / 2)" using assms(3) by (auto intro: quarter_diff)
  then have b: "fsub (fsub e MinGap) s = e - 3 / 2 - s" "quarter (e - 3 / 2 - s)" unfolding a using assms(2,3)
    by (auto simp: sized_def intro!: quarter_fsub intro: quarter_diff)
  show ?thesis unfolding onFloor_def b(1) using assms b(2) by (auto simp: coord_def sized_def MinGap_def min_def max_def)
qed

text \<open>What is drawn stands on the lattice, has a legal size and keeps the gap to every wall.\<close>

lemma drawSolid_ok:
  assumes "rng_ok g" and "\<forall>s \<in> set placed. boxed (so_rect s)" and "drawSolid g w placed i = (s, j)"
  shows "boxed (so_rect s) \<and> solid_ok s"
proof -
  obtain a b i1 where d: "draw_size g w i = ((a, b), i1)" by (metis prod.exhaust)
  obtain x y i2 where p: "draw_spot g placed a b i1 = ((x, y), i2)" by (metis prod.exhaust)
  have s: "s = \<lparr>so_rect = \<lparr>rx = onFloor x a OfficeW, ry = onFloor y b OfficeH, rw = a, rh = b\<rparr>, so_kind = class_kind (wn_class w)\<rparr>"
    using assms(3) by (simp add: drawSolid_def d p)
  have ab: "sized a" "sized b" using draw_size_ok [OF assms(1) d] by auto
  have "coord x \<and> coord y"
  proof (cases "placed = [] \<or> \<not> rg_float g i1 < fl adjacentShare")
    case True
    then show ?thesis using p anywhere_ok [OF assms(1) ab] by (auto simp: draw_spot_def split: if_splits)
  next
    case False
    then have "rg_intn g (i1 + 1) (length placed) < length placed" using assms(1) by (auto simp: rng_ok_def)
    then have "boxed (so_rect (placed ! rg_intn g (i1 + 1) (length placed)))" using assms(2) by simp
    from beside_ok [OF assms(1) this ab] show ?thesis using p False by (auto simp: draw_spot_def)
  qed
  then have o: "quarter (rx (so_rect s))" "\<bar>rx (so_rect s)\<bar> \<le> 22" "3 / 2 \<le> rx (so_rect s)" "rx (so_rect s) + a \<le> 29 / 2"
    "quarter (ry (so_rect s))" "\<bar>ry (so_rect s)\<bar> \<le> 22" "3 / 2 \<le> ry (so_rect s)" "ry (so_rect s) + b \<le> 41 / 2"
    using onFloor_ok [OF _ ab(1), of x 16] onFloor_ok [OF _ ab(2), of y 22] by (auto simp: s OfficeW_def OfficeH_def)
  have ms: "fl MinSolidSide \<le> 3 / 4" using quarter_exact [of "3 / 4"] by (intro fl_le) (simp_all add: MinSolidSide_def)
  have sz: "\<not> bad_size (so_rect s)" using ab ms by (auto simp: s bad_size_def sized_def MaxSolidSide_def)
  have q: "quarter a" "quarter b" "\<bar>a\<bar> \<le> 6" "\<bar>b\<bar> \<le> 6" using ab by (auto simp: sized_def)
  have e: "fadd (rx (so_rect s)) a = rx (so_rect s) + a" "fadd (ry (so_rect s)) b = ry (so_rect s) + b"
    using o q by (auto intro!: quarter_fadd)
  have f: "fsub OfficeW (rx (so_rect s) + a) = 16 - (rx (so_rect s) + a)" "fsub OfficeH (ry (so_rect s) + b) = 22 - (ry (so_rect s) + b)"
    unfolding OfficeW_def OfficeH_def using o q by (auto intro!: quarter_fsub quarter_add)
  have rwh: "rw (so_rect s) = a" "rh (so_rect s) = b" by (simp_all add: s)
  have "MinGap \<le> wallGap (so_rect s)" unfolding wallGap_def rwh e f using o by (auto simp: MinGap_def)
  moreover have "validKind (so_kind s)" by (cases "wn_class w") (simp_all add: s validKind_def Kinds_def)
  ultimately show ?thesis using o ab sz by (auto simp: boxed_def solid_ok_def rwh)
qed

section \<open>The glazing\<close>

definition wide :: "rat \<Rightarrow> nat \<Rightarrow> rat" where
  "wide usable n = snapDown (fdiv (fsub usable (fmul (of_nat (n - 1)) windowGap)) (of_nat n))"

text \<open>The three numbers of panes on the two lengths of wall.\<close>

lemma snap_ratio:
  assumes "of_int m \<le> 4 * x" and "4 * x \<le> of_int m + 3 / 4" and "0 \<le> m" and "m \<le> 1000"
  shows "snapDown (fl x) = of_int m / 4"
proof -
  have e: "fl (of_int k * 2 powi (- 4)) = of_int k * 2 powi (- 4)" if "\<bar>k\<bar> \<le> 2 ^ 53" for k by (rule fl_exact [OF that])
  have "fl (of_int m / 4) = of_int m / 4" "fl (of_int (4 * m + 3) / 16) = of_int (4 * m + 3) / 16"
    using e [of "4 * m"] e [of "4 * m + 3"] assms(3,4) by (simp_all add: power_int_minus)
  note q = this
  have v: "of_int m / 4 \<le> fl x" by (rule le_fl [OF _ q(1)]) (use assms(1) in linarith)
  have v2: "fl x \<le> of_int (4 * m + 3) / 16" by (rule fl_le [OF _ q(2)]) (use assms(2) in \<open>simp add: field_simps\<close>)
  have "of_int m \<le> (1000 :: rat)" "0 \<le> (of_int m :: rat)" using assms(3,4) by simp_all
  moreover have v': "fl x \<le> of_int m / 4 + 3 / 16" using v2 by (simp add: field_simps)
  ultimately have "\<bar>fl x\<bar> \<le> 2 ^ 20" using v by (auto simp: abs_le_iff)
  from snapDown_eq [OF fl_fl this] have "snapDown (fl x) = of_int \<lfloor>4 * fl x\<rfloor> / 4" .
  moreover have "\<lfloor>4 * fl x\<rfloor> = m" using v v' by (intro floor_unique) linarith+
  ultimately show ?thesis by simp
qed

lemma wide_values:
  "wide (29 / 2) 2 = 27 / 4" "wide (29 / 2) 3 = 17 / 4" "wide (29 / 2) 4 = 3"
  "wide (41 / 2) 2 = 39 / 4" "wide (41 / 2) 3 = 25 / 4" "wide (41 / 2) 4 = 9 / 2"
proof -
  have w: "wide u n = of_int m / 4"
    if "quarter u" "\<bar>u\<bar> \<le> 100" "fmul (of_nat (n - 1)) windowGap = g" "quarter g" "\<bar>g\<bar> \<le> 100"
      "of_int m \<le> 4 * ((u - g) / of_nat n)" "4 * ((u - g) / of_nat n) \<le> of_int m + 3 / 4" "0 \<le> m" "m \<le> 1000" for u n m g
    using snap_ratio [OF that(6-9)] quarter_fsub [of u g] that(1-5) by (simp add: wide_def fdiv_def)
  have q: "quarter (29 / 2)" "quarter (41 / 2)" "quarter (9 / 4)"
    using quarterI [of "29 / 2" 58] quarterI [of "41 / 2" 82] quarterI [of "9 / 4" 9] by simp_all
  have g: "fmul (of_nat (2 - 1)) windowGap = 3 / 4" "fmul (of_nat (3 - 1)) windowGap = 3 / 2" "fmul (of_nat (4 - 1)) windowGap = 9 / 4"
    unfolding fmul_def windowGap_def using quarter_exact [of "3 / 4"] quarter_exact [of "3 / 2"] quarter_exact [OF q(3)] by simp_all
  show "wide (29 / 2) 2 = 27 / 4" using w [OF q(1) _ g(1), of 27] by simp
  show "wide (29 / 2) 3 = 17 / 4" using w [OF q(1) _ g(2), of 17] by simp
  show "wide (29 / 2) 4 = 3" using w [OF q(1) _ g(3), of 12] q(3) by simp
  show "wide (41 / 2) 2 = 39 / 4" using w [OF q(2) _ g(1), of 39] by simp
  show "wide (41 / 2) 3 = 25 / 4" using w [OF q(2) _ g(2), of 25] by simp
  show "wide (41 / 2) 4 = 9 / 2" using w [OF q(2) _ g(3), of 18] q(3) by simp
qed

lemma quarter_scaled: "quarter x \<Longrightarrow> \<bar>x\<bar> \<le> 100 \<Longrightarrow> n \<le> 4 \<Longrightarrow> fmul (of_nat n) x = of_nat n * x"
proof -
  assume a: "quarter x" "\<bar>x\<bar> \<le> 100" "n \<le> 4"
  have "\<bar>of_nat n * x\<bar> \<le> 4 * 100" unfolding abs_mult using a by (intro mult_mono) auto
  moreover have "quarter (of_nat n * x)" using quarter_times [OF a(1), of "int n"] by simp
  ultimately show ?thesis unfolding fmul_def by (intro quarter_exact) auto
qed

definition glazed :: "string \<Rightarrow> rat \<Rightarrow> rat \<Rightarrow> nat \<Rightarrow> bool" where
  "glazed wall pos pane n \<longleftrightarrow> quarter pos \<and> quarter pane \<and> 3 / 4 \<le> pos \<and> 3 / 2 \<le> pane \<and> pane \<le> 4 \<and> 2 \<le> n \<and> n \<le> 4 \<and>
     pos + of_nat (n - 1) * (pane + 3 / 4) + pane \<le> wallLength wall - 3 / 4"

lemma glaze_wall_shape:
  assumes "rng_ok g" and "glaze_wall g wall i = (ws, j)"
  shows "\<exists>pos pane n. ws = panes wall n pos pane \<and> glazed wall pos pane n"
proof -
  define L where "L = wallLength wall"
  have L: "L = 16 \<or> L = 22" by (auto simp: L_def wallLength_def OfficeW_def OfficeH_def)
  define u where "u = fsub L (2 * windowInset)"
  have u: "u = L - 3 / 2" unfolding u_def windowInset_def using L quarter_fsub [of L "3 / 2"] by auto
  define n where "n = panesMin + rg_intn g i (panesMax - panesMin + 1)"
  have "rg_intn g i 3 < 3" using assms(1) by (simp add: rng_ok_def)
  then have n: "n = 2 \<or> n = 3 \<or> n = 4" unfolding n_def panesMin_def panesMax_def by auto
  define side where "side = fst (drawSide g (paneMin, paneMax) (i + 1))"
  have side: "quarter side" "3 / 2 \<le> side" "side \<le> 4"
    using drawSide_in [OF assms(1), of "3 / 2" 4 "i + 1"] by (auto simp: side_def side_in_def paneMin_def paneMax_def)
  define pane where "pane = min side (wide u n)"
  have w: "quarter (wide u n)" "3 / 2 \<le> wide u n" "of_nat n * wide u n + of_nat (n - 1) * (3 / 4) \<le> u"
  proof -
    have ul: "u = 29 / 2 \<or> u = 41 / 2" using L u by auto
    have q: "quarter (27 / 4)" "quarter (17 / 4)" "quarter (39 / 4)" "quarter (25 / 4)" "quarter (9 / 2)"
      using quarterI [of _ 27] quarterI [of _ 17] quarterI [of _ 39] quarterI [of _ 25] quarterI [of "9 / 2" 18] by simp_all
    consider "u = 29 / 2" "n = 2" | "u = 29 / 2" "n = 3" | "u = 29 / 2" "n = 4" | "u = 41 / 2" "n = 2" | "u = 41 / 2" "n = 3" | "u = 41 / 2" "n = 4"
      using ul n by argo
    then have "quarter (wide u n) \<and> 3 / 2 \<le> wide u n \<and> of_nat n * wide u n + of_nat (n - 1) * (3 / 4) \<le> u"
      by cases (use q in \<open>simp_all add: wide_values del: divide_eq_eq_numeral1 eq_divide_eq_numeral1\<close>)
    then show "quarter (wide u n)" "3 / 2 \<le> wide u n" "of_nat n * wide u n + of_nat (n - 1) * (3 / 4) \<le> u" by blast+
  qed
  have p: "quarter pane" "3 / 2 \<le> pane" "pane \<le> 4" "pane \<le> wide u n" using side w by (auto simp: pane_def min_def)
  have g: "fmul (of_nat (n - 1)) windowGap = of_nat (n - 1) * (3 / 4)" unfolding windowGap_def using n quarter_scaled [of "3 / 4" "n - 1"] by auto
  have qg: "quarter (of_nat (n - 1) * (3 / 4))" using quarter_times [of "3 / 4" "int (n - 1)"] by simp
  have np: "fmul (of_nat n) pane = of_nat n * pane" using p n quarter_scaled [of pane n] by auto
  have qp: "quarter (of_nat n * pane)" using quarter_times [OF p(1), of "int n"] by simp
  define run where "run = fadd (fmul (of_nat n) pane) (fmul (of_nat (n - 1)) windowGap)"
  have run: "run = of_nat n * pane + of_nat (n - 1) * (3 / 4)" unfolding run_def g np using n p qg qp
    by (intro quarter_fadd) auto
  have "of_nat n * pane \<le> of_nat n * wide u n" using p(4) by (intro mult_left_mono) auto
  then have ru: "run \<le> u" "0 \<le> run" using run w(3) p(2) by auto
  have qr: "quarter run" unfolding run by (intro quarter_add qp qg)
  have ub: "quarter u" "u \<le> 30" using L u by (auto intro: quarter_diff)
  have d: "fsub u run = u - run" using qr ub ru L u by (intro quarter_fsub) auto
  define rest where "rest = fdiv (fsub u run) 2"
  have "fdiv (u - run) 2 = (u - run) / 2"
  proof -
    have "fl ((u - run) * 2 powi (- 1)) = fl (u - run) * 2 powi (- 1)" by (rule fl_scale)
    moreover have "fl (u - run) = u - run" using d by (simp add: fsub_def)
    ultimately show ?thesis by (simp add: fdiv_def power_int_minus)
  qed
  then have rest: "rest = (u - run) / 2" by (simp add: rest_def d)
  have r1: "fl rest = rest" "0 \<le> rest" "rest \<le> 1000" using ru ub rest by (simp add: rest_def fdiv_def, simp_all)
  then have s: "quarter (snapDown rest)" "snapDown rest \<le> rest" "0 \<le> snapDown rest"
    using snapDown_lattice [of rest 0 1000] snapDown_ge [of rest 0] by simp_all
  define pos where "pos = fadd windowInset (snapDown rest)"
  have pos: "pos = 3 / 4 + snapDown rest" unfolding pos_def windowInset_def using s r1(3) by (intro trans [OF quarter_fadd]) auto
  have ws: "ws = panes wall n pos pane"
    using assms(2) unfolding glaze_wall_def L_def [symmetric] u_def [symmetric] n_def [symmetric] Let_def drawSide_def
    by (simp add: pos_def rest_def run_def pane_def side_def drawSide_def wide_def)
  have "pos + (of_nat (n - 1) * (pane + 3 / 4) + pane) = pos + run"
    unfolding run using n by (auto simp: algebra_simps)
  then have "glazed wall pos pane n" unfolding glazed_def L_def [symmetric] using p s pos n rest ru u
    by (auto intro: quarter_add)
  then show ?thesis using ws by blast
qed

lemma pane_at:
  assumes "glazed wall pos pane n" and "k < n"
  shows "fadd pos (fmul (of_nat k) (fadd pane windowGap)) = pos + of_nat k * (pane + 3 / 4)"
    and "quarter (pos + of_nat k * (pane + 3 / 4))" and "pos + of_nat k * (pane + 3 / 4) \<le> 30"
    and "pos + of_nat k * (pane + 3 / 4) + pane \<le> wallLength wall - 3 / 4"
proof -
  have a: "quarter pos" "quarter pane" "3 / 4 \<le> pos" "3 / 2 \<le> pane" "pane \<le> 4" "n \<le> 4"
    "pos + of_nat (n - 1) * (pane + 3 / 4) + pane \<le> wallLength wall - 3 / 4" using assms(1) by (auto simp: glazed_def)
  have L: "wallLength wall \<le> 22" by (auto simp: wallLength_def OfficeW_def OfficeH_def)
  have "fadd pane windowGap = pane + 3 / 4" unfolding windowGap_def using a quarter_fadd [of pane "3 / 4"] by simp
  moreover have q: "quarter (pane + 3 / 4)" using a by (intro quarter_add) auto
  moreover have "fmul (of_nat k) (pane + 3 / 4) = of_nat k * (pane + 3 / 4)" using a q assms(2) by (intro quarter_scaled) auto
  moreover have qk: "quarter (of_nat k * (pane + 3 / 4))" using quarter_times [OF q, of "int k"] by simp
  moreover have kle: "of_nat k * (pane + 3 / 4) \<le> of_nat (n - 1) * (pane + 3 / 4)" using assms(2) a by (intro mult_right_mono) auto
  moreover have "0 \<le> of_nat k * (pane + 3 / 4)" using a by simp
  moreover have "pos \<le> 1000 \<and> of_nat k * (pane + 3 / 4) \<le> 1000" using a L calculation(5,6) by linarith
  ultimately show "fadd pos (fmul (of_nat k) (fadd pane windowGap)) = pos + of_nat k * (pane + 3 / 4)"
    using a by (simp, intro quarter_fadd) auto
  show "quarter (pos + of_nat k * (pane + 3 / 4))" using a qk by (intro quarter_add)
  show "pos + of_nat k * (pane + 3 / 4) \<le> 30" "pos + of_nat k * (pane + 3 / 4) + pane \<le> wallLength wall - 3 / 4"
    using a kle L by linarith+
qed

lemma windows_ok_append:
  "windows_ok (a @ b) \<longleftrightarrow> windows_ok a \<and> windows_ok b \<and> (\<forall>w \<in> set a. \<forall>v \<in> set b. panes_apart w v)"
  by (induction a) (auto simp: list_all_iff)

lemma windows_ok_pairs:
  "(\<forall>w \<in> set ws. \<not> bad_window w) \<Longrightarrow> sorted_wrt panes_apart ws \<Longrightarrow> windows_ok ws"
  by (induction ws) (auto simp: list_all_iff)

lemma panes_ok:
  assumes "glazed wall pos pane n" and "wall \<in> set Walls"
  shows "windows_ok (panes wall n pos pane) \<and> (\<forall>w \<in> set (panes wall n pos pane). wi_wall w = wall \<and> quarter (wi_at w) \<and> quarter (wi_len w))"
proof -
  have a: "quarter pane" "3 / 4 \<le> pos" "3 / 2 \<le> pane" "pane \<le> 4" using assms(1) by (auto simp: glazed_def)
  have q: "fl (3 / 2) = 3 / 2" "fl (3 / 4) = 3 / 4" by (rule quarter_exact; simp)+
  have f: "fl WindowMin \<le> 3 / 2" "fl WindowEdge \<le> 3 / 4" "fl WindowMullion \<le> 3 / 4"
    by (rule fl_le [OF _ q(1)] fl_le [OF _ q(2)]; simp add: WindowMin_def WindowEdge_def WindowMullion_def)+
  have L: "wallLength wall = 16 \<or> wallLength wall = 22" by (auto simp: wallLength_def OfficeW_def OfficeH_def)
  have e: "wallLength wall - 3 / 4 \<le> fsub (wallLength wall) (fl WindowEdge)"
    unfolding fsub_def using L f(2) by (intro le_fl) (auto intro!: quarter_exact quarter_diff)
  define x where "x k = pos + of_nat k * (pane + 3 / 4)" for k :: nat
  have x: "quarter (x k)" "x k \<le> 30" "x k + pane \<le> wallLength wall - 3 / 4" if "k < n" for k
    using pane_at [OF assms(1) that] by (simp_all add: x_def)
  have x0: "3 / 4 \<le> x k" for k
  proof -
    have "0 \<le> of_nat k * (pane + 3 / 4)" using a by (intro mult_nonneg_nonneg) auto
    then show ?thesis using a(2) unfolding x_def by linarith
  qed
  have xp: "fadd (x k) pane = x k + pane" if "k < n" for k using x [OF that] x0 [of k] a by (intro quarter_fadd) auto
  have eq: "panes wall n pos pane = map (\<lambda>k. \<lparr>wi_wall = wall, wi_at = x k, wi_len = pane\<rparr>) [0 ..< n]"
    unfolding panes_def using pane_at(1) [OF assms(1)] by (intro map_cong) (auto simp: x_def)
  have v: "validWall wall" using assms(2) by (auto simp: validWall_def list_ex_iff)
  have "\<not> bad_window \<lparr>wi_wall = wall, wi_at = x k, wi_len = pane\<rparr>" if "k < n" for k
    using x [OF that] x0 [of k] v a f e xp [OF that] by (auto simp: bad_window_def)
  moreover have "panes_apart \<lparr>wi_wall = wall, wi_at = x k, wi_len = pane\<rparr> \<lparr>wi_wall = wall, wi_at = x m, wi_len = pane\<rparr>"
    if "k < m" "m < n" for k m
  proof -
    have "of_nat k + 1 \<le> (of_nat m :: rat)" using that(1) by (metis Suc_leI of_nat_Suc of_nat_le_iff add.commute)
    then have "(of_nat k + 1) * (pane + 3 / 4) \<le> of_nat m * (pane + 3 / 4)" using a by (intro mult_right_mono) auto
    moreover have "(of_nat k + 1) * (pane + 3 / 4) = of_nat k * (pane + 3 / 4) + (pane + 3 / 4)" by (rule distrib_right [of "of_nat k" 1, unfolded mult_1])
    ultimately have le: "x k + pane + 3 / 4 \<le> x m" unfolding x_def by linarith
    have k: "k < n" using that by simp
    have "fl (x m) = x m" using x [OF that(2)] x0 [of m] by (intro quarter_exact) auto
    then have "fadd (fadd (x k) pane) (fl WindowMullion) \<le> x m" unfolding xp [OF k] unfolding fadd_def using le f(3) by (intro fl_le) auto
    then show ?thesis by (simp add: panes_apart_def panes_overlap_def)
  qed
  ultimately show ?thesis unfolding eq using x x0 a
    by (auto simp: sorted_wrt_map sorted_wrt_upt intro!: windows_ok_pairs)
      (auto simp: sorted_wrt_iff_nth_less)
qed

lemma glaze_ok:
  assumes "rng_ok g" and "distinct walls" and "set walls \<subseteq> set Walls" and "glaze g walls i = (ws, j)"
  shows "windows_ok ws \<and> wi_wall ` set ws \<subseteq> set walls \<and> (\<forall>w \<in> set ws. quarter (wi_at w) \<and> quarter (wi_len w)) \<and>
    2 * length walls \<le> length ws \<and> length ws \<le> 4 * length walls"
  using assms(2-4)
proof (induction walls arbitrary: i ws j)
  case (Cons wall walls)
  obtain a i1 where a: "glaze_wall g wall i = (a, i1)" by fastforce
  obtain b i2 where b: "glaze g walls i1 = (b, i2)" by fastforce
  from glaze_wall_shape [OF assms(1) a] obtain pos pane n where s: "a = panes wall n pos pane" "glazed wall pos pane n" by blast
  have p: "windows_ok a" "\<forall>w \<in> set a. wi_wall w = wall \<and> quarter (wi_at w) \<and> quarter (wi_len w)"
    using panes_ok [OF s(2)] Cons.prems(2) s(1) by auto
  have n: "2 \<le> length a" "length a \<le> 4" using s by (auto simp: glazed_def panes_def)
  have ih: "windows_ok b \<and> wi_wall ` set b \<subseteq> set walls \<and> (\<forall>w \<in> set b. quarter (wi_at w) \<and> quarter (wi_len w)) \<and>
    2 * length walls \<le> length b \<and> length b \<le> 4 * length walls" using Cons.IH [OF _ _ b] Cons.prems by auto
  have "panes_apart w v" if "w \<in> set a" "v \<in> set b" for w v using that p(2) ih Cons.prems(1) by (auto simp: panes_apart_def)
  moreover have "ws = a @ b" using Cons.prems(3) by (simp add: a b)
  moreover have "wi_wall ` set (a @ b) \<subseteq> set (wall # walls)" using p(2) ih by (auto simp: image_subset_iff)
  moreover have "\<forall>w \<in> set (a @ b). quarter (wi_at w) \<and> quarter (wi_len w)" using p(2) ih by auto
  ultimately show ?case using p(1) ih n by (simp add: windows_ok_append)
qed simp

section \<open>The search\<close>

text \<open>
  The same search with the expensive question asked of every candidate: the reference the generator is
  compared with.
\<close>

fun try_plain :: "nat \<Rightarrow> rng \<Rightarrow> wanted \<Rightarrow> layout \<Rightarrow> nat \<Rightarrow> layout \<times> nat" where
  "try_plain 0 g w l i = (l, i)"
| "try_plain (Suc k) g w l i =
     (case drawSolid g w (l_solids l) i of (cand, i) \<Rightarrow>
        let l' = l\<lparr>l_solids := l_solids l @ [cand]\<rparr> in
        if ValidateLayout l' = [] then (l', i) else try_plain k g w l i)"

fun plain_all :: "rng \<Rightarrow> wanted list \<Rightarrow> layout \<Rightarrow> nat \<Rightarrow> layout \<times> nat" where
  "plain_all g [] l i = (l, i)"
| "plain_all g (w # ws) l i = (case try_plain placeTries g w l i of (l, i) \<Rightarrow> plain_all g ws l i)"

definition Generate_plain :: "(solid list \<Rightarrow> window list \<Rightarrow> string) \<Rightarrow> (int \<Rightarrow> rng) \<Rightarrow> int \<Rightarrow> gen_error + layout" where
  "Generate_plain hash rand seed =
     (let g = rand seed in
      case glazing g 0 of (ws, i) \<Rightarrow>
      case wishList g i of (wish, i) \<Rightarrow>
      case plain_all g wish \<lparr>l_id = '''', l_solids = [], l_windows = ws\<rparr> i of (l, i) \<Rightarrow>
        if length (l_solids l) < minSolids then Inl ErrThinFloor else Inr (WithID hash l))"

lemma pairwise_apart_append:
  "pairwise_apart (ss @ [s]) \<longleftrightarrow> pairwise_apart ss \<and> list_all (\<lambda>t. apart (so_rect t) (so_rect s)) ss"
  by (induction ss) auto

lemma accepted_had_room:
  assumes "ValidateLayout (l\<lparr>l_solids := l_solids l @ [s]\<rparr>) = []"
  shows "roomFor (l_solids l) FixedPoints (so_rect s)"
proof -
  have "playable (l\<lparr>l_solids := l_solids l @ [s]\<rparr>)" using assms ValidateLayout_iff by blast
  then have p: "pairwise_apart (l_solids l @ [s])" "solid_ok s" "\<forall>p \<in> set FixedPoints. spot_clear p s"
    by (auto simp: playable_def list_all_iff)
  then have "\<not> wallGap (so_rect s) < MinGap" by (simp add: solid_ok_def not_less)
  moreover have "\<not> list_ex (\<lambda>t. sepAxis (so_rect t) (so_rect s) < MinGap) (l_solids l)"
    using p(1) by (auto simp: pairwise_apart_append list_all_iff list_ex_iff apart_def not_less)
  moreover have "\<not> list_ex (\<lambda>p. pointGap (so_rect s) p < fl SpotClear) FixedPoints"
    using p(3) by (auto simp: spot_clear_def list_ex_iff not_less)
  ultimately show ?thesis unfolding roomFor_def by (simp only: if_False simp_thms)
qed

lemma try_plain_same: "try_place k g w l i = try_plain k g w l i"
proof (induction k arbitrary: i)
  case (Suc k)
  obtain cand j where d: "drawSolid g w (l_solids l) i = (cand, j)" by fastforce
  show ?case using accepted_had_room [of l cand] Suc by (auto simp: d Let_def)
qed simp

lemma plain_all_same: "place_all g ws l i = plain_all g ws l i"
  by (induction ws arbitrary: l i) (simp_all add: try_plain_same split: prod.splits)

text \<open>
  The cheap test in front of the validator decides nothing: for every source of draws the generator builds
  exactly the floor, and refuses exactly the seeds, of the search that puts every candidate to the
  validator.
\<close>

theorem cheap_test_changes_nothing: "Generate hash rand seed = Generate_plain hash rand seed"
  by (simp add: Generate_def Generate_plain_def plain_all_same)

section \<open>What comes out\<close>


lemma try_place_ok:
  assumes "rng_ok g" and "\<forall>s \<in> set (l_solids l). boxed (so_rect s) \<and> solid_ok s"
    and "l_solids l \<noteq> [] \<longrightarrow> ValidateLayout l = []" and "try_place k g w l i = (l', j)"
  shows "(\<forall>s \<in> set (l_solids l'). boxed (so_rect s) \<and> solid_ok s) \<and> (l_solids l' \<noteq> [] \<longrightarrow> ValidateLayout l' = []) \<and>
    l_windows l' = l_windows l \<and> length (l_solids l') \<le> length (l_solids l) + 1"
  using assms(4)
proof (induction k arbitrary: i)
  case 0
  then show ?case using assms by auto
next
  case (Suc k)
  obtain cand i1 where d: "drawSolid g w (l_solids l) i = (cand, i1)" by fastforce
  have c: "boxed (so_rect cand) \<and> solid_ok cand" using drawSolid_ok [OF assms(1) _ d] assms(2) by blast
  let ?l = "l\<lparr>l_solids := l_solids l @ [cand]\<rparr>"
  show ?case
  proof (cases "roomFor (l_solids l) FixedPoints (so_rect cand) \<and> ValidateLayout ?l = []")
    case True
    then have "l' = ?l" using Suc.prems by (simp add: d Let_def)
    then show ?thesis using True c assms(2) by auto
  next
    case False
    then have "try_place k g w l i1 = (l', j)" using Suc.prems by (auto simp: d Let_def split: if_splits)
    then show ?thesis by (rule Suc.IH)
  qed
qed

lemma place_all_ok:
  assumes "rng_ok g"
  shows "(\<forall>s \<in> set (l_solids l). boxed (so_rect s) \<and> solid_ok s) \<Longrightarrow> (l_solids l \<noteq> [] \<longrightarrow> ValidateLayout l = []) \<Longrightarrow>
    place_all g ws l i = (l', j) \<Longrightarrow>
    (\<forall>s \<in> set (l_solids l'). boxed (so_rect s) \<and> solid_ok s) \<and> (l_solids l' \<noteq> [] \<longrightarrow> ValidateLayout l' = []) \<and>
    l_windows l' = l_windows l \<and> length (l_solids l') \<le> length (l_solids l) + length ws"
proof (induction ws arbitrary: l i)
  case (Cons w ws)
  obtain l1 i1 where t: "try_place placeTries g w l i = (l1, i1)" by fastforce
  note one = try_place_ok [OF assms Cons.prems(1,2) t]
  from one have "(\<forall>s \<in> set (l_solids l'). boxed (so_rect s) \<and> solid_ok s) \<and> (l_solids l' \<noteq> [] \<longrightarrow> ValidateLayout l' = []) \<and>
    l_windows l' = l_windows l1 \<and> length (l_solids l') \<le> length (l_solids l1) + length ws"
    using Cons.prems(3) by (intro Cons.IH [of l1 i1]) (auto simp: t)
  then show ?case using one by simp
qed simp

lemma ValidateLayout_id: "ValidateLayout (WithID hash l) = [] \<longleftrightarrow> ValidateLayout l = []"
  unfolding validate_rules by (simp add: WithID_def)

lemma draw_tail_length: "draw_tail n g i = (ws, j) \<Longrightarrow> length ws = n"
  by (induction n arbitrary: i ws) (auto split: prod.splits)

lemma wish_length: "rng_ok g \<Longrightarrow> wishList g i = (ws, j) \<Longrightarrow> length ws \<le> 19"
proof -
  assume a: "rng_ok g" "wishList g i = (ws, j)"
  obtain tail k where t: "draw_tail (tailMin + rg_intn g i (tailMax - tailMin + 1)) g (i + 1) = (tail, k)" by fastforce
  have "rg_intn g i 7 < 7" using a(1) by (simp add: rng_ok_def)
  then have "length tail \<le> 15" using draw_tail_length [OF t] by (simp add: tailMin_def tailMax_def)
  then show ?thesis using a(2) unfolding wishList_def t by auto
qed

lemma generated_facts:
  assumes "rng_ok (rand seed)" and "Generate hash rand seed = Inr l"
  shows "ValidateLayout l = [] \<and> 8 \<le> length (l_solids l) \<and> length (l_solids l) \<le> 19 \<and>
    6 \<le> length (l_windows l) \<and> length (l_windows l) \<le> 12 \<and> windows_ok (fst (glazing (rand seed) 0)) \<and>
    (\<forall>s \<in> set (l_solids l). quarter (rx (so_rect s)) \<and> quarter (ry (so_rect s)) \<and> quarter (rw (so_rect s)) \<and> quarter (rh (so_rect s))) \<and>
    (\<forall>w \<in> set (l_windows l). quarter (wi_at w) \<and> quarter (wi_len w))"
proof -
  obtain ws i where g: "glazing (rand seed) 0 = (ws, i)" by fastforce
  obtain wish i1 where w: "wishList (rand seed) i = (wish, i1)" by fastforce
  obtain l1 i2 where p: "place_all (rand seed) wish \<lparr>l_id = '''', l_solids = [], l_windows = ws\<rparr> i1 = (l1, i2)" by fastforce
  have l: "l = WithID hash l1" "8 \<le> length (l_solids l1)"
    using assms(2) by (auto simp: Generate_def g w p Let_def minSolids_def split: if_splits)
  have ok: "(\<forall>s \<in> set (l_solids l1). boxed (so_rect s) \<and> solid_ok s) \<and> (l_solids l1 \<noteq> [] \<longrightarrow> ValidateLayout l1 = []) \<and>
    l_windows l1 = ws \<and> length (l_solids l1) \<le> length wish"
    using place_all_ok [OF assms(1) _ _ p] by simp
  have "windows_ok ws \<and> wi_wall ` set ws \<subseteq> set Walls \<and> (\<forall>w \<in> set ws. quarter (wi_at w) \<and> quarter (wi_len w)) \<and>
    2 * length Walls \<le> length ws \<and> length ws \<le> 4 * length Walls"
    by (rule glaze_ok [OF assms(1) _ _ g [unfolded glazing_def]])
      (simp_all add: Walls_def WallTop_def WallLeft_def WallRight_def)
  moreover have "ValidateLayout l = []" using ok l by (auto simp: ValidateLayout_id)
  moreover have "l_solids l = l_solids l1" "l_windows l = ws" using ok l(1) by (simp_all add: WithID_def)
  ultimately show ?thesis using ok l(2) wish_length [OF assms(1) w] g
    by (auto simp: Walls_def boxed_def sized_def)
qed

text \<open>C36:
  Every floor the generator hands out is one the validator accepts, with eight to nineteen solids and six to
  twelve panes, and every number in it is a multiple of a quarter of a metre. The glazing never breaks a rule,
  whatever is drawn, so nothing but furniture can make a floor fail; and a seed whose floor is too thin is
  refused, never returned half-built.
\<close>

theorem generated_floor_is_playable:
  assumes "rng_ok (rand seed)" and "Generate hash rand seed = Inr l"
  shows "ValidateLayout l = [] \<and> 8 \<le> length (l_solids l) \<and> length (l_solids l) \<le> 19 \<and>
    6 \<le> length (l_windows l) \<and> length (l_windows l) \<le> 12 \<and> windows_ok (fst (glazing (rand seed) 0)) \<and>
    (\<forall>s \<in> set (l_solids l). quarter (rx (so_rect s)) \<and> quarter (ry (so_rect s)) \<and> quarter (rw (so_rect s)) \<and> quarter (rh (so_rect s))) \<and>
    (\<forall>w \<in> set (l_windows l). quarter (wi_at w) \<and> quarter (wi_len w))"
  using assms by (rule generated_facts)

section \<open>A floor that is drawn\<close>

text \<open>The draws one after another, as if every candidate were taken.\<close>

fun drawn_all :: "rng \<Rightarrow> wanted list \<Rightarrow> solid list \<Rightarrow> nat \<Rightarrow> solid list \<times> nat" where
  "drawn_all g [] placed i = (placed, i)"
| "drawn_all g (w # ws) placed i = (case drawSolid g w placed i of (s, i) \<Rightarrow> drawn_all g ws (placed @ [s]) i)"

lemma drawn_all_more: "drawn_all g ws placed i = (ss, j) \<Longrightarrow> \<exists>rest. ss = placed @ rest"
  by (induction ws arbitrary: placed i) (auto split: prod.splits, fastforce)

lemma pairwise_apart_prefix: "pairwise_apart (a @ b) \<Longrightarrow> pairwise_apart a"
  by (induction a) auto

lemma fewer_solids:
  assumes "ValidateLayout (l\<lparr>l_solids := a @ b\<rparr>) = []" shows "ValidateLayout (l\<lparr>l_solids := a\<rparr>) = []"
  using assms pairwise_apart_prefix [of a b] by (auto simp: validate_rules list_all_iff)

lemma drawn_and_placed:
  assumes "drawn_all g ws (l_solids l) i = (ss, j)" and "ValidateLayout (l\<lparr>l_solids := ss\<rparr>) = []"
  shows "place_all g ws l i = (l\<lparr>l_solids := ss\<rparr>, j)"
  using assms
proof (induction ws arbitrary: l i)
  case (Cons w ws)
  obtain s i1 where d: "drawSolid g w (l_solids l) i = (s, i1)" by fastforce
  let ?l = "l\<lparr>l_solids := l_solids l @ [s]\<rparr>"
  have r: "drawn_all g ws (l_solids ?l) i1 = (ss, j)" using Cons.prems(1) by (simp add: d)
  from drawn_all_more [OF this] obtain rest where "ss = (l_solids l @ [s]) @ rest" by auto
  then have v: "ValidateLayout ?l = []" using Cons.prems(2) fewer_solids [of "l_solids l @ [s]" rest l] by simp
  have t: "placeTries = Suc 23" by (simp add: placeTries_def)
  have "try_place placeTries g w l i = (?l, i1)"
    unfolding t try_place.simps(2) d Let_def using v accepted_had_room [OF v] by simp
  moreover have "place_all g ws ?l i1 = (?l\<lparr>l_solids := ss\<rparr>, j)" by (rule Cons.IH [OF r]) (use Cons.prems(2) in simp)
  ultimately show ?case by simp
qed simp

definition demo_floats :: "(nat \<times> int) list" where
  "demo_floats = [(19, 71), (22, 768), (23, 607), (27, 768), (28, 828), (32, 768), (33, 795), (34, 155), (37, 768), (38, 983),
     (39, 155), (42, 768), (43, 126), (44, 197), (47, 768), (48, 314), (49, 197), (52, 768), (53, 795), (54, 281), (57, 768),
     (58, 983), (59, 295), (62, 768), (63, 502), (64, 309), (67, 768), (69, 323), (72, 768), (73, 189), (74, 323), (77, 768),
     (78, 690), (79, 407)]"

definition demo_rng :: rng where
  "demo_rng = \<lparr>rg_intn = (\<lambda>i n. if n = 8 then 6 else 0),
     rg_float = (\<lambda>i. case map_of demo_floats i of None \<Rightarrow> 0 | Some k \<Rightarrow> of_int k / 1024)\<rparr>"

definition demo_solid :: "int \<Rightarrow> int \<Rightarrow> int \<Rightarrow> int \<Rightarrow> string \<Rightarrow> solid" where
  "demo_solid x y w h k = \<lparr>so_rect = \<lparr>rx = of_int x / 4, ry = of_int y / 4, rw = of_int w / 4, rh = of_int h / 4\<rparr>, so_kind = k\<rparr>"

definition demo_solids :: "solid list" where
  "demo_solids = [demo_solid 6 11 16 3 KindDesk, demo_solid 35 6 3 16 KindDesk, demo_solid 44 6 5 5 KindTree,
     demo_solid 44 17 3 3 KindFlower, demo_solid 53 17 3 3 KindFlower, demo_solid 12 20 3 3 KindFlower,
     demo_solid 21 20 3 3 KindFlower, demo_solid 44 26 3 3 KindFlower, demo_solid 53 27 3 3 KindFlower,
     demo_solid 30 28 3 3 KindFlower, demo_solid 6 29 3 3 KindFlower, demo_solid 15 29 3 3 KindFlower,
     demo_solid 39 35 3 3 KindFlower]"

lemma demo_rng_ok: "rng_ok demo_rng"
proof -
  have k: "0 \<le> k \<and> k < 1024" if "map_of demo_floats i = Some k" for i k
    using map_of_SomeD [OF that] by (auto simp: demo_floats_def)
  have "fl (of_int k / 1024) = of_int k / 1024" if "0 \<le> k" "k < 1024" for k :: int
    using fl_exact [of k "- 10"] that by (simp add: power_int_minus)
  then show ?thesis using k by (auto simp: rng_ok_def demo_rng_def split: option.splits)
qed

lemma demo_wish: "wishList demo_rng 6 =
  ([\<lparr>wn_class = classRun, wn_lie = lieAcross\<rparr>, \<lparr>wn_class = classRun, wn_lie = lieDown\<rparr>,
    \<lparr>wn_class = classTree, wn_lie = lieDrawn\<rparr>, \<lparr>wn_class = classFlower, wn_lie = lieDrawn\<rparr>] @
   replicate 9 \<lparr>wn_class = classFlower, wn_lie = lieDrawn\<rparr>, 16)"
  by code_simp


definition demo_k :: "nat \<Rightarrow> int" where
  "demo_k i = (case map_of demo_floats i of None \<Rightarrow> 0 | Some k \<Rightarrow> k)"

lemma demo_float: "rg_float demo_rng i = of_int (demo_k i) / 1024" and demo_k_range: "0 \<le> demo_k i \<and> demo_k i < 1024"
proof -
  show "rg_float demo_rng i = of_int (demo_k i) / 1024" by (simp add: demo_rng_def demo_k_def split: option.split)
  show "0 \<le> demo_k i \<and> demo_k i < 1024"
    using map_of_SomeD [of demo_floats i] by (auto simp: demo_k_def demo_floats_def split: option.split)
qed

lemma quarter_of: "quarter (of_int k / 4)"
  by (auto simp: quarter_def)

lemma along:
  assumes "rg_float g i = of_int k / 1024" and "0 \<le> k" and "k < 1024" and "0 \<le> m" and "m \<le> 24" and "c = 52 \<or> c = 76"
  shows "fadd MinGap (snapDown (fmul (rg_float g i) (fsub (of_int c / 4) (of_int m / 4)))) = of_int (6 + k * (c - m) div 1024) / 4"
proof -
  have k: "0 \<le> k" "k < 1024" by (rule assms)+
  have "fsub (of_int c / 4) (of_int m / 4) = of_int c / 4 - of_int m / 4" using assms by (intro quarter_fsub quarter_of) auto
  then have s: "fsub (of_int c / 4) (of_int m / 4) = of_int (c - m) / 4" by (simp add: diff_divide_distrib)
  have "k * (c - m) \<le> 1024 * 76" using k assms by (intro mult_mono) auto
  moreover have p: "0 \<le> k * (c - m)" using k assms by auto
  ultimately have b: "k * (c - m) \<le> 77824" by simp
  have "fl (of_int (k * (c - m)) * 2 powi (- 12)) = of_int (k * (c - m)) * 2 powi (- 12)" by (rule fl_exact) (use p b in simp)
  then have e: "fmul (of_int k / 1024) (of_int (c - m) / 4) = of_int (k * (c - m)) / 4096" by (simp add: fmul_def power_int_minus)
  define v :: rat where "v = of_int (k * (c - m)) / 4096"
  have v: "fl v = v" unfolding v_def e [symmetric] by (simp add: fmul_def)
  have "of_int (k * (c - m)) \<le> (of_int 77824 :: rat)" "of_int 0 \<le> (of_int (k * (c - m)) :: rat)" unfolding of_int_le_iff by (rule b, rule p)
  then have "\<bar>v\<bar> \<le> 2 ^ 20" by (simp add: v_def abs_le_iff)
  from snapDown_eq [OF v this] have "snapDown v = of_int \<lfloor>4 * v\<rfloor> / 4" .
  moreover have "4 * v = of_int (k * (c - m)) / of_int 1024" by (simp add: v_def)
  ultimately have sn: "snapDown v = of_int (k * (c - m) div 1024) / 4" by (simp only: floor_divide_of_int_eq)
  have d: "0 \<le> k * (c - m) div 1024" "k * (c - m) div 1024 \<le> 76" using p b by (simp, linarith)
  then have "fadd (3 / 2) (of_int (k * (c - m) div 1024) / 4) = 3 / 2 + of_int (k * (c - m) div 1024) / 4"
    by (intro quarter_fadd quarter_of) auto
  then show ?thesis unfolding s assms(1) e v_def [symmetric] sn by (simp add: MinGap_def add_divide_distrib)
qed

lemmas demo_along = along [OF demo_float conjunct1 [OF demo_k_range] conjunct2 [OF demo_k_range]]

lemma on_floor_of:
  assumes "0 \<le> m" and "m \<le> 24" and "c = 64 \<or> c = 88"
  shows "onFloor (of_int x / 4) (of_int m / 4) (of_int c / 4) = of_int (min (max x 6) (c - 6 - m)) / 4"
proof -
  have "fsub (of_int c / 4) (3 / 2) = of_int c / 4 - 3 / 2" using assms by (intro quarter_fsub quarter_of) auto
  then have s: "fsub (of_int c / 4) (3 / 2) = of_int (c - 6) / 4" by (simp add: diff_divide_distrib)
  have "fsub (of_int (c - 6) / 4) (of_int m / 4) = of_int (c - 6) / 4 - of_int m / 4" using assms by (intro quarter_fsub quarter_of) auto
  then have "fsub (of_int (c - 6) / 4) (of_int m / 4) = of_int (c - 6 - m) / 4" by (simp add: diff_divide_distrib)
  moreover have M: "MinGap = 3 / 2" by (simp add: MinGap_def)
  ultimately have "fsub (fsub (of_int c / 4) MinGap) (of_int m / 4) = of_int (c - 6 - m) / 4" unfolding M s by blast
  note fs = this
  have mx: "max (of_int x / 4) MinGap = (of_int (max x 6) / 4 :: rat)" by (auto simp: MinGap_def max_def)
  have mn: "min (of_int a / 4) (of_int b / 4) = (of_int (min a b) / 4 :: rat)" for a b :: int by (auto simp: min_def divide_le_cancel)
  show ?thesis unfolding onFloor_def fs mx mn ..
qed


text \<open>One step of the demonstration, in quarters of a metre.\<close>

lemma side_zero: "demo_k i = 0 \<Longrightarrow> quarter lo \<Longrightarrow> \<bar>lo\<bar> \<le> 1000 \<Longrightarrow> drawSide demo_rng (lo, hi) i = (lo, i + 1)"
proof -
  assume a: "demo_k i = 0" "quarter lo" "\<bar>lo\<bar> \<le> 1000"
  have z: "snapDown 0 = 0" using snapDown_eq [of 0] by simp
  have "fadd lo 0 = lo" using a by (intro trans [OF quarter_fadd]) auto
  then show ?thesis by (simp add: drawSide_def demo_float a(1) fmul_def z)
qed

lemma demo_size:
  assumes "demo_k i = 0" and "demo_k (i + 1) = 0"
  shows "draw_size demo_rng \<lparr>wn_class = classRun, wn_lie = lieAcross\<rparr> i = ((of_int 16 / 4, of_int 3 / 4), i + 2)"
    and "draw_size demo_rng \<lparr>wn_class = classRun, wn_lie = lieDown\<rparr> i = ((of_int 3 / 4, of_int 16 / 4), i + 2)"
    and "draw_size demo_rng \<lparr>wn_class = classTree, wn_lie = lieDrawn\<rparr> i = ((of_int 5 / 4, of_int 5 / 4), i + 2)"
    and "draw_size demo_rng \<lparr>wn_class = classFlower, wn_lie = lieDrawn\<rparr> i = ((of_int 3 / 4, of_int 3 / 4), i + 2)"
  using assms side_zero [of i 4 6] side_zero [of "i + 1" "3 / 4" 1] side_zero [of i "3 / 4" 1] side_zero [of i "5 / 4" "7 / 4"] quarter_of [of 5]
  by (simp_all add: draw_size_def)

lemma demo_step:
  assumes "draw_size demo_rng w i = ((of_int m / 4, of_int n / 4), j)" and "0 \<le> m" and "m \<le> 24" and "0 \<le> n" and "n \<le> 24"
    and "p = (if placed = [] then j else j + 1)" and "placed \<noteq> [] \<longrightarrow> demo_k j = 768"
  shows "drawSolid demo_rng w placed i =
    (demo_solid (min (max (6 + demo_k p * (52 - m) div 1024) 6) (58 - m)) (min (max (6 + demo_k (p + 1) * (76 - n) div 1024) 6) (82 - n))
       m n (class_kind (wn_class w)), p + 2)"
proof -
  have f: "\<not> rg_float demo_rng j < fl adjacentShare" if "placed \<noteq> []"
  proof -
    have "fl (3 / 4) = 3 / 4" using fl_exact [of 3 "- 2"] by (simp add: power_int_minus)
    from fl_le [OF _ this, of adjacentShare] have "fl adjacentShare \<le> 3 / 4" by (simp add: adjacentShare_def)
    then show ?thesis using assms(7) that by (simp add: demo_float)
  qed
  have "draw_spot demo_rng placed (of_int m / 4) (of_int n / 4) j = anywhere demo_rng (of_int m / 4) (of_int n / 4) p"
    using f assms(6) by (simp add: draw_spot_def)
  moreover define a where "a = 6 + demo_k p * (52 - m) div 1024"
  define b where "b = 6 + demo_k (p + 1) * (76 - n) div 1024"
  moreover have "anywhere demo_rng (of_int m / 4) (of_int n / 4) p = ((of_int a / 4, of_int b / 4), p + 2)"
    using demo_along [OF assms(2,3), of 52 p] demo_along [OF assms(4,5), of 76 "p + 1"] unfolding a_def b_def
    by (simp only: anywhere_def) (simp add: OfficeW_def OfficeH_def MinGap_def)
  ultimately show ?thesis
    using assms(1) on_floor_of [OF assms(2,3), of 64 a] on_floor_of [OF assms(4,5), of 88 b]
    unfolding a_def [symmetric] b_def [symmetric] drawSolid_def demo_solid_def OfficeW_def OfficeH_def by simp
qed

lemma demo_drawn: "drawn_all demo_rng (fst (wishList demo_rng 6)) [] 16 = (demo_solids, 80)"
proof -
  have r: "replicate 9 x = [x, x, x, x, x, x, x, x, x]" for x :: wanted by (simp add: eval_nat_numeral)
  show ?thesis unfolding demo_wish r
    by (simp add: demo_step [OF demo_size(1)] demo_step [OF demo_size(2)] demo_step [OF demo_size(3)] demo_step [OF demo_size(4)]
      demo_k_def demo_floats_def demo_solids_def)
qed

text \<open>That floor against the rules of the validator, again in quarters.\<close>

definition inside :: "int \<Rightarrow> int \<Rightarrow> int \<Rightarrow> int \<Rightarrow> bool" where
  "inside x y w h \<longleftrightarrow> 6 \<le> x \<and> 6 \<le> y \<and> 3 \<le> w \<and> 3 \<le> h \<and> w \<le> 24 \<and> h \<le> 24 \<and> x + w \<le> 58 \<and> y + h \<le> 82"

lemma far_edge:
  assumes "inside x y w h"
  shows "fadd (of_int x / 4) (of_int w / 4) = of_int (x + w) / 4" and "fadd (of_int y / 4) (of_int h / 4) = of_int (y + h) / 4"
proof -
  have e: "fadd (of_int a / 4) (of_int b / 4) = of_int (a + b) / 4" if "\<bar>a\<bar> \<le> 100" "\<bar>b\<bar> \<le> 100" for a b
  proof -
    have "\<bar>rat_of_int a\<bar> \<le> of_int 100" "\<bar>rat_of_int b\<bar> \<le> of_int 100" using that unfolding of_int_abs [symmetric] of_int_le_iff .
    then have "fadd (of_int a / 4) (of_int b / 4) = of_int a / 4 + of_int b / 4" by (intro quarter_fadd quarter_of) auto
    then show ?thesis by (simp add: add_divide_distrib)
  qed
  show "fadd (of_int x / 4) (of_int w / 4) = of_int (x + w) / 4" by (rule e) (use assms in \<open>auto simp: inside_def\<close>)
  show "fadd (of_int y / 4) (of_int h / 4) = of_int (y + h) / 4" by (rule e) (use assms in \<open>auto simp: inside_def\<close>)
qed

lemma quarter_le_fsub:
  assumes "of_int k / 4 \<le> a - b" and "\<bar>k\<bar> \<le> 1000" shows "of_int k / 4 \<le> fsub a b"
proof -
  have "fl (of_int k / 4) = of_int k / 4" using fl_exact [of k "- 2"] assms(2) by (simp add: power_int_minus)
  from le_fl [OF assms(1) this] show ?thesis by (simp add: fsub_def)
qed

text \<open>A rectangle inside a box of quarters, and the three rules decided on boxes.\<close>

definition boxed_by :: "rect \<Rightarrow> int \<times> int \<times> int \<times> int \<Rightarrow> bool" where
  "boxed_by r b = (case b of (x, x', y, y') \<Rightarrow> of_int x \<le> 4 * rx r \<and> 4 * fadd (rx r) (rw r) \<le> of_int x' \<and>
     of_int y \<le> 4 * ry r \<and> 4 * fadd (ry r) (rh r) \<le> of_int y')"

definition spot_in :: "vec2 \<Rightarrow> int \<times> int \<times> int \<times> int \<Rightarrow> bool" where
  "spot_in p b = (case b of (x, x', y, y') \<Rightarrow> of_int x \<le> 4 * vx p \<and> 4 * vx p \<le> of_int x' \<and> of_int y \<le> 4 * vy p \<and> 4 * vy p \<le> of_int y')"

lemma gap_le_fsub:
  assumes "a + k \<le> b" and "4 * lo \<le> of_int a" and "of_int b \<le> 4 * hi" and "\<bar>k\<bar> \<le> 1000"
  shows "of_int k / 4 \<le> fsub hi lo"
proof -
  have "of_int (a + k) \<le> rat_of_int b" using assms(1) unfolding of_int_le_iff .
  then have "of_int k / 4 \<le> hi - lo" using assms(2,3) by simp
  then show ?thesis using assms(4) by (rule quarter_le_fsub)
qed

lemma boxes_apart:
  assumes "boxed_by r (x, x', y, y')" and "boxed_by q (u, u', v, v')" and "x' + 6 \<le> u \<or> u' + 6 \<le> x \<or> y' + 6 \<le> v \<or> v' + 6 \<le> y"
  shows "apart r q"
proof -
  have w: "of_int x \<le> 4 * rx r" "4 * fadd (rx r) (rw r) \<le> of_int x'" "of_int y \<le> 4 * ry r" "4 * fadd (ry r) (rh r) \<le> of_int y'"
    "of_int u \<le> 4 * rx q" "4 * fadd (rx q) (rw q) \<le> of_int u'" "of_int v \<le> 4 * ry q" "4 * fadd (ry q) (rh q) \<le> of_int v'"
    using assms(1,2) by (simp_all add: boxed_by_def)
  have "3 / 2 \<le> fsub (rx q) (fadd (rx r) (rw r)) \<or> 3 / 2 \<le> fsub (rx r) (fadd (rx q) (rw q)) \<or>
    3 / 2 \<le> fsub (ry q) (fadd (ry r) (rh r)) \<or> 3 / 2 \<le> fsub (ry r) (fadd (ry q) (rh q))"
    using assms(3) gap_le_fsub [of x' 6 u, OF _ w(2,5)] gap_le_fsub [of u' 6 x, OF _ w(6,1)]
      gap_le_fsub [of y' 6 v, OF _ w(4,7)] gap_le_fsub [of v' 6 y, OF _ w(8,3)] by auto
  then show ?thesis unfolding apart_def sepAxis_def Let_def MinGap_def le_max_iff_disj by auto
qed

lemma box_walls:
  assumes "boxed_by r (x, x', y, y')" and "6 \<le> x" and "6 \<le> y" and "x' \<le> 58" and "y' \<le> 82"
  shows "MinGap \<le> wallGap r"
proof -
  have w: "of_int x \<le> 4 * rx r" "4 * fadd (rx r) (rw r) \<le> of_int x'" "of_int y \<le> 4 * ry r" "4 * fadd (ry r) (rh r) \<le> of_int y'"
    using assms(1) by (simp_all add: boxed_by_def)
  have "of_int 6 \<le> rat_of_int x" "of_int 6 \<le> rat_of_int y" unfolding of_int_le_iff by (rule assms)+
  moreover have "3 / 2 \<le> fsub OfficeW (fadd (rx r) (rw r))"
    using gap_le_fsub [of x' 6 64 _ OfficeW, OF _ w(2)] assms(4) by (simp add: OfficeW_def)
  moreover have "3 / 2 \<le> fsub OfficeH (fadd (ry r) (rh r))"
    using gap_le_fsub [of y' 6 88 _ OfficeH, OF _ w(4)] assms(5) by (simp add: OfficeH_def)
  ultimately show ?thesis using w by (simp add: wallGap_def MinGap_def)
qed

lemma box_clear:
  assumes "boxed_by r (x, x', y, y')" and "spot_in p (a, a', b, b')" and "a' + 2 \<le> x \<or> x' + 2 \<le> a \<or> b' + 2 \<le> y \<or> y' + 2 \<le> b"
  shows "fl SpotClear \<le> pointGap r p"
proof -
  let ?dx = "max 0 (max (fsub (rx r) (vx p)) (fsub (vx p) (fadd (rx r) (rw r))))"
  let ?dy = "max 0 (max (fsub (ry r) (vy p)) (fsub (vy p) (fadd (ry r) (rh r))))"
  have w: "of_int x \<le> 4 * rx r" "4 * fadd (rx r) (rw r) \<le> of_int x'" "of_int y \<le> 4 * ry r" "4 * fadd (ry r) (rh r) \<le> of_int y'"
    using assms(1) by (simp_all add: boxed_by_def)
  have p: "of_int a \<le> 4 * vx p" "4 * vx p \<le> of_int a'" "of_int b \<le> 4 * vy p" "4 * vy p \<le> of_int b'"
    using assms(2) by (simp_all add: spot_in_def)
  have "1 / 2 \<le> ?dx \<or> 1 / 2 \<le> ?dy"
    using assms(3) gap_le_fsub [of a' 2 x, OF _ p(2) w(1)] gap_le_fsub [of x' 2 a, OF _ w(2) p(1)]
      gap_le_fsub [of b' 2 y, OF _ p(4) w(3)] gap_le_fsub [of y' 2 b, OF _ w(4) p(3)] by (auto simp: le_max_iff_disj)
  moreover have "fl ?dx = ?dx" "fl ?dy = ?dy" by (simp_all add: fsub_def max_def)
  then have "?dx \<le> hypot ?dx ?dy \<and> ?dy \<le> hypot ?dx ?dy" using hypot_ge [of ?dx ?dy] by simp
  ultimately have "1 / 2 \<le> hypot ?dx ?dy" by linarith
  moreover have "fl (1 / 2) = 1 / 2" using fl_exact [of 1 "- 1"] by (simp add: power_int_minus)
  then have "fl SpotClear \<le> 1 / 2" by (intro fl_le) (simp_all add: SpotClear_def PlayerRadius_def)
  ultimately show ?thesis by (simp add: pointGap_def)
qed

lemma demo_boxed: "inside x y w h \<Longrightarrow> boxed_by (so_rect (demo_solid x y w h k)) (x, x + w, y, y + h)"
  using far_edge [of x y w h] by (simp add: boxed_by_def demo_solid_def)

lemma inside_ok:
  assumes "inside x y w h" and "validKind k" shows "solid_ok (demo_solid x y w h k)"
proof -
  have b: "of_int 3 \<le> rat_of_int w" "of_int 3 \<le> rat_of_int h" "rat_of_int w \<le> of_int 24" "rat_of_int h \<le> of_int 24"
    unfolding of_int_le_iff using assms(1) by (simp_all add: inside_def)
  have z: "fl MinSolidSide \<le> 3 / 4" using fl_le [of MinSolidSide "3 / 4"] quarter_exact [of "3 / 4"] by (simp add: MinSolidSide_def)
  have "\<not> bad_size (so_rect (demo_solid x y w h k))" using b z by (simp add: demo_solid_def bad_size_def MaxSolidSide_def)
  moreover have "MinGap \<le> wallGap (so_rect (demo_solid x y w h k))"
    by (rule box_walls [OF demo_boxed]) (use assms(1) in \<open>simp_all add: inside_def\<close>)
  ultimately show ?thesis using assms(2) by (simp add: solid_ok_def demo_solid_def)
qed

lemmas demo_apart = boxes_apart [OF demo_boxed demo_boxed]

definition demo_spots :: "(int \<times> int \<times> int \<times> int) list" where
  "demo_spots = [(32, 32, 16, 16), (32, 32, 82, 82), (8, 8, 80, 80), (12, 12, 8, 8), (52, 52, 8, 8), (8, 9, 24, 24), (55, 56, 24, 24),
     (32, 32, 8, 8), (8, 9, 62, 62), (55, 56, 62, 62), (32, 32, 44, 44), (32, 32, 24, 24), (3, 4, 42, 42), (60, 61, 42, 42), (32, 32, 54, 55)]"

lemma demo_spots_hold: "list_all2 spot_in FixedPoints demo_spots"
proof -
  have f: "of_int k \<le> 4 * fl x \<and> 4 * fl x \<le> of_int m" if "of_int k / 4 \<le> x" "x \<le> of_int m / 4" "\<bar>k\<bar> \<le> 100" "\<bar>m\<bar> \<le> 100" for k m x
  proof -
    have "fl (of_int k / 4) = of_int k / 4" "fl (of_int m / 4) = of_int m / 4"
      using fl_exact [of k "- 2"] fl_exact [of m "- 2"] that(3,4) by (simp_all add: power_int_minus)
    then show ?thesis using le_fl [OF that(1)] fl_le [OF that(2)] by simp
  qed
  show ?thesis
    using f [of 8 "22 / 10" 9] f [of 55 "138 / 10" 56] f [of 3 "9 / 10" 4] f [of 60 "151 / 10" 61] f [of 54 "136 / 10" 55]
    by (simp add: FixedPoints_def PlayerSpawn_def BossSpawn_def ChaserSpawn_def npc_spawns_def BottleSpots_def HookahSpots_def
      demo_spots_def spot_in_def)
qed

lemma demo_valid: "list_all solid_ok demo_solids \<and> pairwise_apart demo_solids \<and> list_all (\<lambda>p. list_all (spot_clear p) demo_solids) FixedPoints"
proof -
  have k: "validKind KindDesk" "validKind KindTree" "validKind KindFlower" by (simp_all add: validKind_def Kinds_def)
  have "list_all solid_ok demo_solids" unfolding demo_solids_def by (simp add: inside_ok k inside_def)
  moreover have "pairwise_apart demo_solids" unfolding demo_solids_def by (simp add: demo_apart inside_def)
  moreover have "list_all (spot_clear p) demo_solids" if "b \<in> set demo_spots" "spot_in p b" for p b
  proof -
    obtain a a' c c' where b: "b = (a, a', c, c')" by (cases b)
    note t = box_clear [OF demo_boxed that(2) [unfolded b]]
    show ?thesis using that(1) unfolding demo_solids_def by (auto simp: b demo_spots_def inside_def spot_clear_def intro!: t)
  qed
  moreover have "\<exists>b \<in> set demo_spots. spot_in p b" if "p \<in> set FixedPoints" for p
    using demo_spots_hold that by (metis in_set_conv_nth list_all2_conv_all_nth)
  ultimately show ?thesis unfolding list_all_iff [of _ FixedPoints] by blast
qed

lemma demo_generated: "\<exists>l. Generate (\<lambda>_ _. '''') (\<lambda>_. demo_rng) 0 = Inr l"
proof -
  obtain ws i where g: "glazing demo_rng 0 = (ws, i)" by fastforce
  have i: "i = 6" using g by (simp add: glazing_def Walls_def glaze_wall_def drawSide_def Let_def split: prod.splits) 
  have w: "windows_ok ws \<and> length ws \<le> 12"
    using glaze_ok [OF demo_rng_ok _ _ g [unfolded glazing_def]] by (simp add: Walls_def WallTop_def WallLeft_def WallRight_def)
  let ?l = "\<lparr>l_id = '''', l_solids = [], l_windows = ws\<rparr>"
  have "ValidateLayout (?l\<lparr>l_solids := demo_solids\<rparr>) = []"
    unfolding validate_rules using demo_valid w by (simp add: demo_solids_def MaxSolids_def MaxWindows_def)
  from drawn_and_placed [of demo_rng "fst (wishList demo_rng 6)" ?l 16, OF _ this]
  have p: "place_all demo_rng (fst (wishList demo_rng 6)) ?l 16 = (?l\<lparr>l_solids := demo_solids\<rparr>, 80)" using demo_drawn by simp
  obtain wish where w: "wishList demo_rng 6 = (wish, 16)" using demo_wish by blast
  have "length demo_solids = 13" by (simp add: demo_solids_def)
  then show ?thesis using p by (simp add: Generate_def g i w Let_def minSolids_def)
qed

theorem generated_floor_is_playable_witness:
  "\<exists>l. Generate (\<lambda>_ _. '''') (\<lambda>_. demo_rng) 0 = Inr l \<and> ValidateLayout l = [] \<and> 8 \<le> length (l_solids l) \<and> 6 \<le> length (l_windows l)"
proof -
  obtain l where "Generate (\<lambda>_ _. '''') (\<lambda>_. demo_rng) 0 = Inr l" using demo_generated by blast
  from generated_floor_is_playable [OF demo_rng_ok this] show ?thesis using \<open>Generate _ _ 0 = Inr l\<close> by blast
qed

end
