(* ===== verification/FintechDay.thy ===== *)
theory FintechDay
  imports FintechGen
begin

text \<open>
  The renovation day (\<^verbatim>\<open>renovation.go\<close>) and the floor the game shipped with (\<^verbatim>\<open>content.go\<close>).
  An instant is an integer of nanoseconds since the epoch, as everywhere in the development.
\<close>

section \<open>The arithmetic\<close>

definition RenovationHourUTC :: int where "RenovationHourUTC = 21"
definition secondsPerDay :: int where "secondsPerDay = 24 * 60 * 60"

definition renovationDay :: "int \<Rightarrow> int" where
  "renovationDay t = ((t - RenovationHourUTC * 3600 * 1000000000) div 1000000000) sdiv secondsPerDay"

definition dayStart :: "int \<Rightarrow> int" where
  "dayStart d = (d * secondsPerDay + RenovationHourUTC * 60 * 60) * 1000000000"

definition seedForDay :: "64 word \<Rightarrow> 64 word" where
  "seedForDay day = day * 0x9E3779B97F4A7C15"

section \<open>The day's floor\<close>

definition SourceStarting :: string where "SourceStarting = ''starting''"
definition SourceGenerated :: string where "SourceGenerated = ''generated''"
definition SourceDaily :: string where "SourceDaily = ''daily''"
definition SourceEdited :: string where "SourceEdited = ''edited''"

record stored_layout =
  sl_layout :: layout
  sl_source :: string
  sl_at :: int

text \<open>Which of the two files' parameters stand for the platform: the hash and the seeded source.\<close>

record platform =
  pf_hash :: "solid list \<Rightarrow> window list \<Rightarrow> string"
  pf_rand :: "int \<Rightarrow> rng"

definition dailyLayout :: "platform \<Rightarrow> int \<Rightarrow> gen_error + layout" where
  "dailyLayout pf day = Generate (pf_hash pf) (pf_rand pf) (sint (seedForDay (word_of_int day)))"

definition desk_at :: "rat \<Rightarrow> rat \<Rightarrow> solid" where
  "desk_at x y = \<lparr>so_rect = \<lparr>rx = fl x, ry = y, rw = fl (26 / 10), rh = 1\<rparr>, so_kind = KindDesk\<rparr>"

definition StartingLayout :: layout where
  "StartingLayout =
     \<lparr>l_id = '''',
      l_solids = [desk_at (28 / 10) 3, desk_at (28 / 10) 7, desk_at (28 / 10) 11, desk_at (28 / 10) 15,
        desk_at (106 / 10) 3, desk_at (106 / 10) 7, desk_at (106 / 10) 11, desk_at (106 / 10) 15,
        \<lparr>so_rect = \<lparr>rx = 11, ry = fl (176 / 10), rw = fl (12 / 10), rh = fl (12 / 10)\<rparr>, so_kind = KindTree\<rparr>,
        \<lparr>so_rect = \<lparr>rx = 3, ry = 18, rw = fl (8 / 10), rh = fl (8 / 10)\<rparr>, so_kind = KindFlower\<rparr>],
      l_windows = [\<lparr>wi_wall = WallTop, wi_at = 1, wi_len = 3\<rparr>, \<lparr>wi_wall = WallTop, wi_at = 65 / 10, wi_len = 3\<rparr>,
        \<lparr>wi_wall = WallTop, wi_at = 12, wi_len = 3\<rparr>, \<lparr>wi_wall = WallLeft, wi_at = 4, wi_len = 4\<rparr>,
        \<lparr>wi_wall = WallLeft, wi_at = 12, wi_len = 4\<rparr>, \<lparr>wi_wall = WallRight, wi_at = 4, wi_len = 4\<rparr>,
        \<lparr>wi_wall = WallRight, wi_at = 12, wi_len = 4\<rparr>]\<rparr>"

definition dailyFloor :: "platform \<Rightarrow> int \<Rightarrow> stored_layout" where
  "dailyFloor pf now =
     (let day = renovationDay now in
      case dailyLayout pf day of
        Inl _ \<Rightarrow> \<lparr>sl_layout = WithID (pf_hash pf) StartingLayout, sl_source = SourceStarting, sl_at = dayStart day\<rparr>
      | Inr l \<Rightarrow> \<lparr>sl_layout = l, sl_source = SourceDaily, sl_at = dayStart day\<rparr>)"

section \<open>The boundary\<close>

lemma renovationDay_div:
  "75600 * 1000000000 \<le> t \<Longrightarrow> renovationDay t = (t - 75600 * 1000000000) div (86400 * 1000000000)"
proof -
  assume a: "75600 * 1000000000 \<le> t"
  let ?s = "(t - 75600 * 1000000000) div 1000000000"
  have "0 \<le> ?s" using a by (simp add: pos_imp_zdiv_nonneg_iff)
  then have "?s sdiv 86400 = ?s div 86400" by (auto simp: signed_divide_int_def sgn_if abs_if)
  also have "\<dots> = (t - 75600 * 1000000000) div (1000000000 * 86400)" by (rule zdiv_zmult2_eq [symmetric]) simp
  finally show ?thesis by (simp add: renovationDay_def RenovationHourUTC_def secondsPerDay_def)
qed

lemma day_cell: "75600 * 1000000000 \<le> t \<Longrightarrow> renovationDay t = d \<longleftrightarrow> dayStart d \<le> t \<and> t < dayStart (d + 1)"
  unfolding renovationDay_div dayStart_def RenovationHourUTC_def secondsPerDay_def by auto

lemma day_of_start: "0 \<le> d \<Longrightarrow> renovationDay (dayStart d) = d"
  by (subst day_cell) (auto simp: dayStart_def RenovationHourUTC_def secondsPerDay_def)

lemma seed_back: "seedForDay d * 0xf1de83e19937733d = d"
proof -
  have "(word_of_int (0x9E3779B97F4A7C15 * 0xf1de83e19937733d) :: 64 word) = word_of_int 1"
    unfolding word_of_int_eq_iff take_bit_eq_mod by simp
  then have "(0x9E3779B97F4A7C15 * 0xf1de83e19937733d :: 64 word) = 1" by simp
  then show ?thesis unfolding seedForDay_def mult.assoc by (simp only: mult_1_right)
qed

lemma seeds_differ: "seedForDay d = seedForDay e \<Longrightarrow> d = e"
  by (metis seed_back)

text \<open>
  A renovation day is the half-open day from 21:00 UTC to the next 21:00: at every instant since the first
  one, the day answered is exactly the one whose start has come and whose successor's has not; the day only
  grows with the clock; and any two of the days a 64-bit number can hold draw from different seeds.
\<close>

theorem day_turns_at_nine_in_the_evening:
  assumes "dayStart 0 \<le> t"
  shows "(renovationDay t = d \<longleftrightarrow> dayStart d \<le> t \<and> t < dayStart (d + 1)) \<and>
    (\<forall>t' \<ge> t. renovationDay t \<le> renovationDay t') \<and> renovationDay (dayStart (renovationDay t)) = renovationDay t \<and>
    inj_on (\<lambda>day. seedForDay (word_of_int day)) {- (2 ^ 63) ..< 2 ^ 63}"
proof -
  have t: "75600 * 1000000000 \<le> t" using assms by (simp add: dayStart_def RenovationHourUTC_def)
  have "renovationDay t \<le> renovationDay t'" if "t \<le> t'" for t'
    using that t by (simp add: renovationDay_div zdiv_mono1)
  moreover have "0 \<le> renovationDay t" using t by (simp add: renovationDay_div pos_imp_zdiv_nonneg_iff)
  moreover have "inj_on (\<lambda>day. seedForDay (word_of_int day)) {- (2 ^ 63) ..< 2 ^ 63}"
  proof (rule inj_onI)
    fix x y :: int
    assume r: "x \<in> {- (2 ^ 63) ..< 2 ^ 63}" "y \<in> {- (2 ^ 63) ..< 2 ^ 63}"
      and e: "seedForDay (word_of_int x) = seedForDay (word_of_int y)"
    have "(word_of_int x :: 64 word) = word_of_int y" using seeds_differ [OF e] .
    then have "sint (word_of_int x :: 64 word) = sint (word_of_int y :: 64 word)" by simp
    then show "x = y" using r by (simp add: sint_sbintrunc' signed_take_bit_int_eq_self)
  qed
  ultimately show ?thesis using day_cell [OF t] day_of_start by blast
qed

theorem day_turns_at_nine_in_the_evening_witness:
  "renovationDay (1767301200 * 1000000000 - 1) = 20453 \<and> renovationDay (1767301200 * 1000000000) = 20454"
  using day_turns_at_nine_in_the_evening [of "1767301200 * 1000000000 - 1" 20453] day_turns_at_nine_in_the_evening [of "1767301200 * 1000000000" 20454]
  by (simp add: dayStart_def RenovationHourUTC_def secondsPerDay_def)

section \<open>The floor the game shipped with\<close>

lemma pane_fine:
  assumes "validWall wall" and "quarter x" and "quarter n" and "3 / 4 \<le> x" and "3 / 2 \<le> n" and "x + n \<le> wallLength wall - 3 / 4"
  shows "\<not> bad_window \<lparr>wi_wall = wall, wi_at = x, wi_len = n\<rparr>"
    and "x + n + 3 / 4 \<le> y \<Longrightarrow> fl y = y \<Longrightarrow> panes_apart \<lparr>wi_wall = wall, wi_at = x, wi_len = n\<rparr> \<lparr>wi_wall = wall', wi_at = y, wi_len = m\<rparr>"
proof -
  have q: "fl (3 / 2) = 3 / 2" "fl (3 / 4) = 3 / 4" by (rule quarter_exact; simp)+
  have f: "fl WindowMin \<le> 3 / 2" "fl WindowEdge \<le> 3 / 4" "fl WindowMullion \<le> 3 / 4"
    by (rule fl_le [OF _ q(1)] fl_le [OF _ q(2)]; simp add: WindowMin_def WindowEdge_def WindowMullion_def)+
  have L: "wallLength wall = 16 \<or> wallLength wall = 22" by (auto simp: wallLength_def OfficeW_def OfficeH_def)
  have e: "wallLength wall - 3 / 4 \<le> fsub (wallLength wall) (fl WindowEdge)"
    unfolding fsub_def using L f(2) by (intro le_fl) (auto intro!: quarter_exact quarter_diff)
  have xn: "fadd x n = x + n" using assms L by (intro quarter_fadd) auto
  show "\<not> bad_window \<lparr>wi_wall = wall, wi_at = x, wi_len = n\<rparr>" using assms f e xn by (auto simp: bad_window_def)
  show "panes_apart \<lparr>wi_wall = wall, wi_at = x, wi_len = n\<rparr> \<lparr>wi_wall = wall', wi_at = y, wi_len = m\<rparr>"
    if "x + n + 3 / 4 \<le> y" "fl y = y"
  proof -
    have "fadd (x + n) (fl WindowMullion) \<le> y" unfolding fadd_def using that f(3) by (intro fl_le) auto
    then show ?thesis by (simp add: panes_apart_def panes_overlap_def xn)
  qed
qed

lemma eighth_bounds:
  assumes "of_int k / 8 \<le> x" and "x \<le> of_int m / 8" and "\<bar>k\<bar> \<le> 1000" and "\<bar>m\<bar> \<le> 1000"
  shows "of_int k / 8 \<le> fl x \<and> fl x \<le> of_int m / 8"
proof -
  have "fl (of_int k / 8) = of_int k / 8" "fl (of_int m / 8) = of_int m / 8"
    using fl_exact [of k "- 3"] fl_exact [of m "- 3"] assms(3,4) by (simp_all add: power_int_minus)
  then show ?thesis using le_fl [OF assms(1)] fl_le [OF assms(2)] by simp
qed

lemma sum_le:
  assumes "a + b \<le> of_int m / 4" and "\<bar>m\<bar> \<le> 1000" shows "4 * fadd a b \<le> of_int m"
proof -
  have "fl (of_int m / 4) = of_int m / 4" using fl_exact [of m "- 2"] assms(2) by (simp add: power_int_minus)
  from fl_le [OF assms(1) this] show ?thesis by (simp add: fadd_def)
qed

lemmas starting_numbers = eighth_bounds [of 22 "28 / 10" 23] eighth_bounds [of 84 "106 / 10" 85] eighth_bounds [of 20 "26 / 10" 21]
  eighth_bounds [of 140 "176 / 10" 141] eighth_bounds [of 9 "12 / 10" 10] eighth_bounds [of 6 "8 / 10" 7]

lemma starting_boxes:
  "list_all2 (\<lambda>s b. boxed_by (so_rect s) b) (l_solids StartingLayout)
     [(11, 22, 12, 16), (11, 22, 28, 32), (11, 22, 44, 48), (11, 22, 60, 64), (42, 53, 12, 16), (42, 53, 28, 32), (42, 53, 44, 48),
      (42, 53, 60, 64), (44, 49, 70, 76), (12, 16, 72, 76)]"
proof -
  note n = starting_numbers
  have s: "4 * fadd (fl (28 / 10)) (fl (26 / 10)) \<le> of_int 22" "4 * fadd (fl (106 / 10)) (fl (26 / 10)) \<le> of_int 53"
    "4 * fadd 11 (fl (12 / 10)) \<le> of_int 49" "4 * fadd (fl (176 / 10)) (fl (12 / 10)) \<le> of_int 76"
    "4 * fadd 3 (fl (8 / 10)) \<le> of_int 16" "4 * fadd 18 (fl (8 / 10)) \<le> of_int 76"
    by (rule sum_le; use n in simp)+
  have e: "fadd 3 1 = 4" "fadd 7 1 = 8" "fadd 11 1 = 12" "fadd 15 1 = 16"
    using quarter_fadd [of 3 1] quarter_fadd [of 7 1] quarter_fadd [of 11 1] quarter_fadd [of 15 1] by simp_all
  show ?thesis using n s by (simp add: StartingLayout_def desk_at_def boxed_by_def e)
qed

text \<open>The rules about solids, decided on a list of boxes.\<close>

type_synonym box = "int \<times> int \<times> int \<times> int"

definition legal_box :: "box \<Rightarrow> bool" where
  "legal_box b = (case b of (x, x', y, y') \<Rightarrow> 6 \<le> x \<and> 6 \<le> y \<and> x' \<le> 58 \<and> y' \<le> 82)"

definition far_boxes :: "int \<Rightarrow> box \<Rightarrow> box \<Rightarrow> bool" where
  "far_boxes k b c = (case b of (x, x', y, y') \<Rightarrow> case c of (u, u', v, v') \<Rightarrow> x' + k \<le> u \<or> u' + k \<le> x \<or> y' + k \<le> v \<or> v' + k \<le> y)"

lemma list_all2_partner: "list_all2 P xs ys \<Longrightarrow> x \<in> set xs \<Longrightarrow> \<exists>y \<in> set ys. P x y"
  by (induction rule: list_all2_induct) auto

lemma box_rules:
  assumes "list_all2 (\<lambda>s b. boxed_by (so_rect s) b) ss bs" and "list_all legal_box bs" and "sorted_wrt (far_boxes 6) bs"
    and "list_all (\<lambda>b. list_all (far_boxes 2 b) demo_spots) bs"
  shows "list_all (\<lambda>s. MinGap \<le> wallGap (so_rect s)) ss \<and> pairwise_apart ss \<and> list_all (\<lambda>p. list_all (spot_clear p) ss) FixedPoints"
  using assms
proof (induction rule: list_all2_induct)
  case (Cons s ss b bs)
  obtain x x' y y' where b: "b = (x, x', y, y')" by (cases b)
  note w = Cons.hyps(1) [unfolded b]
  have "MinGap \<le> wallGap (so_rect s)" using Cons.prems(1) by (intro box_walls [OF w]) (simp_all add: b legal_box_def)
  moreover have "apart (so_rect s) (so_rect t)" if t: "t \<in> set ss" for t
  proof -
    obtain c where c: "c \<in> set bs" "boxed_by (so_rect t) c" using list_all2_partner [OF Cons.hyps(2) t] by blast
    obtain u u' v v' where c': "c = (u, u', v, v')" by (cases c)
    have "far_boxes 6 b c" using Cons.prems(2) c(1) by simp
    then show ?thesis by (intro boxes_apart [OF w c(2) [unfolded c']]) (simp add: b c' far_boxes_def)
  qed
  moreover have "spot_clear p s" if p: "p \<in> set FixedPoints" for p
  proof -
    obtain c where c: "c \<in> set demo_spots" "spot_in p c" using list_all2_partner [OF demo_spots_hold p] by blast
    obtain u u' v v' where c': "c = (u, u', v, v')" by (cases c)
    have "far_boxes 2 b c" using Cons.prems(3) c(1) by (simp add: list_all_iff)
    then show ?thesis unfolding spot_clear_def by (intro box_clear [OF w c(2) [unfolded c']]) (auto simp: b c' far_boxes_def)
  qed
  ultimately show ?case using Cons.IH Cons.prems by (auto simp: list_all_iff)
qed (simp add: list_all_iff)

lemma starting_solids:
  "list_all solid_ok (l_solids StartingLayout) \<and> pairwise_apart (l_solids StartingLayout) \<and>
   list_all (\<lambda>p. list_all (spot_clear p) (l_solids StartingLayout)) FixedPoints"
proof -
  have k: "validKind KindDesk" "validKind KindTree" "validKind KindFlower" by (simp_all add: validKind_def Kinds_def)
  have "fl MinSolidSide \<le> 3 / 4" using eighth_bounds [of 4 MinSolidSide 6] by (simp add: MinSolidSide_def)
  then have "list_all (\<lambda>s. validKind (so_kind s) \<and> \<not> bad_size (so_rect s)) (l_solids StartingLayout)"
    using starting_numbers k by (simp add: StartingLayout_def desk_at_def bad_size_def MaxSolidSide_def)
  moreover have "list_all (\<lambda>s. MinGap \<le> wallGap (so_rect s)) (l_solids StartingLayout) \<and> pairwise_apart (l_solids StartingLayout) \<and>
    list_all (\<lambda>p. list_all (spot_clear p) (l_solids StartingLayout)) FixedPoints"
    by (rule box_rules [OF starting_boxes]) (simp_all add: legal_box_def far_boxes_def demo_spots_def)
  ultimately show ?thesis by (simp add: solid_ok_def list_all_iff)
qed

lemma starting_windows: "windows_ok (l_windows StartingLayout)"
proof -
  have w: "validWall WallTop" "validWall WallLeft" "validWall WallRight" "wallLength WallTop = 16" "wallLength WallLeft = 22" "wallLength WallRight = 22"
    by (simp_all add: validWall_def Walls_def WallTop_def WallLeft_def WallRight_def wallLength_def OfficeW_def OfficeH_def)
  have q: "quarter (65 / 10)" "fl (65 / 10) = 65 / 10" "fl 12 = 12" "fl 4 = 4" using quarterI [of "65 / 10" 26] fl_exact [of 13 "- 1"] fl_int [of 12] fl_int [of 4]
    by (simp_all add: power_int_minus)
  have d: "WallTop \<noteq> WallLeft" "WallTop \<noteq> WallRight" "WallLeft \<noteq> WallRight" by (simp_all add: WallTop_def WallLeft_def WallRight_def)
  have off: "wi_wall v \<noteq> wi_wall u \<Longrightarrow> panes_apart u v" for u v by (simp add: panes_apart_def)
  show ?thesis using w q d by (simp add: StartingLayout_def pane_fine off)
qed

lemma starting_valid: "ValidateLayout StartingLayout = []"
  unfolding validate_rules using starting_solids starting_windows
  by (simp add: MaxSolids_def MaxWindows_def) (simp add: StartingLayout_def)

lemma dailyFloor_valid: "\<forall>seed. rng_ok (pf_rand pf seed) \<Longrightarrow> ValidateLayout (sl_layout (dailyFloor pf now)) = []"
  using generated_facts [of "pf_rand pf" _ "pf_hash pf"]
  by (auto simp: dailyFloor_def Let_def dailyLayout_def ValidateLayout_id starting_valid split: sum.split)

text \<open>C38:
  The floor the game ships with keeps every rule of the validator, in the very doubles it is written in: it is
  a floor the service can always stand up on, so the day's floor is playable whether or not the day's draw
  was refused, and it is in force from the start of its day.
\<close>

theorem day_always_has_a_playable_floor:
  assumes "\<forall>seed. rng_ok (pf_rand pf seed)"
  shows "ValidateLayout StartingLayout = [] \<and> ValidateLayout (sl_layout (dailyFloor pf now)) = [] \<and>
    (sl_source (dailyFloor pf now) = SourceDaily \<longleftrightarrow> (\<exists>l. dailyLayout pf (renovationDay now) = Inr l)) \<and>
    sl_at (dailyFloor pf now) = dayStart (renovationDay now)"
proof -
  have "SourceDaily \<noteq> SourceStarting" by (simp add: SourceDaily_def SourceStarting_def)
  then show ?thesis using starting_valid dailyFloor_valid [OF assms]
    by (auto simp: dailyFloor_def Let_def split: sum.split)
qed

definition demo_platform :: platform where
  "demo_platform = \<lparr>pf_hash = \<lambda>_ _. '''', pf_rand = \<lambda>_. demo_rng\<rparr>"

lemma demo_platform_ok: "\<forall>seed. rng_ok (pf_rand demo_platform seed)"
  by (simp add: demo_platform_def demo_rng_ok)

theorem day_always_has_a_playable_floor_witness:
  "ValidateLayout (sl_layout (dailyFloor demo_platform 0)) = [] \<and> sl_source (dailyFloor demo_platform 0) = SourceDaily"
proof -
  have "\<exists>l. dailyLayout demo_platform (renovationDay 0) = Inr l"
    using demo_generated by (simp add: dailyLayout_def demo_platform_def Generate_def)
  then show ?thesis using day_always_has_a_playable_floor [OF demo_platform_ok, of 0] by blast
qed

end
