(* ===== verification/FintechWire.thy ===== *)
theory FintechWire
  imports FintechVerdict
begin

text \<open>
  The wire of the fintech office: \<^verbatim>\<open>message.go\<close> and \<^verbatim>\<open>SnapshotFor\<close> of \<^verbatim>\<open>office.go\<close>. Decoding a
  payload is \<^verbatim>\<open>encoding/json\<close>, a parameter: for each of the three shapes the code asks for, what it
  yields or that it fails. A frame that goes out is the record before it is marshalled; its fields
  are integers and strings, which \<^verbatim>\<open>json.Marshal\<close> never refuses.
\<close>

section \<open>Quantising\<close>

definition cm :: "f64 \<Rightarrow> int" where "cm v = fround (fmul v 100)"

definition ms :: "f64 \<Rightarrow> int" where "ms v = fround (fmul v 1000)"

definition msUp :: "f64 \<Rightarrow> int" where "msUp v = (if v \<le> 0 then 0 else \<lceil>fmul v 1000\<rceil>)"

definition rub :: "f64 \<Rightarrow> int" where "rub v = ftrunc v"

definition hundredths :: "f64 \<Rightarrow> int" where "hundredths v = fround (fmul v 100)"

definition grinByte :: "f64 \<Rightarrow> int" where "grinByte v = fround (fmul (clamp v 0 1) 255)"

section \<open>What comes in\<close>

definition TypeHello :: string where "TypeHello = ''fintech_hello''"
definition TypeInput :: string where "TypeInput = ''fintech_input''"
definition TypeDo :: string where "TypeDo = ''fintech_do''"
definition TypeReady :: string where "TypeReady = ''fintech_ready''"
definition TypeSnapshot :: string where "TypeSnapshot = ''fintech_snap''"
definition TypeOver :: string where "TypeOver = ''fintech_over''"

definition VerbRedirect :: string where "VerbRedirect = ''redirect''"
definition VerbRouter :: string where "VerbRouter = ''router''"

record do_frame =
  do_v :: string
  do_tg :: string

record 'p decoder =
  dec_type :: "'p \<Rightarrow> string option"
  dec_input :: "'p \<Rightarrow> input option"
  dec_do :: "'p \<Rightarrow> do_frame option"

definition no_input :: input where "no_input = \<lparr>in_seen = 0, in_cmds = []\<rparr>"

definition ParseVerb :: "'p decoder \<Rightarrow> 'p \<Rightarrow> string \<times> string" where
  "ParseVerb dec payload =
     (case dec_do dec payload of
        None \<Rightarrow> ('''', '''')
      | Some f \<Rightarrow> if length (do_tg f) > 64 \<or> length (do_v f) > 32 then ('''', '''') else (do_v f, do_tg f))"

definition ParseInbound :: "'p decoder \<Rightarrow> 'p \<Rightarrow> string \<times> input" where
  "ParseInbound dec payload =
     (case dec_type dec payload of
        None \<Rightarrow> ('''', no_input)
      | Some t \<Rightarrow>
          if t = TypeHello then (TypeHello, no_input)
          else if t = TypeDo then (TypeDo, no_input)
          else if t = TypeInput then
            (case dec_input dec payload of
               None \<Rightarrow> ('''', no_input)
             | Some f \<Rightarrow>
                 (TypeInput, if length (in_cmds f) > MaxInboundCommands
                    then f\<lparr>in_cmds := take MaxInboundCommands (in_cmds f)\<rparr> else f))
          else ('''', no_input))"

section \<open>What goes out\<close>

record ready =
  rd_t :: string
  rd_shift :: string
  rd_persona :: int
  rd_k0 :: nat

record npc_frame =
  nf_x :: int
  nf_y :: int
  nf_p :: int

record claude_frame =
  cf_x :: int
  cf_y :: int
  cf_c :: int
  cf_p :: int

record peer_frame =
  pf_i :: string
  pf_x :: int
  pf_y :: int
  pf_p :: int
  pf_sl :: int
  pf_iv :: int

record boss_frame =
  bf_x :: int
  bf_y :: int
  bf_g :: int
  bf_p :: int
  bf_d :: int

record snapshot =
  sn_t :: string
  sn_tick :: nat
  sn_ack :: int
  sn_x :: int
  sn_y :: int
  sn_pay :: int
  sn_m :: int
  sn_st :: int
  sn_dc :: int
  sn_p :: int
  sn_rc :: int
  sn_bs :: int
  sn_np :: "npc_frame list"
  sn_cl :: "claude_frame option"
  sn_ca :: int
  sn_rd :: int
  sn_sl :: int
  sn_iv :: int
  sn_hs :: int
  sn_b :: boss_frame
  sn_pr :: "peer_frame list"

record over =
  ov_t :: string
  ov_cause :: string
  ov_pay :: int
  ov_secs :: int

definition claudeFrame :: "office \<Rightarrow> claude_frame option" where
  "claudeFrame w =
     (if of_router_away w > 0 then None
      else Some \<lparr>cf_x = cm (vx (ch_pos (of_claude w))), cf_y = cm (vy (ch_pos (of_claude w))),
                 cf_c = grinByte (ch_cig (of_claude w)), cf_p = ClaudeSays (of_tick w)\<rparr>)"

definition npc_frame_of :: "office \<Rightarrow> nat \<Rightarrow> npc_frame" where
  "npc_frame_of w i = \<lparr>nf_x = cm (vx (n_pos (of_npcs w ! i))), nf_y = cm (vy (n_pos (of_npcs w ! i))), nf_p = NPCSays (int i) (of_tick w)\<rparr>"

definition npcsFor :: "office \<Rightarrow> npc_frame list" where
  "npcsFor w = map (npc_frame_of w) [0 ..< length (of_npcs w)]"

definition peer_frame_of :: "office \<Rightarrow> occupant \<Rightarrow> peer_frame" where
  "peer_frame_of w oc =
     \<lparr>pf_i = oc_pseudonym oc, pf_x = cm (vx (p_pos (oc_state oc))), pf_y = cm (vy (p_pos (oc_state oc))),
      pf_p = lineFor w oc, pf_sl = msUp (p_slow_left (oc_state oc)), pf_iv = msUp (oc_invincible oc)\<rparr>"

definition peersFor :: "string \<Rightarrow> office \<Rightarrow> peer_frame list" where
  "peersFor acc w =
     (if length (of_occupants w) < 2 then []
      else map (\<lambda>(k, oc). peer_frame_of w oc)
             (filter (\<lambda>(k, oc). k \<noteq> acc \<and> p_alive (oc_state oc)) (in_order w)))"

definition snapshot_of :: "string \<Rightarrow> office \<Rightarrow> occupant \<Rightarrow> snapshot" where
  "snapshot_of acc w oc =
     (let st = oc_state oc in
      \<lparr>sn_t = TypeSnapshot, sn_tick = of_tick w, sn_ack = oc_last_seq oc,
       sn_x = cm (vx (p_pos st)), sn_y = cm (vy (p_pos st)), sn_pay = rub (p_salary st),
       sn_m = hundredths (Multiplier (p_streak st)), sn_st = ms (p_streak st), sn_dc = msUp (p_dash_cooldown st),
       sn_p = lineFor w oc, sn_rc = msUp (oc_redirect_cool oc), sn_bs = propMask (of_bottles w),
       sn_np = npcsFor w, sn_cl = claudeFrame w, sn_ca = msUp (of_router_away w), sn_rd = msUp (of_router_cool w),
       sn_sl = msUp (p_slow_left st), sn_iv = msUp (oc_invincible oc), sn_hs = propMask (of_hookahs w),
       sn_b = \<lparr>bf_x = cm (vx (b_pos (of_boss w))), bf_y = cm (vy (b_pos (of_boss w))), bf_g = grinByte (b_grin (of_boss w)),
               bf_p = BossSays (bossState w) (b_grin (of_boss w)) (of_tick w) (oc_invincible oc > 0),
               bf_d = msUp (b_drunk (of_boss w))\<rparr>,
       sn_pr = peersFor acc w\<rparr>)"

definition SnapshotFor :: "string \<Rightarrow> office \<Rightarrow> snapshot option" where
  "SnapshotFor acc w = map_option (snapshot_of acc w) (lookup_occ acc w)"

text \<open>\<^verbatim>\<open>overFrame\<close> of \<^verbatim>\<open>service.go\<close>.\<close>

definition overFrame :: "occupant \<Rightarrow> int \<Rightarrow> over" where
  "overFrame oc now =
     \<lparr>ov_t = TypeOver, ov_cause = oc_cause oc, ov_pay = rub (p_salary (oc_state oc)), ov_secs = ftrunc (Elapsed oc now)\<rparr>"

section \<open>The readouts\<close>

lemma msUp_zero: "msUp v = 0 \<longleftrightarrow> v \<le> 0"
proof -
  have "0 < \<lceil>fmul v 1000\<rceil>" if "0 < v"
    using fl_pos [of "v * 1000"] that by (simp add: fmul_def)
  then have "0 < msUp v" if "0 < v" using that unfolding msUp_def by (simp only: not_le [symmetric] if_False simp_thms)
  moreover have "msUp v = 0" if "v \<le> 0" using that by (simp add: msUp_def)
  ultimately show ?thesis by force
qed

lemma msUp_nonneg: "0 \<le> msUp v"
  using msUp_zero [of v] fl_nonneg [of "v * 1000"] by (auto simp: msUp_def fmul_def not_le)

text \<open>A readout that counts down never runs ahead of the timer by more than the rounding of one product.\<close>

lemma msUp_ge: "0 < v \<Longrightarrow> v * 1000 * (1 - 1 / 2 ^ 53) \<le> of_int (msUp v)"
proof -
  assume v: "0 < v"
  have "\<bar>fl (v * 1000) - v * 1000\<bar> \<le> \<bar>v * 1000\<bar> / 2 ^ 53" by (rule fl_error)
  then have "v * 1000 - v * 1000 / 2 ^ 53 \<le> fl (v * 1000)" using v by linarith
  also have "\<dots> \<le> of_int (msUp v)" using v by (simp add: msUp_def fmul_def)
  finally show ?thesis by (simp add: right_diff_distrib)
qed

lemma cm_error: "\<bar>of_int (cm v) - v * 100\<bar> \<le> 1 / 2 + \<bar>v * 100\<bar> / 2 ^ 53"
  using fround_bounds [of "fl (v * 100)"] fl_error [of "v * 100"] unfolding cm_def fmul_def by linarith

lemma rub_earned: "0 \<le> v \<Longrightarrow> of_int (rub v) \<le> v \<and> v < of_int (rub v) + 1"
  using floor_correct [of v] by (simp add: rub_def ftrunc_def)

lemma grinByte_range: "0 \<le> grinByte v \<and> grinByte v \<le> 255"
proof -
  have c: "0 \<le> clamp v 0 1" "clamp v 0 1 \<le> 1" by (auto simp: clamp_def)
  have "0 \<le> fl (clamp v 0 1 * 255)" using c by (intro fl_nonneg) simp
  moreover have "fl (clamp v 0 1 * 255) \<le> 255" using c fl_int [of 255] by (intro fl_le) simp_all
  ultimately show ?thesis using fround_mono [of 0 "fl (clamp v 0 1 * 255)"] fround_mono [of "fl (clamp v 0 1 * 255)" 255]
      fround_of_int [of 0] fround_of_int [of 255] by (simp add: grinByte_def fmul_def)
qed

text \<open>
  The numbers on the wire are honest. A countdown reads zero exactly when the timer is at zero, and is never
  short of it by more than the rounding of one multiplication; money shown is money earned, less than a
  ruble under it; a position is within half a centimetre; a grin fits a byte.
\<close>

theorem readouts_are_honest:
  "(msUp v = 0 \<longleftrightarrow> v \<le> 0) \<and> (0 < v \<longrightarrow> v * 1000 * (1 - 1 / 2 ^ 53) \<le> of_int (msUp v) \<and> of_int (msUp v) < v * 1000 * (1 + 1 / 2 ^ 53) + 1) \<and>
   (0 \<le> v \<longrightarrow> of_int (rub v) \<le> v \<and> v < of_int (rub v) + 1) \<and>
   \<bar>of_int (cm v) - v * 100\<bar> \<le> 1 / 2 + \<bar>v * 100\<bar> / 2 ^ 53 \<and> 0 \<le> grinByte v \<and> grinByte v \<le> 255"
proof -
  have "of_int (msUp v) < v * 1000 * (1 + 1 / 2 ^ 53) + 1" if "0 < v"
  proof -
    have "fl (v * 1000) \<le> v * 1000 + v * 1000 / 2 ^ 53" using fl_error [of "v * 1000"] that by linarith
    moreover have "of_int (msUp v) < fl (v * 1000) + 1" using that ceiling_correct [of "fl (v * 1000)"] by (simp add: msUp_def fmul_def)
    ultimately show ?thesis by (simp add: distrib_left)
  qed
  then show ?thesis using msUp_zero msUp_ge rub_earned cm_error grinByte_range by blast
qed

theorem readouts_are_honest_witness: "msUp (1 / 2 ^ 60) \<noteq> 0 \<and> of_int (rub (7 / 2)) \<le> (7 / 2 :: rat)"
  using readouts_are_honest [of "1 / 2 ^ 60"] readouts_are_honest [of "7 / 2"] by simp

section \<open>The snapshot\<close>

lemma demo_occupants: "of_occupants demo_office = [(''ann'', new_occupant ''ann'' ''s1'' ''p1'' '''' 0 demo_spot 1000 0)]"
proof -
  obtain p j where p: "spawnPoint (NewOffice (NewPlan one_desk)) (draws demo_draws) 0 = (p, j)" by (rule prod.exhaust)
  have "of_occupants demo_office = [(''ann'', new_occupant ''ann'' ''s1'' ''p1'' '''' 0 p 1000 0)]"
    by (simp add: demo_office_def Join_def lookup_occ_def NewOffice_def MaxOccupants_def set_occ_def p [unfolded NewOffice_def])
  then show ?thesis using demo_join(2) by (simp add: lookup_occ_def)
qed

lemma bit_power [simp]: "bit (2 ^ n :: int) j \<longleftrightarrow> j = n"
  by (auto simp: bit_exp_iff)

lemma propMask_fold:
  "bit (fold (\<lambda>p mask. if pr_gone p \<le> 0 then mask OR push_bit (nat (pr_spot p)) 1 else mask) ps (m :: int)) j \<longleftrightarrow>
    bit m j \<or> (\<exists>p \<in> set ps. pr_gone p \<le> 0 \<and> nat (pr_spot p) = j)"
  by (induction ps arbitrary: m) (auto simp: bit_or_iff)

lemma propMask_bit:
  assumes "props_ok spots ps"
  shows "bit (propMask ps) j \<longleftrightarrow> (\<exists>p \<in> set ps. pr_gone p \<le> 0 \<and> pr_spot p = int j)"
  using assms by (auto simp: propMask_def propMask_fold props_ok_def)

lemma others_fewer: "a \<in> fst ` set ps \<Longrightarrow> length (filter (\<lambda>(k, x). k \<noteq> a) ps) < length ps"
  by (elim imageE) (auto intro!: length_filter_less)


text \<open>
  What it means that a number on the wire tells a quantity of the office: it is the nearest whole number of hundredths
  (or thousandths), give or take the rounding of one product; a countdown is never short of its timer and zero
  exactly when that is; money is rounded down; a smile is a byte.
\<close>

definition tells :: "rat \<Rightarrow> int \<Rightarrow> f64 \<Rightarrow> bool" where
  "tells c n v \<longleftrightarrow> \<bar>of_int n - v * c\<bar> \<le> 1 / 2 + \<bar>v * c\<bar> / 2 ^ 53"

definition counts_down :: "int \<Rightarrow> f64 \<Rightarrow> bool" where
  "counts_down n v \<longleftrightarrow> 0 \<le> n \<and> (n = 0 \<longleftrightarrow> v \<le> 0) \<and>
     (0 < v \<longrightarrow> v * 1000 * (1 - 1 / 2 ^ 53) \<le> of_int n \<and> of_int n < v * 1000 * (1 + 1 / 2 ^ 53) + 1)"

definition earned :: "int \<Rightarrow> f64 \<Rightarrow> bool" where "earned n v \<longleftrightarrow> of_int n \<le> v \<and> v < of_int n + 1"

definition smiles :: "int \<Rightarrow> f64 \<Rightarrow> bool" where "smiles n v \<longleftrightarrow> 0 \<le> n \<and> n \<le> 255 \<and> tells 255 n (min 1 (max 0 v))"

definition stands_at :: "int \<Rightarrow> int \<Rightarrow> vec2 \<Rightarrow> bool" where "stands_at x y p \<longleftrightarrow> tells 100 x (vx p) \<and> tells 100 y (vy p)"

text \<open>The parts of a frame: the addressee himself, the boss, Claude, one of those who do not play, and a colleague.\<close>

definition tells_himself :: "office \<Rightarrow> occupant \<Rightarrow> snapshot \<Rightarrow> bool" where
  "tells_himself w oc s \<longleftrightarrow>
     (let st = oc_state oc in
      sn_t s = ''fintech_snap'' \<and> sn_tick s = of_tick w \<and> sn_ack s = oc_last_seq oc \<and>
      stands_at (sn_x s) (sn_y s) (p_pos st) \<and> earned (sn_pay s) (p_salary st) \<and>
      tells 100 (sn_m s) (Multiplier (p_streak st)) \<and> tells 1000 (sn_st s) (p_streak st) \<and>
      sn_p s = (if oc_announce oc > 0 then oc_line oc else PlayerLine st (oc_persona oc) (of_tick w)) \<and>
      counts_down (sn_dc s) (p_dash_cooldown st) \<and> counts_down (sn_rc s) (oc_redirect_cool oc) \<and>
      counts_down (sn_sl s) (p_slow_left st) \<and> counts_down (sn_iv s) (oc_invincible oc))"

definition tells_boss :: "office \<Rightarrow> occupant \<Rightarrow> boss_frame \<Rightarrow> bool" where
  "tells_boss w oc f \<longleftrightarrow>
     stands_at (bf_x f) (bf_y f) (b_pos (of_boss w)) \<and> smiles (bf_g f) (b_grin (of_boss w)) \<and>
     counts_down (bf_d f) (b_drunk (of_boss w)) \<and>
     bf_p f = BossSays (bossState w) (b_grin (of_boss w)) (of_tick w) (oc_invincible oc > 0)"

definition tells_claude :: "office \<Rightarrow> claude_frame \<Rightarrow> bool" where
  "tells_claude w f \<longleftrightarrow>
     stands_at (cf_x f) (cf_y f) (ch_pos (of_claude w)) \<and> smiles (cf_c f) (ch_cig (of_claude w)) \<and> cf_p f = ClaudeSays (of_tick w)"

definition tells_npc :: "office \<Rightarrow> nat \<Rightarrow> npc_frame \<Rightarrow> bool" where
  "tells_npc w i f \<longleftrightarrow> stands_at (nf_x f) (nf_y f) (n_pos (of_npcs w ! i)) \<and> nf_p f = NPCSays (int i) (of_tick w)"

definition tells_peer :: "office \<Rightarrow> peer_frame \<Rightarrow> string \<times> occupant \<Rightarrow> bool" where
  "tells_peer w f peer \<longleftrightarrow>
     (let oc = snd peer; st = oc_state oc in
      pf_i f = oc_pseudonym oc \<and> stands_at (pf_x f) (pf_y f) (p_pos st) \<and>
      pf_p f = (if oc_announce oc > 0 then oc_line oc else PlayerLine st (oc_persona oc) (of_tick w)) \<and>
      counts_down (pf_sl f) (p_slow_left st) \<and> counts_down (pf_iv f) (oc_invincible oc))"

lemma tells_fround: "tells c (fround (fmul v c)) v"
  using fround_bounds [of "fl (v * c)"] fl_error [of "v * c"] unfolding tells_def fmul_def by linarith

lemma tells_cm [simp]: "tells 100 (cm v) v" "tells 100 (hundredths v) v" and tells_ms [simp]: "tells 1000 (ms v) v"
  by (simp_all add: cm_def hundredths_def ms_def tells_fround)

lemma counts_msUp [simp]: "counts_down (msUp v) v"
proof -
  have "of_int (msUp v) < v * 1000 * (1 + 1 / 2 ^ 53) + 1" if "0 < v"
  proof -
    have "fl (v * 1000) \<le> v * 1000 + v * 1000 / 2 ^ 53" using fl_error [of "v * 1000"] that by linarith
    moreover have "of_int (msUp v) < fl (v * 1000) + 1" using that ceiling_correct [of "fl (v * 1000)"] by (simp add: msUp_def fmul_def)
    ultimately show ?thesis by (simp add: distrib_left)
  qed
  then show ?thesis unfolding counts_down_def using msUp_nonneg msUp_zero msUp_ge by blast
qed

lemma earned_rub: "0 \<le> v \<Longrightarrow> earned (rub v) v"
  using rub_earned by (simp add: earned_def)

lemma smiles_grinByte [simp]: "smiles (grinByte v) v"
proof -
  have "clamp v 0 1 = min 1 (max 0 v)" by (auto simp: clamp_def)
  then show ?thesis using grinByte_range [of v] tells_fround [of 255 "clamp v 0 1"] by (simp add: smiles_def grinByte_def)
qed

lemma stands_cm [simp]: "stands_at (cm (vx p)) (cm (vy p)) p"
  by (simp add: stands_at_def)

lemma tells_own_frame: "player_ok (oc_state oc) \<Longrightarrow> tells_himself w oc (snapshot_of acc w oc)"
  by (simp add: tells_himself_def snapshot_of_def Let_def TypeSnapshot_def lineFor_def earned_rub player_ok_def)

lemma tells_boss_frame: "tells_boss w oc (sn_b (snapshot_of acc w oc))"
  by (simp add: tells_boss_def snapshot_of_def Let_def)

lemma tells_claude_frame: "claudeFrame w = Some f \<Longrightarrow> tells_claude w f"
  by (auto simp: tells_claude_def claudeFrame_def split: if_splits)

lemma tells_npc_frame: "i < length (of_npcs w) \<Longrightarrow> tells_npc w i (npcsFor w ! i)"
  by (simp add: tells_npc_def npcsFor_def npc_frame_of_def)

lemma tells_peer_frame: "tells_peer w (peer_frame_of w oc) (k, oc)"
  by (simp add: tells_peer_def peer_frame_of_def lineFor_def Let_def)

text \<open>C39:
  A snapshot is made for exactly the people on the floor and tells what is so. Of the addressee: his place to half a
  centimetre, his money to the ruble below, his multiplier, streak and timers, the last command executed
  and what he says. Of the boss: where he is, how wide he smiles, what he says and how long he is drunk. The bits of
  the two masks are the spots with a bottle or a kalyan standing. Claude is on the frame exactly while he is not
  away, with his place and cigarette, and how long he is gone and when the router can be pulled again count
  down. The colleagues are everybody else, at most two, in the order of their accounts, each under his
  pseudonym with his place, line and timers; the two who do not play are always there, each in his place.
\<close>

theorem snapshot_tells_the_office:
  assumes "office_reach m raw l w"
  shows "(SnapshotFor acc w = None \<longleftrightarrow> lookup_occ acc w = None) \<and>
    (\<forall>s oc. SnapshotFor acc w = Some s \<and> lookup_occ acc w = Some oc \<longrightarrow>
       tells_himself w oc s \<and> tells_boss w oc (sn_b s) \<and>
       (\<forall>j. bit (sn_bs s) j \<longleftrightarrow> (\<exists>p \<in> set (of_bottles w). pr_gone p \<le> 0 \<and> pr_spot p = int j)) \<and>
       (\<forall>j. bit (sn_hs s) j \<longleftrightarrow> (\<exists>p \<in> set (of_hookahs w). pr_gone p \<le> 0 \<and> pr_spot p = int j)) \<and>
       (sn_cl s = None \<longleftrightarrow> of_router_away w > 0) \<and> (\<forall>f. sn_cl s = Some f \<longrightarrow> tells_claude w f) \<and>
       counts_down (sn_ca s) (of_router_away w) \<and> counts_down (sn_rd s) (of_router_cool w) \<and>
       list_all2 (tells_peer w) (sn_pr s) (filter (\<lambda>(k, oc). k \<noteq> acc) (in_order w)) \<and> length (sn_pr s) \<le> 2 \<and>
       length (sn_np s) = 2 \<and> length (of_npcs w) = 2 \<and> (\<forall>i < 2. tells_npc w i (sn_np s ! i)))"
proof -
  from office_reach_ok [OF assms] have ok: "office_ok l w" by blast
  then have people: "people_ok l w" and props: "props_ok BottleSpots (of_bottles w)" "props_ok HookahSpots (of_hookahs w)"
    and npcs: "length (of_npcs w) = 2" by (auto simp: office_ok_defs)
  have each: "p_alive (oc_state oc)" "player_ok (oc_state oc)" if "(k, oc) \<in> set (in_order w)" for k oc
    using that occ_ok_of [OF ok] by (auto simp: in_order_set occ_ok_def)
  have same: "filter (\<lambda>(k, oc). k \<noteq> acc \<and> p_alive (oc_state oc)) (in_order w) = filter (\<lambda>(k, oc). k \<noteq> acc) (in_order w)"
    by (rule filter_cong) (use each in auto)
  show ?thesis
  proof (cases "lookup_occ acc w")
    case None
    then show ?thesis by (simp add: SnapshotFor_def)
  next
    case (Some oc)
    let ?others = "filter (\<lambda>(k, oc). k \<noteq> acc) (in_order w)"
    have mem: "(acc, oc) \<in> set (in_order w)" using Some by (simp add: in_order_set)
    then have "acc \<in> fst ` set (in_order w)" by force
    then have len: "length ?others < length (of_occupants w)"
      using others_fewer [of acc "in_order w"] by (simp add: length_in_order)
    have peers: "peersFor acc w = map (\<lambda>(k, oc). peer_frame_of w oc) ?others"
    proof (cases "length (of_occupants w) < 2")
      case True
      then have "length ?others = 0" using len by linarith
      then have "?others = []" by (simp only: length_0_conv)
      then show ?thesis using True by (simp add: peersFor_def)
    next
      case False
      then show ?thesis by (simp add: peersFor_def same)
    qed
    have "length (of_occupants w) \<le> 3" using people by (simp add: people_ok_def MaxOccupants_def)
    then have few: "length (peersFor acc w) \<le> 2" using len peers by simp
    have told: "list_all2 (tells_peer w) (peersFor acc w) ?others"
      unfolding peers by (auto simp: list.rel_map intro!: list.rel_refl_strong tells_peer_frame)
    have gone: "claudeFrame w = None \<longleftrightarrow> of_router_away w > 0" by (simp add: claudeFrame_def)
    have ambling: "length (npcsFor w) = 2" "\<forall>i < 2. tells_npc w i (npcsFor w ! i)"
      using npcs tells_npc_frame [of _ w] by (simp_all add: npcsFor_def)
    have parts: "sn_cl (snapshot_of acc w oc) = claudeFrame w" "sn_pr (snapshot_of acc w oc) = peersFor acc w"
      "sn_np (snapshot_of acc w oc) = npcsFor w" "sn_bs (snapshot_of acc w oc) = propMask (of_bottles w)"
      "sn_hs (snapshot_of acc w oc) = propMask (of_hookahs w)" "sn_ca (snapshot_of acc w oc) = msUp (of_router_away w)"
      "sn_rd (snapshot_of acc w oc) = msUp (of_router_cool w)" by (simp_all add: snapshot_of_def Let_def)
    show ?thesis
      using tells_own_frame [OF each(2) [OF mem], of w acc] tells_boss_frame [of w oc acc] tells_claude_frame [of w]
        propMask_bit [OF props(1)] propMask_bit [OF props(2)] few told gone ambling npcs Some
      by (simp add: SnapshotFor_def parts)
  qed
qed

theorem snapshot_tells_the_office_witness:
  "\<exists>s. SnapshotFor ''ann'' demo_office = Some s \<and> sn_pr s = [] \<and> length (sn_np s) = 2 \<and> SnapshotFor ''bob'' demo_office = None \<and>
     earned (sn_pay s) 0 \<and> stands_at (sn_x s) (sn_y s) demo_spot"
proof -
  obtain s where s: "SnapshotFor ''ann'' demo_office = Some s" using demo_join(2) by (simp add: SnapshotFor_def)
  let ?oc = "new_occupant ''ann'' ''s1'' ''p1'' '''' 0 demo_spot 1000 0"
  note t = snapshot_tells_the_office [OF demo_reach]
  have only: "of_occupants demo_office = [(''ann'', ?oc)]" by (rule demo_occupants)
  then have oc: "lookup_occ ''ann'' demo_office = Some ?oc" by (simp add: lookup_occ_def)
  have "in_order demo_office = [(''ann'', ?oc)]" by (simp add: in_order_def keys_def lookup_occ_def only)
  then have "sn_pr s = []" "tells_himself demo_office ?oc s" "length (sn_np s) = 2" using t [of "''ann''"] s oc by auto
  moreover have "SnapshotFor ''bob'' demo_office = None" using t [of "''bob''"] by (simp add: lookup_occ_def only)
  ultimately show ?thesis using s by (simp add: tells_himself_def Let_def new_occupant_def NewPlayerAt_def)
qed

end
