(* ===== verification/FintechStore.thy ===== *)
theory FintechStore
  imports FintechDay FintechWire "HOL-Library.Multiset" "HOL-Library.Product_Lexorder" "HOL-Library.List_Lexorder" "HOL-Library.Char_ord"
begin

text \<open>
  The two tables of the game (\<^verbatim>\<open>repository.go\<close>, \<^verbatim>\<open>postgres_repository.go\<close>): the floors and the
  finished shifts. The flag \<open>up\<close> of a statement says whether the database answered. An \<^verbatim>\<open>ORDER BY\<close> that
  leaves ties answers them in the order of the table here; nothing proved below depends on it.
\<close>

section \<open>The tables\<close>

record shift =
  sh_id :: string
  sh_account :: string
  sh_cause :: string
  sh_salary :: f64
  sh_seconds :: f64

record shift_row =
  fr_shift :: shift
  fr_created :: int
  fr_deleted :: "int option"

text \<open>The body of a floor is stored without its identity.\<close>

record layout_row =
  lr_id :: string
  lr_source :: string
  lr_solids :: "solid list"
  lr_windows :: "window list"
  lr_created :: int
  lr_deleted :: "int option"

record fin_db =
  db_accounts :: "string list"
  db_shifts :: "shift_row list"
  db_layouts :: "layout_row list"

datatype repo_error = RepoNoLayout | RepoFailed

section \<open>Floors\<close>

definition live_layouts :: "fin_db \<Rightarrow> layout_row list" where
  "live_layouts db = filter (\<lambda>r. lr_deleted r = None) (db_layouts db)"

definition newest :: "layout_row \<Rightarrow> layout_row \<Rightarrow> layout_row" where
  "newest a b = (if lr_created a < lr_created b \<or> lr_created a = lr_created b \<and> lr_id a < lr_id b then b else a)"

definition CurrentLayout :: "platform \<Rightarrow> bool \<Rightarrow> fin_db \<Rightarrow> repo_error + stored_layout" where
  "CurrentLayout pf up db =
     (if \<not> up then Inl RepoFailed
      else case live_layouts db of
        [] \<Rightarrow> Inl RepoNoLayout
      | r # rs \<Rightarrow> let r = fold newest rs r in
          Inr \<lparr>sl_layout = WithID (pf_hash pf) \<lparr>l_id = '''', l_solids = lr_solids r, l_windows = lr_windows r\<rparr>,
               sl_source = lr_source r, sl_at = lr_created r\<rparr>)"

definition InsertLayout :: "bool \<Rightarrow> string \<Rightarrow> int \<Rightarrow> layout \<Rightarrow> string \<Rightarrow> fin_db \<Rightarrow> bool \<times> fin_db" where
  "InsertLayout up nid clk l src db =
     (if \<not> up then (False, db)
      else (True, db\<lparr>db_layouts := db_layouts db @ [\<lparr>lr_id = nid, lr_source = src, lr_solids = l_solids l,
        lr_windows = l_windows l, lr_created = clk, lr_deleted = None\<rparr>]\<rparr>))"

section \<open>Shifts\<close>

definition InsertShift :: "bool \<Rightarrow> int \<Rightarrow> shift \<Rightarrow> fin_db \<Rightarrow> bool \<times> fin_db" where
  "InsertShift up clk s db =
     (if \<not> up \<or> sh_account s \<notin> set (db_accounts db) \<or> sh_id s \<in> (sh_id \<circ> fr_shift) ` set (db_shifts db) then (False, db)
      else (True, db\<lparr>db_shifts := db_shifts db @ [\<lparr>fr_shift = s, fr_created = clk, fr_deleted = None\<rparr>]\<rparr>))"

definition own_shifts :: "string \<Rightarrow> fin_db \<Rightarrow> shift_row list" where
  "own_shifts acc db = filter (\<lambda>r. sh_account (fr_shift r) = acc \<and> fr_deleted r = None) (db_shifts db)"

definition RecentShifts :: "string \<Rightarrow> nat \<Rightarrow> fin_db \<Rightarrow> shift_row list" where
  "RecentShifts acc n db = take n (sort_key (\<lambda>r. - fr_created r) (own_shifts acc db))"

text \<open>The two columns a shift is scored on.\<close>

datatype metric = metricSalary | metricSeconds

fun score :: "metric \<Rightarrow> shift_row \<Rightarrow> f64" where
  "score metricSalary r = sh_salary (fr_shift r)"
| "score metricSeconds r = sh_seconds (fr_shift r)"

definition ranked :: "int \<Rightarrow> fin_db \<Rightarrow> shift_row list" where
  "ranked since db = filter (\<lambda>r. fr_deleted r = None \<and> since \<le> fr_created r) (db_shifts db)"

text \<open>\<^verbatim>\<open>DISTINCT ON (account_id) ... ORDER BY account_id, metric DESC, created_at DESC\<close>: one row of each account.\<close>

definition better :: "metric \<Rightarrow> shift_row \<Rightarrow> shift_row \<Rightarrow> shift_row" where
  "better m a b = (if score m a < score m b \<or> score m a = score m b \<and> fr_created a < fr_created b then b else a)"

definition best_of :: "metric \<Rightarrow> shift_row list \<Rightarrow> string \<Rightarrow> shift_row option" where
  "best_of m rows acc =
     (case filter (\<lambda>r. sh_account (fr_shift r) = acc) rows of [] \<Rightarrow> None | r # rs \<Rightarrow> Some (fold (better m) rs r))"

definition winners :: "metric \<Rightarrow> shift_row list \<Rightarrow> shift_row list" where
  "winners m rows = List.map_filter (best_of m rows) (remdups (map (sh_account \<circ> fr_shift) rows))"

definition board_key :: "metric \<Rightarrow> shift_row \<Rightarrow> f64 \<times> int" where
  "board_key m r = (- score m r, fr_created r)"

definition topShiftsBy :: "metric \<Rightarrow> int \<Rightarrow> nat \<Rightarrow> fin_db \<Rightarrow> shift_row list" where
  "topShiftsBy m since n db = take n (sort_key (board_key m) (winners m (ranked since db)))"

definition TopShifts :: "int \<Rightarrow> nat \<Rightarrow> fin_db \<Rightarrow> shift_row list" where "TopShifts = topShiftsBy metricSalary"

definition TopShiftsBySeconds :: "int \<Rightarrow> nat \<Rightarrow> fin_db \<Rightarrow> shift_row list" where "TopShiftsBySeconds = topShiftsBy metricSeconds"

section \<open>The service above them\<close>

definition DefaultShiftLimit :: int where "DefaultShiftLimit = 10"
definition MaxShiftLimit :: int where "MaxShiftLimit = 50"
definition BoardWindow :: int where "BoardWindow = 7 * 24 * 3600 * 1000000000"

definition clampLimit :: "int \<Rightarrow> int" where
  "clampLimit n = (if n \<le> 0 then DefaultShiftLimit else if n > MaxShiftLimit then MaxShiftLimit else n)"

definition boardSince :: "int \<Rightarrow> int" where "boardSince now = now - BoardWindow"

section \<open>What a board shows\<close>

definition rank_key :: "metric \<Rightarrow> shift_row \<Rightarrow> f64 \<times> int" where
  "rank_key m r = (score m r, fr_created r)"

lemma rank_key_le: "rank_key m q \<le> rank_key m r \<longleftrightarrow> score m q < score m r \<or> score m q = score m r \<and> fr_created q \<le> fr_created r"
  by (auto simp: rank_key_def less_eq_prod_def)

lemma better_key: "better m a b = (if rank_key m a < rank_key m b then b else a)"
  by (auto simp: better_def rank_key_def less_prod_def)

lemma fold_better:
  "fold (better m) rs r \<in> set (r # rs) \<and> (\<forall>q \<in> set (r # rs). rank_key m q \<le> rank_key m (fold (better m) rs r))"
proof (induction rs arbitrary: r)
  case (Cons s rs)
  have "rank_key m r \<le> rank_key m (better m s r)" "rank_key m s \<le> rank_key m (better m s r)" "better m s r \<in> {r, s}"
    by (auto simp: better_key)
  then show ?case using Cons.IH [of "better m s r"] by (auto intro: order_trans)
qed simp

lemma best_of_some:
  assumes "best_of m rows acc = Some r"
  shows "r \<in> set rows \<and> sh_account (fr_shift r) = acc \<and> (\<forall>q \<in> set rows. sh_account (fr_shift q) = acc \<longrightarrow> rank_key m q \<le> rank_key m r)"
proof -
  obtain s rs where f: "filter (\<lambda>r. sh_account (fr_shift r) = acc) rows = s # rs" "r = fold (better m) rs s"
    using assms by (auto simp: best_of_def split: list.splits)
  have "set (s # rs) = {q \<in> set rows. sh_account (fr_shift q) = acc}" unfolding f(1) [symmetric] by auto
  then show ?thesis using fold_better [of m rs s] unfolding f(2) by blast
qed

lemma best_of_none: "best_of m rows acc = None \<longleftrightarrow> acc \<notin> (sh_account \<circ> fr_shift) ` set rows"
proof -
  have "best_of m rows acc = None \<longleftrightarrow> filter (\<lambda>r. sh_account (fr_shift r) = acc) rows = []" by (auto simp: best_of_def split: list.splits)
  then show ?thesis by (auto simp: filter_empty_conv)
qed

lemma set_winners: "set (winners m rows) = {r. \<exists>acc. best_of m rows acc = Some r}"
proof -
  have "set (winners m rows) = {r. \<exists>acc \<in> set (map (sh_account \<circ> fr_shift) rows). best_of m rows acc = Some r}"
    by (auto simp: winners_def map_filter_def image_iff) (rule exI, rule conjI, rule bexI, rule refl, assumption, simp)
  moreover have "acc \<in> set (map (sh_account \<circ> fr_shift) rows)" if "best_of m rows acc = Some r" for acc r
    using best_of_some [OF that] by auto
  ultimately show ?thesis by blast
qed

lemma winners_accounts: "map (sh_account \<circ> fr_shift) (winners m rows) = remdups (map (sh_account \<circ> fr_shift) rows)"
proof -
  have "best_of m rows acc \<noteq> None" if "acc \<in> set (map (sh_account \<circ> fr_shift) rows)" for acc using that best_of_none by fastforce
  then have "map (sh_account \<circ> fr_shift) (List.map_filter (best_of m rows) as) = as" if "set as \<subseteq> set (map (sh_account \<circ> fr_shift) rows)" for as
    using that
  proof (induction as)
    case (Cons a as)
    then obtain r where r: "best_of m rows a = Some r" by fastforce
    then show ?case using Cons best_of_some [OF r] by (simp add: map_filter_simps)
  qed (simp add: map_filter_simps)
  from this [of "remdups (map (sh_account \<circ> fr_shift) rows)"] show ?thesis by (simp add: winners_def)
qed

lemma board_rows:
  fixes m since db defines "W \<equiv> sort_key (board_key m) (winners m (ranked since db))"
  shows "topShiftsBy m since n db = take n W" and "set W = {r. \<exists>acc. best_of m (ranked since db) acc = Some r}"
    and "distinct (map (sh_account \<circ> fr_shift) W)" and "sorted (map (board_key m) W)"
proof -
  show "topShiftsBy m since n db = take n W" by (simp add: topShiftsBy_def W_def)
  show "set W = {r. \<exists>acc. best_of m (ranked since db) acc = Some r}" by (simp add: W_def set_winners)
  have "mset (map (sh_account \<circ> fr_shift) W) = mset (map (sh_account \<circ> fr_shift) (winners m (ranked since db)))"
    by (simp only: mset_map W_def mset_sort)
  then show "distinct (map (sh_account \<circ> fr_shift) W)" unfolding winners_accounts by (metis distinct_remdups mset_eq_imp_distinct_iff)
  show "sorted (map (board_key m) W)" by (simp add: W_def)
qed

text \<open>C35:
  A board is what it says. It has at most the rows asked for and no account twice; every row is a live shift of
  the window and the best its account did in it, the latest of equals; the rows stand in descending order of
  the score, the earlier first among equals; and a shift that is missing belongs to an account whose better
  shift is on the board, or the board is full of shifts at least as good.
\<close>

theorem board_shows_each_account_at_its_best:
  "length (topShiftsBy m since n db) \<le> n \<and> distinct (map (sh_account \<circ> fr_shift) (topShiftsBy m since n db)) \<and>
   sorted (map (board_key m) (topShiftsBy m since n db)) \<and>
   (\<forall>r \<in> set (topShiftsBy m since n db). r \<in> set (db_shifts db) \<and> fr_deleted r = None \<and> since \<le> fr_created r \<and>
     (\<forall>q \<in> set (ranked since db). sh_account (fr_shift q) = sh_account (fr_shift r) \<longrightarrow>
       score m q < score m r \<or> score m q = score m r \<and> fr_created q \<le> fr_created r)) \<and>
   (\<forall>q \<in> set (ranked since db).
     (\<exists>r \<in> set (topShiftsBy m since n db). sh_account (fr_shift r) = sh_account (fr_shift q) \<and> score m q \<le> score m r) \<or>
     length (topShiftsBy m since n db) = n \<and> (\<forall>r \<in> set (topShiftsBy m since n db). score m q \<le> score m r))"
proof -
  define W where "W = sort_key (board_key m) (winners m (ranked since db))"
  note W = board_rows [where m = m and since = since and db = db, folded W_def]
  have "r \<in> set (db_shifts db) \<and> fr_deleted r = None \<and> since \<le> fr_created r \<and>
     (\<forall>q \<in> set (ranked since db). sh_account (fr_shift q) = sh_account (fr_shift r) \<longrightarrow>
       score m q < score m r \<or> score m q = score m r \<and> fr_created q \<le> fr_created r)" if "r \<in> set (take n W)" for r
  proof -
    from in_set_takeD [OF that] obtain acc where "best_of m (ranked since db) acc = Some r" using W(2) by blast
    then show ?thesis using best_of_some [of m "ranked since db" acc r] by (auto simp: ranked_def rank_key_le)
  qed
  moreover have "(\<exists>r \<in> set (take n W). sh_account (fr_shift r) = sh_account (fr_shift q) \<and> score m q \<le> score m r) \<or>
     length (take n W) = n \<and> (\<forall>r \<in> set (take n W). score m q \<le> score m r)" if q: "q \<in> set (ranked since db)" for q
  proof -
    obtain b where b: "best_of m (ranked since db) (sh_account (fr_shift q)) = Some b" using q best_of_none by fastforce
    note best = best_of_some [OF b]
    then have s: "score m q \<le> score m b" using q by (auto simp: rank_key_le)
    have "b \<in> set W" using W(2) b by blast
    then have "b \<in> set (take n W) \<or> b \<in> set (drop n W)" by (metis Un_iff append_take_drop_id set_append)
    then show ?thesis
    proof
      assume d: "b \<in> set (drop n W)"
      have "sorted (map (board_key m) (take n W) @ map (board_key m) (drop n W))" using W(4) by (metis append_take_drop_id map_append)
      then have "board_key m r \<le> board_key m b" if "r \<in> set (take n W)" for r using that d by (auto simp: sorted_append)
      then have "score m q \<le> score m r" if "r \<in> set (take n W)" for r using that s by (force simp: board_key_def)
      moreover have "n < length W" using d by (cases "n < length W") auto
      ultimately show ?thesis by simp
    qed (use best s in blast)
  qed
  moreover have "distinct (map (sh_account \<circ> fr_shift) (take n W))" using W(3) by (metis distinct_take take_map)
  moreover have "sorted (map (board_key m) (take n W))" using W(4) by (metis sorted_wrt_take take_map)
  ultimately show ?thesis unfolding W(1) by auto
qed

definition demo_shift :: "string \<Rightarrow> string \<Rightarrow> f64 \<Rightarrow> int \<Rightarrow> shift_row" where
  "demo_shift i acc paid t = \<lparr>fr_shift = \<lparr>sh_id = i, sh_account = acc, sh_cause = CauseLeft, sh_salary = paid, sh_seconds = 10\<rparr>,
     fr_created = t, fr_deleted = None\<rparr>"

definition demo_db :: fin_db where
  "demo_db = \<lparr>db_accounts = [''ann'', ''bob''], db_shifts = [demo_shift ''s1'' ''ann'' 5 10, demo_shift ''s2'' ''bob'' 7 20,
     demo_shift ''s3'' ''ann'' 9 30], db_layouts = []\<rparr>"

theorem board_shows_each_account_at_its_best_witness:
  "\<exists>r \<in> set (topShiftsBy metricSalary 0 2 demo_db). sh_account (fr_shift r) = ''ann'' \<and> sh_salary (fr_shift r) = 9"
proof -
  have b: "topShiftsBy metricSalary 0 2 demo_db = [demo_shift ''s3'' ''ann'' 9 30, demo_shift ''s2'' ''bob'' 7 20]" by code_simp
  have q: "demo_shift ''s3'' ''ann'' 9 30 \<in> set (ranked 0 demo_db)" by (simp add: ranked_def demo_db_def demo_shift_def)
  show ?thesis using board_shows_each_account_at_its_best [of metricSalary 0 2 demo_db] q b by (auto simp: demo_shift_def)
qed

end
