(* ===== verification/FintechService.thy ===== *)
theory FintechService
  imports FintechStore
begin

text \<open>
  The service around the office (\<^verbatim>\<open>service.go\<close> and the rotation of \<^verbatim>\<open>renovation.go\<close>): the floor in
  force, the one office, the queue of finished shifts and its writer, and the frames that are sent. Every
  clock read, random draw, answer of the hub and answer of the database is an argument of the operation that
  asks for it; the HMAC behind a pseudonym and the parser of \<^verbatim>\<open>google/uuid\<close> are parameters.
  Operations that hold the mutex are one step each.
\<close>

section \<open>State\<close>

definition savesBuffer :: nat where "savesBuffer = 64"

record service =
  sv_room :: string
  sv_plan :: plan
  sv_source :: string
  sv_at :: int
  sv_day :: int
  sv_office :: "office option"
  sv_saves :: "shift list"

record working =
  wk_shift :: string
  wk_persona :: int
  wk_start :: nat
  wk_office :: string

record floor_view =
  fw_layout :: layout
  fw_source :: string
  fw_at :: int
  fw_occupants :: nat

datatype frame = FReady ready | FSnapshot snapshot | FOver over

type_synonym outbound = "(string \<times> frame) list"

text \<open>The answer of \<^verbatim>\<open>Members\<close>: the account and the connection of everybody in the room, or an error.\<close>

type_synonym members = "(string \<times> string) list option"

datatype service_error = Refused office_error | LayoutInvalid "issue list" | ThinFloor | StoreFailed

definition NewService :: "string \<Rightarrow> stored_layout \<Rightarrow> int \<Rightarrow> service" where
  "NewService room stored clk =
     \<lparr>sv_room = room, sv_plan = NewPlan (sl_layout stored), sv_source = sl_source stored, sv_at = sl_at stored,
      sv_day = renovationDay clk, sv_office = None, sv_saves = []\<rparr>"

definition service_AvatarFor :: "string \<Rightarrow> service \<Rightarrow> string option" where
  "service_AvatarFor handle sv = (case sv_office sv of None \<Rightarrow> None | Some w \<Rightarrow> AvatarFor handle w)"

definition Floor :: "service \<Rightarrow> floor_view" where
  "Floor sv = \<lparr>fw_layout = p_layout (sv_plan sv), fw_source = sv_source sv, fw_at = sv_at sv,
     fw_occupants = (case sv_office sv of None \<Rightarrow> 0 | Some w \<Rightarrow> Occupants w)\<rparr>"

section \<open>Frames\<close>

definition connsByAccount :: "members \<Rightarrow> string \<Rightarrow> string list" where
  "connsByAccount mb acc = (case mb of None \<Rightarrow> [] | Some l \<Rightarrow> map snd (filter (\<lambda>m. fst m = acc) l))"

definition present :: "members \<Rightarrow> string list" where
  "present mb = (case mb of None \<Rightarrow> [] | Some l \<Rightarrow> remdups (map fst l))"

datatype publish_result = Published | HubGone | PublishFailed

fun publish :: "(string \<times> frame \<Rightarrow> publish_result) \<Rightarrow> outbound \<Rightarrow> outbound" where
  "publish hub [] = []"
| "publish hub (f # fs) = f # (if hub f = HubGone then [] else publish hub fs)"

definition over_to :: "members \<Rightarrow> occupant \<Rightarrow> int \<Rightarrow> string \<Rightarrow> outbound" where
  "over_to mb oc now acc = map (\<lambda>c. (c, FOver (overFrame oc now))) (connsByAccount mb acc)"

section \<open>A shift that ends\<close>

definition finish :: "(string \<Rightarrow> string option) \<Rightarrow> int \<Rightarrow> occupant \<Rightarrow> service \<Rightarrow> service" where
  "finish uuid now oc sv =
     (let secs = Elapsed oc now in
      if secs < MinShiftSeconds then sv
      else case uuid (oc_account oc) of None \<Rightarrow> sv
      | Some acc \<Rightarrow> (case uuid (oc_shift oc) of None \<Rightarrow> sv
        | Some i \<Rightarrow>
            if length (sv_saves sv) < savesBuffer
            then sv\<lparr>sv_saves := sv_saves sv @ [\<lparr>sh_id = i, sh_account = acc, sh_cause = oc_cause oc,
              sh_salary = p_salary (oc_state oc), sh_seconds = secs\<rparr>]\<rparr>
            else sv))"

text \<open>The loop over the people who ended: each is queued and told.\<close>

fun end_shifts :: "(string \<Rightarrow> string option) \<Rightarrow> int \<Rightarrow> members \<Rightarrow> occupant list \<Rightarrow> service \<Rightarrow> service \<times> outbound" where
  "end_shifts uuid now mb [] sv = (sv, [])"
| "end_shifts uuid now mb (oc # ocs) sv =
     (case end_shifts uuid now mb ocs (finish uuid now oc sv) of (sv', out) \<Rightarrow> (sv', over_to mb oc now (oc_account oc) @ out))"

section \<open>Changing the floor\<close>

definition putInForce :: "(string \<Rightarrow> string option) \<Rightarrow> members \<Rightarrow> int \<Rightarrow> layout \<Rightarrow> string \<Rightarrow> int \<Rightarrow> service \<Rightarrow> service \<times> nat \<times> outbound" where
  "putInForce uuid mb wall l src since sv =
     (let sv = sv\<lparr>sv_plan := NewPlan l, sv_source := src, sv_at := since, sv_day := renovationDay since\<rparr> in
      case sv_office sv of
        None \<Rightarrow> (sv, 0, [])
      | Some w \<Rightarrow> let ended = fst (EvictAll w) in
          case end_shifts uuid wall mb ended sv of (sv, out) \<Rightarrow> (sv\<lparr>sv_office := None\<rparr>, length ended, out))"

text \<open>
  \<open>up\<close> and \<open>clk\<close> are the database's answer and clock, \<open>nid\<close> the identity it draws, \<open>now\<close> the clock read
  before the statement and \<open>wall\<close> the one read under the lock.
\<close>

definition Install :: "platform \<Rightarrow> (string \<Rightarrow> string option) \<Rightarrow> members \<Rightarrow> bool \<Rightarrow> string \<Rightarrow> int \<Rightarrow> int \<Rightarrow> int \<Rightarrow> layout \<Rightarrow> string
    \<Rightarrow> service \<Rightarrow> fin_db \<Rightarrow> (service_error + nat) \<times> service \<times> fin_db \<times> outbound" where
  "Install pf uuid mb up nid clk now wall l src sv db =
     (let issues = ValidateLayout l in
      if issues \<noteq> [] then (Inl (LayoutInvalid issues), sv, db, [])
      else let l = WithID (pf_hash pf) l in
        case InsertLayout up nid clk l src db of
          (False, db) \<Rightarrow> (Inl StoreFailed, sv, db, [])
        | (True, db) \<Rightarrow> (case putInForce uuid mb wall l src now sv of (sv, n, out) \<Rightarrow> (Inr n, sv, db, out)))"

definition cryptoSeed :: "64 word \<Rightarrow> int" where
  "cryptoSeed b = sint (drop_bit 1 b)"

definition Renovate :: "platform \<Rightarrow> (string \<Rightarrow> string option) \<Rightarrow> members \<Rightarrow> bool \<Rightarrow> string \<Rightarrow> int \<Rightarrow> int \<Rightarrow> int \<Rightarrow> 64 word
    \<Rightarrow> service \<Rightarrow> fin_db \<Rightarrow> (service_error + nat) \<times> service \<times> fin_db \<times> outbound" where
  "Renovate pf uuid mb up nid clk now wall b sv db =
     (case Generate (pf_hash pf) (pf_rand pf) (cryptoSeed b) of
        Inl _ \<Rightarrow> (Inl ThinFloor, sv, db, [])
      | Inr l \<Rightarrow> Install pf uuid mb up nid clk now wall l SourceGenerated sv db)"

definition Propose :: "platform \<Rightarrow> 64 word \<Rightarrow> service_error + layout" where
  "Propose pf b =
     (case Generate (pf_hash pf) (pf_rand pf) (cryptoSeed b) of Inl _ \<Rightarrow> Inl ThinFloor | Inr l \<Rightarrow> Inr (WithID (pf_hash pf) l))"

text \<open>What a rotation does once it was found due; the search runs without the lock.\<close>

definition rotate_to :: "platform \<Rightarrow> (string \<Rightarrow> string option) \<Rightarrow> members \<Rightarrow> int \<Rightarrow> int \<Rightarrow> service \<Rightarrow> service \<times> outbound" where
  "rotate_to pf uuid mb day wall sv =
     (case dailyLayout pf day of
        Inl _ \<Rightarrow> (sv\<lparr>sv_day := day\<rparr>, [])
      | Inr l \<Rightarrow> (case putInForce uuid mb wall l SourceDaily (dayStart day) sv of (sv, n, out) \<Rightarrow> (sv, out)))"

definition rotateIfDue :: "platform \<Rightarrow> (string \<Rightarrow> string option) \<Rightarrow> members \<Rightarrow> int \<Rightarrow> int \<Rightarrow> service \<Rightarrow> service \<times> outbound" where
  "rotateIfDue pf uuid mb now wall sv =
     (let day = renovationDay now in if \<not> day > sv_day sv then (sv, []) else rotate_to pf uuid mb day wall sv)"

text \<open>Which floor a process stands up on, and what it writes while finding out.\<close>

definition EnsureLayout :: "platform \<Rightarrow> bool \<Rightarrow> bool \<Rightarrow> string \<Rightarrow> int \<Rightarrow> int \<Rightarrow> fin_db \<Rightarrow> (repo_error + stored_layout) \<times> fin_db" where
  "EnsureLayout pf up up' nid clk now db =
     (case CurrentLayout pf up db of
        Inl RepoNoLayout \<Rightarrow>
          let l = \<lparr>sl_layout = WithID (pf_hash pf) StartingLayout, sl_source = SourceStarting, sl_at = now\<rparr> in
          (Inr l, snd (InsertLayout up' nid clk (sl_layout l) SourceStarting db))
      | Inl RepoFailed \<Rightarrow> (Inl RepoFailed, db)
      | Inr stored \<Rightarrow>
          if ValidateLayout (sl_layout stored) \<noteq> [] then (Inr (dailyFloor pf now), db)
          else if renovationDay (sl_at stored) \<noteq> renovationDay now then (Inr (dailyFloor pf now), db)
          else (Inr stored, db))"

section \<open>The tick\<close>

definition snapshots :: "members \<Rightarrow> office \<Rightarrow> outbound" where
  "snapshots mb w = concat (map (\<lambda>acc. case SnapshotFor acc w of None \<Rightarrow> []
     | Some s \<Rightarrow> map (\<lambda>c. (c, FSnapshot s)) (connsByAccount mb acc)) (present mb))"

definition tick_office :: "(string \<Rightarrow> string option) \<Rightarrow> trig \<Rightarrow> (nat \<Rightarrow> f64) \<Rightarrow> nat \<Rightarrow> members \<Rightarrow> int \<Rightarrow> office \<Rightarrow> service
    \<Rightarrow> service \<times> outbound \<times> nat" where
  "tick_office uuid m u i mb now w sv =
     (case Advance m SimStepSeconds now u i (fold (\<lambda>acc. Seen acc now) (present mb) w) of (ended, w, i) \<Rightarrow>
      case end_shifts uuid now mb ended sv of (sv, out) \<Rightarrow>
        (sv\<lparr>sv_office := if Empty w then None else Some w\<rparr>,
         out @ (if Tick w mod SnapshotEvery = 0 then snapshots mb w else []), i))"

definition service_step :: "platform \<Rightarrow> (string \<Rightarrow> string option) \<Rightarrow> trig \<Rightarrow> (nat \<Rightarrow> f64) \<Rightarrow> nat \<Rightarrow> members \<Rightarrow> members \<Rightarrow> int \<Rightarrow> int
    \<Rightarrow> service \<Rightarrow> service \<times> outbound \<times> nat" where
  "service_step pf uuid m u i mb mb' now wall sv =
     (case rotateIfDue pf uuid mb now wall sv of (sv, out) \<Rightarrow>
      case sv_office sv of
        None \<Rightarrow> (sv, out, i)
      | Some w \<Rightarrow> (case tick_office uuid m u i mb' now w sv of (sv, out', i) \<Rightarrow> (sv, out @ out', i)))"

section \<open>The writer\<close>

definition writeShift :: "bool \<Rightarrow> int \<Rightarrow> shift \<Rightarrow> fin_db \<Rightarrow> fin_db" where
  "writeShift up clk s db = snd (InsertShift up clk s db)"

definition persist_one :: "bool \<Rightarrow> int \<Rightarrow> service \<Rightarrow> fin_db \<Rightarrow> service \<times> fin_db" where
  "persist_one up clk sv db =
     (case sv_saves sv of [] \<Rightarrow> (sv, db) | s # ss \<Rightarrow> (sv\<lparr>sv_saves := ss\<rparr>, writeShift up clk s db))"

text \<open>
  What the writer does when the context ends: one insertion after another until the queue is empty. That nothing waits for
  this goroutine, and that a last step may queue behind it, is outside the function.
\<close>

definition drain_saves :: "(nat \<Rightarrow> bool) \<Rightarrow> (nat \<Rightarrow> int) \<Rightarrow> service \<Rightarrow> fin_db \<Rightarrow> service \<times> fin_db" where
  "drain_saves up clk sv db =
     (sv\<lparr>sv_saves := []\<rparr>, fold (\<lambda>(k, s). writeShift (up k) (clk k) s) (enumerate 0 (sv_saves sv)) db)"

section \<open>The verbs\<close>

text \<open>\<^verbatim>\<open>Profiles\<close>: no service at all, an error, or an address.\<close>

definition avatar_of :: "(unit + string) option \<Rightarrow> string" where
  "avatar_of p = (case p of None \<Rightarrow> '''' | Some (Inl _) \<Rightarrow> '''' | Some (Inr url) \<Rightarrow> url)"

definition drawPersona :: "nat option \<Rightarrow> int" where
  "drawPersona d = (case d of None \<Rightarrow> 0 | Some n \<Rightarrow> int n)"

definition StartShift :: "(string \<Rightarrow> string) \<Rightarrow> (unit + string) option \<Rightarrow> string \<Rightarrow> nat option \<Rightarrow> int \<Rightarrow> (nat \<Rightarrow> f64) \<Rightarrow> nat \<Rightarrow> string
    \<Rightarrow> service \<Rightarrow> (service_error + working) \<times> service \<times> nat" where
  "StartShift pseudonym profile nid draw now u i acc sv =
     (let w = (case sv_office sv of None \<Rightarrow> NewOffice (sv_plan sv) | Some w \<Rightarrow> w); persona = drawPersona draw in
      case Join acc nid (pseudonym acc) (avatar_of profile) persona now u i w of
        Inl e \<Rightarrow> (Inl (Refused e), sv\<lparr>sv_office := if Empty w then None else Some w\<rparr>, i)
      | Inr (w, i) \<Rightarrow>
          (Inr \<lparr>wk_shift = nid, wk_persona = persona, wk_start = 0, wk_office = l_id (p_layout (of_plan w))\<rparr>,
           sv\<lparr>sv_office := Some w\<rparr>, i))"

definition LeaveShift :: "(string \<Rightarrow> string option) \<Rightarrow> members \<Rightarrow> int \<Rightarrow> string \<Rightarrow> service \<Rightarrow> (service_error + unit) \<times> service \<times> outbound" where
  "LeaveShift uuid mb now acc sv =
     (case sv_office sv of None \<Rightarrow> (Inl (Refused ErrNoShift), sv, [])
      | Some w \<Rightarrow> (case Leave acc w of
          (None, w) \<Rightarrow> (Inl (Refused ErrNoShift), sv, [])
        | (Some oc, w) \<Rightarrow>
            (Inr (), (finish uuid now oc sv)\<lparr>sv_office := if Empty w then None else Some w\<rparr>, over_to mb oc now acc)))"

definition CurrentShift :: "string \<Rightarrow> service \<Rightarrow> working option" where
  "CurrentShift acc sv =
     (case sv_office sv of None \<Rightarrow> None
      | Some w \<Rightarrow> (case ShiftOf acc w of None \<Rightarrow> None
        | Some (i, persona, k0) \<Rightarrow>
            Some \<lparr>wk_shift = i, wk_persona = persona, wk_start = k0, wk_office = l_id (p_layout (of_plan w))\<rparr>))"

definition PurgeAccount :: "string \<Rightarrow> service \<Rightarrow> service" where
  "PurgeAccount acc sv =
     (case sv_office sv of None \<Rightarrow> sv
      | Some w \<Rightarrow> let w = snd (Leave acc w) in sv\<lparr>sv_office := if Empty w then None else Some w\<rparr>)"

section \<open>A frame from the socket\<close>

definition hello :: "string \<Rightarrow> string \<Rightarrow> service \<Rightarrow> outbound" where
  "hello acc conn sv =
     (case CurrentShift acc sv of None \<Rightarrow> []
      | Some w \<Rightarrow> [(conn, FReady \<lparr>rd_t = TypeReady, rd_shift = wk_shift w, rd_persona = wk_persona w, rd_k0 = wk_start w\<rparr>)])"

definition on_office :: "(office \<Rightarrow> office) \<Rightarrow> service \<Rightarrow> service" where
  "on_office f sv = sv\<lparr>sv_office := map_option f (sv_office sv)\<rparr>"

definition HandleInbound :: "'p decoder \<Rightarrow> int \<Rightarrow> string \<Rightarrow> string \<Rightarrow> string \<Rightarrow> 'p \<Rightarrow> service \<Rightarrow> service \<times> outbound" where
  "HandleInbound d now acc conn room payload sv =
     (if room \<noteq> sv_room sv then (sv, [])
      else case ParseInbound d payload of (t, inp) \<Rightarrow>
        if t = TypeHello then (sv, hello acc conn sv)
        else if t = TypeDo then
          (case ParseVerb d payload of (verb, target) \<Rightarrow>
             if verb = VerbRedirect then (on_office (\<lambda>w. snd (Redirect acc target w)) sv, [])
             else if verb = VerbRouter then (on_office (\<lambda>w. snd (RouterDown acc w)) sv, [])
             else (sv, []))
        else if t = TypeInput then (on_office (Enqueue acc inp now) sv, [])
        else (sv, []))"

section \<open>What ending a shift touches\<close>

definition same_room :: "service \<Rightarrow> service \<Rightarrow> bool" where
  "same_room sv sv' \<longleftrightarrow> sv' = sv\<lparr>sv_saves := sv_saves sv'\<rparr>"

definition recorded :: "(string \<Rightarrow> string option) \<Rightarrow> int \<Rightarrow> occupant \<Rightarrow> shift \<Rightarrow> bool" where
  "recorded uuid now oc s \<longleftrightarrow> MinShiftSeconds \<le> Elapsed oc now \<and> uuid (oc_account oc) = Some (sh_account s) \<and>
     uuid (oc_shift oc) = Some (sh_id s) \<and> sh_cause s = oc_cause oc \<and> sh_salary s = p_salary (oc_state oc) \<and> sh_seconds s = Elapsed oc now"

lemma same_room_refl [simp]: "same_room sv sv"
  by (simp add: same_room_def)

lemma same_room_trans: "same_room a b \<Longrightarrow> same_room b c \<Longrightarrow> same_room a c"
  by (cases a, cases b, cases c) (simp add: same_room_def)

lemma same_room_fields:
  "same_room sv sv' \<Longrightarrow> sv_room sv' = sv_room sv \<and> sv_plan sv' = sv_plan sv \<and> sv_source sv' = sv_source sv \<and> sv_at sv' = sv_at sv \<and>
     sv_day sv' = sv_day sv \<and> sv_office sv' = sv_office sv"
  by (cases sv, cases sv') (simp add: same_room_def)

lemma finish_cases:
  obtains (kept) "finish uuid now oc sv = sv"
  | (queued) s where "finish uuid now oc sv = sv\<lparr>sv_saves := sv_saves sv @ [s]\<rparr>" and "recorded uuid now oc s" and "length (sv_saves sv) < savesBuffer"
proof -
  let ?new = "\<lambda>acc i. \<lparr>sh_id = i, sh_account = acc, sh_cause = oc_cause oc, sh_salary = p_salary (oc_state oc), sh_seconds = Elapsed oc now\<rparr>"
  consider "finish uuid now oc sv = sv"
    | acc i where "finish uuid now oc sv = sv\<lparr>sv_saves := sv_saves sv @ [?new acc i]\<rparr>" "uuid (oc_account oc) = Some acc" "uuid (oc_shift oc) = Some i"
      "\<not> Elapsed oc now < MinShiftSeconds" "length (sv_saves sv) < savesBuffer"
    unfolding finish_def Let_def
    by (cases "Elapsed oc now < MinShiftSeconds"; cases "uuid (oc_account oc)"; cases "uuid (oc_shift oc)"; cases "length (sv_saves sv) < savesBuffer")
      simp_all
  then show thesis
  proof cases
    case (2 acc i)
    then show ?thesis using that(2) [of "?new acc i"] by (simp add: recorded_def)
  qed (rule that(1))
qed

lemma finish_room: "same_room sv (finish uuid now oc sv)"
  by (rule finish_cases [of uuid now oc sv]) (auto simp: same_room_def)

text \<open>What the queue is after a batch of endings, and who is told.\<close>

lemma end_shifts_room: "same_room sv (fst (end_shifts uuid now mb ocs sv))"
proof (induction ocs arbitrary: sv)
  case (Cons oc ocs)
  from same_room_trans [OF finish_room Cons] show ?case by (simp split: prod.split) (metis fst_conv)
qed simp

lemma end_shifts_out: "snd (end_shifts uuid now mb ocs sv) = concat (map (\<lambda>oc. over_to mb oc now (oc_account oc)) ocs)"
  by (induction ocs arbitrary: sv) (simp_all split: prod.split, metis snd_conv)

lemma end_shifts_queue:
  assumes "length (sv_saves sv) \<le> savesBuffer"
  shows "\<exists>new. sv_saves (fst (end_shifts uuid now mb ocs sv)) = sv_saves sv @ new \<and> (\<forall>s \<in> set new. \<exists>oc \<in> set ocs. recorded uuid now oc s) \<and>
    length (sv_saves sv @ new) \<le> savesBuffer"
  using assms
proof (induction ocs arbitrary: sv)
  case (Cons oc ocs)
  have step: "fst (end_shifts uuid now mb (oc # ocs) sv) = fst (end_shifts uuid now mb ocs (finish uuid now oc sv))" by (simp split: prod.split)
  show ?case
  proof (rule finish_cases [of uuid now oc sv])
    assume "finish uuid now oc sv = sv"
    then show ?thesis using Cons.IH [of sv] Cons.prems unfolding step by fastforce
  next
    fix s assume f: "finish uuid now oc sv = sv\<lparr>sv_saves := sv_saves sv @ [s]\<rparr>" "recorded uuid now oc s" "length (sv_saves sv) < savesBuffer"
    from Cons.IH [of "finish uuid now oc sv"] f obtain new where n: "sv_saves (fst (end_shifts uuid now mb ocs (finish uuid now oc sv))) = (sv_saves sv @ [s]) @ new"
      "\<forall>s \<in> set new. \<exists>oc \<in> set ocs. recorded uuid now oc s" "length ((sv_saves sv @ [s]) @ new) \<le> savesBuffer" by auto
    then show ?thesis unfolding step using f(2) by (intro exI [of _ "s # new"]) auto
  qed
qed simp

section \<open>The invariant\<close>

definition queue_sound :: "service \<Rightarrow> bool" where
  "queue_sound sv \<longleftrightarrow> length (sv_saves sv) \<le> savesBuffer \<and> (\<forall>s \<in> set (sv_saves sv). MinShiftSeconds \<le> sh_seconds s \<and> sh_cause s \<in> set AllCauses)"

definition floor_sound :: "service \<Rightarrow> bool" where
  "floor_sound sv \<longleftrightarrow> (\<exists>l. sv_plan sv = NewPlan l \<and> ValidateLayout l = [] \<and> (\<forall>w. sv_office sv = Some w \<longrightarrow> office_ok l w \<and> \<not> Empty w))"

definition service_ok :: "service \<Rightarrow> bool" where
  "service_ok sv \<longleftrightarrow> floor_sound sv \<and> queue_sound sv"

lemma causes: "CausePromoted \<in> set AllCauses" "CauseLeft \<in> set AllCauses" "CauseRenovated \<in> set AllCauses"
  by (simp_all add: AllCauses_def)

lemma end_shifts_sound:
  assumes "queue_sound sv" and "\<forall>oc \<in> set ocs. oc_cause oc \<in> set AllCauses"
  shows "queue_sound (fst (end_shifts uuid now mb ocs sv))"
proof -
  have "length (sv_saves sv) \<le> savesBuffer" using assms(1) by (simp add: queue_sound_def)
  from end_shifts_queue [OF this, of uuid now mb ocs] obtain new where
    "sv_saves (fst (end_shifts uuid now mb ocs sv)) = sv_saves sv @ new" "\<forall>s \<in> set new. \<exists>oc \<in> set ocs. recorded uuid now oc s"
    "length (sv_saves sv @ new) \<le> savesBuffer" by blast
  then show ?thesis using assms by (auto simp: queue_sound_def recorded_def)
qed

lemma finish_sound: "queue_sound sv \<Longrightarrow> oc_cause oc \<in> set AllCauses \<Longrightarrow> queue_sound (finish uuid now oc sv)"
  using end_shifts_sound [of sv "[oc]" uuid now None] by (simp split: prod.splits)

lemma finish_saves: "sv_saves sv = sv_saves sv' \<Longrightarrow> sv_saves (finish uuid now oc sv) = sv_saves (finish uuid now oc sv')"
  by (simp add: finish_def Let_def split: option.split)

lemma end_shifts_saves: "sv_saves sv = sv_saves sv' \<Longrightarrow> sv_saves (fst (end_shifts uuid now mb ocs sv)) = sv_saves (fst (end_shifts uuid now mb ocs sv'))"
proof (induction ocs arbitrary: sv sv')
  case (Cons oc ocs)
  from Cons.IH [OF finish_saves [OF Cons.prems, of uuid now oc]] show ?case by (simp split: prod.split) (metis fst_conv)
qed simp

definition evicted :: "service \<Rightarrow> occupant list" where
  "evicted sv = (case sv_office sv of None \<Rightarrow> [] | Some w \<Rightarrow> fst (EvictAll w))"

lemma put_in_force:
  assumes "putInForce uuid mb wall l src since sv = (sv', n, out)"
  shows "sv_room sv' = sv_room sv \<and> sv_plan sv' = NewPlan l \<and> sv_source sv' = src \<and> sv_at sv' = since \<and> sv_day sv' = renovationDay since \<and>
     sv_office sv' = None \<and> n = length (evicted sv) \<and> sv_saves sv' = sv_saves (fst (end_shifts uuid wall mb (evicted sv) sv)) \<and>
     out = concat (map (\<lambda>oc. over_to mb oc wall (oc_account oc)) (evicted sv))"
proof (cases "sv_office sv")
  case None
  then show ?thesis using assms by (auto simp: putInForce_def evicted_def)
next
  case (Some w)
  let ?sv = "sv\<lparr>sv_plan := NewPlan l, sv_source := src, sv_at := since, sv_day := renovationDay since\<rparr>"
  obtain sv1 out1 where e: "end_shifts uuid wall mb (fst (EvictAll w)) ?sv = (sv1, out1)" by fastforce
  have "sv' = sv1\<lparr>sv_office := None\<rparr>" "n = length (evicted sv)" "out = out1"
    using assms Some e by (auto simp: putInForce_def evicted_def Let_def)
  moreover have "sv_saves sv1 = sv_saves (fst (end_shifts uuid wall mb (evicted sv) sv))"
    using end_shifts_saves [of ?sv sv uuid wall mb "fst (EvictAll w)"] Some e by (simp add: evicted_def)
  moreover have "same_room ?sv sv1" using end_shifts_room [of ?sv uuid wall mb "fst (EvictAll w)"] e by simp
  moreover have "out1 = concat (map (\<lambda>oc. over_to mb oc wall (oc_account oc)) (evicted sv))"
    using end_shifts_out [of uuid wall mb "fst (EvictAll w)" ?sv] Some e by (simp add: evicted_def)
  ultimately show ?thesis using same_room_fields [of ?sv sv1] by simp
qed

lemma evicted_causes: "\<forall>oc \<in> set (evicted sv). oc_cause oc \<in> set AllCauses"
  by (auto simp: evicted_def EvictAll_def end_shift_def causes split: option.split)

lemma put_in_force_sound:
  assumes "service_ok sv" and "ValidateLayout l = []" and "putInForce uuid mb wall l src since sv = (sv', n, out)"
  shows "service_ok sv'"
proof -
  note p = put_in_force [OF assms(3)]
  have "queue_sound (fst (end_shifts uuid wall mb (evicted sv) sv))"
    using end_shifts_sound [OF _ evicted_causes] assms(1) by (simp add: service_ok_def)
  then have "queue_sound sv'" using p by (simp add: queue_sound_def)
  moreover have "floor_sound sv'" using p assms(2) by (auto simp: floor_sound_def)
  ultimately show ?thesis by (simp add: service_ok_def)
qed

lemma install_sound:
  assumes "service_ok sv" and "Install pf uuid mb up nid clk now wall l src sv db = (r, sv', db', out)"
  shows "service_ok sv'"
proof (cases "ValidateLayout l = []")
  case True
  obtain ok db1 where i: "InsertLayout up nid clk (WithID (pf_hash pf) l) src db = (ok, db1)" by fastforce
  obtain sv1 n out1 where q: "putInForce uuid mb wall (WithID (pf_hash pf) l) src now sv = (sv1, n, out1)" by (metis prod_cases3)
  have "service_ok sv1" using put_in_force_sound [OF assms(1) _ q] True by (simp add: ValidateLayout_id)
  then show ?thesis using assms True i q by (cases ok) (auto simp: Install_def Let_def)
qed (use assms in \<open>auto simp: Install_def Let_def\<close>)

lemma rotate_to_sound:
  assumes "\<forall>seed. rng_ok (pf_rand pf seed)" and "service_ok sv" and "rotate_to pf uuid mb day wall sv = (sv', out)"
  shows "service_ok sv'"
proof (cases "dailyLayout pf day")
  case (Inl e)
  then have "sv' = sv\<lparr>sv_day := day\<rparr>" using assms(3) by (simp add: rotate_to_def)
  then show ?thesis using assms(2) by (simp add: service_ok_def floor_sound_def queue_sound_def)
next
  case (Inr l)
  have v: "ValidateLayout l = []" using generated_facts [of "pf_rand pf" _ "pf_hash pf"] assms(1) Inr by (auto simp: dailyLayout_def)
  obtain sv1 n out1 where q: "putInForce uuid mb wall l SourceDaily (dayStart day) sv = (sv1, n, out1)" by (metis prod_cases3)
  then show ?thesis using put_in_force_sound [OF assms(2) v q] assms(3) Inr by (simp add: rotate_to_def)
qed

lemma rotate_sound:
  assumes "\<forall>seed. rng_ok (pf_rand pf seed)" and "service_ok sv" and "rotateIfDue pf uuid mb now wall sv = (sv', out)"
  shows "service_ok sv'"
  using assms rotate_to_sound [OF assms(1,2)] by (auto simp: rotateIfDue_def Let_def split: if_splits)

lemma fold_seen_ok: "office_ok l w \<Longrightarrow> office_ok l (fold (\<lambda>acc. Seen acc now) as w)"
  by (induction as arbitrary: w) (auto intro: seen_ok)

lemma ended_causes: "Advance m dt now u i w = (ended, w', j) \<Longrightarrow> \<forall>oc \<in> set ended. oc_cause oc \<in> set AllCauses"
proof -
  assume "Advance m dt now u i w = (ended, w', j)"
  from tick_people [OF this] obtain v where "ended = map (\<lambda>k. end_shift (the (outcome now v (the (lookup_occ k v)))) (the (lookup_occ k v)))
        (filter (\<lambda>k. outcome now v (the (lookup_occ k v)) \<noteq> None) (keys w))" by blast
  moreover have "the (outcome now v oc) \<in> set AllCauses" if "outcome now v oc \<noteq> None" for oc
    using that causes by (auto simp: outcome_def split: if_splits)
  ultimately show ?thesis by (auto simp: end_shift_def)
qed

lemma tick_step_positive: "0 \<le> SimStepSeconds"
  by (simp add: SimStepSeconds_def duration_seconds_def SimStep_def SimHz_def fadd_def fdiv_def fl_nonneg)

lemma tick_office_sound:
  assumes "service_ok sv" and "sv_office sv = Some w" and "tick_office uuid m (draws raw) i mb now w sv = (sv', out, j)"
  shows "service_ok sv'"
proof -
  obtain l where l: "sv_plan sv = NewPlan l" "ValidateLayout l = []" "office_ok l w" using assms(1,2) by (auto simp: service_ok_def floor_sound_def)
  obtain ended w1 i1 where a: "Advance m SimStepSeconds now (draws raw) i (fold (\<lambda>acc. Seen acc now) (present mb) w) = (ended, w1, i1)" by (metis prod_cases3)
  obtain sv1 out1 where e: "end_shifts uuid now mb ended sv = (sv1, out1)" by fastforce
  have s: "sv' = sv1\<lparr>sv_office := if Empty w1 then None else Some w1\<rparr>" using assms(3) by (simp add: tick_office_def a e)
  have "office_ok l w1" using advance_ok [OF l(2) fold_seen_ok [OF l(3)] tick_step_positive a] .
  moreover have "queue_sound sv1" using end_shifts_sound [OF _ ended_causes [OF a], of sv uuid now mb] assms(1) e by (simp add: service_ok_def)
  moreover have "sv_plan sv1 = NewPlan l" using same_room_fields [OF end_shifts_room [of sv uuid now mb ended]] e l(1) by simp
  ultimately show ?thesis using s l(2) by (auto simp: service_ok_def floor_sound_def queue_sound_def)
qed


lemma start_sound:
  assumes "in_range raw" and "service_ok sv" and "StartShift ps profile nid draw now (draws raw) i acc sv = (r, sv', j)"
  shows "service_ok sv'"
proof -
  define w where "w = (case sv_office sv of None \<Rightarrow> NewOffice (sv_plan sv) | Some w \<Rightarrow> w)"
  obtain l where l: "sv_plan sv = NewPlan l" "ValidateLayout l = []" "\<forall>w. sv_office sv = Some w \<longrightarrow> office_ok l w" and q: "queue_sound sv"
    using assms(2) by (auto simp: service_ok_def floor_sound_def)
  have w: "office_ok l w" using l new_office_ok by (auto simp: w_def split: option.split)
  show ?thesis
  proof (cases "Join acc nid (ps acc) (avatar_of profile) (drawPersona draw) now (draws raw) i w")
    case (Inl e)
    then have "sv' = sv\<lparr>sv_office := if Empty w then None else Some w\<rparr>"
      using assms(3) unfolding StartShift_def Let_def w_def [symmetric] by simp
    then show ?thesis using l w q by (auto simp: service_ok_def floor_sound_def queue_sound_def)
  next
    case (Inr p)
    obtain w' i' where p: "p = (w', i')" by fastforce
    have "sv' = sv\<lparr>sv_office := Some w'\<rparr>" using assms(3) Inr unfolding StartShift_def Let_def w_def [symmetric] p by simp
    moreover have "office_ok l w'" using join_ok [OF w assms(1)] Inr p by blast
    moreover have "lookup_occ acc w' \<noteq> None" using Inr p by (auto simp: Join_def lookup_set_occ split: if_splits prod.splits)
    then have "\<not> Empty w'" by (auto simp: Empty_def lookup_occ_def)
    ultimately show ?thesis using l(1,2) q by (auto simp: service_ok_def floor_sound_def queue_sound_def)
  qed
qed

lemma drop_sound:
  assumes "service_ok sv" and "sv_office sv = Some w" and "queue_sound sv1" and "sv_plan sv1 = sv_plan sv"
  shows "service_ok (sv1\<lparr>sv_office := if Empty (snd (Leave acc w)) then None else Some (snd (Leave acc w))\<rparr>)"
  using assms leave_ok [of _ w acc] by (auto simp: service_ok_def floor_sound_def queue_sound_def)

lemma leave_sound:
  assumes "service_ok sv" and "LeaveShift uuid mb now acc sv = (r, sv', out)" shows "service_ok sv'"
proof (cases "sv_office sv")
  case (Some w)
  show ?thesis
  proof (cases "lookup_occ acc w")
    case (Some oc)
    let ?oc = "end_shift CauseLeft oc"
    have "queue_sound (finish uuid now ?oc sv)" using assms(1) by (intro finish_sound) (simp_all add: service_ok_def end_shift_def causes)
    moreover have "sv_plan (finish uuid now ?oc sv) = sv_plan sv" using same_room_fields [OF finish_room] by blast
    moreover have lv: "Leave acc w = (Some ?oc, del_occ acc w)" using Some by (simp add: Leave_def)
    ultimately have "service_ok ((finish uuid now ?oc sv)\<lparr>sv_office := if Empty (del_occ acc w) then None else Some (del_occ acc w)\<rparr>)"
      using drop_sound [OF assms(1) \<open>sv_office sv = Some w\<close>, of "finish uuid now ?oc sv" acc, unfolded lv snd_conv] by blast
    then show ?thesis using assms(2) \<open>sv_office sv = Some w\<close> by (auto simp: LeaveShift_def lv)
  qed (use assms Some in \<open>simp add: LeaveShift_def Leave_def\<close>)
qed (use assms in \<open>simp add: LeaveShift_def\<close>)

lemma purge_sound: "service_ok sv \<Longrightarrow> service_ok (PurgeAccount acc sv)"
  using drop_sound [of sv _ sv acc] by (auto simp: PurgeAccount_def Let_def service_ok_def split: option.split)

lemma on_office_sound:
  assumes "service_ok sv" and "\<And>l w. office_ok l w \<Longrightarrow> office_ok l (f w)" and "\<And>w. Empty (f w) = Empty w"
  shows "service_ok (on_office f sv)"
  using assms by (auto simp: service_ok_def floor_sound_def queue_sound_def on_office_def)

lemma verbs_empty: "Empty (snd (Redirect acc tg w)) = Empty w" "Empty (snd (RouterDown acc w)) = Empty w" "Empty (Enqueue acc inp now w) = Empty w"
proof -
  have e: "Empty (set_occ k oc v) = Empty v" if "lookup_occ k v \<noteq> None" for k oc v
    using that by (cases "of_occupants v") (auto simp: Empty_def set_occ_def lookup_occ_def)
  have s: "AList.update k oc os \<noteq> []" for k and oc :: occupant and os by (cases os) auto
  show "Empty (snd (Redirect acc tg w)) = Empty w" by (auto simp: Redirect_def Empty_def set_occ_def lookup_occ_def s split: option.split)
  show "Empty (snd (RouterDown acc w)) = Empty w" by (auto simp: RouterDown_def Empty_def set_occ_def lookup_occ_def s split: option.split)
  show "Empty (Enqueue acc inp now w) = Empty w" by (auto simp: Enqueue_def Let_def e split: option.split)
qed

definition honest_decoder :: "'p decoder \<Rightarrow> bool" where
  "honest_decoder d \<longleftrightarrow> (\<forall>p inp. dec_input d p = Some inp \<longrightarrow> (\<forall>c \<in> set (in_cmds inp). doubles c))"

lemma parse_doubles: "honest_decoder d \<Longrightarrow> ParseInbound d p = (t, inp) \<Longrightarrow> \<forall>c \<in> set (in_cmds inp). doubles c"
  by (auto simp: honest_decoder_def ParseInbound_def no_input_def dest!: in_set_takeD split: option.splits if_splits)

lemma inbound_sound:
  assumes "honest_decoder d" and "service_ok sv" and "HandleInbound d now acc conn room payload sv = (sv', out)"
  shows "service_ok sv'"
proof (cases "room = sv_room sv")
  case True
  obtain t inp where p: "ParseInbound d payload = (t, inp)" by fastforce
  obtain verb target where v: "ParseVerb d payload = (verb, target)" by fastforce
  have d: "\<forall>c \<in> set (in_cmds inp). doubles c" by (rule parse_doubles [OF assms(1) p])
  have "sv' \<in> {sv, on_office (\<lambda>w. snd (Redirect acc target w)) sv, on_office (\<lambda>w. snd (RouterDown acc w)) sv, on_office (Enqueue acc inp now) sv}"
    using assms(3) True by (auto simp: HandleInbound_def p v split: if_splits)
  then show ?thesis using assms(2) d
    by (auto intro!: on_office_sound redirect_ok router_ok enqueue_office_ok simp: verbs_empty)
qed (use assms in \<open>simp add: HandleInbound_def\<close>)

section \<open>Reachable services\<close>

text \<open>
  One step of the running process, with its database. A tick takes the lock for the decision to rotate, for the swap after
  an unlocked search and for the simulation, so the swap and the simulation are also steps of their own:
  whatever else takes the lock may land between them.
\<close>

inductive service_move :: "platform \<Rightarrow> (string \<Rightarrow> string option) \<Rightarrow> trig \<Rightarrow> (nat \<Rightarrow> int option) \<Rightarrow> service \<times> fin_db \<Rightarrow> service \<times> fin_db \<Rightarrow> bool"
  for pf uuid m raw where
  ticks: "service_step pf uuid m (draws raw) i mb mb' now wall sv = (sv', out, j) \<Longrightarrow> service_move pf uuid m raw (sv, db) (sv', db)"
| swaps: "rotate_to pf uuid mb day wall sv = (sv', out) \<Longrightarrow> service_move pf uuid m raw (sv, db) (sv', db)"
| simulates: "sv_office sv = Some w \<Longrightarrow> tick_office uuid m (draws raw) i mb now w sv = (sv', out, j) \<Longrightarrow> service_move pf uuid m raw (sv, db) (sv', db)"
| installs: "Install pf uuid mb up nid clk now wall l src sv db = (r, sv', db', out) \<Longrightarrow> service_move pf uuid m raw (sv, db) (sv', db')"
| renovates: "Renovate pf uuid mb up nid clk now wall b sv db = (r, sv', db', out) \<Longrightarrow> service_move pf uuid m raw (sv, db) (sv', db')"
| starts: "StartShift ps profile nid draw now (draws raw) i acc sv = (r, sv', j) \<Longrightarrow> service_move pf uuid m raw (sv, db) (sv', db)"
| leaves: "LeaveShift uuid mb now acc sv = (r, sv', out) \<Longrightarrow> service_move pf uuid m raw (sv, db) (sv', db)"
| purges: "service_move pf uuid m raw (sv, db) (PurgeAccount acc sv, db)"
| hears: "honest_decoder (d :: string decoder) \<Longrightarrow> HandleInbound d now acc conn room payload sv = (sv', out) \<Longrightarrow> service_move pf uuid m raw (sv, db) (sv', db)"
| writes: "persist_one up clk sv db = (sv', db') \<Longrightarrow> service_move pf uuid m raw (sv, db) (sv', db')"

text \<open>A process starts with the floor it is entitled to.\<close>

inductive service_reach :: "platform \<Rightarrow> (string \<Rightarrow> string option) \<Rightarrow> trig \<Rightarrow> (nat \<Rightarrow> int option) \<Rightarrow> service \<times> fin_db \<Rightarrow> bool"
  for pf uuid m raw where
  boots: "(\<forall>seed. rng_ok (pf_rand pf seed)) \<Longrightarrow> in_range raw \<Longrightarrow> EnsureLayout pf up up' nid clk now db = (Inr stored, db') \<Longrightarrow>
    service_reach pf uuid m raw (NewService room stored wall, db')"
| moves: "service_reach pf uuid m raw s \<Longrightarrow> service_move pf uuid m raw s s' \<Longrightarrow> service_reach pf uuid m raw s'"

lemma ensured_valid:
  assumes "\<forall>seed. rng_ok (pf_rand pf seed)" and "EnsureLayout pf up up' nid clk now db = (Inr stored, db')"
  shows "ValidateLayout (sl_layout stored) = []"
  using assms(2) dailyFloor_valid [OF assms(1)] starting_valid
  by (auto simp: EnsureLayout_def Let_def ValidateLayout_id split: sum.splits repo_error.splits if_splits)

lemma move_sound:
  assumes "\<forall>seed. rng_ok (pf_rand pf seed)" and "in_range raw" and "service_move pf uuid m raw s s'" and "service_ok (fst s)"
  shows "service_ok (fst s')"
  using assms(3)
proof cases
  case (ticks i mb mb' now wall sv sv' out j db)
  obtain sv1 out1 where r: "rotateIfDue pf uuid mb now wall sv = (sv1, out1)" by fastforce
  have o: "service_ok sv1" using rotate_sound [OF assms(1) _ r] assms(4) ticks by simp
  show ?thesis
  proof (cases "sv_office sv1")
    case (Some w)
    obtain sv2 out2 j2 where t: "tick_office uuid m (draws raw) i mb' now w sv1 = (sv2, out2, j2)" by (metis prod_cases3)
    then show ?thesis using tick_office_sound [OF o Some t] ticks r Some by (simp add: service_step_def)
  qed (use o ticks r in \<open>simp add: service_step_def\<close>)
next
  case (renovates mb up nid clk now wall b r sv db sv' db' out)
  then show ?thesis using assms(4) by (cases "Generate (pf_hash pf) (pf_rand pf) (cryptoSeed b)") (auto simp: Renovate_def intro: install_sound)
next
  case (writes up clk sv db sv' db')
  then show ?thesis using assms(4)
    by (auto simp: persist_one_def service_ok_def floor_sound_def queue_sound_def split: list.splits)
qed (use assms in \<open>auto intro: rotate_to_sound tick_office_sound install_sound start_sound leave_sound purge_sound inbound_sound\<close>)

lemma reach_sound: "service_reach pf uuid m raw s \<Longrightarrow> (\<forall>seed. rng_ok (pf_rand pf seed)) \<and> in_range raw \<and> service_ok (fst s)"
proof (induction rule: service_reach.induct)
  case (boots up up' nid clk now db stored db' room wall)
  have "ValidateLayout (sl_layout stored) = []" using ensured_valid [OF boots(1,3)] .
  then show ?case using boots by (auto simp: service_ok_def floor_sound_def queue_sound_def NewService_def savesBuffer_def)
qed (use move_sound in blast)

end
