(* ===== verification/FintechRun.thy ===== *)
theory FintechRun
  imports FintechService
begin

text \<open>
  The claims about the running service: what holds of it after any history, what changes a floor, what a
  rotation does and when, what a restart stands on, what leaving records, and that a queued shift is written.
\<close>

section \<open>Histories\<close>

text \<open>C29:
  Whatever has happened since the process booted - ticks, rotations, floors installed or refused, shifts
  started, left or purged, frames from any socket, writes that succeed or fail - the floor in force is one the
  validator accepts, the office stands on that very floor, keeps its own invariant and is never empty, and
  the queue holds at most sixty-four shifts, each of at least three seconds and with a named ending.
\<close>

theorem service_stays_sound:
  assumes "service_reach pf uuid m raw (sv, db)"
  shows "\<exists>l. sv_plan sv = NewPlan l \<and> ValidateLayout l = [] \<and>
    (\<forall>w. sv_office sv = Some w \<longrightarrow> office_ok l w \<and> of_plan w = sv_plan sv \<and> 0 < Occupants w \<and> Occupants w \<le> 3) \<and>
    length (sv_saves sv) \<le> 64 \<and> (\<forall>s \<in> set (sv_saves sv). 3 \<le> sh_seconds s \<and> sh_cause s \<in> {CausePromoted, CauseLeft, CauseRenovated})"
proof -
  have ok: "service_ok sv" using reach_sound [OF assms] by simp
  then obtain l where l: "sv_plan sv = NewPlan l" "ValidateLayout l = []" "\<forall>w. sv_office sv = Some w \<longrightarrow> office_ok l w \<and> \<not> Empty w"
    by (auto simp: service_ok_def floor_sound_def)
  have "of_plan w = sv_plan sv \<and> 0 < Occupants w \<and> Occupants w \<le> 3" if "sv_office sv = Some w" for w
    using l that by (auto simp: office_ok_def people_ok_def Occupants_def Empty_def MaxOccupants_def)
  moreover have "length (sv_saves sv) \<le> 64 \<and> (\<forall>s \<in> set (sv_saves sv). 3 \<le> sh_seconds s \<and> sh_cause s \<in> {CausePromoted, CauseLeft, CauseRenovated})"
    using ok by (auto simp: service_ok_def queue_sound_def savesBuffer_def MinShiftSeconds_def AllCauses_def)
  ultimately show ?thesis using l by blast
qed

definition empty_db :: fin_db where "empty_db = \<lparr>db_accounts = [''ann''], db_shifts = [], db_layouts = []\<rparr>"

definition morning :: int where "morning = dayStart 20000 + 36000 * 1000000000"

definition demo_boot :: service where
  "demo_boot = NewService ''office'' \<lparr>sl_layout = WithID (pf_hash demo_platform) StartingLayout, sl_source = SourceStarting, sl_at = morning\<rparr> morning"

definition demo_stored :: fin_db where
  "demo_stored = snd (InsertLayout True ''l1'' morning StartingLayout SourceStarting empty_db)"

lemma demo_ensured:
  "EnsureLayout demo_platform True True ''l1'' morning morning empty_db =
    (Inr \<lparr>sl_layout = WithID (pf_hash demo_platform) StartingLayout, sl_source = SourceStarting, sl_at = morning\<rparr>, demo_stored)"
  by (simp add: EnsureLayout_def CurrentLayout_def live_layouts_def empty_db_def demo_stored_def InsertLayout_def Let_def WithID_def)

lemma demo_booted: "service_reach demo_platform (Some :: string \<Rightarrow> string option) demo_trig demo_draws (demo_boot, demo_stored)"
proof -
  have "in_range demo_draws" using office_reach_ok [OF demo_reach] by blast
  from service_reach.boots [OF demo_platform_ok this demo_ensured] show ?thesis by (simp add: demo_boot_def)
qed

text \<open>Somebody clocks in.\<close>

definition demo_working :: service where
  "demo_working = fst (snd (StartShift (\<lambda>a. a) None ''s1'' None morning (draws demo_draws) 0 ''ann'' demo_boot))"

lemma demo_started: "service_reach demo_platform (Some :: string \<Rightarrow> string option) demo_trig demo_draws (demo_working, demo_stored)"
proof -
  obtain r sv j where s: "StartShift (\<lambda>a. a) None ''s1'' None morning (draws demo_draws) 0 ''ann'' demo_boot = (r, sv, j)" by (metis prod_cases3)
  then have "sv = demo_working" by (simp add: demo_working_def)
  then show ?thesis using service_reach.moves [OF demo_booted service_move.starts [OF s]] by simp
qed

lemma demo_working_office: "\<exists>w oc. sv_office demo_working = Some w \<and> lookup_occ ''ann'' w = Some oc \<and> keys w = [''ann''] \<and> oc_shift oc = ''s1'' \<and> oc_started oc = morning
    \<and> oc_account oc = ''ann'' \<and> in_order w = [(''ann'', oc)]"
proof -
  let ?w = "NewOffice (sv_plan demo_boot)"
  obtain p j where p: "spawnPoint ?w (draws demo_draws) 0 = (p, j)" by fastforce
  have e: "of_occupants ?w = []" by (simp add: NewOffice_def)
  let ?oc = "new_occupant ''ann'' ''s1'' ''ann'' '''' 0 p morning (of_tick ?w)"
  have "Join ''ann'' ''s1'' ''ann'' '''' 0 morning (draws demo_draws) 0 ?w = Inr (set_occ ''ann'' ?oc ?w, j)"
    by (simp add: Join_def p lookup_occ_def e MaxOccupants_def)
  then have "sv_office demo_working = Some (set_occ ''ann'' ?oc ?w)"
    by (simp add: demo_working_def StartShift_def demo_boot_def NewService_def avatar_of_def drawPersona_def Let_def)
  moreover have "lookup_occ ''ann'' (set_occ ''ann'' ?oc ?w) = Some ?oc" by (simp add: lookup_set_occ)
  moreover have "keys (set_occ ''ann'' ?oc ?w) = [''ann'']" by (simp add: keys_def set_occ_def e)
  ultimately show ?thesis by (auto simp: in_order_def new_occupant_def)
qed

theorem service_stays_sound_witness:
  "\<exists>l w. sv_plan demo_working = NewPlan l \<and> ValidateLayout l = [] \<and> sv_office demo_working = Some w \<and> Occupants w \<le> 3"
proof -
  from service_stays_sound [OF demo_started] demo_working_office show ?thesis by blast
qed

section \<open>A floor is installed whole or not at all\<close>

lemma told_each:
  assumes "sv_office sv = Some w" and "lookup_occ k w = Some oc" and "c \<in> set (connsByAccount mb (oc_account oc))"
  shows "(c, FOver (overFrame (end_shift CauseRenovated oc) wall)) \<in> set (concat (map (\<lambda>oc. over_to mb oc wall (oc_account oc)) (evicted sv)))"
proof -
  have "end_shift CauseRenovated oc \<in> set (evicted sv)" using assms(1,2) by (force simp: evicted_def EvictAll_def in_order_set)
  moreover have "oc_account (end_shift CauseRenovated oc) = oc_account oc" by (simp add: end_shift_def)
  ultimately show ?thesis using assms(3) by (force simp: over_to_def)
qed

lemma evicted_number: "length (evicted sv) = (case sv_office sv of None \<Rightarrow> 0 | Some w \<Rightarrow> Occupants w)"
  by (simp add: evicted_def EvictAll_def Occupants_def length_in_order split: option.split)

text \<open>C31:
  Putting a floor in force is all or nothing. A floor that is refused, for what is wrong with it or because the
  database did not take it, leaves the service and the database exactly as they were and sends nothing; a
  floor that is taken is the stored one and the one in force, with its own identity and the day of the clock,
  the room is empty, the count answered is the number of people who were in it, and every connection of every
  one of them is told that his shift ended in the renovation.
\<close>

theorem install_is_all_or_nothing:
  assumes "Install pf uuid mb up nid clk now wall l src sv db = (r, sv', db', out)"
  shows "case r of
      Inl e \<Rightarrow> sv' = sv \<and> db' = db \<and> out = [] \<and> e = (if ValidateLayout l \<noteq> [] then LayoutInvalid (ValidateLayout l) else StoreFailed)
    | Inr n \<Rightarrow> ValidateLayout l = [] \<and> up \<and> sv_plan sv' = NewPlan (WithID (pf_hash pf) l) \<and> sv_source sv' = src \<and> sv_at sv' = now \<and>
        sv_day sv' = renovationDay now \<and> sv_office sv' = None \<and> n = (case sv_office sv of None \<Rightarrow> 0 | Some w \<Rightarrow> Occupants w) \<and>
        (\<exists>row. db_layouts db' = db_layouts db @ [row] \<and> lr_solids row = l_solids l \<and> lr_windows row = l_windows l \<and> lr_source row = src) \<and>
        (\<forall>w k oc. sv_office sv = Some w \<longrightarrow> lookup_occ k w = Some oc \<longrightarrow>
          (\<forall>c \<in> set (connsByAccount mb (oc_account oc)). \<exists>v. (c, FOver v) \<in> set out \<and> ov_cause v = CauseRenovated))"
proof (cases "ValidateLayout l = [] \<and> up")
  case False
  then have "r = Inl (if ValidateLayout l \<noteq> [] then LayoutInvalid (ValidateLayout l) else StoreFailed) \<and> sv' = sv \<and> db' = db \<and> out = []"
    using assms by (auto simp: Install_def Let_def InsertLayout_def split: if_splits)
  then show ?thesis by simp
next
  case True
  obtain sv1 n out1 where q: "putInForce uuid mb wall (WithID (pf_hash pf) l) src now sv = (sv1, n, out1)" by (metis prod_cases3)
  have e: "r = Inr n" "sv' = sv1" "out = out1" and db: "db' = snd (InsertLayout True nid clk (WithID (pf_hash pf) l) src db)"
    using assms True by (auto simp: Install_def Let_def InsertLayout_def q)
  note p = put_in_force [OF q]
  have "\<exists>row. db_layouts db' = db_layouts db @ [row] \<and> lr_solids row = l_solids l \<and> lr_windows row = l_windows l \<and> lr_source row = src"
    using db by (simp add: InsertLayout_def WithID_def)
  moreover have "\<exists>v. (c, FOver v) \<in> set out \<and> ov_cause v = CauseRenovated"
    if "sv_office sv = Some w" "lookup_occ k w = Some oc" "c \<in> set (connsByAccount mb (oc_account oc))" for w k oc c
    using told_each [OF that, of wall] p e(3) by (auto simp: overFrame_def end_shift_def)
  ultimately show ?thesis using True p e evicted_number [of sv] by simp
qed

theorem install_is_all_or_nothing_witness:
  "\<exists>sv' db' out v. Install demo_platform Some (Some [(''ann'', ''c1'')]) True ''l2'' morning morning (morning + 1) one_desk SourceEdited demo_working demo_stored = (Inr 1, sv', db', out)
     \<and> sv_office sv' = None \<and> (''c1'', FOver v) \<in> set out \<and> ov_cause v = CauseRenovated"
proof -
  obtain r sv' db' out where i: "Install demo_platform Some (Some [(''ann'', ''c1'')]) True ''l2'' morning morning (morning + 1) one_desk SourceEdited demo_working demo_stored = (r, sv', db', out)"
    by (metis prod_cases4)
  have v: "ValidateLayout one_desk = []" using office_reach_ok [OF demo_reach] by blast
  obtain w oc where w: "sv_office demo_working = Some w" "lookup_occ ''ann'' w = Some oc" "keys w = [''ann'']" "oc_account oc = ''ann''"
    using demo_working_office by blast
  have "Occupants w = length (keys w)" by (simp add: Occupants_def keys_def)
  then have n: "Occupants w = 1" using w(3) by simp
  have "r \<noteq> Inl e" for e using i v by (auto simp: Install_def Let_def InsertLayout_def split: prod.splits)
  then obtain n where "r = Inr n" by (cases r) auto
  moreover have "''c1'' \<in> set (connsByAccount (Some [(''ann'', ''c1'')]) (oc_account oc))" using w(4) by (simp add: connsByAccount_def)
  ultimately show ?thesis using install_is_all_or_nothing [OF i] i n w by (auto simp: w(1))
qed


section \<open>The rotation\<close>

lemma rotate_not_due: "renovationDay now \<le> sv_day sv \<Longrightarrow> rotateIfDue pf uuid mb now wall sv = (sv, [])"
  by (simp add: rotateIfDue_def rotate_to_def Let_def)

lemma rotate_due:
  assumes "sv_day sv < renovationDay now" and "dailyLayout pf (renovationDay now) = Inr l" and "rotateIfDue pf uuid mb now wall sv = (sv', out)"
  shows "\<exists>n. putInForce uuid mb wall l SourceDaily (dayStart (renovationDay now)) sv = (sv', n, out)"
  using assms by (auto simp: rotateIfDue_def rotate_to_def Let_def split: prod.splits)

text \<open>C30:
  The office is rebuilt once a day and only forwards. A clock that stands or goes back changes nothing and
  sends nothing. On the first tick of a later day the day in force becomes that day: if its floor can be drawn,
  that floor is in force since 21:00, the room is empty and everybody in it was told; if it cannot, nothing but
  the day changes and nobody is thrown out. Whichever it was, no later tick up to the end of that day does it
  again.
\<close>

theorem office_is_rebuilt_once_a_day:
  assumes "dayStart 0 \<le> now" and "rotateIfDue pf uuid mb now wall sv = (sv', out)"
  shows "(renovationDay now \<le> sv_day sv \<longrightarrow> sv' = sv \<and> out = []) \<and>
    (sv_day sv < renovationDay now \<longrightarrow> sv_day sv' = renovationDay now \<and>
      (case dailyLayout pf (renovationDay now) of
         Inl _ \<Rightarrow> sv' = sv\<lparr>sv_day := renovationDay now\<rparr> \<and> out = []
       | Inr l \<Rightarrow> sv_plan sv' = NewPlan l \<and> sv_source sv' = SourceDaily \<and> sv_at sv' = dayStart (renovationDay now) \<and> sv_office sv' = None \<and>
           (\<forall>w k oc. sv_office sv = Some w \<longrightarrow> lookup_occ k w = Some oc \<longrightarrow>
             (\<forall>c \<in> set (connsByAccount mb (oc_account oc)). \<exists>v. (c, FOver v) \<in> set out \<and> ov_cause v = CauseRenovated)))) \<and>
    (\<forall>later mb2 wall2. later < dayStart (renovationDay now + 1) \<longrightarrow> rotateIfDue pf uuid mb2 later wall2 sv' = (sv', []))"
proof -
  define day where "day = renovationDay now"
  have d: "0 \<le> day"
    using assms(1) by (simp add: day_def renovationDay_div dayStart_def RenovationHourUTC_def pos_imp_zdiv_nonneg_iff)
  have late: "renovationDay later \<le> day" if "later < dayStart (day + 1)" for later
  proof (cases "dayStart 0 \<le> later")
    case True
    have r: "renovationDay later = e \<longleftrightarrow> dayStart e \<le> later \<and> later < dayStart (e + 1)" for e
      using True by (intro day_cell) (simp add: dayStart_def RenovationHourUTC_def)
    have "dayStart (renovationDay later) \<le> later" using r by blast
    then have "dayStart (renovationDay later) < dayStart (day + 1)" using that by simp
    then show ?thesis by (simp add: dayStart_def secondsPerDay_def)
  next
    case False
    then have "(later - RenovationHourUTC * 3600 * 1000000000) div 1000000000 \<le> 0"
      by (simp add: dayStart_def RenovationHourUTC_def div_nonpos_pos_le0)
    moreover have "0 \<le> \<bar>s\<bar> div (86400 :: int)" for s by (simp add: pos_imp_zdiv_nonneg_iff)
    then have "s sdiv 86400 \<le> 0" if "s \<le> 0" for s :: int using that by (auto simp: signed_divide_int_def sgn_if)
    ultimately have "renovationDay later \<le> 0" by (simp add: renovationDay_def secondsPerDay_def)
    then show ?thesis using d by simp
  qed
  show ?thesis
  proof (cases "sv_day sv < day")
    case False
    then have "sv' = sv" "out = []" using assms(2) by (simp_all add: rotateIfDue_def rotate_to_def Let_def day_def)
    moreover have "renovationDay later \<le> sv_day sv" if "later < dayStart (day + 1)" for later using late [OF that] False by simp
    ultimately show ?thesis using False by (auto simp: day_def [symmetric] rotate_not_due)
  next
    case True
    show ?thesis
    proof (cases "dailyLayout pf day")
      case (Inl e)
      then have "sv' = sv\<lparr>sv_day := day\<rparr>" "out = []" using assms(2) True by (simp_all add: rotateIfDue_def rotate_to_def Let_def day_def)
      then show ?thesis using True Inl late by (auto simp: day_def [symmetric] rotate_not_due)
    next
      case (Inr l)
      obtain n where q: "putInForce uuid mb wall l SourceDaily (dayStart day) sv = (sv', n, out)"
        using rotate_due [of sv now pf l uuid mb wall sv' out] True Inr assms(2) by (auto simp: day_def)
      note p = put_in_force [OF q]
      have "sv_day sv' = day" using p day_of_start [OF d] by simp
      moreover have "\<exists>v. (c, FOver v) \<in> set out \<and> ov_cause v = CauseRenovated"
        if "sv_office sv = Some w" "lookup_occ k w = Some oc" "c \<in> set (connsByAccount mb (oc_account oc))" for w k oc c
        using told_each [OF that, of wall] p by (auto simp: overFrame_def end_shift_def)
      ultimately show ?thesis using True Inr late p by (auto simp: day_def [symmetric] rotate_not_due)
    qed
  qed
qed

lemma demo_daily: "\<exists>l. dailyLayout demo_platform d = Inr l"
  using demo_generated by (simp add: dailyLayout_def demo_platform_def Generate_def)

lemma morning_day: "renovationDay morning = 20000" and next_day: "renovationDay (dayStart 20001) = 20001" "dayStart 0 \<le> dayStart 20001"
proof -
  show "renovationDay morning = 20000"
    by (subst day_cell) (simp_all add: morning_def dayStart_def RenovationHourUTC_def secondsPerDay_def)
  show "renovationDay (dayStart 20001) = 20001" by (rule day_of_start) simp
  show "dayStart 0 \<le> dayStart 20001" by (simp add: dayStart_def secondsPerDay_def)
qed

theorem office_is_rebuilt_once_a_day_witness:
  "\<exists>sv' out v. rotateIfDue demo_platform Some (Some [(''ann'', ''c1'')]) (dayStart 20001) (dayStart 20001) demo_working = (sv', out) \<and>
     sv_day sv' = 20001 \<and> sv_office sv' = None \<and> (''c1'', FOver v) \<in> set out \<and>
     rotateIfDue demo_platform Some None (dayStart 20001 + 50000000) 0 sv' = (sv', [])"
proof -
  obtain sv' out where r: "rotateIfDue demo_platform Some (Some [(''ann'', ''c1'')]) (dayStart 20001) (dayStart 20001) demo_working = (sv', out)" by fastforce
  note t = office_is_rebuilt_once_a_day [OF next_day(2) r, unfolded next_day(1)]
  have "sv_day demo_working = 20000"
    by (auto simp: demo_working_def demo_boot_def NewService_def StartShift_def Let_def morning_day split: sum.split)
  moreover obtain w oc where w: "sv_office demo_working = Some w" "lookup_occ ''ann'' w = Some oc" "oc_account oc = ''ann''" using demo_working_office by blast
  moreover have "''c1'' \<in> set (connsByAccount (Some [(''ann'', ''c1'')]) (oc_account oc))" using w(3) by (simp add: connsByAccount_def)
  moreover obtain l where "dailyLayout demo_platform 20001 = Inr l" using demo_daily by blast
  moreover have "dayStart 20001 + 50000000 < dayStart (20001 + 1)" by (simp add: dayStart_def secondsPerDay_def)
  ultimately have "sv_day sv' = 20001 \<and> sv_office sv' = None" "\<exists>v. (''c1'', FOver v) \<in> set out"
    "rotateIfDue demo_platform Some None (dayStart 20001 + 50000000) 0 sv' = (sv', [])" using t by (simp_all, blast)
  then show ?thesis using r by blast
qed


section \<open>A day that cannot be drawn\<close>

text \<open>A source that always answers the middle: every candidate covers the hookah spot in the middle of the floor.\<close>

definition half_rng :: rng where "half_rng = \<lparr>rg_intn = (\<lambda>_ _. 0), rg_float = (\<lambda>_. of_int 512 / 1024)\<rparr>"

lemma half_float: "rg_float half_rng i = of_int 512 / 1024"
  by (simp add: half_rng_def)

lemma half_rng_ok: "rng_ok half_rng"
proof -
  have "fl (1 / 2) = 1 / 2" using fl_exact [of 1 "- 1"] by (simp add: power_int_minus)
  then show ?thesis by (simp add: rng_ok_def half_rng_def)
qed

lemma half_side:
  assumes "quarter lo" and "0 \<le> lo" and "lo \<le> 100" and "of_int k = 4 * (hi - lo)" and "0 \<le> k" and "k \<le> 8" and "quarter hi" and "hi \<le> 200"
  shows "drawSide half_rng (lo, hi) i = (lo + of_int (k div 2) / 4, i + 1)"
proof -
  have h: "hi - lo = of_int k / 4" using assms(4) by simp
  have f: "fsub hi lo = of_int k / 4" using assms unfolding h [symmetric] by (intro quarter_fsub) auto
  have "fl (of_int k * 2 powi (- 3)) = of_int k * 2 powi (- 3)" by (rule fl_exact) (use assms in simp)
  then have v: "fl (of_int k / 8) = of_int k / 8" by (simp add: power_int_minus)
  have "fmul (of_int 512 / 1024) (of_int k / 4) = fl (of_int k / 8)" by (simp add: fmul_def)
  then have e: "fmul (of_int 512 / 1024) (of_int k / 4) = of_int k / 8" using v by simp
  have "of_int k \<le> (of_int 8 :: rat)" "of_int 0 \<le> (of_int k :: rat)" unfolding of_int_le_iff using assms by simp_all
  then have "snapDown (of_int k / 8) = of_int \<lfloor>4 * (of_int k / 8 :: rat)\<rfloor> / 4" by (intro snapDown_eq [OF v]) (auto simp: abs_le_iff)
  moreover have "4 * (of_int k / 8 :: rat) = of_int k / of_int 2" by simp
  ultimately have sn: "snapDown (of_int k / 8) = of_int (k div 2) / 4" by (simp only: floor_divide_of_int_eq)
  have d: "0 \<le> k div 2" "k div 2 \<le> 4" using assms by simp_all
  then have "fadd lo (of_int (k div 2) / 4) = lo + of_int (k div 2) / 4" using assms by (intro quarter_fadd quarter_of) auto
  then show ?thesis unfolding drawSide_def fst_conv snd_conv f half_float e sn by simp
qed

lemma middle_taken:
  assumes "rx r \<le> 8" and "8 \<le> fadd (rx r) (rw r)" and "ry r \<le> 11" and "11 \<le> fadd (ry r) (rh r)"
  shows "\<not> roomFor [] FixedPoints r"
proof -
  have n: "fsub a b \<le> 0" if "a \<le> b" for a b unfolding fsub_def by (rule fl_le) (use that in simp_all)
  have "pointGap r \<lparr>vx = 8, vy = 11\<rparr> = hypot 0 0"
    using n [OF assms(1)] n [OF assms(2)] n [OF assms(3)] n [OF assms(4)] by (simp add: pointGap_def max_def)
  also have "\<dots> = 0" by (simp add: hypot_def)
  finally have z: "pointGap r \<lparr>vx = 8, vy = 11\<rparr> = 0" .
  have "fl (1 / 4) = 1 / 4" using fl_exact [of 1 "- 2"] by (simp add: power_int_minus)
  from le_fl [OF _ this, of SpotClear] have "1 / 4 \<le> fl SpotClear" by (simp add: SpotClear_def PlayerRadius_def)
  then have "list_ex (\<lambda>p. pointGap r p < fl SpotClear) FixedPoints" using z by (simp add: FixedPoints_def BottleSpots_def)
  then show ?thesis by (simp add: roomFor_def)
qed

lemma half_misses:
  assumes "draw_size half_rng w i = ((of_int m / 4, of_int n / 4), j)" and "m \<in> {3, 6, 20}" and "n \<in> {3, 6, 20}"
  shows "\<exists>s k. drawSolid half_rng w [] i = (s, k) \<and> \<not> roomFor [] FixedPoints (so_rect s)"
proof -
  have r: "0 \<le> m" "m \<le> 24" "0 \<le> n" "n \<le> 24" using assms by auto
  define a where "a = 6 + 512 * (52 - m) div 1024"
  define b where "b = 6 + 512 * (76 - n) div 1024"
  have "anywhere half_rng (of_int m / 4) (of_int n / 4) j = ((of_int a / 4, of_int b / 4), j + 2)"
    using along [OF half_float _ _ r(1,2), of 52 j] along [OF half_float _ _ r(3,4), of 76 "j + 1"] unfolding a_def b_def
    by (simp only: anywhere_def) (simp add: OfficeW_def OfficeH_def MinGap_def)
  then have d: "drawSolid half_rng w [] i = (demo_solid (min (max a 6) (58 - m)) (min (max b 6) (82 - n)) m n (class_kind (wn_class w)), j + 2)"
    using assms(1) on_floor_of [OF r(1,2), of 64 a] on_floor_of [OF r(3,4), of 88 b]
    by (simp add: drawSolid_def draw_spot_def demo_solid_def OfficeW_def OfficeH_def)
  define x where "x = min (max a 6) (58 - m)"
  define y where "y = min (max b 6) (82 - n)"
  have x: "inside x y m n" "x \<le> 32" "32 \<le> x + m" "y \<le> 44" "44 \<le> y + n"
    using assms(2,3) by (auto simp: x_def y_def a_def b_def inside_def)
  have "rat_of_int x \<le> of_int 32" "of_int 32 \<le> rat_of_int (x + m)" "rat_of_int y \<le> of_int 44" "of_int 44 \<le> rat_of_int (y + n)"
    unfolding of_int_le_iff using x by blast+
  then have "\<not> roomFor [] FixedPoints (so_rect (demo_solid x y m n (class_kind (wn_class w))))"
    using far_edge [OF x(1)] by (intro middle_taken) (simp_all add: demo_solid_def)
  then show ?thesis unfolding d x_def [symmetric] y_def [symmetric] by blast
qed


lemma half_sizes:
  "draw_size half_rng \<lparr>wn_class = classRun, wn_lie = lieAcross\<rparr> i = ((of_int 20 / 4, of_int 3 / 4), i + 2)"
  "draw_size half_rng \<lparr>wn_class = classRun, wn_lie = lieDown\<rparr> i = ((of_int 3 / 4, of_int 20 / 4), i + 2)"
  "draw_size half_rng \<lparr>wn_class = classRun, wn_lie = lieDrawn\<rparr> i = ((of_int 3 / 4, of_int 20 / 4), i + 3)"
  "draw_size half_rng \<lparr>wn_class = classTree, wn_lie = lieDrawn\<rparr> i = ((of_int 6 / 4, of_int 6 / 4), i + 2)"
  "draw_size half_rng \<lparr>wn_class = classFlower, wn_lie = lieDrawn\<rparr> i = ((of_int 3 / 4, of_int 3 / 4), i + 2)"
proof -
  have q: "quarter (5 / 4)" "quarter (7 / 4)" using quarterI [of "5 / 4" 5] quarterI [of "7 / 4" 7] by simp_all
  note s = half_side [of 4 8 6] half_side [of "3 / 4" 1 1] half_side [of "5 / 4" 2 "7 / 4"]
  have i: "rg_intn half_rng j 2 = 0" for j by (simp add: half_rng_def)
  show "draw_size half_rng \<lparr>wn_class = classRun, wn_lie = lieAcross\<rparr> i = ((of_int 20 / 4, of_int 3 / 4), i + 2)"
    "draw_size half_rng \<lparr>wn_class = classRun, wn_lie = lieDown\<rparr> i = ((of_int 3 / 4, of_int 20 / 4), i + 2)"
    "draw_size half_rng \<lparr>wn_class = classRun, wn_lie = lieDrawn\<rparr> i = ((of_int 3 / 4, of_int 20 / 4), i + 3)"
    "draw_size half_rng \<lparr>wn_class = classTree, wn_lie = lieDrawn\<rparr> i = ((of_int 6 / 4, of_int 6 / 4), i + 2)"
    "draw_size half_rng \<lparr>wn_class = classFlower, wn_lie = lieDrawn\<rparr> i = ((of_int 3 / 4, of_int 3 / 4), i + 2)"
    using s q i by (simp_all add: draw_size_def)
qed

definition hopeless :: "wanted \<Rightarrow> bool" where
  "hopeless w \<longleftrightarrow> (\<forall>i. \<exists>s k. drawSolid half_rng w [] i = (s, k) \<and> \<not> roomFor [] FixedPoints (so_rect s))"

lemma hopeless_wishes: "w \<in> set (fst (wishList half_rng i)) \<Longrightarrow> hopeless w"
proof -
  have t: "set (fst (draw_tail n half_rng i)) \<subseteq> {\<lparr>wn_class = classRun, wn_lie = lieDrawn\<rparr>}" for n i
  proof (induction n arbitrary: i)
    case (Suc n)
    obtain ws j where d: "draw_tail n half_rng (i + 1) = (ws, j)" by fastforce
    have "tailPool ! rg_intn half_rng i (length tailPool) = classRun" by (simp add: half_rng_def tailPool_def)
    then show ?case using Suc [of "i + 1"] d by simp
  qed simp
  assume "w \<in> set (fst (wishList half_rng i))"
  then have "w \<in> {\<lparr>wn_class = classRun, wn_lie = lieAcross\<rparr>, \<lparr>wn_class = classRun, wn_lie = lieDown\<rparr>, \<lparr>wn_class = classTree, wn_lie = lieDrawn\<rparr>,
      \<lparr>wn_class = classFlower, wn_lie = lieDrawn\<rparr>, \<lparr>wn_class = classRun, wn_lie = lieDrawn\<rparr>}"
    using t by (auto simp: wishList_def split: prod.splits) (metis fst_conv singletonD subsetD)
  then show "hopeless w" unfolding hopeless_def
    using half_misses [OF half_sizes(1)] half_misses [OF half_sizes(2)] half_misses [OF half_sizes(3)] half_misses [OF half_sizes(4)] half_misses [OF half_sizes(5)]
    by auto
qed

lemma hopeless_try: "hopeless w \<Longrightarrow> l_solids l = [] \<Longrightarrow> fst (try_place k half_rng w l i) = l"
  by (induction k arbitrary: i) (auto simp: hopeless_def split: prod.splits, metis prod.inject)

lemma hopeless_all: "\<forall>w \<in> set ws. hopeless w \<Longrightarrow> l_solids l = [] \<Longrightarrow> fst (place_all half_rng ws l i) = l"
proof (induction ws arbitrary: i)
  case (Cons w ws)
  then show ?case using hopeless_try [of w l placeTries i] by (auto split: prod.splits)
qed simp

definition half_platform :: platform where
  "half_platform = \<lparr>pf_hash = \<lambda>_ _. ''x'', pf_rand = \<lambda>_. half_rng\<rparr>"

lemma half_refused: "dailyLayout half_platform d = Inl ErrThinFloor"
proof -
  have "case Generate h (\<lambda>_. half_rng) seed of Inl e \<Rightarrow> True | Inr l \<Rightarrow> False" for h seed
  proof -
    obtain ws i where g: "glazing half_rng 0 = (ws, i)" by fastforce
    obtain wish j where w: "wishList half_rng i = (wish, j)" by fastforce
    have "fst (place_all half_rng wish \<lparr>l_id = '''', l_solids = [], l_windows = ws\<rparr> j) = \<lparr>l_id = '''', l_solids = [], l_windows = ws\<rparr>"
      using hopeless_wishes [of _ i] w by (intro hopeless_all) auto
    then show ?thesis by (auto simp: Generate_def g w Let_def minSolids_def split: prod.splits)
  qed
  then show ?thesis by (cases "dailyLayout half_platform d") (auto simp: dailyLayout_def half_platform_def split: sum.splits intro: gen_error.exhaust, metis sum.case(2))
qed


section \<open>What a restart stands on\<close>

text \<open>C32:
  A process that rebuilt the office at nine in the evening and one that boots later that day, with only
  older floors in the database, stand in the same room: the same plan, the same source, in force since the
  same instant, with the day already dealt with; and booting wrote nothing.
\<close>

theorem restart_stands_in_the_same_room:
  assumes "sv_day sv < renovationDay now" and "dailyLayout pf (renovationDay now) = Inr l"
    and "rotateIfDue pf uuid mb now wall sv = (sv', out)"
    and "CurrentLayout pf up db = Inr stored" and "renovationDay (sl_at stored) < renovationDay now"
    and "EnsureLayout pf up up' nid clk boot db = (r, db')" and "renovationDay boot = renovationDay now" and "renovationDay wall2 = renovationDay now"
  shows "db' = db \<and> (\<exists>found. r = Inr found \<and> (let sv2 = NewService room found wall2 in
    sv_plan sv2 = sv_plan sv' \<and> sv_source sv2 = sv_source sv' \<and> sv_at sv2 = sv_at sv' \<and> sv_at sv2 = dayStart (renovationDay now) \<and>
    (0 \<le> renovationDay now \<longrightarrow> sv_day sv2 = sv_day sv') \<and> sv_office sv2 = None \<and> sv_office sv' = None))"
proof -
  obtain n where "putInForce uuid mb wall l SourceDaily (dayStart (renovationDay now)) sv = (sv', n, out)"
    using rotate_due [OF assms(1-3)] by blast
  note p = put_in_force [OF this]
  have "r = Inr (dailyFloor pf boot)" "db' = db" using assms(4-7) by (auto simp: EnsureLayout_def split: if_splits)
  moreover have "dailyFloor pf boot = \<lparr>sl_layout = l, sl_source = SourceDaily, sl_at = dayStart (renovationDay now)\<rparr>"
    using assms(2,7) by (simp add: dailyFloor_def Let_def)
  ultimately show ?thesis using p assms(8) by (simp add: NewService_def Let_def day_of_start)
qed

lemma demo_current:
  "CurrentLayout pf True demo_stored = Inr \<lparr>sl_layout = WithID (pf_hash pf) \<lparr>l_id = '''', l_solids = l_solids StartingLayout, l_windows = l_windows StartingLayout\<rparr>,
    sl_source = SourceStarting, sl_at = morning\<rparr>"
  by (simp add: CurrentLayout_def live_layouts_def demo_stored_def InsertLayout_def empty_db_def)

lemma demo_working_day: "sv_day demo_working = 20000"
  by (auto simp: demo_working_def demo_boot_def NewService_def StartShift_def Let_def morning_day split: sum.split)

theorem restart_stands_in_the_same_room_witness:
  "\<exists>sv' out found. rotateIfDue demo_platform Some None (dayStart 20001) (dayStart 20001) demo_working = (sv', out) \<and>
     fst (EnsureLayout demo_platform True True ''l2'' 0 (dayStart 20001) demo_stored) = Inr found \<and>
     sv_plan (NewService ''office'' found (dayStart 20001)) = sv_plan sv'"
proof -
  obtain l where l: "dailyLayout demo_platform (renovationDay (dayStart 20001)) = Inr l" using demo_daily by blast
  obtain sv' out where r: "rotateIfDue demo_platform Some None (dayStart 20001) (dayStart 20001) demo_working = (sv', out)" by fastforce
  obtain q db' where e: "EnsureLayout demo_platform True True ''l2'' 0 (dayStart 20001) demo_stored = (q, db')" by fastforce
  have d: "sv_day demo_working < renovationDay (dayStart 20001)" using demo_working_day next_day by simp
  have s: "renovationDay (sl_at \<lparr>sl_layout = WithID (pf_hash demo_platform) \<lparr>l_id = '''', l_solids = l_solids StartingLayout, l_windows = l_windows StartingLayout\<rparr>,
    sl_source = SourceStarting, sl_at = morning\<rparr>) < renovationDay (dayStart 20001)" using morning_day next_day by simp
  from restart_stands_in_the_same_room [OF d l r demo_current s e refl refl, where room = "''office''"] show ?thesis
    using r e by (auto simp: Let_def)
qed

text \<open>C33:
  A day whose floor cannot be drawn puts them in different rooms: the running process keeps the floor it has,
  and everybody in it, while a process that boots that day stands on the floor the game shipped with. The
  two agree only if that floor was in force already.
\<close>

theorem refused_day_divides_the_processes:
  assumes "sv_day sv < renovationDay now" and "dailyLayout pf (renovationDay now) = Inl e"
    and "CurrentLayout pf up db = Inr stored" and "renovationDay (sl_at stored) < renovationDay now" and "renovationDay boot = renovationDay now"
  shows "fst (rotateIfDue pf uuid mb now wall sv) = sv\<lparr>sv_day := renovationDay now\<rparr> \<and>
    (\<exists>found. fst (EnsureLayout pf up up' nid clk boot db) = Inr found \<and> sl_source found = SourceStarting \<and>
      sv_plan (NewService room found boot) = NewPlan (WithID (pf_hash pf) StartingLayout))"
proof -
  have "fst (EnsureLayout pf up up' nid clk boot db) = Inr (dailyFloor pf boot)"
    using assms(3-5) by (auto simp: EnsureLayout_def split: if_splits)
  moreover have "dailyFloor pf boot = \<lparr>sl_layout = WithID (pf_hash pf) StartingLayout, sl_source = SourceStarting, sl_at = dayStart (renovationDay now)\<rparr>"
    using assms(2,5) by (simp add: dailyFloor_def Let_def)
  ultimately show ?thesis using assms(1,2) by (simp add: rotateIfDue_def rotate_to_def Let_def NewService_def)
qed

text \<open>A process that was given another floor the day before.\<close>

definition demo_edited :: service where
  "demo_edited = NewService ''office'' \<lparr>sl_layout = one_desk, sl_source = SourceEdited, sl_at = morning\<rparr> morning"

lemma edited_other: "sv_plan demo_edited \<noteq> NewPlan (WithID h StartingLayout)"
proof -
  have "length (l_solids one_desk) \<noteq> length (l_solids StartingLayout)" by (simp add: one_desk_def StartingLayout_def)
  then have "one_desk \<noteq> WithID h StartingLayout" unfolding WithID_def by (metis layout.select_convs(2) layout.surjective layout.update_convs(1))
  then show ?thesis by (auto simp: demo_edited_def NewService_def NewPlan_def Let_def)
qed

theorem refused_day_divides_the_processes_witness:
  "\<exists>found. fst (EnsureLayout half_platform True True ''l2'' 0 (dayStart 20001) demo_stored) = Inr found \<and>
     sv_plan (NewService ''office'' found (dayStart 20001)) \<noteq> sv_plan (fst (rotateIfDue half_platform Some None (dayStart 20001) (dayStart 20001) demo_edited))"
proof -
  have "sv_day demo_edited < renovationDay (dayStart 20001)" using morning_day next_day by (simp add: demo_edited_def NewService_def)
  moreover have "renovationDay (sl_at \<lparr>sl_layout = WithID (pf_hash half_platform) \<lparr>l_id = '''', l_solids = l_solids StartingLayout, l_windows = l_windows StartingLayout\<rparr>,
    sl_source = SourceStarting, sl_at = morning\<rparr>) < renovationDay (dayStart 20001)" using morning_day next_day by simp
  ultimately have "fst (rotateIfDue half_platform Some None (dayStart 20001) (dayStart 20001) demo_edited) = demo_edited\<lparr>sv_day := renovationDay (dayStart 20001)\<rparr> \<and>
    (\<exists>found. fst (EnsureLayout half_platform True True ''l2'' 0 (dayStart 20001) demo_stored) = Inr found \<and> sl_source found = SourceStarting \<and>
      sv_plan (NewService ''office'' found (dayStart 20001)) = NewPlan (WithID (pf_hash half_platform) StartingLayout))"
    by (intro refused_day_divides_the_processes [OF _ half_refused demo_current _ refl])
  then show ?thesis using edited_other [of "pf_hash half_platform"] by auto
qed

text \<open>
  A process whose floor was chosen just before nine in the evening and whose service was built just after stands
  on the old day's floor, and no tick of the new day rebuilds it: the clock the service reads for itself tells
  it that the boundary has been dealt with.
\<close>

theorem boot_across_the_boundary_keeps_the_old_floor:
  assumes "EnsureLayout pf up up' nid clk before db = (Inr found, db')" and "dayStart 0 \<le> before" and "renovationDay before < renovationDay after"
  shows "renovationDay (sl_at found) = renovationDay before \<and> sl_at found < dayStart (renovationDay after) \<and>
    (\<forall>now. renovationDay now \<le> renovationDay after \<longrightarrow>
      rotateIfDue pf uuid mb now wall (NewService room found after) = (NewService room found after, []))"
proof -
  have d: "0 \<le> renovationDay before" using assms(2)
    by (simp add: renovationDay_div dayStart_def RenovationHourUTC_def pos_imp_zdiv_nonneg_iff)
  have f: "renovationDay (sl_at found) = renovationDay before"
    using assms(1) day_of_start [OF d]
    by (auto simp: EnsureLayout_def dailyFloor_def Let_def split: sum.splits repo_error.splits if_splits)
  moreover have "sl_at found < dayStart (renovationDay after)"
  proof (cases "dayStart 0 \<le> sl_at found")
    case True
    then have "sl_at found < dayStart (renovationDay (sl_at found) + 1)"
      using day_cell [of "sl_at found" "renovationDay (sl_at found)"] by (simp add: dayStart_def RenovationHourUTC_def)
    also have "\<dots> \<le> dayStart (renovationDay after)" using f assms(3) by (simp add: dayStart_def secondsPerDay_def)
    finally show ?thesis .
  next
    case False
    then show ?thesis using d assms(3) by (simp add: dayStart_def secondsPerDay_def)
  qed
  ultimately show ?thesis by (auto simp: NewService_def intro!: rotate_not_due)
qed

theorem boot_across_the_boundary_keeps_the_old_floor_witness:
  "\<exists>found. fst (EnsureLayout demo_platform True True ''l1'' morning morning empty_db) = Inr found \<and> renovationDay (sl_at found) = 20000 \<and>
     rotateIfDue demo_platform Some None (dayStart 20001) 0 (NewService ''office'' found (dayStart 20001)) = (NewService ''office'' found (dayStart 20001), [])"
proof -
  have m: "dayStart 0 \<le> morning" "renovationDay morning < renovationDay (dayStart 20001)"
    using morning_day next_day by (simp_all add: morning_def dayStart_def secondsPerDay_def)
  from boot_across_the_boundary_keeps_the_old_floor [OF demo_ensured m, where uuid = Some and mb = None and wall = 0 and room = "''office''"] show ?thesis
    using morning_day demo_ensured by auto
qed


section \<open>Leaving, and being forgotten\<close>

definition occ_of :: "string \<Rightarrow> service \<Rightarrow> occupant option" where
  "occ_of acc sv = (case sv_office sv of None \<Rightarrow> None | Some w \<Rightarrow> lookup_occ acc w)"

lemma occ_of_current: "CurrentShift acc sv = None \<longleftrightarrow> occ_of acc sv = None"
  by (auto simp: CurrentShift_def occ_of_def ShiftOf_def split: option.splits)

lemma occ_of_dropped:
  assumes "sv_office sv = Some w"
  shows "occ_of k (sv1\<lparr>sv_office := if Empty (snd (Leave acc w)) then None else Some (snd (Leave acc w))\<rparr>) =
    (if k = acc then None else occ_of k sv)"
proof -
  have l: "lookup_occ k (snd (Leave acc w)) = (if k = acc then None else lookup_occ k w)"
    by (auto simp: Leave_def lookup_del_occ split: option.split)
  moreover have "lookup_occ k (snd (Leave acc w)) = None" if "Empty (snd (Leave acc w))"
    using that by (simp add: Empty_def lookup_occ_def)
  ultimately show ?thesis using assms by (auto simp: occ_of_def)
qed

lemma purge_occ: "occ_of k (PurgeAccount acc sv) = (if k = acc then None else occ_of k sv)"
proof (cases "sv_office sv")
  case (Some w)
  then show ?thesis using occ_of_dropped [OF Some, where k = k and ?sv1.0 = sv and acc = acc] by (simp add: PurgeAccount_def Let_def)
qed (simp add: PurgeAccount_def occ_of_def)

lemma purge_again: "occ_of acc sv = None \<Longrightarrow> (\<And>w. sv_office sv = Some w \<Longrightarrow> \<not> Empty w) \<Longrightarrow> PurgeAccount acc sv = sv"
  by (cases sv) (auto simp: PurgeAccount_def occ_of_def Leave_def Let_def split: option.splits)

text \<open>
  Walking out and being forgotten both take the account out of the office and nobody else, and drop an office
  that nobody is left in. Walking out is refused exactly to somebody who is not working; it queues his
  shift, with the cause "left", when it lasted three seconds, its identities parse and there is room, and tells
  every connection of his and no other. Being forgotten queues nothing, tells nobody, is not an error for a
  stranger, and doing it twice is doing it once.
\<close>

theorem walking_out_records_and_being_forgotten_does_not:
  assumes "\<forall>w. sv_office sv = Some w \<longrightarrow> \<not> Empty w" and "LeaveShift uuid mb now acc sv = (r, sv', out)"
  shows "(r = Inl (Refused ErrNoShift) \<longleftrightarrow> occ_of acc sv = None) \<and> (occ_of acc sv = None \<longrightarrow> sv' = sv \<and> out = []) \<and>
    (\<forall>k. occ_of k sv' = (if k = acc then None else occ_of k sv) \<and> occ_of k (PurgeAccount acc sv) = occ_of k sv') \<and>
    (\<forall>oc. occ_of acc sv = Some oc \<longrightarrow>
      map fst out = connsByAccount mb acc \<and> (\<forall>f \<in> snd ` set out. \<exists>v. f = FOver v \<and> ov_cause v = CauseLeft) \<and>
      (if MinShiftSeconds \<le> Elapsed oc now \<and> uuid (oc_account oc) \<noteq> None \<and> uuid (oc_shift oc) \<noteq> None \<and> length (sv_saves sv) < savesBuffer
       then \<exists>s. sv_saves sv' = sv_saves sv @ [s] \<and> sh_cause s = CauseLeft \<and> sh_salary s = p_salary (oc_state oc) \<and> sh_seconds s = Elapsed oc now \<and>
         Some (sh_account s) = uuid (oc_account oc) \<and> Some (sh_id s) = uuid (oc_shift oc)
       else sv_saves sv' = sv_saves sv)) \<and>
    sv_saves (PurgeAccount acc sv) = sv_saves sv \<and> PurgeAccount acc (PurgeAccount acc sv) = PurgeAccount acc sv \<and>
    sv_plan sv' = sv_plan sv \<and> sv_plan (PurgeAccount acc sv) = sv_plan sv"
proof -
  have purge: "sv_saves (PurgeAccount acc sv) = sv_saves sv" "sv_plan (PurgeAccount acc sv) = sv_plan sv"
    by (simp_all add: PurgeAccount_def Let_def split: option.split)
  have twice: "PurgeAccount acc (PurgeAccount acc sv) = PurgeAccount acc sv"
  proof (rule purge_again)
    show "occ_of acc (PurgeAccount acc sv) = None" by (simp add: purge_occ)
    show "\<not> Empty w" if "sv_office (PurgeAccount acc sv) = Some w" for w
      using that by (auto simp: PurgeAccount_def Let_def split: option.splits if_splits)
  qed
  show ?thesis
  proof (cases "occ_of acc sv")
    case None
    then have "r = Inl (Refused ErrNoShift)" "sv' = sv" "out = []"
      using assms(2) by (auto simp: LeaveShift_def occ_of_def Leave_def split: option.splits)
    then show ?thesis using None purge twice by (auto simp: purge_occ)
  next
    case (Some oc)
    then obtain w where w: "sv_office sv = Some w" "lookup_occ acc w = Some oc" by (auto simp: occ_of_def split: option.splits)
    let ?oc = "end_shift CauseLeft oc"
    have lv: "Leave acc w = (Some ?oc, del_occ acc w)" using w(2) by (simp add: Leave_def)
    have e: "r = Inr ()" "sv' = (finish uuid now ?oc sv)\<lparr>sv_office := if Empty (del_occ acc w) then None else Some (del_occ acc w)\<rparr>" "out = over_to mb ?oc now acc"
      using assms(2) w(1) by (auto simp: LeaveShift_def lv)
    have o: "occ_of k sv' = (if k = acc then None else occ_of k sv)" for k
      using occ_of_dropped [OF w(1), where k = k and ?sv1.0 = "finish uuid now ?oc sv" and acc = acc, unfolded lv snd_conv] unfolding e(2) .
    have p: "sv_plan sv' = sv_plan sv" using same_room_fields [OF finish_room [of sv uuid now ?oc]] by (simp add: e(2))
    have out: "map fst out = connsByAccount mb acc" "\<forall>f \<in> snd ` set out. \<exists>v. f = FOver v \<and> ov_cause v = CauseLeft"
      by (auto simp: e(3) over_to_def overFrame_def end_shift_def comp_def)
    have f: "oc_account ?oc = oc_account oc" "oc_shift ?oc = oc_shift oc" "oc_cause ?oc = CauseLeft" "p_salary (oc_state ?oc) = p_salary (oc_state oc)"
      "Elapsed ?oc now = Elapsed oc now" by (simp_all add: end_shift_def Elapsed_def)
    have "if MinShiftSeconds \<le> Elapsed oc now \<and> uuid (oc_account oc) \<noteq> None \<and> uuid (oc_shift oc) \<noteq> None \<and> length (sv_saves sv) < savesBuffer
       then \<exists>s. sv_saves sv' = sv_saves sv @ [s] \<and> sh_cause s = CauseLeft \<and> sh_salary s = p_salary (oc_state oc) \<and> sh_seconds s = Elapsed oc now \<and>
         Some (sh_account s) = uuid (oc_account oc) \<and> Some (sh_id s) = uuid (oc_shift oc)
       else sv_saves sv' = sv_saves sv"
      by (auto simp: e(2) finish_def Let_def f split: option.split)
    then show ?thesis using Some e(1) o p out purge twice by (simp add: purge_occ)
  qed
qed

theorem walking_out_records_and_being_forgotten_does_not_witness:
  "\<exists>r sv' out. LeaveShift Some (Some [(''ann'', ''c1''), (''bob'', ''c2'')]) (morning + 10000000000) ''ann'' demo_working = (r, sv', out) \<and>
     map fst out = [''c1''] \<and> occ_of ''ann'' sv' = None \<and> PurgeAccount ''ann'' (PurgeAccount ''ann'' demo_working) = PurgeAccount ''ann'' demo_working"
proof -
  obtain r sv' out where l: "LeaveShift Some (Some [(''ann'', ''c1''), (''bob'', ''c2'')]) (morning + 10000000000) ''ann'' demo_working = (r, sv', out)"
    by (metis prod_cases3)
  obtain w oc where w: "sv_office demo_working = Some w" "lookup_occ ''ann'' w = Some oc" using demo_working_office by blast
  then have "\<forall>w. sv_office demo_working = Some w \<longrightarrow> \<not> Empty w" by (auto simp: Empty_def lookup_occ_def)
  from walking_out_records_and_being_forgotten_does_not [OF this l] l w show ?thesis
    by (auto simp: occ_of_def connsByAccount_def)
qed

section \<open>The queue reaches the table\<close>

lemma insert_shift_rows:
  assumes "sh_account s \<in> set (db_accounts db)" and "sh_id s \<notin> sh_id ` fr_shift ` set (db_shifts db)"
  shows "map fr_shift (db_shifts (writeShift up t s db)) = map fr_shift (db_shifts db) @ (if up then [s] else []) \<and>
    db_accounts (writeShift up t s db) = db_accounts db \<and> db_layouts (writeShift up t s db) = db_layouts db"
  using assms by (auto simp: writeShift_def InsertShift_def)

lemma drain_rows:
  assumes "\<forall>s \<in> set ss. sh_account s \<in> set (db_accounts db)" and "distinct (map sh_id (map fr_shift (db_shifts db) @ ss))"
  shows "let db' = fold (\<lambda>(k, s). writeShift (up k) (clk k) s) (enumerate n ss) db in
    map fr_shift (db_shifts db') = map fr_shift (db_shifts db) @ map snd (filter (up \<circ> fst) (enumerate n ss)) \<and> db_layouts db' = db_layouts db"
  using assms
proof (induction ss arbitrary: n db)
  case (Cons s ss)
  have i: "sh_id s \<notin> sh_id ` fr_shift ` set (db_shifts db)" using Cons.prems(2) by auto
  note w = insert_shift_rows [OF _ i, of "up n" "clk n"]
  have a: "sh_account s \<in> set (db_accounts db)" using Cons.prems(1) by simp
  let ?db = "writeShift (up n) (clk n) s db"
  have "distinct (map sh_id (map fr_shift (db_shifts ?db) @ ss))" using w [OF a] Cons.prems(2) by auto
  with Cons.IH [of ?db "Suc n"] w [OF a] Cons.prems(1) show ?case by (simp add: Let_def)
qed simp

text \<open>C34:
  Nothing that was queued is lost on the way to the database, except what the database itself refuses: the
  drain on shutdown writes the whole queue in order, each shift once, a statement that fails costs its own
  shift and no other, and a shift that was written is among the account's own when his list is read.
\<close>

theorem queued_shifts_reach_the_table:
  assumes "\<forall>s \<in> set (sv_saves sv). sh_account s \<in> set (db_accounts db)" and "distinct (map sh_id (map fr_shift (db_shifts db) @ sv_saves sv))"
    and "drain_saves up clk sv db = (sv', db')"
  shows "sv_saves sv' = [] \<and> map fr_shift (db_shifts db') = map fr_shift (db_shifts db) @ map snd (filter (up \<circ> fst) (enumerate 0 (sv_saves sv))) \<and>
    db_layouts db' = db_layouts db \<and>
    (\<forall>k < length (sv_saves sv). up k \<longrightarrow> sv_saves sv ! k \<in> fr_shift ` set (db_shifts db') \<and>
      (\<forall>n. length (db_shifts db') \<le> n \<longrightarrow> (\<forall>r \<in> set (own_shifts (sh_account (sv_saves sv ! k)) db'). r \<in> set (RecentShifts (sh_account (sv_saves sv ! k)) n db'))))"
proof -
  have d: "sv' = sv\<lparr>sv_saves := []\<rparr>" "db' = fold (\<lambda>(k, s). writeShift (up k) (clk k) s) (enumerate 0 (sv_saves sv)) db"
    using assms(3) by (simp_all add: drain_saves_def)
  have rows: "map fr_shift (db_shifts db') = map fr_shift (db_shifts db) @ map snd (filter (up \<circ> fst) (enumerate 0 (sv_saves sv)))" "db_layouts db' = db_layouts db"
    using drain_rows [OF assms(1,2), of up clk 0] by (simp_all add: d(2) Let_def)
  have "sv_saves sv ! k \<in> fr_shift ` set (db_shifts db')" if "k < length (sv_saves sv)" "up k" for k
  proof -
    have "(k, sv_saves sv ! k) \<in> set (filter (up \<circ> fst) (enumerate 0 (sv_saves sv)))" using that by (simp add: in_set_enumerate_eq)
    then have "sv_saves sv ! k \<in> set (map fr_shift (db_shifts db'))" unfolding rows(1) by force
    then show ?thesis by simp
  qed
  moreover have "r \<in> set (RecentShifts acc n db')" if "length (db_shifts db') \<le> n" "r \<in> set (own_shifts acc db')" for acc n r
  proof -
    have "length (own_shifts acc db') \<le> n" using that(1) length_filter_le [of _ "db_shifts db'"] unfolding own_shifts_def by (rule order_trans [rotated])
    then show ?thesis using that(2) by (simp add: RecentShifts_def)
  qed
  ultimately show ?thesis using d(1) rows by auto
qed

definition demo_queue :: service where
  "demo_queue = demo_boot\<lparr>sv_saves := [\<lparr>sh_id = ''s1'', sh_account = ''ann'', sh_cause = CauseLeft, sh_salary = 5, sh_seconds = 10\<rparr>,
     \<lparr>sh_id = ''s2'', sh_account = ''ann'', sh_cause = CauseLeft, sh_salary = 7, sh_seconds = 20\<rparr>]\<rparr>"

theorem queued_shifts_reach_the_table_witness:
  "\<exists>sv' db'. drain_saves (\<lambda>k. k = 1) (\<lambda>_. 0) demo_queue empty_db = (sv', db') \<and> sv_saves sv' = [] \<and> map (sh_id \<circ> fr_shift) (db_shifts db') = [''s2'']"
proof -
  obtain sv' db' where d: "drain_saves (\<lambda>k. k = 1) (\<lambda>_. 0) demo_queue empty_db = (sv', db')" by fastforce
  have a: "\<forall>s \<in> set (sv_saves demo_queue). sh_account s \<in> set (db_accounts empty_db)"
    "distinct (map sh_id (map fr_shift (db_shifts empty_db) @ sv_saves demo_queue))" by (simp_all add: demo_queue_def empty_db_def)
  from queued_shifts_reach_the_table [OF a d] have t: "sv_saves sv' = []"
    "map fr_shift (db_shifts db') = map fr_shift (db_shifts empty_db) @ map snd (filter ((\<lambda>k. k = 1) \<circ> fst) (enumerate 0 (sv_saves demo_queue)))" by blast+
  have "map (sh_id \<circ> fr_shift) (db_shifts db') = map sh_id (map fr_shift (db_shifts db'))" by simp
  also have "\<dots> = [''s2'']" unfolding t(2) by (simp add: demo_queue_def empty_db_def)
  finally show ?thesis using d t(1) by (intro exI conjI) assumption+
qed

end
