(* ===== verification/HttpFintech.thy ===== *)
theory HttpFintech
  imports FintechRun HttpAdmin HttpKhimki
begin

text \<open>
  The routes of the office (\<^verbatim>\<open>internal/httpapi/gamefintech.go\<close>), behind \<^verbatim>\<open>requireAuth\<close>, the admin
  ones behind \<^verbatim>\<open>requireAdmin\<close>. \<open>wired\<close> says whether the game is configured, \<open>viewer\<close> is the account the
  middleware put in the context, a body that does not decode is \<open>None\<close>. The rest of the catalogue
  (\<^verbatim>\<open>BuildConfig\<close>) and \<^verbatim>\<open>net/url\<close> are parameters.
\<close>

section \<open>The catalogue\<close>

definition unavailable :: "'b response" where "unavailable = Failure 503 ''game_unavailable''"

definition unauthorized :: "'b response" where "unauthorized = Failure 401 ''unauthorized''"

definition internal_error :: "'b response" where "internal_error = Failure 500 ''internal''"

definition handle_fintech_config :: "(layout \<Rightarrow> 'c) \<Rightarrow> bool \<Rightarrow> service \<Rightarrow> 'c response" where
  "handle_fintech_config build wired sv = (if \<not> wired then unavailable else Success 200 (build (p_layout (sv_plan sv))))"

section \<open>The admin section\<close>

record admin_office =
  ao_w :: f64
  ao_h :: f64
  ao_player_radius :: f64
  ao_boss_radius :: f64
  ao_min_gap :: f64

record admin_kind =
  ak_key :: string
  ak_label :: runes

record admin_spot =
  as_x :: f64
  as_y :: f64
  as_what :: string

record admin_layout =
  al_office :: admin_office
  al_layout :: layout
  al_source :: string
  al_installed_at :: int
  al_occupants :: nat
  al_kinds :: "admin_kind list"
  al_spots :: "admin_spot list"
  al_ended :: "nat option"

definition fintechAdminKinds :: "admin_kind list" where
  "fintechAdminKinds =
     [\<lparr>ak_key = KindDesk, ak_label = [0x441, 0x442, 0x43e, 0x43b]\<rparr>,
      \<lparr>ak_key = KindFlower, ak_label = [0x446, 0x432, 0x435, 0x442, 0x43e, 0x43a]\<rparr>,
      \<lparr>ak_key = KindTree, ak_label = [0x444, 0x438, 0x43a, 0x443, 0x441]\<rparr>]"

definition spot_at :: "string \<Rightarrow> vec2 \<Rightarrow> admin_spot" where
  "spot_at what p = \<lparr>as_x = vx p, as_y = vy p, as_what = what\<rparr>"

definition fintechAdminSpots :: "admin_spot list" where
  "fintechAdminSpots =
     [spot_at ''player'' PlayerSpawn, spot_at ''boss'' BossSpawn, spot_at ''chaser'' ChaserSpawn] @
     map (spot_at ''npc'') npc_spawns @ map (spot_at ''bottle'') BottleSpots @ map (spot_at ''hookah'') HookahSpots"

definition fintechAdminPayload :: "floor_view \<Rightarrow> nat option \<Rightarrow> admin_layout" where
  "fintechAdminPayload f ended =
     \<lparr>al_office = \<lparr>ao_w = OfficeW, ao_h = OfficeH, ao_player_radius = fl PlayerRadius, ao_boss_radius = fl BossRadius, ao_min_gap = MinGap\<rparr>,
      al_layout = fw_layout f, al_source = fw_source f, al_installed_at = fw_at f, al_occupants = fw_occupants f,
      al_kinds = fintechAdminKinds, al_spots = fintechAdminSpots, al_ended = ended\<rparr>"

definition handle_fintech_admin_layout :: "bool \<Rightarrow> service \<Rightarrow> admin_layout response" where
  "handle_fintech_admin_layout wired sv = (if \<not> wired then unavailable else Success 200 (fintechAdminPayload (Floor sv) None))"

text \<open>The outcome of a change: the answer, the service, the database and the frames it sent.\<close>

type_synonym 'b change = "'b response \<times> service \<times> fin_db \<times> outbound"

definition handle_fintech_admin_reroll :: "bool \<Rightarrow> account option \<Rightarrow> (service \<Rightarrow> fin_db \<Rightarrow> (service_error + nat) \<times> service \<times> fin_db \<times> outbound)
    \<Rightarrow> service \<Rightarrow> fin_db \<Rightarrow> admin_layout change" where
  "handle_fintech_admin_reroll wired viewer renovate sv db =
     (if \<not> wired then (unavailable, sv, db, [])
      else if viewer = None then (unauthorized, sv, db, [])
      else case renovate sv db of
        (Inl _, sv, db, out) \<Rightarrow> (internal_error, sv, db, out)
      | (Inr n, sv, db, out) \<Rightarrow> (Success 200 (fintechAdminPayload (Floor sv) (Some n)), sv, db, out))"

definition handle_fintech_admin_proposal :: "bool \<Rightarrow> platform \<Rightarrow> 64 word \<Rightarrow> layout response" where
  "handle_fintech_admin_proposal wired pf b =
     (if \<not> wired then unavailable else case Propose pf b of Inl _ \<Rightarrow> internal_error | Inr l \<Rightarrow> Success 200 l)"

definition handle_fintech_admin_check :: "bool \<Rightarrow> layout option \<Rightarrow> issue list response" where
  "handle_fintech_admin_check wired payload =
     (if \<not> wired then unavailable
      else case payload of None \<Rightarrow> Failure 400 ''bad_request'' | Some l \<Rightarrow> Success 200 (ValidateLayout l))"

datatype saved = Refusal "issue list" | Installed admin_layout

definition handle_fintech_admin_save :: "platform \<Rightarrow> (string \<Rightarrow> string option) \<Rightarrow> members \<Rightarrow> bool \<Rightarrow> string \<Rightarrow> int \<Rightarrow> int \<Rightarrow> int
    \<Rightarrow> bool \<Rightarrow> account option \<Rightarrow> layout option \<Rightarrow> service \<Rightarrow> fin_db \<Rightarrow> saved change" where
  "handle_fintech_admin_save pf uuid mb up nid clk now wall wired viewer payload sv db =
     (if \<not> wired then (unavailable, sv, db, [])
      else if viewer = None then (unauthorized, sv, db, [])
      else case payload of
        None \<Rightarrow> (Failure 400 ''bad_request'', sv, db, [])
      | Some l \<Rightarrow> (case Install pf uuid mb up nid clk now wall l SourceEdited sv db of
          (Inl (LayoutInvalid issues), sv, db, out) \<Rightarrow> (Success 422 (Refusal issues), sv, db, out)
        | (Inl _, sv, db, out) \<Rightarrow> (internal_error, sv, db, out)
        | (Inr n, sv, db, out) \<Rightarrow> (Success 200 (Installed (fintechAdminPayload (Floor sv) (Some n))), sv, db, out)))"

section \<open>A shift\<close>

definition Room :: string where "Room = ''fintech''"

record fintech_shift =
  fs_shift :: string
  fs_room :: string
  fs_persona :: int
  fs_office :: string

definition shift_view :: "working \<Rightarrow> fintech_shift" where
  "shift_view w = \<lparr>fs_shift = wk_shift w, fs_room = Room, fs_persona = wk_persona w, fs_office = wk_office w\<rparr>"

definition start_failure :: "service_error \<Rightarrow> 'b response" where
  "start_failure e =
     (if e = service_error.Refused ErrShiftInProgress then Failure 409 ''shift_in_progress''
      else if e = service_error.Refused ErrOfficeFull then Failure 503 ''office_full''
      else internal_error)"

definition handle_fintech_start :: "(string \<Rightarrow> string) \<Rightarrow> (unit + string) option \<Rightarrow> string \<Rightarrow> nat option \<Rightarrow> int \<Rightarrow> (nat \<Rightarrow> f64) \<Rightarrow> nat
    \<Rightarrow> bool \<Rightarrow> account option \<Rightarrow> service \<Rightarrow> fintech_shift response \<times> service \<times> nat" where
  "handle_fintech_start pseudonym profile nid draw now u i wired viewer sv =
     (if \<not> wired then (unavailable, sv, i)
      else case viewer of
        None \<Rightarrow> (unauthorized, sv, i)
      | Some acc \<Rightarrow> (case StartShift pseudonym profile nid draw now u i (ac_id acc) sv of
          (Inl e, sv, i) \<Rightarrow> (start_failure e, sv, i)
        | (Inr w, sv, i) \<Rightarrow> (Success 201 (shift_view w), sv, i)))"

definition handle_fintech_current :: "bool \<Rightarrow> account option \<Rightarrow> service \<Rightarrow> fintech_shift response" where
  "handle_fintech_current wired viewer sv =
     (if \<not> wired then unavailable
      else case viewer of
        None \<Rightarrow> unauthorized
      | Some acc \<Rightarrow> (case CurrentShift (ac_id acc) sv of None \<Rightarrow> Failure 404 ''no_shift'' | Some w \<Rightarrow> Success 200 (shift_view w)))"

definition handle_fintech_leave :: "(string \<Rightarrow> string option) \<Rightarrow> members \<Rightarrow> int \<Rightarrow> bool \<Rightarrow> account option \<Rightarrow> service
    \<Rightarrow> unit response \<times> service \<times> outbound" where
  "handle_fintech_leave uuid mb now wired viewer sv =
     (if \<not> wired then (unavailable, sv, [])
      else case viewer of
        None \<Rightarrow> (unauthorized, sv, [])
      | Some acc \<Rightarrow> (case LeaveShift uuid mb now (ac_id acc) sv of
          (Inl e, sv, out) \<Rightarrow> (if e = service_error.Refused ErrNoShift then Failure 404 ''no_shift'' else internal_error, sv, out)
        | (Inr _, sv, out) \<Rightarrow> (Success 204 (), sv, out)))"

section \<open>Lists and boards\<close>

record fintech_shift_row =
  sr_cause :: string
  sr_salary :: f64
  sr_seconds :: f64
  sr_created :: int

record fintech_top_row =
  tr_name :: runes
  tr_cause :: string
  tr_salary :: f64
  tr_seconds :: f64

definition shift_row_of :: "shift_row \<Rightarrow> fintech_shift_row" where
  "shift_row_of r = \<lparr>sr_cause = sh_cause (fr_shift r), sr_salary = sh_salary (fr_shift r), sr_seconds = sh_seconds (fr_shift r),
     sr_created = fr_created r\<rparr>"

text \<open>The query parameter; the bound is the service's.\<close>

definition fintechLimit :: "runes \<Rightarrow> int" where "fintechLimit s = limit_param s"

definition service_RecentShifts :: "(string \<Rightarrow> string option) \<Rightarrow> bool \<Rightarrow> string \<Rightarrow> int \<Rightarrow> fin_db \<Rightarrow> service_error + shift_row list" where
  "service_RecentShifts uuid up acc n db =
     (case uuid acc of None \<Rightarrow> Inl (service_error.Refused ErrNoShift)
      | Some a \<Rightarrow> if \<not> up then Inl StoreFailed else Inr (RecentShifts a (nat (clampLimit n)) db))"

definition service_TopShifts :: "metric \<Rightarrow> bool \<Rightarrow> int \<Rightarrow> int \<Rightarrow> fin_db \<Rightarrow> service_error + shift_row list" where
  "service_TopShifts m up now n db =
     (if \<not> up then Inl StoreFailed else Inr (topShiftsBy m (boardSince now) (nat (clampLimit n)) db))"

definition handle_fintech_my_shifts :: "(string \<Rightarrow> string option) \<Rightarrow> bool \<Rightarrow> runes \<Rightarrow> bool \<Rightarrow> account option \<Rightarrow> fin_db
    \<Rightarrow> fintech_shift_row list response" where
  "handle_fintech_my_shifts uuid up limit wired viewer db =
     (if \<not> wired then unavailable
      else case viewer of
        None \<Rightarrow> unauthorized
      | Some acc \<Rightarrow> (case service_RecentShifts uuid up (ac_id acc) (fintechLimit limit) db of
          Inl _ \<Rightarrow> internal_error
        | Inr rows \<Rightarrow> Success 200 (map shift_row_of rows)))"

text \<open>\<open>people\<close> is the account service, if it is wired: the account behind an id, when it can be read.\<close>

definition fintechBoard :: "(string \<Rightarrow> account option) option \<Rightarrow> shift_row list \<Rightarrow> fintech_top_row list" where
  "fintechBoard people rows =
     map (\<lambda>r. \<lparr>tr_name = (case people of None \<Rightarrow> []
          | Some get \<Rightarrow> (case get (sh_account (fr_shift r)) of None \<Rightarrow> [] | Some a \<Rightarrow> display_name a)),
        tr_cause = sh_cause (fr_shift r), tr_salary = sh_salary (fr_shift r), tr_seconds = sh_seconds (fr_shift r)\<rparr>) rows"

definition handle_fintech_top_shifts :: "(string \<Rightarrow> account option) option \<Rightarrow> bool \<Rightarrow> bool \<Rightarrow> int \<Rightarrow> int \<Rightarrow> runes \<Rightarrow> bool \<Rightarrow> fin_db
    \<Rightarrow> (fintech_top_row list \<times> fintech_top_row list) response" where
  "handle_fintech_top_shifts people up up' now now' limit wired db =
     (if \<not> wired then unavailable
      else let n = fintechLimit limit in
        case service_TopShifts metricSalary up now n db of
          Inl _ \<Rightarrow> internal_error
        | Inr pays \<Rightarrow> (case service_TopShifts metricSeconds up' now' n db of
            Inl _ \<Rightarrow> internal_error
          | Inr secs \<Rightarrow> Success 200 (fintechBoard people pays, fintechBoard people secs)))"

section \<open>A face\<close>

record url =
  url_scheme :: string
  url_host :: string
  url_text :: string

datatype avatar_answer = Redirect302 string string | NoAvatar "unit response" string

definition handle_fintech_avatar :: "(string \<Rightarrow> url option) \<Rightarrow> bool \<Rightarrow> string \<Rightarrow> service \<Rightarrow> avatar_answer" where
  "handle_fintech_avatar parse wired peer sv =
     (if \<not> wired then NoAvatar unavailable ''''
      else case (case service_AvatarFor peer sv of None \<Rightarrow> None
          | Some target \<Rightarrow> (case parse target of None \<Rightarrow> None
            | Some u \<Rightarrow> if url_scheme u \<noteq> ''https'' \<or> url_host u = '''' then None else Some (url_text u))) of
        None \<Rightarrow> NoAvatar (Failure 404 ''no_avatar'') ''no-store''
      | Some target \<Rightarrow> Redirect302 target ''private, max-age=1800'')"

section \<open>The claims\<close>

lemma join_result:
  "Join acc nid ps av persona now u i w =
     (if lookup_occ acc w \<noteq> None then Inl ErrShiftInProgress
      else if 3 \<le> Occupants w then Inl ErrOfficeFull
      else Inr (set_occ acc (new_occupant acc nid ps av persona (fst (spawnPoint w u i)) now (of_tick w)) w, snd (spawnPoint w u i)))"
  by (simp add: Join_def Occupants_def MaxOccupants_def split: prod.split)

text \<open>C40:
  Clocking in answers what is the case, and the rest of the surface agrees with it. In every reachable state:
  409 exactly when the account is working already, 503 exactly when three others are, and nothing changes;
  otherwise 201, and the shift that is answered is the one a reload, a socket's hello and the administrator's
  count then see, on the very floor the catalogue serves - its content hash is the one the client compares.
\<close>

theorem clocking_in_agrees_with_the_rest:
  assumes "service_reach pf uuid m raw (sv, db)"
    and "handle_fintech_start ps profile nid draw now u i True (Some acc) sv = (r, sv', j)"
  shows "(r = Failure 409 ''shift_in_progress'' \<longleftrightarrow> CurrentShift (ac_id acc) sv \<noteq> None) \<and>
    (r = Failure 503 ''office_full'' \<longleftrightarrow> CurrentShift (ac_id acc) sv = None \<and> fw_occupants (Floor sv) = 3) \<and>
    (\<forall>st e. r = Failure st e \<longrightarrow> sv' = sv \<and> ((st, e) = (409, ''shift_in_progress'') \<or> (st, e) = (503, ''office_full''))) \<and>
    (\<forall>st s. r = Success st s \<longrightarrow> st = 201 \<and> fs_shift s = nid \<and> fs_room s = Room \<and>
      handle_fintech_current True (Some acc) sv' = Success 200 s \<and>
      (\<exists>f. hello (ac_id acc) conn sv' = [(conn, FReady f)] \<and> rd_shift f = nid \<and> rd_persona f = fs_persona s) \<and>
      handle_fintech_config l_id True sv' = Success 200 (fs_office s) \<and>
      fw_layout (Floor sv') = fw_layout (Floor sv) \<and> fw_occupants (Floor sv') = fw_occupants (Floor sv) + 1)"
proof -
  have ok: "service_ok sv" using reach_sound [OF assms(1)] by simp
  define w where "w = (case sv_office sv of None \<Rightarrow> NewOffice (sv_plan sv) | Some w \<Rightarrow> w)"
  obtain l where l: "sv_plan sv = NewPlan l" "\<forall>v. sv_office sv = Some v \<longrightarrow> office_ok l v \<and> \<not> Empty v"
    using ok by (auto simp: service_ok_def floor_sound_def)
  have plan: "of_plan w = sv_plan sv" using l by (auto simp: w_def office_ok_def NewOffice_def split: option.split)
  have cur: "CurrentShift (ac_id acc) sv = None \<longleftrightarrow> lookup_occ (ac_id acc) w = None"
    by (auto simp: w_def CurrentShift_def ShiftOf_def lookup_occ_def NewOffice_def split: option.splits)
  have occ: "fw_occupants (Floor sv) = Occupants w" by (auto simp: w_def Floor_def Occupants_def NewOffice_def split: option.splits)
  have le: "Occupants w \<le> 3"
    using l by (auto simp: w_def office_ok_def people_ok_def Occupants_def MaxOccupants_def NewOffice_def split: option.splits)
  have same: "sv\<lparr>sv_office := if Empty w then None else Some w\<rparr> = sv"
  proof (cases "sv_office sv")
    case None
    then show ?thesis by (cases sv) (simp add: w_def Empty_def NewOffice_def)
  next
    case (Some v)
    then show ?thesis using l by (cases sv) (simp add: w_def)
  qed
  note go = assms(2) [unfolded handle_fintech_start_def StartShift_def Let_def w_def [symmetric] join_result]
  consider "lookup_occ (ac_id acc) w \<noteq> None" | "lookup_occ (ac_id acc) w = None" "3 \<le> Occupants w" | "lookup_occ (ac_id acc) w = None" "\<not> 3 \<le> Occupants w"
    by blast
  then show ?thesis
  proof cases
    case 1
    then have "r = Failure 409 ''shift_in_progress''" "sv' = sv" using go same by (auto simp: start_failure_def)
    then show ?thesis using 1 cur by simp
  next
    case 2
    then have "r = Failure 503 ''office_full''" "sv' = sv" using go same by (auto simp: start_failure_def)
    then show ?thesis using 2 cur occ le by simp
  next
    case 3
    define w' where "w' = set_occ (ac_id acc) (new_occupant (ac_id acc) nid (ps (ac_id acc)) (avatar_of profile) (drawPersona draw) (fst (spawnPoint w u i)) now (of_tick w)) w"
    have g: "r = Success 201 (shift_view \<lparr>wk_shift = nid, wk_persona = drawPersona draw, wk_start = 0, wk_office = l_id (p_layout (of_plan w'))\<rparr>)"
      "sv' = sv\<lparr>sv_office := Some w'\<rparr>" using go 3 by (auto simp: w'_def)
    have p: "of_plan w' = sv_plan sv" using plan by (simp add: w'_def set_occ_def)
    have k: "lookup_occ (ac_id acc) w' = Some (new_occupant (ac_id acc) nid (ps (ac_id acc)) (avatar_of profile) (drawPersona draw) (fst (spawnPoint w u i)) now (of_tick w))"
      by (simp add: w'_def lookup_set_occ)
    have n: "Occupants w' = Occupants w + 1"
    proof -
      have "length (AList.update k v os) = length os + 1" if "map_of os k = None" for k and v :: occupant and os using that by (induction os) (auto split: if_splits)
      then show ?thesis using 3(1) by (simp add: w'_def Occupants_def set_occ_def lookup_occ_def)
    qed
    have "\<exists>f. hello (ac_id acc) conn sv' = [(conn, FReady f)] \<and> rd_shift f = nid \<and> rd_persona f = drawPersona draw"
      by (simp add: hello_def CurrentShift_def ShiftOf_def g(2) k p new_occupant_def)
    moreover have "handle_fintech_current True (Some acc) sv' = Success 200 (shift_view \<lparr>wk_shift = nid, wk_persona = drawPersona draw, wk_start = of_tick w, wk_office = l_id (p_layout (sv_plan sv))\<rparr>)"
      by (simp add: handle_fintech_current_def CurrentShift_def ShiftOf_def g(2) k p new_occupant_def)
    ultimately show ?thesis using 3 g p n cur occ
      by (simp add: shift_view_def handle_fintech_config_def Floor_def)
  qed
qed


theorem clocking_in_agrees_with_the_rest_witness:
  "\<exists>s sv' j. handle_fintech_start (\<lambda>a. a) None ''s1'' None morning (draws demo_draws) 0 True (Some ann_actor) demo_boot = (Success 201 s, sv', j) \<and>
     handle_fintech_current True (Some ann_actor) sv' = Success 200 s \<and> handle_fintech_config l_id True sv' = Success 200 (fs_office s)"
proof -
  obtain r sv' j where e: "handle_fintech_start (\<lambda>a. a) None ''s1'' None morning (draws demo_draws) 0 True (Some ann_actor) demo_boot = (r, sv', j)"
    by (metis prod_cases3)
  have "sv_office demo_boot = None" by (simp add: demo_boot_def NewService_def)
  then have n: "CurrentShift (ac_id ann_actor) demo_boot = None" "fw_occupants (Floor demo_boot) = 0" by (simp_all add: CurrentShift_def Floor_def)
  note f = clocking_in_agrees_with_the_rest [OF demo_booted e, where conn = "''c''"]
  show ?thesis
  proof (cases r)
    case (Success st s)
    then show ?thesis using f e by auto
  next
    case (Failure st x)
    from f have "(st, x) = (409, ''shift_in_progress'') \<or> (st, x) = (503, ''office_full'')" using Failure by blast
    with Failure have "r = Failure 409 ''shift_in_progress'' \<or> r = Failure 503 ''office_full''" by simp
    then show ?thesis using f n by simp
  qed
qed

text \<open>
  The face route is no open redirect: whatever the provider stored, the browser is sent only to the picture of
  somebody who is in the office under the handle it asked for, and only if that parses as an absolute https
  address with a host, written back from the parse; the answer may be kept by that browser alone. Everything
  else is a 404 or a 503, and a 404 is never kept.
\<close>

theorem faces_redirect_only_to_https:
  "case handle_fintech_avatar parse wired peer sv of
     Redirect302 target cache \<Rightarrow> wired \<and> cache = ''private, max-age=1800'' \<and>
       (\<exists>w oc u. sv_office sv = Some w \<and> oc \<in> snd ` set (of_occupants w) \<and> oc_pseudonym oc = peer \<and>
         parse (oc_avatar oc) = Some u \<and> url_scheme u = ''https'' \<and> url_host u \<noteq> '''' \<and> target = url_text u)
   | NoAvatar answer cache \<Rightarrow> (wired \<longrightarrow> answer = Failure 404 ''no_avatar'' \<and> cache = ''no-store'') \<and> (\<not> wired \<longrightarrow> answer = unavailable)"
proof (cases "handle_fintech_avatar parse wired peer sv")
  case (Redirect302 target cache)
  then obtain raw u where wired: "wired" and c: "cache = ''private, max-age=1800''" and s: "service_AvatarFor peer sv = Some raw"
    and u: "parse raw = Some u" "url_scheme u = ''https''" "url_host u \<noteq> ''''" "target = url_text u"
    by (auto simp: handle_fintech_avatar_def split: if_splits option.splits)
  from s obtain w where w: "sv_office sv = Some w" "AvatarFor peer w = Some raw" by (auto simp: service_AvatarFor_def split: option.splits)
  then obtain k oc where f: "List.find (\<lambda>(k, oc). oc_pseudonym oc = peer \<and> oc_avatar oc \<noteq> '''') (in_order w) = Some (k, oc)" "oc_avatar oc = raw"
    by (auto simp: AvatarFor_def)
  then have "oc_pseudonym oc = peer" "(k, oc) \<in> set (in_order w)" by (auto simp: find_Some_iff) (metis nth_mem)
  then have "oc \<in> snd ` set (of_occupants w)" by (auto simp: in_order_set lookup_occ_def dest: map_of_SomeD intro: image_eqI [where x = "(k, oc)"])
  then show ?thesis using Redirect302 wired c u w f \<open>oc_pseudonym oc = peer\<close> by auto
next
  case (NoAvatar answer cache)
  then show ?thesis by (auto simp: handle_fintech_avatar_def split: if_splits option.splits)
qed


theorem faces_redirect_only_to_https_witness:
  "handle_fintech_avatar (\<lambda>t. None) True ''who'' demo_boot = NoAvatar (Failure 404 ''no_avatar'') ''no-store''"
proof (cases "handle_fintech_avatar (\<lambda>t. None) True ''who'' demo_boot")
  case (Redirect302 target cache)
  then show ?thesis using faces_redirect_only_to_https [where parse = "\<lambda>t. None" and wired = True and peer = "''who''" and sv = demo_boot] by simp
next
  case (NoAvatar answer cache)
  then show ?thesis using faces_redirect_only_to_https [where parse = "\<lambda>t. None" and wired = True and peer = "''who''" and sv = demo_boot] by simp
qed

end
