(* ===== verification/Spec2Isabelle.thy ===== *)
theory Spec2Isabelle
  imports Revalidate HttpAdmin HttpKhimki FintechVerdict HttpFintech
begin

text \<open>
  A verification development for psycho-space, the Go server of a private community site:
  login through VK or Yandex with approval by an administrator, a wishlist, a handful of games,
  and one WebSocket per open page served by a hub.

  \<^bold>\<open>The program's parts.\<close> \<^verbatim>\<open>cmd/psycho-space\<close> builds everything and hands it to
  \<^verbatim>\<open>internal/httpapi\<close>, whose routes call the packages below. Who a request is comes from
  \<^verbatim>\<open>internal/session\<close> (a hashed cookie token in one table) and
  \<^verbatim>\<open>internal/account\<close> (accounts whose personal data are sealed by
  \<^verbatim>\<open>internal/crypto\<close>). \<^verbatim>\<open>internal/realtime\<close> owns the sockets: one goroutine, the
  hub, keeps who is present in which room, every connection has a mailbox, a write pump and a read
  pump, and a ticker asks the session package which of the live sockets must go. The wishlist and
  the games are services over the same database.

  \<^bold>\<open>Which theory models what.\<close>
  \<^item> \<open>Prelude\<close>: Go strings as lists of runes and what the program calls of
    \<^verbatim>\<open>strings\<close>, \<^verbatim>\<open>unicode\<close> and \<^verbatim>\<open>utf8\<close>; lemma collections.
  \<^item> \<open>Database\<close>: the tables as lists of rows in one record \<open>store\<close>, the error values, and
    \<open>op\<close>, a statement as a function of the store that may fail. What the database or the
    operating system supplies (fresh ids, the clock, whether a statement fails) is a stream of
    the store.
  \<^item> \<open>Hub\<close>, \<open>HubSpec\<close>, \<open>Conn\<close>, \<open>Realtime\<close>, \<open>Revalidate\<close>
    (\<^verbatim>\<open>internal/realtime\<close>): every command of the hub's loop as \<open>hub_step\<close> over the
    four structures \<^verbatim>\<open>Run\<close> keeps; the abstract state (a partial map from sinks to room and
    overflow count) it refines; the connection's mailbox and pumps; the composition of hub and
    connections; the periodic sweep.
  \<^item> \<open>Session\<close>, \<open>Account\<close>, \<open>Settings\<close>: the packages of these names with
    their SQL.
  \<^item> \<open>HttpAuth\<close>, \<open>HttpAdmin\<close>, \<open>Wishlist\<close>, \<open>HttpWishlist\<close>: guards
    and OAuth callback, administration, wishlist service, repository and routes.
  \<^item> \<open>KhimkiContent\<close>, \<open>KhimkiRules\<close>, \<open>KhimkiText\<close>, \<open>KhimkiJudge\<close>,
    \<open>KhimkiRuns\<close>, \<open>GameAssets\<close>, \<open>HttpKhimki\<close> (\<^verbatim>\<open>internal/gamekhimki\<close>,
    \<^verbatim>\<open>internal/gameassets\<close>): the whole script as data, the rules of a turn, the repair and
    normalisation of text, one judged turn, recorded runs and boards, stored art, routes.
  \<^item> \<open>Float64\<close>: the arithmetic of \<^verbatim>\<open>float64\<close> on the rationals. \<open>fl\<close> rounds
    to 53 bits, ties to even, and every operation of the code is one rounding; constant
    expressions are exact until they are used, as in Go. Only finite values occur in the model
    (JSON carries no others), the exponent is unbounded and there is one zero.
  \<^item> \<open>FintechFloor\<close>, \<open>FintechNav\<close>, \<open>FintechLayout\<close>, \<open>FintechSim\<close>,
    \<open>FintechMen\<close> (\<^verbatim>\<open>layout.go\<close>, \<^verbatim>\<open>navigate.go\<close>, \<^verbatim>\<open>validate.go\<close>,
    \<^verbatim>\<open>sim.go\<close>, \<^verbatim>\<open>boss.go\<close>, \<^verbatim>\<open>chaser.go\<close>, \<^verbatim>\<open>npc.go\<close> of
    \<^verbatim>\<open>internal/gamefintech\<close>): geometry and the resolver, the breadth-first search, the
    validator of a floor, one step of a player, the men who walk the office.
  \<^item> \<open>FintechLines\<close>, \<open>FintechOffice\<close>, \<open>FintechTick\<close> (\<^verbatim>\<open>content.go\<close>,
    \<^verbatim>\<open>office.go\<close>): what is said and when; the shared office with its occupants, props and
    trail; one tick of it and the verbs. \<open>FintechOfficeInv\<close>, \<open>FintechProps\<close>,
    \<open>FintechReach\<close>, \<open>FintechShift\<close> and \<open>FintechVerdict\<close> hold its invariant, the
    reachable offices and what a tick does to a queue, a budget and a shift.
  \<^item> \<open>FintechOpen\<close>, \<open>FintechGen\<close>, \<open>FintechDay\<close> (\<^verbatim>\<open>validate.go\<close>,
    \<^verbatim>\<open>generate.go\<close>, \<^verbatim>\<open>renovation.go\<close>): why furniture that keeps its distance never divides a
    floor; the generator over a stream of draws; the day, its seed and the floor it stands for.
  \<^item> \<open>FintechWire\<close>, \<open>FintechStore\<close>, \<open>FintechService\<close>, \<open>FintechRun\<close>,
    \<open>HttpFintech\<close> (\<^verbatim>\<open>message.go\<close>, \<^verbatim>\<open>postgres_repository.go\<close>, \<^verbatim>\<open>service.go\<close>,
    \<^verbatim>\<open>internal/httpapi/gamefintech.go\<close>): the frames, the two tables, the service with its
    mutex-guarded state as one record and every method as a function of it, the histories of the
    service as the inductive relation \<open>service_reach\<close> and what holds along them, the routes.

  \<^bold>\<open>What the lemmas show.\<close> The hub: an invariant of its structures kept by every command,
  a refinement of the abstract map, quotas, eviction of slow consumers, and that a mailbox is
  never written after it closed. Sessions and accounts: what a token resolves to, that revocation
  is final, that sealed data round-trips, that a forgotten account carries none. Routes: which
  requests are refused, what an accepted one changes and that nothing else changes. Wishlist: a
  table invariant under every sequence of operations. Khimki: that whatever the model answers, a
  turn that comes back is legal, and that the run of a model that never answers usefully still
  ends. Fintech: the search finds shortest ways, the validator decides playability, on a valid
  floor one pass of the resolver suffices, and what the rules of money and movement keep; an office
  stays well formed through anything its callers do, a command runs once and in order, nobody outruns
  the clock; what the generator draws is playable, and in every history of the service the floor in
  force is one the validator accepts, nobody works on another, rebuilding happens once a day and tells
  everybody, and what is queued is written once. The properties are the theorems under a text that
  names a claim.

  \<^bold>\<open>Bounds and fuel.\<close> Every function is total; no fuel is used. Loops whose end is not
  structural (the blank-line loop of \<open>normalizeVerse\<close>, the searches of the floor) carry a
  termination proof. Integers are HOL integers where the code's values are bounded by a limit stated next to them, and explicit
  range checks are kept (\<open>atoi\<close>).

  \<^bold>\<open>Parameters.\<close> Code that is not in the repository is an argument: AES-GCM and HMAC
  (\<open>vault\<close>, \<open>hmac\<close>, with the law that what was sealed opens), the OAuth providers, the
  language model, \<^verbatim>\<open>math.Sin\<close>, \<^verbatim>\<open>Cos\<close> and \<^verbatim>\<open>Atan2\<close>, random sources, \<^verbatim>\<open>encoding/json\<close> where a body is decoded, the WebSocket library, the rate
  limiter.

  \<^bold>\<open>Not modelled.\<close> \<open>PROJECT.json\<close> lists every part. Wiring and processes
  (\<^verbatim>\<open>cmd\<close>), configuration from the environment, logging, metrics and static files are I/O;
  the browser client is TypeScript. Of the office game, the catalogue of labels and numbers sent to the
  browser (\<^verbatim>\<open>BuildConfig\<close>) is not modelled: it restates constants that are. The games
  \<^verbatim>\<open>gamevanyadum\<close> and \<^verbatim>\<open>gamevanyagotchi\<close> with their routes are not modelled; the office game
  has what they are made of (a shared world, a tick, a wire, a store).
\<close>

end
